(* ===== verification/Prelude.thy ===== *)
theory Prelude
  imports Main "HOL-Library.Word" "HOL-Library.AList" "HOL-Library.Multiset"
begin

text \<open>
  Shared vocabulary of the development: the machine types, the parts of the Rust standard
  library the sources use (vectors, iterators, \<open>HashMap\<close>, \<open>BTreeMap\<close>), and the generic
  lemmas the components rely on.

  Conventions.
  \<^item> \<open>Instant\<close> and \<open>Duration\<close> are natural numbers (nanoseconds; the origin of \<open>Instant\<close> is
    arbitrary). An operation that reads \<open>Instant::now()\<close> takes the reading as an argument;
    readings within one call of an operation are one clock value.
  \<^item> A \<open>HashMap\<close> is an association list with distinct keys. Its order stands for the
    iteration order, which Rust leaves unspecified: no property of the development
    depends on it.
  \<^item> A \<open>BTreeMap\<close> is an association list that is strictly sorted by its keys, which is the
    order its iterators use.
\<close>

unbundle bit_operations_syntax

type_synonym u8 = "8 word"
type_synonym u16 = "16 word"
type_synonym u32 = "32 word"
type_synonym u64 = "64 word"
type_synonym usize = "64 word"
type_synonym U256 = "256 word"
type_synonym bytes = "u8 list"
type_synonym Instant = nat
type_synonym Duration = nat

type_synonym ('k, 'v) hashmap = "('k \<times> 'v) list"
type_synonym ('k, 'v) btreemap = "('k \<times> 'v) list"

text \<open>\<open>Result::and_then\<close>, which is also what the operator \<open>?\<close> does.\<close>

fun and_then :: "'e + 'a \<Rightarrow> ('a \<Rightarrow> 'e + 'b) \<Rightarrow> 'e + 'b" where
  "and_then (Inl e) f = Inl e"
| "and_then (Inr x) f = f x"

lemma and_then_Inr_iff: "and_then r f = Inr y \<longleftrightarrow> (\<exists>x. r = Inr x \<and> f x = Inr y)"
  by (cases r) auto

lemma and_then_Inl_iff: "and_then r f = Inl e \<longleftrightarrow> r = Inl e \<or> (\<exists>x. r = Inr x \<and> f x = Inl e)"
  by (cases r) auto

lemma and_then_cong [fundef_cong]:
  "r = r' \<Longrightarrow> (\<And>x. r' = Inr x \<Longrightarrow> f x = g x) \<Longrightarrow> and_then r f = and_then r' g"
  by (cases r') auto

named_theorems hashmap_simps
named_theorems vec_simps


section \<open>Vectors and iterators\<close>

text \<open>\<open>Iterator::position\<close>: the index of the first element that satisfies the predicate.\<close>

fun position :: "('a \<Rightarrow> bool) \<Rightarrow> 'a list \<Rightarrow> nat option" where
  "position p [] = None"
| "position p (x # xs) = (if p x then Some 0 else map_option Suc (position p xs))"

text \<open>\<open>Iterator::find_map\<close>.\<close>

fun find_map :: "('a \<Rightarrow> 'b option) \<Rightarrow> 'a list \<Rightarrow> 'b option" where
  "find_map f [] = None"
| "find_map f (x # xs) = (case f x of None \<Rightarrow> find_map f xs | Some y \<Rightarrow> Some y)"

text \<open>\<open>Iterator::min_by\<close> with a key: the first of the minimal elements.\<close>

fun min_by :: "('a \<Rightarrow> 'k::linorder) \<Rightarrow> 'a list \<Rightarrow> 'a option" where
  "min_by f [] = None"
| "min_by f (x # xs) =
     (case min_by f xs of None \<Rightarrow> Some x | Some y \<Rightarrow> if f y < f x then Some y else Some x)"

text \<open>\<open>Vec::remove\<close>, \<open>Vec::insert\<close> and \<open>Vec::dedup_by\<close> with a key.\<close>

definition vec_remove :: "nat \<Rightarrow> 'a list \<Rightarrow> 'a list" where
  "vec_remove i xs = take i xs @ drop (Suc i) xs"

definition vec_insert :: "nat \<Rightarrow> 'a \<Rightarrow> 'a list \<Rightarrow> 'a list" where
  "vec_insert i x xs = take i xs @ x # drop i xs"

fun dedup_by :: "('a \<Rightarrow> 'k) \<Rightarrow> 'a list \<Rightarrow> 'a list" where
  "dedup_by f [] = []"
| "dedup_by f [x] = [x]"
| "dedup_by f (x # y # zs) =
     (if f x = f y then dedup_by f (x # zs) else x # dedup_by f (y # zs))"

lemma position_None_iff [simp]: "position p xs = None \<longleftrightarrow> (\<forall>x \<in> set xs. \<not> p x)"
  by (induction xs) auto

lemma position_SomeD:
  "position p xs = Some i \<Longrightarrow>
     i < length xs \<and> p (xs ! i) \<and> (\<forall>j < i. \<not> p (xs ! j))"
proof (induction xs arbitrary: i)
  case Nil
  then show ?case by simp
next
  case (Cons x xs)
  show ?case
  proof (cases "p x")
    case True
    with Cons.prems show ?thesis by simp
  next
    case False
    with Cons.prems obtain j where j: "position p xs = Some j" "i = Suc j" by auto
    with Cons.IH [OF j(1)] False show ?thesis
      by (auto simp: nth_Cons split: nat.splits)
  qed
qed

lemma position_split:
  assumes "position p xs = Some i"
  shows "\<exists>ys x zs. xs = ys @ x # zs \<and> length ys = i \<and> p x \<and> (\<forall>y \<in> set ys. \<not> p y)"
proof -
  from position_SomeD [OF assms] have i: "i < length xs" "p (xs ! i)" "\<forall>j < i. \<not> p (xs ! j)"
    by auto
  have "xs = take i xs @ xs ! i # drop (Suc i) xs" using i(1) by (rule id_take_nth_drop)
  moreover have "\<forall>y \<in> set (take i xs). \<not> p y" using i by (auto simp: in_set_conv_nth)
  ultimately show ?thesis using i by (intro exI conjI) (assumption, auto)
qed

lemma find_map_Some_iff:
  "find_map f xs = Some y \<longleftrightarrow>
     (\<exists>ys x zs. xs = ys @ x # zs \<and> f x = Some y \<and> (\<forall>z \<in> set ys. f z = None))"
proof (induction xs)
  case Nil
  then show ?case by simp
next
  case (Cons x xs)
  show ?case
  proof (cases "f x")
    case None
    show ?thesis
    proof
      assume "find_map f (x # xs) = Some y"
      with None Cons obtain ys w zs where "xs = ys @ w # zs" "f w = Some y" "\<forall>z \<in> set ys. f z = None"
        by auto
      with None show "\<exists>ys w zs. x # xs = ys @ w # zs \<and> f w = Some y \<and> (\<forall>z \<in> set ys. f z = None)"
        by (intro exI [of _ "x # ys"]) auto
    next
      assume "\<exists>ys w zs. x # xs = ys @ w # zs \<and> f w = Some y \<and> (\<forall>z \<in> set ys. f z = None)"
      then obtain ys w zs where s: "x # xs = ys @ w # zs" "f w = Some y" "\<forall>z \<in> set ys. f z = None"
        by blast
      with None obtain ys' where "ys = x # ys'" by (cases ys) auto
      with s None Cons show "find_map f (x # xs) = Some y" by auto
    qed
  next
    case (Some w)
    show ?thesis
    proof
      assume "find_map f (x # xs) = Some y"
      with Some show "\<exists>ys w zs. x # xs = ys @ w # zs \<and> f w = Some y \<and> (\<forall>z \<in> set ys. f z = None)"
        by (intro exI [of _ "[]"]) auto
    next
      assume "\<exists>ys w zs. x # xs = ys @ w # zs \<and> f w = Some y \<and> (\<forall>z \<in> set ys. f z = None)"
      with Some show "find_map f (x # xs) = Some y" by (auto simp: Cons_eq_append_conv)
    qed
  qed
qed

lemma find_map_None_iff: "find_map f xs = None \<longleftrightarrow> (\<forall>x \<in> set xs. f x = None)"
  by (induction xs) (auto split: option.splits)

lemma min_by_None_iff [simp]: "min_by f xs = None \<longleftrightarrow> xs = []"
  by (cases xs) (auto split: option.splits)

lemma min_by_SomeD: "min_by f xs = Some x \<Longrightarrow> x \<in> set xs \<and> (\<forall>y \<in> set xs. f x \<le> f y)"
proof (induction xs arbitrary: x)
  case Nil
  then show ?case by simp
next
  case (Cons z zs)
  show ?case
  proof (cases "min_by f zs")
    case None
    with Cons.prems show ?thesis by simp
  next
    case (Some y)
    with Cons.IH [OF Some] Cons.prems show ?thesis
      by (auto split: if_splits intro: order.trans less_imp_le)
  qed
qed

lemma length_vec_remove [simp]: "i < length xs \<Longrightarrow> length (vec_remove i xs) = length xs - 1"
  by (simp add: vec_remove_def)

lemma set_vec_remove_subset: "set (vec_remove i xs) \<subseteq> set xs"
  by (auto simp: vec_remove_def dest: in_set_takeD in_set_dropD)

lemma vec_remove_append [simp]: "length ys = i \<Longrightarrow> vec_remove i (ys @ x # zs) = ys @ zs"
  by (simp add: vec_remove_def)

lemma vec_insert_append [simp]: "length ys = i \<Longrightarrow> vec_insert i x (ys @ zs) = ys @ x # zs"
  by (simp add: vec_insert_def)

lemma mset_vec_insert [simp]: "mset (vec_insert i x xs) = add_mset x (mset xs)"
proof -
  have "mset (vec_insert i x xs) = add_mset x (mset (take i xs @ drop i xs))"
    unfolding vec_insert_def mset_append by simp
  then show ?thesis by (simp only: append_take_drop_id)
qed

lemma set_vec_insert [simp]: "set (vec_insert i x xs) = insert x (set xs)"
proof -
  have "set_mset (mset (vec_insert i x xs)) = insert x (set_mset (mset xs))" by simp
  then show ?thesis by (simp only: set_mset_mset)
qed

lemma set_dedup_by: "f ` set (dedup_by f xs) = f ` set xs"
  by (induction f xs rule: dedup_by.induct) auto

lemma set_dedup_by_subset: "set (dedup_by f xs) \<subseteq> set xs"
  by (induction f xs rule: dedup_by.induct) auto

lemma dedup_by_sorted_distinct:
  fixes f :: "'a \<Rightarrow> 'k::linorder"
  shows "sorted (map f xs) \<Longrightarrow> sorted_wrt (<) (map f (dedup_by f xs))"
proof (induction f xs rule: dedup_by.induct)
  case (3 f x y zs)
  show ?case
  proof (cases "f x = f y")
    case True
    moreover have "sorted (map f (x # zs))" using "3.prems" by simp
    ultimately have "sorted_wrt (<) (map f (dedup_by f (x # zs)))" by (rule "3.IH"(1))
    then show ?thesis using True by (simp del: list.map)
  next
    case False
    moreover have "sorted (map f (y # zs))" using "3.prems" by simp
    ultimately have IH: "sorted_wrt (<) (map f (dedup_by f (y # zs)))" by (rule "3.IH"(2))
    have "f x < f z" if "z \<in> set (dedup_by f (y # zs))" for z
    proof -
      have "z \<in> set (y # zs)" using that set_dedup_by_subset by fast
      then have "f y \<le> f z" using "3.prems" by auto
      moreover have "f x < f y" using "3.prems" False by auto
      ultimately show "f x < f z" by simp
    qed
    with IH False show ?thesis by simp
  qed
qed simp_all

lemma remove_first_distinct:
  assumes "distinct (map g xs)"
  shows "(case position (\<lambda>x. g x = p) xs of Some i \<Rightarrow> vec_remove i xs | None \<Rightarrow> xs) = filter (\<lambda>x. g x \<noteq> p) xs"
proof (cases "position (\<lambda>x. g x = p) xs")
  case None
  then have "\<forall>x \<in> set xs. g x \<noteq> p" by simp
  then show ?thesis unfolding None by simp
next
  case (Some i)
  from position_split [OF Some] obtain ys x zs where x: "xs = ys @ x # zs" "length ys = i" "g x = p"
    "\<forall>y \<in> set ys. g y \<noteq> p" by blast
  have "g x \<notin> g ` set zs" using assms unfolding x(1) by simp
  then have "\<forall>z \<in> set zs. g z \<noteq> p" unfolding x(3) [symmetric] by (metis imageI)
  with x Some show ?thesis by simp
qed

lemma update_first_distinct:
  assumes "distinct (map g xs)" "position (\<lambda>x. g x = g r) xs = Some i"
  shows "xs[i := r] = map (\<lambda>x. if g x = g r then r else x) xs"
proof -
  from position_split [OF assms(2)] obtain ys x zs where x: "xs = ys @ x # zs" "length ys = i" "g x = g r"
    "\<forall>y \<in> set ys. g y \<noteq> g r" by blast
  have "g x \<notin> g ` set zs" using assms(1) unfolding x(1) by simp
  then have "\<forall>z \<in> set zs. g z \<noteq> g r" unfolding x(3) [symmetric] by (metis imageI)
  with x show ?thesis by (auto simp: list_update_append intro!: map_idI [symmetric])
qed

lemmas vec_defs = vec_remove_def vec_insert_def

lemma sorted_wrt_concat_map:
  assumes "\<And>x. x \<in> set xs \<Longrightarrow> sorted_wrt R (f x)"
    and "sorted_wrt (\<lambda>x y. \<forall>a \<in> set (f x). \<forall>b \<in> set (f y). R a b) xs"
  shows "sorted_wrt R (concat (map f xs))"
  using assms by (induction xs) (auto simp: sorted_wrt_append)

lemma sorted_map_filter: "sorted (map f xs) \<Longrightarrow> sorted (map f (filter P xs))"
  by (rule sorted_filter)

lemma sorted_map_take: "sorted (map f xs) \<Longrightarrow> sorted (map f (take n xs))"
  using sorted_wrt_take [of "(\<le>)" "map f xs" n] by (simp add: take_map)


section \<open>Hash maps\<close>

abbreviation hm_wf :: "('k, 'v) hashmap \<Rightarrow> bool" where
  "hm_wf m \<equiv> distinct (map fst m)"

abbreviation hm_get :: "('k, 'v) hashmap \<Rightarrow> 'k \<Rightarrow> 'v option" where
  "hm_get m \<equiv> map_of m"

abbreviation hm_insert :: "'k \<Rightarrow> 'v \<Rightarrow> ('k, 'v) hashmap \<Rightarrow> ('k, 'v) hashmap" where
  "hm_insert \<equiv> AList.update"

abbreviation hm_remove :: "'k \<Rightarrow> ('k, 'v) hashmap \<Rightarrow> ('k, 'v) hashmap" where
  "hm_remove \<equiv> AList.delete"

abbreviation hm_values :: "('k, 'v) hashmap \<Rightarrow> 'v list" where
  "hm_values m \<equiv> map snd m"

declare AList.update_conv' [hashmap_simps] AList.delete_conv' [hashmap_simps]

lemma hm_wf_insert [simp, intro]: "hm_wf m \<Longrightarrow> hm_wf (hm_insert k v m)"
  by (rule AList.distinct_update)

lemma hm_wf_remove [simp, intro]: "hm_wf m \<Longrightarrow> hm_wf (hm_remove k m)"
  by (rule AList.distinct_delete)

lemma hm_wf_filter [simp, intro]: "hm_wf m \<Longrightarrow> hm_wf (filter P m)"
  by (rule distinct_map_filter)

lemma hm_get_mem_iff: "hm_wf m \<Longrightarrow> hm_get m k = Some v \<longleftrightarrow> (k, v) \<in> set m"
  by (rule map_of_eq_Some_iff)

lemma hm_set_remove: "set (hm_remove k m) = {(k', v) \<in> set m. k' \<noteq> k}"
  by (auto simp: AList.delete_eq)

lemma hm_set_insert:
  "hm_wf m \<Longrightarrow> set (hm_insert k v m) = insert (k, v) {(k', v') \<in> set m. k' \<noteq> k}"
  by (induction m) (auto simp: image_iff)

lemma hm_insert_absent: "k \<notin> fst ` set m \<Longrightarrow> hm_insert k v m = m @ [(k, v)]"
  by (induction m) auto

lemma hm_insert_length:
  "length (hm_insert k v m) = (if k \<in> fst ` set m then length m else Suc (length m))"
  by (induction m) auto

lemma hm_get_filter:
  assumes "hm_wf m"
  shows "hm_get (filter P m) k =
    (case hm_get m k of None \<Rightarrow> None | Some v \<Rightarrow> if P (k, v) then Some v else None)"
  using assms
proof (induction m)
  case (Cons x m)
  obtain k' v' where x: "x = (k', v')" by (cases x)
  have "k' \<notin> fst ` set (filter P m)" using Cons.prems x by auto
  then have "map_of (filter P m) k' = None" by (simp add: map_of_eq_None_iff)
  with Cons x show ?case by (cases "k' = k") (auto split: option.splits)
qed simp


section \<open>B-tree maps\<close>

abbreviation bt_wf :: "('k::linorder, 'v) btreemap \<Rightarrow> bool" where
  "bt_wf m \<equiv> sorted_wrt (<) (map fst m)"

text \<open>\<open>entry(k).or_insert_with(..)\<close>: an occupied entry is left as it is.\<close>

fun bt_or_insert :: "'k::linorder \<Rightarrow> 'v \<Rightarrow> ('k, 'v) btreemap \<Rightarrow> ('k, 'v) btreemap" where
  "bt_or_insert k v [] = [(k, v)]"
| "bt_or_insert k v ((k', v') # m) =
     (if k < k' then (k, v) # (k', v') # m
      else if k = k' then (k', v') # m
      else (k', v') # bt_or_insert k v m)"

text \<open>\<open>get_mut(&k)\<close> followed by an assignment through the reference.\<close>

definition bt_modify :: "'k \<Rightarrow> ('v \<Rightarrow> 'v) \<Rightarrow> ('k, 'v) btreemap \<Rightarrow> ('k, 'v) btreemap" where
  "bt_modify k f m = map (\<lambda>(k', v). if k' = k then (k', f v) else (k', v)) m"

lemma fst_bt_or_insert [simp]: "fst ` set (bt_or_insert k v m) = insert k (fst ` set m)"
  by (induction k v m rule: bt_or_insert.induct) auto

lemma bt_wf_or_insert [simp, intro]: "bt_wf m \<Longrightarrow> bt_wf (bt_or_insert k v m)"
proof (induction k v m rule: bt_or_insert.induct)
  case (2 k v k' v' m)
  show ?case
  proof (cases "k' < k")
    case True
    then have "\<forall>x \<in> fst ` set (bt_or_insert k v m). k' < x" using "2.prems" by auto
    with 2 True show ?thesis by auto
  next
    case False
    with "2.prems" show ?thesis by (auto intro: less_trans)
  qed
qed auto

lemma map_of_bt_or_insert [simp]:
  "bt_wf m \<Longrightarrow> map_of (bt_or_insert k v m) =
     (if k \<in> fst ` set m then map_of m else (map_of m)(k \<mapsto> v))"
proof (induction k v m rule: bt_or_insert.induct)
  case (2 k v k' v' m)
  then show ?case by (auto simp: fun_eq_iff image_iff)
qed auto

lemma fst_bt_modify [simp]: "map fst (bt_modify k f m) = map fst m"
  by (induction m) (auto simp: bt_modify_def)

lemma map_of_bt_modify:
  "map_of (bt_modify k f m) = (\<lambda>k'. if k' = k then map_option f (map_of m k) else map_of m k')"
  by (induction m) (auto simp: bt_modify_def fun_eq_iff)

lemma bt_wf_distinct: "bt_wf m \<Longrightarrow> distinct (map fst m)"
  by (simp add: strict_sorted_iff)


section \<open>Big-endian integers\<close>

text \<open>\<open>to_be_bytes\<close> and its inverse, at any width.\<close>

definition be_bytes :: "nat \<Rightarrow> 'a::len word \<Rightarrow> bytes" where
  "be_bytes k w = rev (map (\<lambda>i. ucast (drop_bit (8 * i) w)) [0..<k])"

definition be_word :: "bytes \<Rightarrow> 'a::len word" where
  "be_word bs = foldl (\<lambda>w b. push_bit 8 w OR ucast b) 0 bs"

lemma bit_be_word:
  "bit (be_word bs :: 'a::len word) n \<longleftrightarrow> n < LENGTH('a) \<and> n < 8 * length bs \<and> bit (rev bs ! (n div 8)) (n mod 8)"
proof (induction bs arbitrary: n rule: rev_induct)
  case (snoc b bs)
  have step: "be_word (bs @ [b]) = (push_bit 8 (be_word bs) OR ucast b :: 'a word)" by (simp add: be_word_def)
  show ?case
  proof (cases "n < 8")
    case True
    then show ?thesis unfolding step by (auto simp: bit_simps)
  next
    case False
    then obtain m where m: "n = m + 8" by (metis add.commute le_Suc_ex not_less)
    have "\<not> bit b n" using False by (auto dest: bit_imp_le_length)
    moreover have "(m + 8) div 8 = Suc (m div 8)" by simp
    ultimately show ?thesis unfolding step by (auto simp: bit_simps snoc.IH m)
  qed
qed (simp add: be_word_def)

lemma be_word_bytes:
  assumes "LENGTH('a) = 8 * k"
  shows "be_word (be_bytes k w) = (w :: 'a::len word)"
proof (rule bit_word_eqI)
  fix n
  assume n: "n < LENGTH('a)"
  then have "n div 8 < k" using assms by (simp add: less_mult_imp_div_less mult.commute)
  then have "rev (be_bytes k w) ! (n div 8) = ucast (drop_bit (8 * (n div 8)) w)" by (simp add: be_bytes_def)
  then have "bit (be_word (be_bytes k w) :: 'a word) n \<longleftrightarrow> bit w (8 * (n div 8) + n mod 8)"
    using n assms by (simp add: bit_be_word bit_simps be_bytes_def)
  then show "bit (be_word (be_bytes k w) :: 'a word) n = bit w n" by simp
qed

lemma length_be_bytes [simp]: "length (be_bytes k w) = k"
  by (simp add: be_bytes_def)

end
