(* ===== verification/Peer_Id.thy ===== *)
theory Peer_Id
  imports Prelude "HOL-Library.List_Lexorder"
begin

text \<open>
  Peer identities (\<open>core/src/peer_id.rs\<close>). A \<open>Multihash\<close> of the crate \<open>multihash\<close> is
  represented by the bytes its \<open>to_bytes\<close> returns. What that crate computes is a parameter:
  \<open>mh_parse\<close> is \<open>Multihash::from_bytes\<close> (the code and the digest, \<open>None\<close> for its error) and
  \<open>mh_digest\<close> is \<open>Code::digest\<close>. The derived order of \<open>PeerId\<close> is the order of the bytes; the
  sources use it only to bring equal identities together before removing duplicates.
\<close>

type_synonym Multihash = bytes

datatype Code = Identity | Sha2_256

fun code_value :: "Code \<Rightarrow> nat" where
  "code_value Identity = 0"
| "code_value Sha2_256 = 0x12"

text \<open>\<open>Code::try_from\<close>: only the two codes the sources match on are distinguished.\<close>

definition code_try_from :: "nat \<Rightarrow> Code option" where
  "code_try_from c = (if c = 0x12 then Some Sha2_256 else if c = 0 then Some Identity else None)"

datatype PeerId = PeerId (multihash: Multihash)

instantiation PeerId :: linorder
begin

definition less_eq_PeerId :: "PeerId \<Rightarrow> PeerId \<Rightarrow> bool" where
  "less_eq_PeerId p q \<longleftrightarrow> multihash p \<le> multihash q"

definition less_PeerId :: "PeerId \<Rightarrow> PeerId \<Rightarrow> bool" where
  "less_PeerId p q \<longleftrightarrow> multihash p < multihash q"

instance
  by standard (auto simp: less_eq_PeerId_def less_PeerId_def PeerId.expand)

end

definition MAX_INLINE_KEY_LENGTH :: nat where
  "MAX_INLINE_KEY_LENGTH = 42"

datatype multihash_error = MultihashInvalid | UnsupportedCode nat

definition from_multihash :: "nat \<times> bytes \<Rightarrow> Multihash \<Rightarrow> Multihash + PeerId" where
  "from_multihash cd mh =
     (case cd of (c, d) \<Rightarrow>
       (case code_try_from c of
          Some Sha2_256 \<Rightarrow> Inr (PeerId mh)
        | Some Identity \<Rightarrow> if length d \<le> MAX_INLINE_KEY_LENGTH then Inr (PeerId mh) else Inl mh
        | None \<Rightarrow> Inl mh))"

definition from_bytes :: "(bytes \<Rightarrow> (nat \<times> bytes) option) \<Rightarrow> bytes \<Rightarrow> multihash_error + PeerId" where
  "from_bytes mh_parse data =
     (case mh_parse data of
        None \<Rightarrow> Inl MultihashInvalid
      | Some (c, d) \<Rightarrow>
          (case from_multihash (c, d) data of
             Inl _ \<Rightarrow> Inl (UnsupportedCode c)
           | Inr p \<Rightarrow> Inr p))"

definition to_bytes :: "PeerId \<Rightarrow> bytes" where
  "to_bytes p = multihash p"

text \<open>A public key enters as its protobuf encoding \<open>key_enc\<close>.\<close>

definition from_public_key :: "(Code \<Rightarrow> bytes \<Rightarrow> Multihash) \<Rightarrow> bytes \<Rightarrow> PeerId" where
  "from_public_key mh_digest key_enc =
     (let hash_algorithm = (if length key_enc \<le> MAX_INLINE_KEY_LENGTH then Identity else Sha2_256)
      in PeerId (mh_digest hash_algorithm key_enc))"

text \<open>
  \<open>is_public_key\<close>: the \<open>expect\<close> on the code of the stored multihash is the \<open>None\<close> result of the
  outer option; the inner option is the one the source returns.
\<close>

definition is_public_key ::
    "(bytes \<Rightarrow> (nat \<times> bytes) option) \<Rightarrow> (Code \<Rightarrow> bytes \<Rightarrow> Multihash) \<Rightarrow> PeerId \<Rightarrow> bytes
      \<Rightarrow> bool option option" where
  "is_public_key mh_parse mh_digest p enc =
     (case mh_parse (multihash p) of
        None \<Rightarrow> None
      | Some (c, _) \<Rightarrow>
          (case code_try_from c of
             None \<Rightarrow> None
           | Some alg \<Rightarrow> Some (Some (mh_digest alg enc = multihash p))))"

text \<open>The identities that \<open>from_bytes\<close> accepts.\<close>

definition peer_id_ok :: "(bytes \<Rightarrow> (nat \<times> bytes) option) \<Rightarrow> PeerId \<Rightarrow> bool" where
  "peer_id_ok mh_parse p \<longleftrightarrow> from_bytes mh_parse (to_bytes p) = Inr p"

lemma from_bytes_to_bytes: "from_bytes mh_parse b = Inr p \<Longrightarrow> to_bytes p = b"
  by (auto simp: from_bytes_def from_multihash_def to_bytes_def
      split: option.splits Code.splits if_splits sum.splits)

lemma from_bytes_ok: "from_bytes mh_parse b = Inr p \<Longrightarrow> peer_id_ok mh_parse p"
  using from_bytes_to_bytes [of mh_parse b p] by (simp add: peer_id_ok_def)

lemma to_bytes_inject [simp]: "to_bytes p = to_bytes q \<longleftrightarrow> p = q"
  by (cases p; cases q) (simp add: to_bytes_def)

lemma code_try_from_value [simp]: "code_try_from (code_value c) = Some c"
  by (cases c) (simp_all add: code_try_from_def)

end
