(* ===== verification/Xor_Metric.thy ===== *)
theory Xor_Metric
  imports Peer_Id
begin

text \<open>
  Keys and distances of the Kademlia key space (\<open>protocols/kad/src/kbucket/key.rs\<close>). The 32
  bytes of a key are represented by the 256-bit integer that \<open>U256::from\<close> reads from them.
  SHA-256 is a parameter \<open>sha\<close> of the definitions that hash.
\<close>

type_synonym KeyBytes = U256
type_synonym Distance = U256

record 'a Key =
  preimage :: 'a
  key_bytes :: KeyBytes

definition KeyBytes_new :: "(bytes \<Rightarrow> U256) \<Rightarrow> bytes \<Rightarrow> KeyBytes" where
  "KeyBytes_new sha v = sha v"

definition Key_new :: "(bytes \<Rightarrow> U256) \<Rightarrow> bytes \<Rightarrow> bytes Key" where
  "Key_new sha p = \<lparr>preimage = p, key_bytes = KeyBytes_new sha p\<rparr>"

definition Key_from_PeerId :: "(bytes \<Rightarrow> U256) \<Rightarrow> PeerId \<Rightarrow> PeerId Key" where
  "Key_from_PeerId sha p = \<lparr>preimage = p, key_bytes = sha (to_bytes p)\<rparr>"

text \<open>\<open>PartialEq\<close> of \<open>Key\<close> compares the hashed bytes only.\<close>

definition key_eq :: "'a Key \<Rightarrow> 'b Key \<Rightarrow> bool" where
  "key_eq a b \<longleftrightarrow> key_bytes a = key_bytes b"

definition distance :: "KeyBytes \<Rightarrow> KeyBytes \<Rightarrow> Distance" where
  "distance a b = a XOR b"

definition for_distance :: "KeyBytes \<Rightarrow> Distance \<Rightarrow> KeyBytes" where
  "for_distance a d = a XOR d"

text \<open>\<open>U256::leading_zeros\<close>: the number of zero bits above the highest one.\<close>

fun leading_zeros_from :: "nat \<Rightarrow> U256 \<Rightarrow> nat" where
  "leading_zeros_from 0 w = 0"
| "leading_zeros_from (Suc n) w = (if bit w n then 0 else Suc (leading_zeros_from n w))"

definition leading_zeros :: "U256 \<Rightarrow> nat" where
  "leading_zeros w = leading_zeros_from 256 w"

definition ilog2 :: "Distance \<Rightarrow> nat option" where
  "ilog2 d = (let n = 256 - leading_zeros d in if n < 1 then None else Some (n - 1))"


section \<open>The highest bit\<close>

lemma leading_zeros_from_le: "leading_zeros_from n w \<le> n"
  by (induction n) auto

lemma leading_zeros_from_bits:
  "(\<forall>j. n - leading_zeros_from n w \<le> j \<and> j < n \<longrightarrow> \<not> bit w j)
   \<and> (leading_zeros_from n w < n \<longrightarrow> bit w (n - leading_zeros_from n w - 1))"
proof (induction n)
  case 0
  then show ?case by simp
next
  case (Suc n)
  show ?case
  proof (cases "bit w n")
    case True
    then show ?thesis by auto
  next
    case False
    with Suc show ?thesis by (auto simp: less_Suc_eq)
  qed
qed

lemma bit_U256_bound: "bit (w :: U256) i \<Longrightarrow> i < 256"
  using bit_imp_le_length [of w i] by simp

lemma ilog2_bit_iff: "ilog2 d = Some i \<longleftrightarrow> bit d i \<and> (\<forall>j > i. \<not> bit d j)"
proof -
  let ?z = "leading_zeros_from 256 d"
  have le: "?z \<le> 256" by (rule leading_zeros_from_le)
  have hi: "\<not> bit d j" if "256 - ?z \<le> j" for j
    using leading_zeros_from_bits [of 256 d] that bit_U256_bound [of d j] by blast
  have lo: "bit d (256 - ?z - 1)" if "?z < 256"
    using leading_zeros_from_bits [of 256 d] that by blast
  have eq: "ilog2 d = (if ?z = 256 then None else Some (256 - ?z - 1))"
    using le by (auto simp: ilog2_def leading_zeros_def Let_def)
  show ?thesis
  proof (cases "?z = 256")
    case True
    then show ?thesis using eq hi by simp
  next
    case False
    with le have z: "?z < 256" by simp
    show ?thesis
    proof
      assume "ilog2 d = Some i"
      with eq False have i: "i = 256 - ?z - 1" by simp
      show "bit d i \<and> (\<forall>j > i. \<not> bit d j)"
        using lo [OF z] hi z unfolding i by (auto intro!: hi)
    next
      assume a: "bit d i \<and> (\<forall>j > i. \<not> bit d j)"
      then have "i < 256 - ?z" using hi by (meson not_le)
      moreover have "\<not> i < 256 - ?z - 1" using a lo [OF z] by blast
      ultimately show "ilog2 d = Some i" using eq False by simp
    qed
  qed
qed

lemma ilog2_None_iff [simp]: "ilog2 d = None \<longleftrightarrow> d = 0"
proof -
  have "ilog2 d = None \<longleftrightarrow> leading_zeros_from 256 d = 256"
    using leading_zeros_from_le [of 256 d] by (auto simp: ilog2_def leading_zeros_def Let_def)
  also have "\<dots> \<longleftrightarrow> (\<forall>j. \<not> bit d j)"
    using leading_zeros_from_bits [of 256 d] leading_zeros_from_le [of 256 d] bit_U256_bound
    by (metis bot_nat_0.extremum diff_self_eq_0 le_neq_implies_less)
  also have "\<dots> \<longleftrightarrow> d = 0" by (metis bit_0_eq bit_eqI bot_apply bot_bool_def)
  finally show ?thesis .
qed

lemma ilog2_0 [simp]: "ilog2 0 = None"
  by simp

lemma ilog2_bound: "ilog2 d = Some i \<Longrightarrow> i < 256"
  by (auto simp: ilog2_bit_iff dest: bit_U256_bound)


section \<open>Comparing words by their highest differing bit\<close>

lemma bit_unat [simp]: "bit (unat (w :: U256)) i \<longleftrightarrow> bit w i"
  by (simp add: bit_unsigned_iff)

lemma drop_bit_eqI:
  fixes a b :: U256
  assumes "\<And>j. j \<ge> i \<Longrightarrow> bit a j = bit b j"
  shows "unat a div 2 ^ i = unat b div 2 ^ i"
proof -
  have "drop_bit i a = drop_bit i b"
    by (rule bit_eqI) (simp add: bit_drop_bit_eq assms)
  then have "unat (drop_bit i a) = unat (drop_bit i b)" by simp
  then show ?thesis by (simp add: unat_drop_bit_eq drop_bit_nat_def)
qed

lemma half_eq_less: "x div 2 = y div 2 \<Longrightarrow> even x \<Longrightarrow> odd y \<Longrightarrow> x < (y :: nat)"
  by presburger

lemma less_by_bit:
  fixes a b :: U256
  assumes "\<And>j. j > i \<Longrightarrow> bit a j = bit b j" and "\<not> bit a i" and "bit b i"
  shows "a < b"
proof -
  have "unat a div 2 ^ Suc i = unat b div 2 ^ Suc i"
    using assms(1) by (intro drop_bit_eqI) simp
  then have q: "(unat a div 2 ^ i) div 2 = (unat b div 2 ^ i) div 2"
    by (metis div_mult2_eq power_Suc2)
  moreover have "even (unat a div 2 ^ i)"
    using assms(2) bit_unat [of a i] unfolding bit_iff_odd [of "unat a"] by simp
  moreover have "odd (unat b div 2 ^ i)"
    using assms(3) bit_unat [of b i] unfolding bit_iff_odd [of "unat b"] by simp
  ultimately have "unat a div 2 ^ i < unat b div 2 ^ i" by (rule half_eq_less)
  then have "unat a < unat b" by (meson div_le_mono not_le)
  then show ?thesis by (simp add: word_less_nat_alt)
qed

lemma ilog2_range_iff:
  "ilog2 d = Some i \<longleftrightarrow> 2 ^ i \<le> unat d \<and> unat d < 2 ^ Suc i"
proof
  assume "ilog2 d = Some i"
  then have b: "bit d i" and z: "\<And>j. j > i \<Longrightarrow> \<not> bit d j" by (auto simp: ilog2_bit_iff)
  have "unat d div 2 ^ Suc i = unat (0 :: U256) div 2 ^ Suc i"
    by (rule drop_bit_eqI) (use z in \<open>auto simp: Suc_le_eq\<close>)
  then have "unat d < 2 ^ Suc i" by (simp add: div_eq_0_iff)
  moreover have "odd (unat d div 2 ^ i)" using b by (simp flip: bit_iff_odd)
  then have "2 ^ i \<le> unat d" by (metis div_less even_zero not_le)
  ultimately show "2 ^ i \<le> unat d \<and> unat d < 2 ^ Suc i" by simp
next
  assume r: "2 ^ i \<le> unat d \<and> unat d < 2 ^ Suc i"
  have "unat d div 2 ^ i < 2" using r by (simp add: less_mult_imp_div_less)
  moreover have "0 < unat d div 2 ^ i" using r by (simp add: div_greater_zero_iff)
  ultimately have "unat d div 2 ^ i = 1" by simp
  then have "bit d i" by (simp flip: bit_unat add: bit_iff_odd)
  moreover have "\<not> bit d j" if "j > i" for j
  proof -
    have "(2::nat) ^ Suc i \<le> 2 ^ j" using that by (intro power_increasing) auto
    with r have "unat d div 2 ^ j = 0" by (simp add: div_eq_0_iff)
    then show ?thesis by (simp flip: bit_unat add: bit_iff_odd)
  qed
  ultimately show "ilog2 d = Some i" by (simp add: ilog2_bit_iff)
qed


section \<open>The metric\<close>

text \<open>
  What the routing table, the record store and the queries use of the distance. A target and a
  distance determine a key, so the distances from one target order the keys strictly.
\<close>

locale key_metric =
  fixes dist :: "'k \<Rightarrow> 'k \<Rightarrow> 'd::{linorder, zero}"
    and for_dist :: "'k \<Rightarrow> 'd \<Rightarrow> 'k"
  assumes dist_zero_iff: "dist x y = 0 \<longleftrightarrow> x = y"
    and dist_sym: "dist x y = dist y x"
    and for_dist: "dist x y = d \<longleftrightarrow> y = for_dist x d"
begin

lemma dist_inject: "dist t x = dist t y \<longleftrightarrow> x = y"
  using for_dist by metis

lemma dist_inject_left: "dist x t = dist y t \<longleftrightarrow> x = y"
  using dist_inject dist_sym by metis

lemma sort_by_dist_strict:
  assumes "distinct ks" "sorted (map (dist t) ks)"
  shows "sorted_wrt (<) (map (dist t) ks)"
proof -
  have "inj_on (dist t) (set ks)" by (simp add: inj_on_def dist_inject)
  with assms show ?thesis by (simp add: strict_sorted_iff distinct_map)
qed

lemma closest_unique:
  assumes "distinct ks" "distinct ls" "set ks = set ls"
    and "sorted (map (dist t) ks)" "sorted (map (dist t) ls)"
  shows "ks = ls"
proof -
  have inj: "inj_on (dist t) (set ks \<union> set ls)" by (simp add: inj_on_def dist_inject)
  have "map (dist t) ks = map (dist t) ls"
  proof (rule strict_sorted_equal)
    show "sorted_wrt (<) (map (dist t) ks)" "sorted_wrt (<) (map (dist t) ls)"
      using assms by (simp_all add: sort_by_dist_strict)
    show "set (map (dist t) ks) = set (map (dist t) ls)" using assms(3) by simp
  qed
  then show ?thesis using inj by (rule map_inj_on)
qed

end

lemma xor_cancel: "(a :: U256) XOR b = d \<longleftrightarrow> b = a XOR d"
  by (auto simp flip: xor.assoc)

interpretation kad: key_metric distance for_distance
  by unfold_locales
    (auto simp: distance_def for_distance_def xor_cancel xor.commute)

lemma distance_self [simp]: "distance a a = 0"
  by (simp add: kad.dist_zero_iff)

lemma bit_distance [simp]: "bit (distance a b) i \<longleftrightarrow> bit a i \<noteq> bit b i"
  by (simp add: distance_def bit_xor_iff)

lemma distance_via: "distance t k = distance l t XOR distance l k"
  by (rule bit_eqI) (auto simp: bit_xor_iff)

lemma xor_le_plus: "unat (a XOR b) \<le> unat (a :: U256) + unat b"
proof -
  have "unat (a XOR b) = unat a XOR unat b"
    by (rule bit_eqI) (simp add: bit_unsigned_iff bit_xor_iff)
  moreover have "(x :: nat) XOR y \<le> x + y" for x y
  proof (induction x arbitrary: y rule: less_induct)
    case (less x)
    show ?case
    proof (cases "x = 0")
      case True
      then show ?thesis by simp
    next
      case False
      then have "(x div 2) XOR (y div 2) \<le> x div 2 + y div 2" by (intro less.IH) simp
      moreover have "x XOR y = of_bool (odd x \<noteq> odd y) + 2 * ((x div 2) XOR (y div 2))"
        by (rule xor_rec)
      ultimately show ?thesis by (cases "odd x"; cases "odd y") (simp; presburger)+
    qed
  qed
  ultimately show ?thesis by simp
qed

section \<open>Properties\<close>

text \<open>
  the distance of keys is a metric: it is zero exactly for equal keys, symmetric, and
  satisfies the triangle inequality on the integers; and for every key and every distance there
  is exactly one key at that distance, the one \<open>for_distance\<close> computes.
\<close>

theorem distance_metric:
  "(distance x y = 0 \<longleftrightarrow> x = y)
   \<and> distance x y = distance y x
   \<and> unat (distance x z) \<le> unat (distance x y) + unat (distance y z)
   \<and> (distance x w = d \<longleftrightarrow> w = for_distance x d)"
proof (intro conjI)
  have "distance x z = distance x y XOR distance y z"
    using distance_via [of x z y] kad.dist_sym [of x y] by simp
  then show "unat (distance x z) \<le> unat (distance x y) + unat (distance y z)"
    by (simp add: xor_le_plus)
qed (rule kad.dist_zero_iff kad.dist_sym kad.for_dist)+

end
