(* ===== verification/KBucket.thy ===== *)
theory KBucket
  imports Xor_Metric
begin

text \<open>
  The k-buckets and the routing table of Kademlia: \<open>kbucket/bucket.rs\<close>, \<open>kbucket/entry.rs\<close> and
  \<open>kbucket.rs\<close> under \<open>protocols/kad/src/\<close> (the iterators over the closest entries are in
  \<open>Closest_Iter\<close>). A Rust \<open>Entry\<close> borrows its bucket mutably; here an entry names the bucket by
  its index, and the operations of an entry take and return the table. The \<open>expect\<close> of a
  \<open>PresentEntry\<close> is the result \<open>None\<close>.
\<close>

section \<open>Buckets\<close>

definition K_VALUE :: nat where
  "K_VALUE = 20"

record ('a, 'v) Node =
  node_key :: "'a Key"
  node_value :: 'v

record ('a, 'v) KBucket =
  nodes :: "('a, 'v) Node list"

abbreviation node_bytes :: "('a, 'v) Node \<Rightarrow> KeyBytes" where
  "node_bytes n \<equiv> key_bytes (node_key n)"

definition KBucket_new :: "('a, 'v) KBucket" where
  "KBucket_new = \<lparr>nodes = []\<rparr>"

definition bucket_position :: "('a, 'v) KBucket \<Rightarrow> 'b Key \<Rightarrow> nat option" where
  "bucket_position b k = position (\<lambda>p. node_bytes p = key_bytes k) (nodes b)"

definition bucket_get :: "('a, 'v) KBucket \<Rightarrow> 'b Key \<Rightarrow> ('a, 'v) Node option" where
  "bucket_get b k = map_option (\<lambda>p. nodes b ! p) (bucket_position b k)"

definition bucket_iter :: "('a, 'v) KBucket \<Rightarrow> ('a, 'v) Node list" where
  "bucket_iter b = nodes b"

definition bucket_insert :: "('a, 'v) KBucket \<Rightarrow> ('a, 'v) Node \<Rightarrow> bool \<times> ('a, 'v) KBucket" where
  "bucket_insert b n =
     (if length (nodes b) = K_VALUE then (False, b)
      else (True, b\<lparr>nodes := nodes b @ [n]\<rparr>))"

definition bucket_remove ::
    "('a, 'v) KBucket \<Rightarrow> 'b Key \<Rightarrow> (('a, 'v) Node \<times> nat) option \<times> ('a, 'v) KBucket" where
  "bucket_remove b k =
     (case bucket_position b k of
        Some pos \<Rightarrow> (Some (nodes b ! pos, pos), b\<lparr>nodes := vec_remove pos (nodes b)\<rparr>)
      | None \<Rightarrow> (None, b))"

definition bucket_num_entries :: "('a, 'v) KBucket \<Rightarrow> nat" where
  "bucket_num_entries b = length (nodes b)"

text \<open>\<open>get_mut\<close>: the first node with the key is changed through the reference.\<close>

definition bucket_get_mut ::
    "('a, 'v) KBucket \<Rightarrow> 'b Key \<Rightarrow> (('a, 'v) Node \<Rightarrow> ('a, 'v) Node) \<Rightarrow> ('a, 'v) KBucket option" where
  "bucket_get_mut b k f =
     (case bucket_position b k of
        Some pos \<Rightarrow> Some (b\<lparr>nodes := (nodes b)[pos := f (nodes b ! pos)]\<rparr>)
      | None \<Rightarrow> None)"


section \<open>Bucket indices\<close>

definition NUM_BUCKETS :: nat where
  "NUM_BUCKETS = 256"

type_synonym BucketIndex = nat

definition BucketIndex_new :: "Distance \<Rightarrow> BucketIndex option" where
  "BucketIndex_new d = ilog2 d"

definition BucketIndex_range :: "BucketIndex \<Rightarrow> Distance \<times> Distance" where
  "BucketIndex_range i =
     (let min = 2 ^ i
      in if i = 255 then (min, - 1) else (min, 2 ^ (i + 1) - 1))"

text \<open>\<open>U256::from\<close> of a byte array reads it big-endian.\<close>

definition U256_from_bytes :: "bytes \<Rightarrow> U256" where
  "U256_from_bytes bs = foldl (\<lambda>acc b. acc * 256 + of_nat (unat b)) 0 bs"

text \<open>
  \<open>rand_distance\<close>: the \<open>i\<close>-th call of \<open>rng.gen()\<close> returns \<open>gen i\<close>, and \<open>gen_range lower upper\<close> is the
  number that \<open>rng.gen_range\<close> returns.
\<close>

definition rand_distance_bytes ::
    "BucketIndex \<Rightarrow> (nat \<Rightarrow> u8) \<Rightarrow> (nat \<Rightarrow> nat \<Rightarrow> nat) \<Rightarrow> bytes" where
  "rand_distance_bytes ix gen gen_range =
     (let quot = ix div 8;
          bs = fold (\<lambda>i bs. bs[31 - i := gen i]) [0..<quot] (replicate 32 0);
          rem = ix mod 8;
          lower = 2 ^ rem;
          upper = 2 ^ (rem + 1)
      in bs[31 - quot := of_nat (gen_range lower upper)])"

definition rand_distance :: "BucketIndex \<Rightarrow> (nat \<Rightarrow> u8) \<Rightarrow> (nat \<Rightarrow> nat \<Rightarrow> nat) \<Rightarrow> Distance" where
  "rand_distance ix gen gen_range = U256_from_bytes (rand_distance_bytes ix gen gen_range)"


section \<open>The routing table\<close>

record ('a, 'v) KBucketsTable =
  local_key :: "'a Key"
  buckets :: "('a, 'v) KBucket list"

record 'a EntryRef =
  entry_bucket :: BucketIndex
  entry_key :: "'a Key"

datatype 'a Entry = Present "'a EntryRef" | Absent "'a EntryRef" | SelfEntry

definition Entry_new :: "('a, 'v) KBucketsTable \<Rightarrow> BucketIndex \<Rightarrow> 'a Key \<Rightarrow> 'a Entry" where
  "Entry_new t i k =
     (if bucket_position (buckets t ! i) k \<noteq> None
      then Present \<lparr>entry_bucket = i, entry_key = k\<rparr>
      else Absent \<lparr>entry_bucket = i, entry_key = k\<rparr>)"

definition table_new :: "'a Key \<Rightarrow> ('a, 'v) KBucketsTable" where
  "table_new k = \<lparr>local_key = k, buckets = map (\<lambda>_. KBucket_new) [0..<NUM_BUCKETS]\<rparr>"

definition self_key :: "('a, 'v) KBucketsTable \<Rightarrow> 'a Key" where
  "self_key t = local_key t"

definition table_iter :: "('a, 'v) KBucketsTable \<Rightarrow> (BucketIndex \<times> ('a, 'v) KBucket) list" where
  "table_iter t = enumerate 0 (buckets t)"

definition table_num_entries :: "('a, 'v) KBucketsTable \<Rightarrow> nat" where
  "table_num_entries t = foldl (\<lambda>acc x. acc + bucket_num_entries (snd x)) 0 (table_iter t)"

definition table_entry :: "('a, 'v) KBucketsTable \<Rightarrow> 'a Key \<Rightarrow> 'a Entry" where
  "table_entry t k =
     (case BucketIndex_new (distance (key_bytes (local_key t)) (key_bytes k)) of
        Some i \<Rightarrow> Entry_new t i k
      | None \<Rightarrow> SelfEntry)"

definition bucket_index :: "('a, 'v) KBucketsTable \<Rightarrow> 'b Key \<Rightarrow> nat option" where
  "bucket_index t k = ilog2 (distance (key_bytes (local_key t)) (key_bytes k))"

text \<open>A \<open>KBucketRef\<close> is the index with a reference to the bucket.\<close>

definition table_bucket ::
    "('a, 'v) KBucketsTable \<Rightarrow> 'b Key \<Rightarrow> (BucketIndex \<times> ('a, 'v) KBucket) option" where
  "table_bucket t k =
     (case BucketIndex_new (distance (key_bytes (local_key t)) (key_bytes k)) of
        Some i \<Rightarrow> Some (i, buckets t ! i)
      | None \<Rightarrow> None)"

definition bucket_ref_is_empty :: "BucketIndex \<times> ('a, 'v) KBucket \<Rightarrow> bool" where
  "bucket_ref_is_empty r \<longleftrightarrow> bucket_num_entries (snd r) = 0"

definition bucket_ref_contains :: "BucketIndex \<times> ('a, 'v) KBucket \<Rightarrow> Distance \<Rightarrow> bool" where
  "bucket_ref_contains r d = (case BucketIndex_new d of None \<Rightarrow> False | Some i \<Rightarrow> i = fst r)"


section \<open>Entries\<close>

definition present_value :: "('a, 'v) KBucketsTable \<Rightarrow> 'a EntryRef \<Rightarrow> 'v option" where
  "present_value t e =
     map_option node_value (bucket_get (buckets t ! entry_bucket e) (entry_key e))"

text \<open>An assignment through the reference that \<open>PresentEntry::value\<close> returns.\<close>

definition present_modify ::
    "('a, 'v) KBucketsTable \<Rightarrow> 'a EntryRef \<Rightarrow> ('v \<Rightarrow> 'v) \<Rightarrow> ('a, 'v) KBucketsTable option" where
  "present_modify t e f =
     map_option (\<lambda>b. t\<lparr>buckets := (buckets t)[entry_bucket e := b]\<rparr>)
       (bucket_get_mut (buckets t ! entry_bucket e) (entry_key e)
         (\<lambda>n. n\<lparr>node_value := f (node_value n)\<rparr>))"

definition present_remove ::
    "('a, 'v) KBucketsTable \<Rightarrow> 'a EntryRef \<Rightarrow> (('a, 'v) Node \<times> ('a, 'v) KBucketsTable) option" where
  "present_remove t e =
     (case bucket_remove (buckets t ! entry_bucket e) (entry_key e) of
        (Some (n, _), b) \<Rightarrow> Some (n, t\<lparr>buckets := (buckets t)[entry_bucket e := b]\<rparr>)
      | (None, _) \<Rightarrow> None)"

definition absent_insert ::
    "('a, 'v) KBucketsTable \<Rightarrow> 'a EntryRef \<Rightarrow> 'v \<Rightarrow> bool \<times> ('a, 'v) KBucketsTable" where
  "absent_insert t e v =
     (case bucket_insert (buckets t ! entry_bucket e) \<lparr>node_key = entry_key e, node_value = v\<rparr> of
        (ok, b) \<Rightarrow> (ok, t\<lparr>buckets := (buckets t)[entry_bucket e := b]\<rparr>))"

text \<open>\<open>AbsentEntry::bucket\<close> gives access to the bucket itself: a removal through it.\<close>

definition absent_bucket_remove ::
    "('a, 'v) KBucketsTable \<Rightarrow> 'a EntryRef \<Rightarrow> 'a Key \<Rightarrow>
      (('a, 'v) Node \<times> nat) option \<times> ('a, 'v) KBucketsTable" where
  "absent_bucket_remove t e k =
     (case bucket_remove (buckets t ! entry_bucket e) k of
        (r, b) \<Rightarrow> (r, t\<lparr>buckets := (buckets t)[entry_bucket e := b]\<rparr>))"

fun entry_key_of :: "'a Entry \<Rightarrow> 'a Key option" where
  "entry_key_of (Present e) = Some (entry_key e)"
| "entry_key_of (Absent e) = Some (entry_key e)"
| "entry_key_of SelfEntry = None"

fun entry_value :: "('a, 'v) KBucketsTable \<Rightarrow> 'a Entry \<Rightarrow> 'v option" where
  "entry_value t (Present e) = present_value t e"
| "entry_value t (Absent e) = None"
| "entry_value t SelfEntry = None"

fun entry_view :: "('a, 'v) KBucketsTable \<Rightarrow> 'a Entry \<Rightarrow> ('a Key \<times> 'v) option" where
  "entry_view t (Present e) = map_option (\<lambda>v. (entry_key e, v)) (present_value t e)"
| "entry_view t _ = None"


section \<open>The invariant of the table\<close>

definition bucket_inv :: "KeyBytes \<Rightarrow> BucketIndex \<Rightarrow> ('a, 'v) KBucket \<Rightarrow> bool" where
  "bucket_inv l i b \<longleftrightarrow>
     length (nodes b) \<le> K_VALUE
     \<and> distinct (map node_bytes (nodes b))
     \<and> (\<forall>n \<in> set (nodes b). ilog2 (distance l (node_bytes n)) = Some i)"

definition table_inv :: "('a, 'v) KBucketsTable \<Rightarrow> bool" where
  "table_inv t \<longleftrightarrow>
     length (buckets t) = NUM_BUCKETS
     \<and> (\<forall>i < NUM_BUCKETS. bucket_inv (key_bytes (local_key t)) i (buckets t ! i))"

text \<open>The contents of a bucket and of a table as maps from key bytes to values.\<close>

definition bucket_map :: "('a, 'v) KBucket \<Rightarrow> KeyBytes \<Rightarrow> 'v option" where
  "bucket_map b = map_of (map (\<lambda>n. (node_bytes n, node_value n)) (nodes b))"

definition table_map :: "('a, 'v) KBucketsTable \<Rightarrow> KeyBytes \<Rightarrow> 'v option" where
  "table_map t k =
     (case ilog2 (distance (key_bytes (local_key t)) k) of
        None \<Rightarrow> None
      | Some i \<Rightarrow> bucket_map (buckets t ! i) k)"

abbreviation home :: "('a, 'v) KBucketsTable \<Rightarrow> KeyBytes \<Rightarrow> BucketIndex option" where
  "home t k \<equiv> ilog2 (distance (key_bytes (local_key t)) k)"

lemma bucket_inv_new [simp]: "bucket_inv l i KBucket_new"
  by (simp add: bucket_inv_def KBucket_new_def)

lemma table_inv_new [simp]: "table_inv (table_new k)"
  by (simp add: table_inv_def table_new_def)

lemma table_map_new: "table_map (table_new k) = Map.empty"
  by (auto simp: fun_eq_iff table_map_def table_new_def bucket_map_def KBucket_new_def NUM_BUCKETS_def
      dest!: ilog2_bound split: option.splits)

lemma bucket_position_None: "bucket_position b k = None \<longleftrightarrow> bucket_map b (key_bytes k) = None"
  by (force simp: bucket_position_def bucket_map_def map_of_eq_None_iff image_image)

lemma bucket_map_split:
  assumes "nodes b = ys @ n # zs" "\<forall>y \<in> set ys. node_bytes y \<noteq> k" "node_bytes n = k"
  shows "bucket_map b k = Some (node_value n)"
proof -
  have "map_of (map (\<lambda>n. (node_bytes n, node_value n)) ys) k = None"
    using assms(2) by (auto simp: map_of_eq_None_iff)
  with assms show ?thesis by (simp add: bucket_map_def map_add_def)
qed

lemma bucket_position_split:
  assumes "bucket_position b k = Some p"
  obtains ys n zs where "nodes b = ys @ n # zs" "length ys = p" "node_bytes n = key_bytes k"
    "\<forall>y \<in> set ys. node_bytes y \<noteq> key_bytes k"
  using position_split [OF assms [unfolded bucket_position_def]] by auto

lemma bucket_get_map: "map_option node_value (bucket_get b k) = bucket_map b (key_bytes k)"
proof (cases "bucket_position b k")
  case None
  then show ?thesis by (metis bucket_get_def bucket_position_None option.map(1))
next
  case (Some p)
  then obtain ys n zs where "nodes b = ys @ n # zs" "length ys = p" "node_bytes n = key_bytes k"
    "\<forall>y \<in> set ys. node_bytes y \<noteq> key_bytes k" by (rule bucket_position_split)
  with Some show ?thesis by (simp add: bucket_get_def bucket_map_split nth_append)
qed

lemma table_invD:
  assumes "table_inv t"
  shows "length (buckets t) = NUM_BUCKETS"
    and "home t k = Some i \<Longrightarrow> i < NUM_BUCKETS"
    and "i < NUM_BUCKETS \<Longrightarrow> bucket_inv (key_bytes (local_key t)) i (buckets t ! i)"
  using assms ilog2_bound by (auto simp: table_inv_def NUM_BUCKETS_def)

text \<open>Replacing one bucket.\<close>

lemma table_update_bucket:
  assumes "table_inv t" "i < NUM_BUCKETS" "bucket_inv (key_bytes (local_key t)) i b"
  shows "table_inv (t\<lparr>buckets := (buckets t)[i := b]\<rparr>)"
    and "table_map (t\<lparr>buckets := (buckets t)[i := b]\<rparr>) k =
      (if home t k = Some i then bucket_map b k else table_map t k)"
  using assms by (auto simp: table_inv_def table_map_def nth_list_update split: option.splits)

lemma bucket_inv_append:
  assumes "bucket_inv l i b" "length (nodes b) < K_VALUE"
    and "ilog2 (distance l (node_bytes n)) = Some i" "bucket_map b (node_bytes n) = None"
  shows "bucket_inv l i (b\<lparr>nodes := nodes b @ [n]\<rparr>)"
  using assms by (auto simp: bucket_inv_def bucket_map_def map_of_eq_None_iff image_iff)

lemma bucket_map_append:
  "bucket_map (b\<lparr>nodes := nodes b @ [n]\<rparr>) =
     (\<lambda>k. if k = node_bytes n \<and> bucket_map b k = None then Some (node_value n) else bucket_map b k)"
  by (auto simp: fun_eq_iff bucket_map_def map_add_def split: option.splits)

lemma bucket_remove_split:
  assumes "bucket_inv l i b" "bucket_position b k = Some p"
  shows "bucket_inv l i (b\<lparr>nodes := vec_remove p (nodes b)\<rparr>)"
    and "length (vec_remove p (nodes b)) < K_VALUE"
    and "bucket_map (b\<lparr>nodes := vec_remove p (nodes b)\<rparr>) = (bucket_map b)(key_bytes k := None)"
proof -
  obtain ys n zs where b: "nodes b = ys @ n # zs" "length ys = p" "node_bytes n = key_bytes k"
    "\<forall>y \<in> set ys. node_bytes y \<noteq> key_bytes k"
    using assms(2) by (rule bucket_position_split)
  show "bucket_inv l i (b\<lparr>nodes := vec_remove p (nodes b)\<rparr>)"
    using assms(1) b by (auto simp: bucket_inv_def)
  show "length (vec_remove p (nodes b)) < K_VALUE"
    using assms(1) b by (auto simp: bucket_inv_def)
  have "node_bytes n \<notin> node_bytes ` set (ys @ zs)" using assms(1) b by (auto simp: bucket_inv_def)
  then have "map_of (map (\<lambda>n. (node_bytes n, node_value n)) (ys @ zs)) (node_bytes n) = None"
    unfolding map_of_eq_None_iff by auto
  with b show "bucket_map (b\<lparr>nodes := vec_remove p (nodes b)\<rparr>) = (bucket_map b)(key_bytes k := None)"
    by (auto simp: fun_eq_iff bucket_map_def map_add_def split: option.splits)
qed

lemma bucket_modify_split:
  assumes "bucket_inv l i b" "bucket_position b k = Some p" "node_key n' = node_key (nodes b ! p)"
  shows "bucket_inv l i (b\<lparr>nodes := (nodes b)[p := n']\<rparr>)"
    and "bucket_map (b\<lparr>nodes := (nodes b)[p := n']\<rparr>) = (bucket_map b)(key_bytes k \<mapsto> node_value n')"
proof -
  obtain ys n zs where b: "nodes b = ys @ n # zs" "length ys = p" "node_bytes n = key_bytes k"
    "\<forall>y \<in> set ys. node_bytes y \<noteq> key_bytes k"
    using assms(2) by (rule bucket_position_split)
  have n': "node_key n' = node_key n" using assms(3) b by (simp add: nth_append)
  show "bucket_inv l i (b\<lparr>nodes := (nodes b)[p := n']\<rparr>)"
    using assms(1) b n' by (auto simp: bucket_inv_def list_update_append)
  have "map_of (map (\<lambda>n. (node_bytes n, node_value n)) ys) (key_bytes k) = None"
    using b(4) by (auto simp: map_of_eq_None_iff)
  with b n' show "bucket_map (b\<lparr>nodes := (nodes b)[p := n']\<rparr>) =
      (bucket_map b)(key_bytes k \<mapsto> node_value n')"
    by (auto simp: fun_eq_iff bucket_map_def map_add_def list_update_append split: option.splits)
qed


section \<open>The table as a map with bounded buckets\<close>

text \<open>A reference that \<open>entry\<close> returned, for an entry that is present or absent.\<close>

definition is_present :: "('a, 'v) KBucketsTable \<Rightarrow> 'a EntryRef \<Rightarrow> KeyBytes \<Rightarrow> bool" where
  "is_present t e k \<longleftrightarrow> table_entry t (entry_key e) = Present e \<and> key_bytes (entry_key e) = k"

definition is_absent :: "('a, 'v) KBucketsTable \<Rightarrow> 'a EntryRef \<Rightarrow> KeyBytes \<Rightarrow> bool" where
  "is_absent t e k \<longleftrightarrow> table_entry t (entry_key e) = Absent e \<and> key_bytes (entry_key e) = k"

text \<open>The nodes of the bucket an entry refers to.\<close>

definition entry_nodes :: "('a, 'v) KBucketsTable \<Rightarrow> 'a EntryRef \<Rightarrow> ('a, 'v) Node list" where
  "entry_nodes t e = bucket_iter (buckets t ! entry_bucket e)"

lemma table_entry_cases:
  shows "table_entry t k = Present e \<longleftrightarrow>
      entry_key e = k \<and> home t (key_bytes k) = Some (entry_bucket e) \<and> table_map t (key_bytes k) \<noteq> None"
    and "table_entry t k = Absent e \<longleftrightarrow>
      entry_key e = k \<and> home t (key_bytes k) = Some (entry_bucket e) \<and> table_map t (key_bytes k) = None"
    and "table_entry t k = SelfEntry \<longleftrightarrow> key_bytes k = key_bytes (local_key t)"
proof -
  have split: "home t (key_bytes k) = Some i \<Longrightarrow>
      bucket_position (buckets t ! i) k = None \<longleftrightarrow> table_map t (key_bytes k) = None" for i
    by (simp add: bucket_position_None table_map_def)
  have eqv: "\<lparr>entry_bucket = i, entry_key = k\<rparr> = e \<longleftrightarrow> entry_bucket e = i \<and> entry_key e = k" for i
    by (cases e) auto
  show "table_entry t k = Present e \<longleftrightarrow>
      entry_key e = k \<and> home t (key_bytes k) = Some (entry_bucket e) \<and> table_map t (key_bytes k) \<noteq> None"
    "table_entry t k = Absent e \<longleftrightarrow>
      entry_key e = k \<and> home t (key_bytes k) = Some (entry_bucket e) \<and> table_map t (key_bytes k) = None"
    by (auto simp: table_entry_def Entry_new_def BucketIndex_new_def split eqv split: option.splits)
  show "table_entry t k = SelfEntry \<longleftrightarrow> key_bytes k = key_bytes (local_key t)"
    by (cases "home t (key_bytes k)")
      (auto simp: table_entry_def Entry_new_def BucketIndex_new_def kad.dist_zero_iff)
qed

lemma entry_value_map: "entry_value t (table_entry t k) = table_map t (key_bytes k)"
proof (cases "table_entry t k")
  case (Present e)
  then have "entry_key e = k" "home t (key_bytes k) = Some (entry_bucket e)"
    by (simp_all add: table_entry_cases)
  with Present show ?thesis by (simp add: present_value_def bucket_get_map table_map_def)
next
  case (Absent e)
  then have "table_map t (key_bytes k) = None" by (simp add: table_entry_cases)
  with Absent show ?thesis by simp
next
  case SelfEntry
  then have "key_bytes k = key_bytes (local_key t)" by (simp add: table_entry_cases)
  with SelfEntry show ?thesis by (simp add: table_map_def)
qed

locale routing_table =
  fixes inv :: "'t \<Rightarrow> bool"
    and view :: "'t \<Rightarrow> 'id \<Rightarrow> 'v option"
    and present :: "'t \<Rightarrow> 'r \<Rightarrow> 'id \<Rightarrow> bool"
    and absent :: "'t \<Rightarrow> 'r \<Rightarrow> 'id \<Rightarrow> bool"
    and insert :: "'t \<Rightarrow> 'r \<Rightarrow> 'v \<Rightarrow> bool \<times> 't"
    and modify :: "'t \<Rightarrow> 'r \<Rightarrow> ('v \<Rightarrow> 'v) \<Rightarrow> 't option"
    and remove :: "'t \<Rightarrow> 'r \<Rightarrow> ('n \<times> 't) option"
    and evict :: "'t \<Rightarrow> 'r \<Rightarrow> 'k \<Rightarrow> 'o option \<times> 't"
    and id_of :: "'k \<Rightarrow> 'id"
    and shares :: "'t \<Rightarrow> 'r \<Rightarrow> 'id \<Rightarrow> bool"
  assumes insert_ok: "inv t \<Longrightarrow> absent t r k \<Longrightarrow> insert t r v = (True, t') \<Longrightarrow>
      inv t' \<and> view t' = (view t)(k \<mapsto> v)"
    and insert_full: "insert t r v = (False, t') \<Longrightarrow> t' = t"
    and modify_ok: "inv t \<Longrightarrow> present t r k \<Longrightarrow>
      \<exists>t'. modify t r f = Some t' \<and> inv t' \<and> view t' = (view t)(k := map_option f (view t k))"
    and remove_ok: "inv t \<Longrightarrow> present t r k \<Longrightarrow>
      \<exists>n t'. remove t r = Some (n, t') \<and> inv t' \<and> view t' = (view t)(k := None)"
    and evict_ok: "inv t \<Longrightarrow> absent t r k \<Longrightarrow> shares t r (id_of j) \<Longrightarrow> evict t r j = (o', t') \<Longrightarrow>
      o' \<noteq> None \<and> inv t' \<and> absent t' r k \<and> view t' = (view t)(id_of j := None) \<and> fst (insert t' r v)"
    and shares_view: "inv t \<Longrightarrow> shares t r k \<Longrightarrow> view t k \<noteq> None"
    and absent_view: "absent t r k \<Longrightarrow> view t k = None"
begin

text \<open>Evicting an entry of the same bucket makes room: the new entry takes its place.\<close>

lemma replace_ok:
  assumes "inv t" "absent t r k" "shares t r (id_of j)"
    and "evict t r j = (o', t1)" "insert t1 r v = (ok, t2)"
  shows "ok \<and> inv t2 \<and> view t2 = (view t)(id_of j := None, k \<mapsto> v)
    \<and> card (dom (view t2)) = card (dom (view t))"
proof -
  from evict_ok [OF assms(1-4), of v] have e: "inv t1" "absent t1 r k"
    "view t1 = (view t)(id_of j := None)" "fst (insert t1 r v)" by auto
  with assms(5) have ok: "ok" by simp
  with insert_ok [OF e(1,2)] assms(5) have i: "inv t2" "view t2 = (view t1)(k \<mapsto> v)" by auto
  have j: "id_of j \<in> dom (view t)" using shares_view [OF assms(1,3)] by auto
  have k: "k \<notin> dom (view t)" using absent_view [OF assms(2)] by auto
  have "dom (view t2) = Set.insert k (dom (view t) - {id_of j})" using i(2) e(3) by auto
  moreover have "card (Set.insert k (dom (view t) - {id_of j})) = card (dom (view t))"
  proof (cases "finite (dom (view t))")
    case True
    with j k show ?thesis by (metis Diff_iff card.remove card_insert_disjoint finite_Diff)
  next
    case False
    then show ?thesis by simp
  qed
  ultimately show ?thesis using ok i e(3) by simp
qed

lemma insert_card:
  assumes "inv t" "absent t r k" "insert t r v = (True, t')" "finite (dom (view t))"
  shows "card (dom (view t')) = Suc (card (dom (view t)))"
  using insert_ok [OF assms(1-3)] absent_view [OF assms(2)] assms(4) by (simp add: domIff)

end

definition shares_bucket :: "('a, 'v) KBucketsTable \<Rightarrow> 'a EntryRef \<Rightarrow> KeyBytes \<Rightarrow> bool" where
  "shares_bucket t e k \<longleftrightarrow>
     entry_bucket e < length (buckets t) \<and> (\<exists>n \<in> set (entry_nodes t e). node_bytes n = k)"

lemma shares_bucket_home:
  assumes "table_inv t" "shares_bucket t e k"
  shows "home t k = Some (entry_bucket e)" "bucket_map (buckets t ! entry_bucket e) k \<noteq> None"
    "table_map t k \<noteq> None"
proof -
  from assms(2) obtain n where n: "entry_bucket e < length (buckets t)"
    "n \<in> set (nodes (buckets t ! entry_bucket e))" "node_bytes n = k"
    by (auto simp: shares_bucket_def entry_nodes_def bucket_iter_def)
  with table_invD(1) [OF assms(1)] table_invD(3) [OF assms(1), of "entry_bucket e"]
  show h: "home t k = Some (entry_bucket e)" by (auto simp: bucket_inv_def)
  show m: "bucket_map (buckets t ! entry_bucket e) k \<noteq> None"
    using n by (auto simp: bucket_map_def map_of_eq_None_iff image_iff)
  show "table_map t k \<noteq> None" using h m by (simp add: table_map_def)
qed

lemma is_absentD:
  assumes "is_absent t e k"
  shows "home t k = Some (entry_bucket e)" "table_map t k = None" "key_bytes (entry_key e) = k"
    "bucket_map (buckets t ! entry_bucket e) k = None"
  using assms by (auto simp: is_absent_def table_entry_cases table_map_def)

lemma is_presentD:
  assumes "is_present t e k"
  obtains pos where "home t k = Some (entry_bucket e)" "key_bytes (entry_key e) = k"
    "bucket_position (buckets t ! entry_bucket e) (entry_key e) = Some pos"
    "table_map t k = Some (node_value (nodes (buckets t ! entry_bucket e) ! pos))"
proof -
  let ?b = "buckets t ! entry_bucket e"
  from assms have h: "home t k = Some (entry_bucket e)" "table_map t k \<noteq> None"
    "key_bytes (entry_key e) = k" by (auto simp: is_present_def table_entry_cases)
  then obtain pos where pos: "bucket_position ?b (entry_key e) = Some pos"
    using bucket_position_None [of ?b "entry_key e"] by (auto simp: table_map_def)
  then have "table_map t k = Some (node_value (nodes ?b ! pos))"
    using bucket_get_map [of ?b "entry_key e"] h by (simp add: bucket_get_def table_map_def)
  with h pos that show thesis by blast
qed

lemma absent_insert_ok:
  assumes inv: "table_inv t" and a: "is_absent t e k" and i: "absent_insert t e v = (True, t')"
  shows "table_inv t' \<and> table_map t' = (table_map t)(k \<mapsto> v)"
proof -
  let ?b = "buckets t ! entry_bucket e" and ?n = "\<lparr>node_key = entry_key e, node_value = v\<rparr>"
  note h = is_absentD [OF a]
  from table_invD(2) [OF inv h(1)] have ib: "entry_bucket e < NUM_BUCKETS" .
  note bi = table_invD(3) [OF inv ib]
  from i have t': "t' = t\<lparr>buckets := (buckets t)[entry_bucket e := ?b\<lparr>nodes := nodes ?b @ [?n]\<rparr>]\<rparr>"
    and len: "length (nodes ?b) < K_VALUE"
    using bi by (auto simp: absent_insert_def bucket_insert_def bucket_inv_def split: if_splits)
  have bi': "bucket_inv (key_bytes (local_key t)) (entry_bucket e) (?b\<lparr>nodes := nodes ?b @ [?n]\<rparr>)"
    using bi len h by (intro bucket_inv_append) auto
  show ?thesis
    using table_update_bucket [OF inv ib bi'] h
    by (auto simp: t' fun_eq_iff bucket_map_append table_map_def)
qed

lemma absent_insert_full: "absent_insert t e v = (False, t') \<Longrightarrow> t' = t"
  by (auto simp: absent_insert_def bucket_insert_def split: if_splits)

lemma present_modify_ok:
  assumes inv: "table_inv t" and p: "is_present t e k"
  shows "\<exists>t'. present_modify t e f = Some t' \<and> table_inv t' \<and>
      table_map t' = (table_map t)(k := map_option f (table_map t k))"
proof -
  let ?b = "buckets t ! entry_bucket e"
  from p obtain pos where h: "home t k = Some (entry_bucket e)" "key_bytes (entry_key e) = k"
    "bucket_position ?b (entry_key e) = Some pos" "table_map t k = Some (node_value (nodes ?b ! pos))"
    by (rule is_presentD)
  from table_invD(2) [OF inv h(1)] have ib: "entry_bucket e < NUM_BUCKETS" .
  let ?n = "(nodes ?b ! pos)\<lparr>node_value := f (node_value (nodes ?b ! pos))\<rparr>"
  let ?b' = "?b\<lparr>nodes := (nodes ?b)[pos := ?n]\<rparr>"
  have bi': "bucket_inv (key_bytes (local_key t)) (entry_bucket e) ?b'"
    "bucket_map ?b' = (bucket_map ?b)(key_bytes (entry_key e) \<mapsto> f (node_value (nodes ?b ! pos)))"
    using bucket_modify_split [OF table_invD(3) [OF inv ib] h(3), of ?n] by auto
  have "present_modify t e f = Some (t\<lparr>buckets := (buckets t)[entry_bucket e := ?b']\<rparr>)"
    using h(3) by (simp add: present_modify_def bucket_get_mut_def)
  moreover have "table_map (t\<lparr>buckets := (buckets t)[entry_bucket e := ?b']\<rparr>) =
      (table_map t)(k := map_option f (table_map t k))"
    using table_update_bucket(2) [OF inv ib bi'(1)] h bi'(2)
    by (auto simp: fun_eq_iff table_map_def)
  ultimately show ?thesis using table_update_bucket(1) [OF inv ib bi'(1)] by blast
qed

lemma present_remove_ok:
  assumes inv: "table_inv t" and p: "is_present t e k"
  shows "\<exists>n t'. present_remove t e = Some (n, t') \<and> table_inv t' \<and>
      table_map t' = (table_map t)(k := None)"
proof -
  let ?b = "buckets t ! entry_bucket e"
  from p obtain pos where h: "home t k = Some (entry_bucket e)" "key_bytes (entry_key e) = k"
    "bucket_position ?b (entry_key e) = Some pos" by (rule is_presentD)
  from table_invD(2) [OF inv h(1)] have ib: "entry_bucket e < NUM_BUCKETS" .
  note r = bucket_remove_split [OF table_invD(3) [OF inv ib] h(3)]
  have "present_remove t e = Some (nodes ?b ! pos,
      t\<lparr>buckets := (buckets t)[entry_bucket e := ?b\<lparr>nodes := vec_remove pos (nodes ?b)\<rparr>]\<rparr>)"
    using h(3) by (simp add: present_remove_def bucket_remove_def)
  then show ?thesis
    using table_update_bucket [OF inv ib r(1)] h r(3) by (auto simp: fun_eq_iff table_map_def)
qed

lemma absent_bucket_remove_ok:
  assumes inv: "table_inv t" and a: "is_absent t e k" and s: "shares_bucket t e (key_bytes j)"
    and ev: "absent_bucket_remove t e j = (o', t')"
  shows "o' \<noteq> None \<and> table_inv t' \<and> is_absent t' e k \<and>
      table_map t' = (table_map t)(key_bytes j := None) \<and> fst (absent_insert t' e v)"
proof -
  let ?b = "buckets t ! entry_bucket e"
  note h = is_absentD [OF a] and hj = shares_bucket_home [OF inv s]
  from table_invD(2) [OF inv h(1)] have ib: "entry_bucket e < NUM_BUCKETS" .
  from hj(2) obtain pos where pos: "bucket_position ?b j = Some pos"
    using bucket_position_None [of ?b j] by auto
  note r = bucket_remove_split [OF table_invD(3) [OF inv ib] pos]
  let ?b' = "?b\<lparr>nodes := vec_remove pos (nodes ?b)\<rparr>"
  from ev pos have t': "t' = t\<lparr>buckets := (buckets t)[entry_bucket e := ?b']\<rparr>" and o': "o' \<noteq> None"
    by (auto simp: absent_bucket_remove_def bucket_remove_def)
  have m: "table_map t' = (table_map t)(key_bytes j := None)"
    using table_update_bucket(2) [OF inv ib r(1)] hj(1) r(3)
    by (auto simp: t' fun_eq_iff table_map_def)
  have "is_absent t' e k" using h a m by (auto simp: is_absent_def table_entry_cases t')
  moreover have "fst (absent_insert t' e v)"
    using r(2) ib table_invD(1) [OF inv] by (simp add: t' absent_insert_def bucket_insert_def)
  ultimately show ?thesis using table_update_bucket(1) [OF inv ib r(1)] m o' t' by blast
qed

interpretation rt: routing_table table_inv table_map is_present is_absent absent_insert
  present_modify present_remove absent_bucket_remove key_bytes shares_bucket
  by unfold_locales
    (rule absent_insert_ok absent_insert_full present_modify_ok present_remove_ok
      absent_bucket_remove_ok shares_bucket_home(3) is_absentD(2); assumption)+


section \<open>Ranges and random distances\<close>

lemma unat_two_power: "i < 256 \<Longrightarrow> unat (2 ^ i :: U256) = 2 ^ i"
proof -
  assume "i < 256"
  then have "(2::nat) ^ i < 2 ^ 256" by (intro power_strict_increasing) auto
  moreover have "(2 :: U256) ^ i = of_nat (2 ^ i)" by simp
  ultimately show ?thesis by (simp only: unat_of_nat take_bit_nat_eq_self len_bit0 len_num1) simp
qed

lemma BucketIndex_range_iff:
  assumes "i < NUM_BUCKETS" "BucketIndex_range i = (mn, mx)"
  shows "BucketIndex_new d = Some i \<longleftrightarrow> mn \<le> d \<and> d \<le> mx"
proof -
  have i: "i < 256" using assms(1) by (simp add: NUM_BUCKETS_def)
  have mn: "mn = 2 ^ i" using assms(2) by (simp add: BucketIndex_range_def Let_def split: if_splits)
  have "unat d < 2 ^ Suc i \<longleftrightarrow> d \<le> mx"
  proof (cases "i = 255")
    case True
    then have "mx = - 1" using assms(2) by (simp add: BucketIndex_range_def Let_def)
    then show ?thesis using True unsigned_less [of d, where 'a = nat] by simp
  next
    case False
    then have mx: "mx = 2 ^ Suc i - 1" and si: "Suc i < 256"
      using assms(2) i by (auto simp: BucketIndex_range_def Let_def)
    have "unat (2 ^ Suc i - 1 :: U256) = 2 ^ Suc i - 1"
      using unat_two_power [OF si] by (subst unat_sub) (simp_all add: word_le_nat_alt)
    then have "d \<le> mx \<longleftrightarrow> unat d \<le> 2 ^ Suc i - 1" by (simp only: mx word_le_nat_alt)
    moreover have "(1::nat) \<le> 2 ^ Suc i" by simp
    ultimately show ?thesis by linarith
  qed
  then show ?thesis
    by (simp add: BucketIndex_new_def ilog2_range_iff mn word_le_nat_alt unat_two_power [OF i])
qed

definition be_nat :: "bytes \<Rightarrow> nat" where
  "be_nat bs = foldl (\<lambda>acc b. acc * 256 + unat b) 0 bs"

lemma be_nat_foldl: "foldl (\<lambda>acc b. acc * 256 + unat b) a bs = a * 256 ^ length bs + be_nat bs"
  unfolding be_nat_def
proof (induction bs arbitrary: a)
  case (Cons b bs)
  show ?case using Cons [of "a * 256 + unat b"] Cons [of "unat b"] by (simp add: algebra_simps)
qed simp

lemma be_nat_Nil [simp]: "be_nat [] = 0"
  by (simp add: be_nat_def)

lemma be_nat_Cons: "be_nat (b # bs) = unat b * 256 ^ length bs + be_nat bs"
  using be_nat_foldl [of "unat b" bs] by (simp add: be_nat_def)

lemma be_nat_replicate_0: "be_nat (replicate n 0 @ bs) = be_nat bs"
  by (induction n) (simp_all add: be_nat_Cons)

lemma be_nat_less: "be_nat bs < 256 ^ length bs"
proof (induction bs)
  case (Cons b bs)
  have "unat b \<le> 255" using unsigned_less [of b, where 'a = nat] by simp
  then have "unat b * 256 ^ length bs \<le> 255 * 256 ^ length bs" by (rule mult_le_mono1)
  with Cons show ?case unfolding be_nat_Cons length_Cons power_Suc by linarith
qed simp

lemma U256_from_bytes_nat: "U256_from_bytes bs = of_nat (be_nat bs)"
proof -
  have "foldl (\<lambda>acc b. acc * 256 + of_nat (unat b)) (of_nat a) bs =
      (of_nat (foldl (\<lambda>acc b. acc * 256 + unat b) a bs) :: U256)" for a
  proof (induction bs arbitrary: a)
    case (Cons b bs)
    have "of_nat a * 256 + of_nat (unat b) = (of_nat (a * 256 + unat b) :: U256)" by simp
    with Cons [of "a * 256 + unat b"] show ?case by (simp only: foldl_Cons)
  qed simp
  from this [of 0] show ?thesis by (simp add: U256_from_bytes_def be_nat_def)
qed

lemma unat_U256_from_bytes: "length bs = 32 \<Longrightarrow> unat (U256_from_bytes bs) = be_nat bs"
proof -
  assume "length bs = 32"
  with be_nat_less [of bs] have "be_nat bs < 2 ^ 256" by simp
  then show ?thesis
    by (simp only: U256_from_bytes_nat unat_of_nat take_bit_nat_eq_self len_bit0 len_num1) simp
qed

lemma replicate_snoc: "m = Suc n \<Longrightarrow> replicate m x = replicate n x @ [x]"
  by (simp add: replicate_append_same)

lemma fold_rand_bytes:
  fixes gen :: "nat \<Rightarrow> u8"
  shows "q \<le> 32 \<Longrightarrow> fold (\<lambda>i bs. bs[31 - i := gen i]) [0..<q] (replicate 32 0)
     = replicate (32 - q) 0 @ rev (map gen [0..<q])"
proof (induction q)
  case 0
  then show ?case by simp
next
  case (Suc q)
  have "replicate (32 - q) (0 :: u8) = replicate (31 - q) 0 @ [0]"
    by (rule replicate_snoc) (use Suc.prems in simp)
  moreover have "31 - q < 32 - q" using Suc.prems by simp
  ultimately show ?case using Suc by (simp add: list_update_append)
qed

lemma rand_distance_bytes_shape:
  assumes "ix < NUM_BUCKETS"
  shows "rand_distance_bytes ix gen gen_range =
    replicate (31 - ix div 8) 0 @ of_nat (gen_range (2 ^ (ix mod 8)) (2 ^ (ix mod 8 + 1)))
      # rev (map gen [0..<ix div 8])"
proof -
  have q: "ix div 8 \<le> 31" using assms by (simp add: NUM_BUCKETS_def)
  have "replicate (32 - ix div 8) (0 :: u8) = replicate (31 - ix div 8) 0 @ [0]"
    by (rule replicate_snoc) (use q in simp)
  with q show ?thesis
    by (simp add: rand_distance_bytes_def Let_def fold_rand_bytes list_update_append)
qed

lemma rand_distance_in_bucket:
  assumes ix: "ix < NUM_BUCKETS"
    and rng: "\<And>lo hi. lo < hi \<Longrightarrow> lo \<le> gen_range lo hi \<and> gen_range lo hi < hi"
  shows "BucketIndex_new (rand_distance ix gen gen_range) = Some ix"
proof -
  let ?q = "ix div 8" and ?m = "ix mod 8"
  let ?r = "gen_range (2 ^ ?m) (2 ^ (?m + 1))" and ?low = "rev (map gen [0..<?q])"
  have q: "?q \<le> 31" using ix by (simp add: NUM_BUCKETS_def)
  have r: "2 ^ ?m \<le> ?r" "?r < 2 ^ (?m + 1)" using rng [of "2 ^ ?m" "2 ^ (?m + 1)"] by simp_all
  have "(2::nat) ^ (?m + 1) \<le> 2 ^ 8" by (intro power_increasing) auto
  with r(2) have "unat (of_nat ?r :: u8) = ?r" by (simp add: unat_of_nat take_bit_nat_eq_self)
  then have v: "unat (rand_distance ix gen gen_range) = ?r * 256 ^ ?q + be_nat ?low"
    using q by (simp add: rand_distance_def unat_U256_from_bytes rand_distance_bytes_shape [OF ix]
        be_nat_replicate_0 be_nat_Cons)
  have low: "be_nat ?low < 256 ^ ?q" using be_nat_less [of ?low] by simp
  have p: "(256::nat) ^ ?q = 2 ^ (8 * ?q)" by (simp add: power_mult)
  have ixe: "ix = ?m + 8 * ?q" by simp
  have "2 ^ ix = 2 ^ ?m * (256::nat) ^ ?q" unfolding p by (subst ixe) (simp only: power_add)
  also have "\<dots> \<le> ?r * 256 ^ ?q" using r(1) by (rule mult_le_mono1)
  finally have lo: "2 ^ ix \<le> unat (rand_distance ix gen gen_range)" unfolding v by simp
  have "?r * 256 ^ ?q + be_nat ?low < (?r + 1) * 256 ^ ?q" using low by simp
  also have "\<dots> \<le> 2 ^ (?m + 1) * 256 ^ ?q" using r(2) by (intro mult_le_mono1) simp
  also have "\<dots> = 2 ^ Suc ix"
    unfolding p by (subst (3) ixe) (simp only: power_add power_Suc mult_ac power_one_right)
  finally have "unat (rand_distance ix gen gen_range) < 2 ^ Suc ix" unfolding v .
  with lo show ?thesis by (simp add: BucketIndex_new_def ilog2_range_iff)
qed

section \<open>Properties\<close>

definition sample_node :: "KeyBytes \<Rightarrow> nat \<Rightarrow> (nat, nat) Node" where
  "sample_node k v = \<lparr>node_key = \<lparr>preimage = v, key_bytes = k\<rparr>, node_value = v\<rparr>"

definition sample_table :: "(nat, nat) KBucketsTable" where
  "sample_table =
     \<lparr>local_key = \<lparr>preimage = 0, key_bytes = 0\<rparr>,
      buckets = \<lparr>nodes = [sample_node 1 10]\<rparr> # KBucket_new
        # \<lparr>nodes = [sample_node 5 11, sample_node 6 12]\<rparr> # replicate 253 KBucket_new\<rparr>"

lemma sample_table_inv: "table_inv sample_table"
  by code_simp

text \<open>
  the range of a bucket index is exactly the set of distances that the bucket holds, for each
  of the 256 buckets (the last one included, where the upper end wraps around).
\<close>

theorem bucket_range_exact:
  assumes "i < NUM_BUCKETS"
  shows "BucketIndex_new d = Some i \<longleftrightarrow> fst (BucketIndex_range i) \<le> d \<and> d \<le> snd (BucketIndex_range i)"
  by (rule BucketIndex_range_iff [OF assms]) simp

theorem bucket_range_exact_witness:
  "BucketIndex_new 9 = Some 3 \<longleftrightarrow> fst (BucketIndex_range 3) \<le> 9 \<and> 9 \<le> snd (BucketIndex_range 3)"
  by (rule bucket_range_exact) (simp add: NUM_BUCKETS_def)

text \<open>
  \<open>rand_distance\<close> returns a distance of the bucket it is called for, whatever bytes the
  generator returns, as long as \<open>gen_range\<close> stays within its bounds.
\<close>

theorem rand_distance_bucket:
  assumes "ix < NUM_BUCKETS"
    and "\<And>a b. a < b \<Longrightarrow> a \<le> gen_range a b \<and> gen_range a b < b"
  shows "BucketIndex_new (rand_distance ix gen gen_range) = Some ix"
  using assms by (rule rand_distance_in_bucket)

theorem rand_distance_bucket_witness:
  "BucketIndex_new (rand_distance 13 (\<lambda>_. 255) (\<lambda>a b. b - 1)) = Some 13"
  by (rule rand_distance_bucket) (auto simp: NUM_BUCKETS_def)

text \<open>
  C39: the routing table refines a finite map from key bytes to values with bounded buckets. The
  entry of a key is \<open>Present\<close> exactly for the keys of the map, and then can be changed and removed
  without a panic. An \<open>Absent\<close> entry is inserted unless its bucket holds \<open>K_VALUE\<close> nodes, and then
  nothing changes. The local key has no entry. Every operation keeps the invariant: at most
  \<open>K_VALUE\<close> nodes per bucket, no key twice, every node in the bucket of its distance.
\<close>

theorem table_entry_refines_map:
  assumes "table_inv t"
  shows "case table_entry t k of
      Present e \<Rightarrow>
        table_map t (key_bytes k) = present_value t e \<and> present_value t e \<noteq> None
        \<and> (\<exists>t'. present_modify t e f = Some t' \<and> table_inv t'
              \<and> table_map t' = (table_map t)(key_bytes k := map_option f (table_map t (key_bytes k))))
        \<and> (\<exists>n t'. present_remove t e = Some (n, t') \<and> table_inv t'
              \<and> table_map t' = (table_map t)(key_bytes k := None))
    | Absent e \<Rightarrow>
        table_map t (key_bytes k) = None
        \<and> (case absent_insert t e v of
             (True, t') \<Rightarrow> table_inv t' \<and> table_map t' = (table_map t)(key_bytes k \<mapsto> v)
           | (False, t') \<Rightarrow> t' = t \<and> length (entry_nodes t e) = K_VALUE)
    | SelfEntry \<Rightarrow> key_bytes k = key_bytes (local_key t) \<and> table_map t (key_bytes k) = None"
proof (cases "table_entry t k")
  case (Present e)
  then have p: "is_present t e (key_bytes k)" by (simp add: is_present_def table_entry_cases)
  have "table_map t (key_bytes k) = present_value t e"
    using entry_value_map [of t k] Present by simp
  moreover have "table_map t (key_bytes k) \<noteq> None" using Present by (simp add: table_entry_cases)
  ultimately show ?thesis
    using Present rt.modify_ok [OF assms p, of f] rt.remove_ok [OF assms p] by simp
next
  case (Absent e)
  then have a: "is_absent t e (key_bytes k)" by (simp add: is_absent_def table_entry_cases)
  obtain ok t' where i: "absent_insert t e v = (ok, t')" by (cases "absent_insert t e v")
  have "length (entry_nodes t e) = K_VALUE" if "\<not> ok"
    using i that by (auto simp: absent_insert_def bucket_insert_def entry_nodes_def bucket_iter_def split: if_splits)
  with Absent i rt.insert_ok [OF assms a] rt.insert_full [of t e v] is_absentD(2) [OF a] show ?thesis
    by (cases ok) auto
next
  case SelfEntry
  then have "key_bytes k = key_bytes (local_key t)" by (simp add: table_entry_cases)
  with SelfEntry show ?thesis by (simp add: table_map_def)
qed

theorem table_entry_refines_map_witness:
  "table_inv sample_table
   \<and> (case table_entry sample_table \<lparr>preimage = 9, key_bytes = 4\<rparr> of
        Absent e \<Rightarrow>
          (case absent_insert sample_table e 9 of
             (True, t') \<Rightarrow> table_map t' = (table_map sample_table)(4 \<mapsto> 9)
           | (False, t') \<Rightarrow> t' = sample_table)
      | _ \<Rightarrow> False)"
proof -
  have "table_entry sample_table \<lparr>preimage = 9, key_bytes = 4\<rparr> =
      Absent \<lparr>entry_bucket = 2, entry_key = \<lparr>preimage = 9, key_bytes = 4\<rparr>\<rparr>" by code_simp
  with table_entry_refines_map [OF sample_table_inv, of "\<lparr>preimage = 9, key_bytes = 4\<rparr>" id 9]
  show ?thesis by (auto simp: sample_table_inv split: prod.splits bool.splits)
qed

text \<open>
  a full bucket takes a new entry after one of its nodes is removed through the entry: the
  insertion then succeeds, only the removed key leaves the table and only the new key enters, so
  the number of entries is as before.
\<close>

theorem table_replace_entry:
  assumes "table_inv t" "table_entry t k = Absent e"
    and "n \<in> set (entry_nodes t e)"
    and "absent_bucket_remove t e (node_key n) = (r, t1)" "absent_insert t1 e v = (ok, t2)"
  shows "ok \<and> table_inv t2 \<and> table_map t2 = (table_map t)(node_bytes n := None, key_bytes k \<mapsto> v)
    \<and> card (dom (table_map t2)) = card (dom (table_map t))"
proof -
  have a: "is_absent t e (key_bytes k)" using assms(2) by (simp add: is_absent_def table_entry_cases)
  from table_invD(2) [OF assms(1) is_absentD(1) [OF a]] table_invD(1) [OF assms(1)] assms(3)
  have "shares_bucket t e (node_bytes n)" by (auto simp: shares_bucket_def)
  from rt.replace_ok [OF assms(1) a this assms(4,5)] show ?thesis .
qed

theorem table_replace_entry_witness:
  "\<exists>t1 t2 r ok. absent_bucket_remove sample_table \<lparr>entry_bucket = 2, entry_key = \<lparr>preimage = 9, key_bytes = 4\<rparr>\<rparr>
      (node_key (sample_node 5 11)) = (r, t1)
    \<and> absent_insert t1 \<lparr>entry_bucket = 2, entry_key = \<lparr>preimage = 9, key_bytes = 4\<rparr>\<rparr> 9 = (ok, t2)
    \<and> ok \<and> table_map t2 = (table_map sample_table)(5 := None, 4 \<mapsto> 9)"
proof -
  let ?e = "\<lparr>entry_bucket = 2, entry_key = \<lparr>preimage = 9, key_bytes = 4\<rparr>\<rparr>"
  have e: "table_entry sample_table \<lparr>preimage = 9, key_bytes = 4\<rparr> = Absent ?e" by code_simp
  have n: "sample_node 5 11 \<in> set (entry_nodes sample_table ?e)"
    by (simp add: entry_nodes_def bucket_iter_def sample_table_def)
  obtain r t1 where r: "absent_bucket_remove sample_table ?e (node_key (sample_node 5 11)) = (r, t1)"
    by (cases "absent_bucket_remove sample_table ?e (node_key (sample_node 5 11))")
  obtain ok t2 where i: "absent_insert t1 ?e 9 = (ok, t2)" by (cases "absent_insert t1 ?e 9")
  from table_replace_entry [OF sample_table_inv e n r i] r i show ?thesis
    by (auto simp: sample_node_def)
qed

end
