(* ===== verification/Closest_Iter.thy ===== *)
theory Closest_Iter
  imports KBucket
begin

text \<open>
  The iterators over the entries closest to a target (\<open>protocols/kad/src/kbucket.rs\<close>):
  \<open>ClosestBucketsIter\<close> enumerates the bucket indices, \<open>ClosestIter\<close> the entries of the buckets,
  each bucket sorted by its distance to the target. An iterator is its state and a \<open>next\<close>
  function; collecting it is a terminating recursion over \<open>next\<close>.
\<close>

section \<open>The order of the buckets\<close>

datatype ClosestBucketsIterState =
    Start BucketIndex
  | ZoomIn BucketIndex
  | ZoomOut BucketIndex
  | Done

record ClosestBucketsIter =
  cbi_distance :: Distance
  cbi_state :: ClosestBucketsIterState

definition cbi_new :: "Distance \<Rightarrow> ClosestBucketsIter" where
  "cbi_new d =
     \<lparr>cbi_distance = d,
      cbi_state = (case BucketIndex_new d of Some i \<Rightarrow> Start i | None \<Rightarrow> Start 0)\<rparr>"

definition next_in :: "Distance \<Rightarrow> BucketIndex \<Rightarrow> BucketIndex option" where
  "next_in d i = find_map (\<lambda>i. if bit d i then Some i else None) (rev [0..<i])"

definition next_out :: "Distance \<Rightarrow> BucketIndex \<Rightarrow> BucketIndex option" where
  "next_out d i = find_map (\<lambda>i. if \<not> bit d i then Some i else None) [i + 1..<NUM_BUCKETS]"

definition cbi_next :: "ClosestBucketsIter \<Rightarrow> BucketIndex option \<times> ClosestBucketsIter" where
  "cbi_next it =
     (case cbi_state it of
        Start i \<Rightarrow> (Some i, it\<lparr>cbi_state := ZoomIn i\<rparr>)
      | ZoomIn i \<Rightarrow>
          (case next_in (cbi_distance it) i of
             Some i' \<Rightarrow> (Some i', it\<lparr>cbi_state := ZoomIn i'\<rparr>)
           | None \<Rightarrow> (Some 0, it\<lparr>cbi_state := ZoomOut 0\<rparr>))
      | ZoomOut i \<Rightarrow>
          (case next_out (cbi_distance it) i of
             Some i' \<Rightarrow> (Some i', it\<lparr>cbi_state := ZoomOut i'\<rparr>)
           | None \<Rightarrow> (None, it\<lparr>cbi_state := Done\<rparr>))
      | Done \<Rightarrow> (None, it))"

fun cbi_measure :: "ClosestBucketsIterState \<Rightarrow> nat" where
  "cbi_measure (Start i) = NUM_BUCKETS + i + 2"
| "cbi_measure (ZoomIn i) = NUM_BUCKETS + i + 1"
| "cbi_measure (ZoomOut i) = NUM_BUCKETS - i"
| "cbi_measure Done = 0"

lemma next_in_less: "next_in d i = Some j \<Longrightarrow> j < i \<and> bit d j"
proof -
  assume "next_in d i = Some j"
  then obtain ys x zs where s: "rev [0..<i] = ys @ x # zs" "(if bit d x then Some x else None) = Some j"
    unfolding next_in_def find_map_Some_iff by blast
  then have "x \<in> set (rev [0..<i])" by (metis in_set_conv_decomp)
  with s(2) show ?thesis by (auto split: if_splits)
qed

lemma next_out_greater: "next_out d i = Some j \<Longrightarrow> i < j \<and> j < NUM_BUCKETS \<and> \<not> bit d j"
proof -
  assume "next_out d i = Some j"
  then obtain ys x zs where s: "[i + 1..<NUM_BUCKETS] = ys @ x # zs"
      "(if \<not> bit d x then Some x else None) = Some j"
    unfolding next_out_def find_map_Some_iff by blast
  then have "x \<in> set [i + 1..<NUM_BUCKETS]" by (metis in_set_conv_decomp)
  with s(2) show ?thesis by (auto split: if_splits)
qed

lemma cbi_next_decreases:
  "cbi_next it = (Some i, it') \<Longrightarrow> cbi_measure (cbi_state it') < cbi_measure (cbi_state it)"
  by (auto simp: cbi_next_def split: ClosestBucketsIterState.splits option.splits
      dest!: next_in_less next_out_greater)

function closest_buckets :: "ClosestBucketsIter \<Rightarrow> BucketIndex list" where
  "closest_buckets it =
     (case cbi_next it of (None, _) \<Rightarrow> [] | (Some i, it') \<Rightarrow> i # closest_buckets it')"
  by pat_completeness auto
termination
  by (relation "measure (\<lambda>it. cbi_measure (cbi_state it))") (auto dest: cbi_next_decreases [OF sym])

declare closest_buckets.simps [simp del]


section \<open>The entries of the buckets\<close>

record 'o ClosestIter =
  ci_buckets_iter :: ClosestBucketsIter
  ci_iter :: "'o list option"

abbreviation ci_left :: "'o ClosestIter \<Rightarrow> nat" where
  "ci_left ci \<equiv> cbi_measure (cbi_state (ci_buckets_iter ci))"

abbreviation ci_len :: "'o ClosestIter \<Rightarrow> nat" where
  "ci_len ci \<equiv> case_option 0 length (ci_iter ci)"

text \<open>
  The loop of \<open>ClosestIter::next\<close>. The target, the table, the projection \<open>fmap\<close> and the key of a
  projected entry (\<open>TOut: AsRef<KeyBytes>\<close>) do not change during the iteration.
\<close>

function closest_iter_next ::
    "KeyBytes \<Rightarrow> ('a, 'v) KBucketsTable \<Rightarrow> (('a, 'v) KBucket \<Rightarrow> 'o list) \<Rightarrow> ('o \<Rightarrow> KeyBytes) \<Rightarrow>
      'o ClosestIter \<Rightarrow> 'o option \<times> 'o ClosestIter" where
  "closest_iter_next target t fmap key ci =
     (case ci_iter ci of
        Some (k # ks) \<Rightarrow> (Some k, ci\<lparr>ci_iter := Some ks\<rparr>)
      | Some [] \<Rightarrow> closest_iter_next target t fmap key (ci\<lparr>ci_iter := None\<rparr>)
      | None \<Rightarrow>
          (case cbi_next (ci_buckets_iter ci) of
             (Some i, bi) \<Rightarrow>
               closest_iter_next target t fmap key
                 (ci\<lparr>ci_buckets_iter := bi,
                     ci_iter := Some (sort_key (\<lambda>o'. distance target (key o')) (fmap (buckets t ! i)))\<rparr>)
           | (None, bi) \<Rightarrow> (None, ci\<lparr>ci_buckets_iter := bi\<rparr>)))"
  by pat_completeness auto
termination
  by (relation "measures [\<lambda>(_, _, _, _, ci). ci_left ci,
        \<lambda>(_, _, _, _, ci). if ci_iter ci = None then 0 else 1]")
    (auto dest: cbi_next_decreases [OF sym])

declare closest_iter_next.simps [simp del]

lemma closest_iter_next_decreases:
  "closest_iter_next target t fmap key ci = (Some k, ci') \<Longrightarrow>
     (ci', ci) \<in> measures [ci_left, ci_len]"
proof (induction target t fmap key ci rule: closest_iter_next.induct)
  case (1 target t fmap key ci)
  show ?case
  proof (cases "ci_iter ci")
    case None
    obtain r bi where n: "cbi_next (ci_buckets_iter ci) = (r, bi)" by (cases "cbi_next (ci_buckets_iter ci)")
    with None "1.prems" obtain i where i: "r = Some i"
      by (cases r) (auto simp: closest_iter_next.simps [of _ _ _ _ ci])
    let ?ci = "ci\<lparr>ci_buckets_iter := bi,
      ci_iter := Some (sort_key (\<lambda>o'. distance target (key o')) (fmap (buckets t ! i)))\<rparr>"
    have "closest_iter_next target t fmap key ?ci = (Some k, ci')"
      using "1.prems" None n i by (simp add: closest_iter_next.simps [of _ _ _ _ ci])
    with "1.IH"(1) [OF None n [symmetric] i] have "(ci', ?ci) \<in> measures [ci_left, ci_len]"
      by simp
    then show ?thesis using cbi_next_decreases n i by fastforce
  next
    case (Some ks)
    show ?thesis
    proof (cases ks)
      case Nil
      with Some "1.prems" have "closest_iter_next target t fmap key (ci\<lparr>ci_iter := None\<rparr>) = (Some k, ci')"
        by (simp add: closest_iter_next.simps [of _ _ _ _ ci])
      from "1.IH"(2) [OF Some Nil this] show ?thesis using Some Nil by auto
    next
      case (Cons x xs)
      with Some "1.prems" show ?thesis by (auto simp: closest_iter_next.simps [of _ _ _ _ ci])
    qed
  qed
qed

function closest_collect ::
    "KeyBytes \<Rightarrow> ('a, 'v) KBucketsTable \<Rightarrow> (('a, 'v) KBucket \<Rightarrow> 'o list) \<Rightarrow> ('o \<Rightarrow> KeyBytes) \<Rightarrow>
      'o ClosestIter \<Rightarrow> 'o list" where
  "closest_collect target t fmap key ci =
     (case closest_iter_next target t fmap key ci of
        (None, _) \<Rightarrow> []
      | (Some k, ci') \<Rightarrow> k # closest_collect target t fmap key ci')"
  by pat_completeness auto
termination
  by (relation "inv_image (measures [ci_left, ci_len]) (\<lambda>(_, _, _, _, ci). ci)")
    (auto dest!: closest_iter_next_decreases [OF sym])

declare closest_collect.simps [simp del]

definition closest_keys :: "('a, 'v) KBucketsTable \<Rightarrow> KeyBytes \<Rightarrow> 'a Key list" where
  "closest_keys t target =
     closest_collect target t (\<lambda>b. map node_key (bucket_iter b)) key_bytes
       \<lparr>ci_buckets_iter = cbi_new (distance (key_bytes (local_key t)) target), ci_iter = None\<rparr>"

definition closest :: "('a, 'v) KBucketsTable \<Rightarrow> KeyBytes \<Rightarrow> ('a, 'v) Node list" where
  "closest t target =
     closest_collect target t bucket_iter node_bytes
       \<lparr>ci_buckets_iter = cbi_new (distance (key_bytes (local_key t)) target), ci_iter = None\<rparr>"

definition count_nodes_between :: "('a, 'v) KBucketsTable \<Rightarrow> KeyBytes \<Rightarrow> nat" where
  "count_nodes_between t target =
     (let l = key_bytes (local_key t);
          d = distance target l;
          iter = takeWhile (\<lambda>i. i \<noteq> 0) (closest_buckets (cbi_new d))
      in case iter of
           [] \<Rightarrow> 0
         | i # rest \<Rightarrow>
             length (filter (\<lambda>n. distance (node_bytes n) l \<le> d) (bucket_iter (buckets t ! i)))
             + sum_list (map (\<lambda>i. bucket_num_entries (buckets t ! i)) rest))"


section \<open>Which buckets are visited, and when\<close>

lemma filter_rev_upt_tl:
  "filter P (rev [0..<i]) = x # xs \<Longrightarrow> xs = filter P (rev [0..<x])"
  by (induction i) (auto split: if_splits)

lemma filter_upt_tl:
  "filter P [i..<n] = x # xs \<Longrightarrow> xs = filter P [Suc x..<n]"
proof (induction "n - i" arbitrary: i)
  case 0
  then show ?case by simp
next
  case (Suc m)
  then have "[i..<n] = i # [Suc i..<n]" by (simp add: upt_conv_Cons)
  moreover have "m = n - Suc i" using Suc.hyps(2) by simp
  ultimately show ?case using Suc.hyps(1) [of "Suc i"] Suc.prems by (auto split: if_splits)
qed

lemma find_map_filter:
  "find_map (\<lambda>i. if P i then Some i else None) xs =
     (case filter P xs of [] \<Rightarrow> None | x # _ \<Rightarrow> Some x)"
  by (induction xs) auto

lemma zoom_out_buckets:
  "closest_buckets \<lparr>cbi_distance = d, cbi_state = ZoomOut i\<rparr>
     = filter (\<lambda>j. \<not> bit d j) [Suc i..<NUM_BUCKETS]"
proof (induction "NUM_BUCKETS - i" arbitrary: i rule: less_induct)
  case less
  let ?f = "filter (\<lambda>j. \<not> bit d j) [Suc i..<NUM_BUCKETS]"
  have no: "next_out d i = (case ?f of [] \<Rightarrow> None | x # _ \<Rightarrow> Some x)"
    unfolding next_out_def find_map_filter by simp
  show ?case
  proof (cases ?f)
    case Nil
    then show ?thesis using no by (simp add: closest_buckets.simps cbi_next_def)
  next
    case (Cons x xs)
    then have n: "next_out d i = Some x" using no by simp
    from next_out_greater [OF n] have "NUM_BUCKETS - x < NUM_BUCKETS - i" by linarith
    from less.hyps [OF this] filter_upt_tl [OF Cons] Cons n show ?thesis
      by (subst closest_buckets.simps) (simp add: cbi_next_def)
  qed
qed

lemma zoom_in_buckets:
  "closest_buckets \<lparr>cbi_distance = d, cbi_state = ZoomIn i\<rparr>
     = filter (bit d) (rev [0..<i]) @ 0 # filter (\<lambda>j. \<not> bit d j) [1..<NUM_BUCKETS]"
proof (induction i rule: less_induct)
  case (less i)
  let ?f = "filter (bit d) (rev [0..<i])"
  have ni: "next_in d i = (case ?f of [] \<Rightarrow> None | x # _ \<Rightarrow> Some x)"
    unfolding next_in_def find_map_filter by simp
  show ?case
  proof (cases ?f)
    case Nil
    then show ?thesis using ni
      by (subst closest_buckets.simps) (simp add: cbi_next_def zoom_out_buckets)
  next
    case (Cons x xs)
    then have n: "next_in d i = Some x" using ni by simp
    with next_in_less have "x < i" by blast
    from less.IH [OF this] filter_rev_upt_tl [OF Cons] Cons n show ?thesis
      by (subst closest_buckets.simps) (simp add: cbi_next_def)
  qed
qed

text \<open>
  The set bits of the distance from the highest to the lowest, then bucket 0, then the clear
  bits from 1 upwards. Bucket 0 comes a second time when bit 0 is set, and when the distance is
  zero (the iterator starts at bucket 0).
\<close>

lemma closest_buckets_new:
  "closest_buckets (cbi_new d) =
     (if d = 0 then [0] else filter (bit d) (rev [0..<NUM_BUCKETS]))
     @ 0 # filter (\<lambda>j. \<not> bit d j) [1..<NUM_BUCKETS]"
proof (cases "ilog2 d")
  case None
  then show ?thesis
    by (subst closest_buckets.simps)
      (simp add: cbi_new_def BucketIndex_new_def cbi_next_def zoom_in_buckets)
next
  case (Some i)
  then have b: "bit d i" "\<forall>j > i. \<not> bit d j" and i: "i < NUM_BUCKETS" and d: "d \<noteq> 0"
    using ilog2_bound [OF Some] by (auto simp: ilog2_bit_iff NUM_BUCKETS_def)
  have "[0..<NUM_BUCKETS] = [0..<i] @ i # [Suc i..<NUM_BUCKETS]"
    using i by (metis less_imp_le_nat upt_add_eq_append upt_conv_Cons zero_le le_add_diff_inverse)
  then have "filter (bit d) (rev [0..<NUM_BUCKETS]) = i # filter (bit d) (rev [0..<i])"
    using b by (simp add: filter_empty_conv)
  then show ?thesis using Some d
    by (subst closest_buckets.simps)
      (simp add: cbi_new_def BucketIndex_new_def cbi_next_def zoom_in_buckets)
qed

definition revisits_0 :: "Distance \<Rightarrow> bool" where
  "revisits_0 d \<longleftrightarrow> d = 0 \<or> bit d 0"

lemma mset_ones_zeros:
  "mset (filter P (x # ys)) + add_mset x (mset (filter (\<lambda>y. \<not> P y) ys)) =
     mset (x # ys) + (if P x then {#x#} else {#})"
  by (induction ys) auto

lemma mset_closest_buckets:
  "mset (closest_buckets (cbi_new d)) =
     mset [0..<NUM_BUCKETS] + (if revisits_0 d then {#0#} else {#})"
proof -
  have z: "[0..<NUM_BUCKETS] = 0 # [1..<NUM_BUCKETS]" by (simp add: NUM_BUCKETS_def upt_conv_Cons)
  show ?thesis
  proof (cases "d = 0")
    case True
    then show ?thesis by (simp add: closest_buckets_new revisits_0_def z)
  next
    case False
    then have "mset (closest_buckets (cbi_new d)) = mset (filter (bit d) [0..<NUM_BUCKETS])
        + add_mset 0 (mset (filter (\<lambda>j. \<not> bit d j) [1..<NUM_BUCKETS]))"
      by (simp only: closest_buckets_new if_False mset_append mset.simps rev_filter [symmetric] mset_rev)
    also have "\<dots> = mset [0..<NUM_BUCKETS] + (if bit d 0 then {#0#} else {#})"
      unfolding z by (rule mset_ones_zeros)
    finally show ?thesis using False by (simp only: revisits_0_def) simp
  qed
qed


section \<open>Entries in the order of their distance\<close>

lemma xor_bucket_order:
  assumes a: "ilog2 a = Some i" and b: "ilog2 b = Some j" and ne: "i \<noteq> j"
    and ord: "bit d i \<and> (bit d j \<longrightarrow> j < i) \<or> \<not> bit d i \<and> \<not> bit d j \<and> i < j"
  shows "d XOR a < d XOR b"
proof (cases "j < i")
  case True
  with ord have "bit d i" by auto
  with True a b show ?thesis
    by (intro less_by_bit [of i]) (auto simp: bit_xor_iff ilog2_bit_iff)
next
  case False
  with ne have "i < j" by simp
  with ord have "\<not> bit d j" by auto
  with \<open>i < j\<close> a b show ?thesis
    by (intro less_by_bit [of j]) (auto simp: bit_xor_iff ilog2_bit_iff)
qed

definition bucket_le :: "Distance \<Rightarrow> BucketIndex \<Rightarrow> BucketIndex \<Rightarrow> bool" where
  "bucket_le d i j \<longleftrightarrow>
     (\<forall>a b. ilog2 a = Some i \<longrightarrow> ilog2 b = Some j \<longrightarrow> d XOR a \<le> d XOR b)"

lemma bucket_le_0_0: "bucket_le d 0 0"
proof -
  have "a = b" if "ilog2 a = Some 0" "ilog2 b = Some 0" for a b
    using that by (simp add: ilog2_range_iff word_unat_eq_iff)
  then show ?thesis by (auto simp: bucket_le_def)
qed

lemma bucket_leI:
  assumes "i \<noteq> j \<Longrightarrow> bit d i \<and> (bit d j \<longrightarrow> j < i) \<or> \<not> bit d i \<and> \<not> bit d j \<and> i < j"
    and "i = j \<Longrightarrow> i = 0"
  shows "bucket_le d i j"
proof (cases "i = j")
  case True
  with assms(2) bucket_le_0_0 show ?thesis by simp
next
  case False
  with assms(1) xor_bucket_order [of _ i _ j d] show ?thesis
    by (auto simp: bucket_le_def intro!: less_imp_le)
qed

lemma closest_buckets_sorted: "sorted_wrt (bucket_le d) (closest_buckets (cbi_new d))"
proof -
  let ?ones = "filter (bit d) (rev [0..<NUM_BUCKETS])"
    and ?zeros = "filter (\<lambda>j. \<not> bit d j) [1..<NUM_BUCKETS]"
  have "sorted_wrt (\<lambda>i j. j < i) (rev [0..<NUM_BUCKETS])"
    by (simp add: sorted_wrt_rev)
  then have "sorted_wrt (\<lambda>i j. j < i) ?ones" by (rule sorted_wrt_filter)
  then have ones: "sorted_wrt (bucket_le d) ?ones"
    by (rule sorted_wrt_mono_rel [rotated]) (auto intro!: bucket_leI)
  have "sorted_wrt (<) ?zeros" by (rule sorted_wrt_filter) simp
  then have zeros: "sorted_wrt (bucket_le d) ?zeros"
    by (rule sorted_wrt_mono_rel [rotated]) (auto intro!: bucket_leI)
  have 1: "bucket_le d 0 j" if "j \<in> set ?zeros" for j
    using that by (intro bucket_leI) (auto)
  have 2: "bucket_le d i j" if "i \<in> set ?ones" "j \<in> set (0 # ?zeros)" for i j
    using that by (intro bucket_leI) (auto)
  show ?thesis
  proof (cases "d = 0")
    case True
    with zeros 1 bucket_le_0_0 show ?thesis by (simp add: closest_buckets_new)
  next
    case False
    with ones zeros 1 2 show ?thesis
      by (simp only: closest_buckets_new if_False sorted_wrt_append sorted_wrt.simps) blast
  qed
qed

text \<open>Collecting the iterator is going through the buckets in their order.\<close>

definition ci_rest ::
    "KeyBytes \<Rightarrow> ('a, 'v) KBucketsTable \<Rightarrow> (('a, 'v) KBucket \<Rightarrow> 'o list) \<Rightarrow> ('o \<Rightarrow> KeyBytes) \<Rightarrow>
      'o ClosestIter \<Rightarrow> 'o list" where
  "ci_rest target t fmap key ci =
     case_option [] id (ci_iter ci) @
     concat (map (\<lambda>i. sort_key (\<lambda>o'. distance target (key o')) (fmap (buckets t ! i)))
       (closest_buckets (ci_buckets_iter ci)))"

lemma closest_iter_next_rest:
  "ci_rest target t fmap key ci =
     (case closest_iter_next target t fmap key ci of
        (None, _) \<Rightarrow> []
      | (Some k, ci') \<Rightarrow> k # ci_rest target t fmap key ci')"
proof (induction target t fmap key ci rule: closest_iter_next.induct)
  case (1 target t fmap key ci)
  show ?case
  proof (cases "ci_iter ci")
    case None
    obtain r bi where n: "cbi_next (ci_buckets_iter ci) = (r, bi)"
      by (cases "cbi_next (ci_buckets_iter ci)")
    show ?thesis
    proof (cases r)
      case None
      with n \<open>ci_iter ci = None\<close> show ?thesis
        by (simp add: closest_iter_next.simps [of _ _ _ _ ci] ci_rest_def
            closest_buckets.simps [of "ci_buckets_iter ci"])
    next
      case (Some i)
      from "1.IH"(1) [OF \<open>ci_iter ci = None\<close> n [symmetric] Some] n Some \<open>ci_iter ci = None\<close>
      show ?thesis
        by (simp add: closest_iter_next.simps [of _ _ _ _ ci] ci_rest_def
            closest_buckets.simps [of "ci_buckets_iter ci"])
    qed
  next
    case (Some ks)
    show ?thesis
    proof (cases ks)
      case Nil
      from "1.IH"(2) [OF Some Nil] Some Nil show ?thesis
        by (simp add: closest_iter_next.simps [of _ _ _ _ ci] ci_rest_def)
    next
      case (Cons x xs)
      with Some show ?thesis
        by (simp add: closest_iter_next.simps [of _ _ _ _ ci] ci_rest_def)
    qed
  qed
qed

lemma closest_collect_rest: "closest_collect target t fmap key ci = ci_rest target t fmap key ci"
proof (induction target t fmap key ci rule: closest_collect.induct)
  case (1 target t fmap key ci)
  then show ?case
    by (subst closest_collect.simps, subst closest_iter_next_rest)
      (auto split: prod.splits option.splits)
qed

abbreviation target_order :: "('a, 'v) KBucketsTable \<Rightarrow> KeyBytes \<Rightarrow> BucketIndex list" where
  "target_order t target \<equiv> closest_buckets (cbi_new (distance (key_bytes (local_key t)) target))"

lemma closest_eq:
  "closest t target = concat (map (\<lambda>i. sort_key (\<lambda>n. distance target (node_bytes n)) (nodes (buckets t ! i)))
     (target_order t target))"
  by (simp add: closest_def closest_collect_rest ci_rest_def bucket_iter_def)

lemma sort_key_map: "sort_key f (map g xs) = map g (sort_key (\<lambda>x. f (g x)) xs)"
proof -
  have "insort_key f (g x) (map g ys) = map g (insort_key (\<lambda>x. f (g x)) x ys)" for x ys
    by (induction ys) auto
  then show ?thesis by (induction xs) (auto simp: sort_key_def)
qed

lemma closest_keys_eq: "closest_keys t target = map node_key (closest t target)"
  by (simp add: closest_keys_def closest_collect_rest ci_rest_def closest_eq bucket_iter_def
      map_concat comp_def sort_key_map)

text \<open>All nodes of the table, bucket by bucket.\<close>

definition all_nodes :: "('a, 'v) KBucketsTable \<Rightarrow> ('a, 'v) Node list" where
  "all_nodes t = concat (map nodes (buckets t))"

lemma in_all_nodes:
  "n \<in> set (all_nodes t) \<longleftrightarrow> (\<exists>i < length (buckets t). n \<in> set (nodes (buckets t ! i)))"
proof -
  have "n \<in> set (all_nodes t) \<longleftrightarrow> (\<exists>b \<in> set (buckets t). n \<in> set (nodes b))"
    by (auto simp: all_nodes_def)
  then show ?thesis by (metis in_set_conv_nth)
qed

lemma bucket_of_order:
  "i \<in> set (target_order t target) \<Longrightarrow> i < NUM_BUCKETS"
proof -
  assume "i \<in> set (target_order t target)"
  then have "i \<in># mset (target_order t target)" by simp
  then show ?thesis unfolding mset_closest_buckets by (auto simp: NUM_BUCKETS_def split: if_splits)
qed

lemma closest_sorted:
  assumes "table_inv t"
  shows "sorted (map (\<lambda>n. distance target (node_bytes n)) (closest t target))"
proof -
  let ?l = "key_bytes (local_key t)" and ?R = "\<lambda>m n. distance target (node_bytes m) \<le> distance target (node_bytes n)"
  let ?S = "\<lambda>i. sort_key (\<lambda>n. distance target (node_bytes n)) (nodes (buckets t ! i))"
  have log: "ilog2 (distance ?l (node_bytes n)) = Some i" if "i < NUM_BUCKETS" "n \<in> set (?S i)" for i n
    using table_invD(3) [OF assms that(1)] that(2) by (simp add: bucket_inv_def)
  have "sorted_wrt ?R (concat (map ?S (target_order t target)))"
  proof (rule sorted_wrt_concat_map)
    fix i show "sorted_wrt ?R (?S i)"
      using sorted_sort_key [of "\<lambda>n. distance target (node_bytes n)"] by (simp add: sorted_map)
  next
    show "sorted_wrt (\<lambda>i j. \<forall>m \<in> set (?S i). \<forall>n \<in> set (?S j). ?R m n) (target_order t target)"
    proof (rule sorted_wrt_mono_rel [OF _ closest_buckets_sorted])
      fix i j
      assume ij: "i \<in> set (target_order t target)" "j \<in> set (target_order t target)"
        and le: "bucket_le (distance ?l target) i j"
      show "\<forall>m \<in> set (?S i). \<forall>n \<in> set (?S j). ?R m n"
      proof (intro ballI)
        fix m n assume m: "m \<in> set (?S i)" and n: "n \<in> set (?S j)"
        from log [OF bucket_of_order [OF ij(1)] m] log [OF bucket_of_order [OF ij(2)] n] le
        show "?R m n" by (simp add: bucket_le_def distance_via [of target _ ?l])
      qed
    qed
  qed
  then show ?thesis by (simp add: closest_eq sorted_map)
qed

lemma mset_concat_map: "mset (concat (map f xs)) = (\<Sum>x \<in># mset xs. mset (f x))"
  by (induction xs) auto

lemma mset_closest:
  assumes "table_inv t"
  shows "mset (closest t target) = mset (all_nodes t) +
    (if revisits_0 (distance (key_bytes (local_key t)) target) then mset (nodes (buckets t ! 0)) else {#})"
proof -
  have bs: "map ((!) (buckets t)) [0..<NUM_BUCKETS] = buckets t"
    using map_nth [of "buckets t"] table_invD(1) [OF assms] by simp
  have "all_nodes t = concat (map (\<lambda>i. nodes (buckets t ! i)) [0..<NUM_BUCKETS])"
    unfolding all_nodes_def by (subst bs [symmetric]) (simp add: comp_def del: upt_Suc)
  then have "mset (all_nodes t) = (\<Sum>i \<in># mset [0..<NUM_BUCKETS]. mset (nodes (buckets t ! i)))"
    by (simp only: mset_concat_map)
  then show ?thesis
    by (simp add: closest_eq mset_concat_map mset_closest_buckets del: mset_upt)
qed

lemma table_map_nodes:
  assumes "table_inv t"
  shows "table_map t k = Some v \<longleftrightarrow> (\<exists>n \<in> set (all_nodes t). node_bytes n = k \<and> node_value n = v)"
    (is "?L \<longleftrightarrow> ?R")
proof
  assume ?L
  then obtain i where i: "home t k = Some i" "bucket_map (buckets t ! i) k = Some v"
    by (auto simp: table_map_def split: option.splits)
  then have "i < length (buckets t)" using table_invD(1,2) [OF assms] by auto
  moreover have "\<exists>n \<in> set (nodes (buckets t ! i)). node_bytes n = k \<and> node_value n = v"
    using map_of_SomeD [OF i(2) [unfolded bucket_map_def]] by auto
  ultimately show ?R using in_all_nodes [of _ t] by blast
next
  assume ?R
  then obtain n i where n: "i < length (buckets t)" "n \<in> set (nodes (buckets t ! i))" "node_bytes n = k"
    "node_value n = v" by (auto simp: in_all_nodes)
  with table_invD(1,3) [OF assms] have b: "bucket_inv (key_bytes (local_key t)) i (buckets t ! i)" by simp
  then have "bucket_map (buckets t ! i) k = Some v"
    using n unfolding bucket_map_def
    by (intro map_of_is_SomeI) (auto simp: bucket_inv_def comp_def)
  with b n show ?L by (auto simp: bucket_inv_def table_map_def)
qed

text \<open>Two nodes of the table with one key are one node, so the distances from a target tell the
  nodes apart.\<close>

lemma node_id_inj:
  assumes "table_inv t"
  shows "inj_on node_bytes (set (all_nodes t))"
proof (rule inj_onI)
  fix m n assume mn: "m \<in> set (all_nodes t)" "n \<in> set (all_nodes t)" "node_bytes m = node_bytes n"
  then obtain i j where ij: "i < NUM_BUCKETS" "m \<in> set (nodes (buckets t ! i))"
      "j < NUM_BUCKETS" "n \<in> set (nodes (buckets t ! j))"
    by (auto simp: in_all_nodes table_invD(1) [OF assms])
  have "i = j"
    using table_invD(3) [OF assms ij(1)] table_invD(3) [OF assms ij(3)] ij mn(3)
    by (auto simp: bucket_inv_def)
  with table_invD(3) [OF assms ij(1)] ij mn(3) show "m = n"
    by (auto simp: bucket_inv_def distinct_map dest: inj_onD)
qed

definition full_scan :: "('a, 'v) KBucketsTable \<Rightarrow> KeyBytes \<Rightarrow> ('a, 'v) Node list" where
  "full_scan t target = sort_key (\<lambda>n. distance target (node_bytes n))
     (all_nodes t @ (if revisits_0 (distance (key_bytes (local_key t)) target) then nodes (buckets t ! 0) else []))"

lemma nodes_all_nodes: "table_inv t \<Longrightarrow> i < NUM_BUCKETS \<Longrightarrow> set (nodes (buckets t ! i)) \<subseteq> set (all_nodes t)"
  by (auto simp: in_all_nodes table_invD(1))

lemma closest_full_scan:
  assumes "table_inv t"
  shows "closest t target = full_scan t target"
  unfolding full_scan_def
proof (rule sort_key_inj_key_eq [symmetric])
  show "mset (all_nodes t @ (if revisits_0 (distance (key_bytes (local_key t)) target)
      then nodes (buckets t ! 0) else [])) = mset (closest t target)"
    by (simp add: mset_closest [OF assms])
  have "inj_on (\<lambda>n. distance target (node_bytes n)) (set (all_nodes t))"
    using node_id_inj [OF assms] kad.dist_inject unfolding inj_on_def by blast
  then show "inj_on (\<lambda>n. distance target (node_bytes n)) (set (all_nodes t @
      (if revisits_0 (distance (key_bytes (local_key t)) target) then nodes (buckets t ! 0) else [])))"
    by (rule inj_on_subset) (use nodes_all_nodes [OF assms, of 0] in \<open>auto simp: NUM_BUCKETS_def split: if_splits\<close>)
  show "sorted (map (\<lambda>n. distance target (node_bytes n)) (closest t target))"
    by (rule closest_sorted [OF assms])
qed

section \<open>Counting the nodes between two keys\<close>

lemma xor_less_iff:
  assumes "ilog2 a = Some i"
  shows "d XOR a < d \<longleftrightarrow> bit d i"
proof
  assume "bit d i"
  with assms show "d XOR a < d"
    by (intro less_by_bit [of i]) (auto simp: bit_xor_iff ilog2_bit_iff)
next
  assume l: "d XOR a < d"
  show "bit d i"
  proof (rule ccontr)
    assume "\<not> bit d i"
    with assms have "d < d XOR a"
      by (intro less_by_bit [of i]) (auto simp: bit_xor_iff ilog2_bit_iff)
    with l show False by simp
  qed
qed

lemma take_nonzero_buckets:
  "takeWhile (\<lambda>i. i \<noteq> 0) (closest_buckets (cbi_new d)) = filter (bit d) (rev [1..<NUM_BUCKETS])"
proof (cases "d = 0")
  case True
  then show ?thesis by (simp add: closest_buckets_new)
next
  case False
  have z: "rev [0..<NUM_BUCKETS] = rev [1..<NUM_BUCKETS] @ [0]"
    by (simp add: NUM_BUCKETS_def upt_conv_Cons del: upt_Suc)
  have tw: "takeWhile (\<lambda>i. i \<noteq> 0) (filter (bit d) (rev [1..<NUM_BUCKETS]) @ 0 # ys) =
      filter (bit d) (rev [1..<NUM_BUCKETS])" for ys :: "nat list"
    by (subst takeWhile_append2) auto
  from False show ?thesis
    by (simp only: closest_buckets_new z filter_append append_assoc if_False filter.simps append.simps tw
        if_distrib [of "\<lambda>xs. _ @ xs @ _"] if_distrib [of "takeWhile _"] if_cancel split: if_split)
qed

lemma length_filter_all_nodes:
  assumes "table_inv t"
  shows "length (filter P (all_nodes t)) =
    sum_list (map (\<lambda>i. length (filter P (nodes (buckets t ! i)))) [0..<NUM_BUCKETS])"
proof -
  have bs: "map ((!) (buckets t)) [0..<NUM_BUCKETS] = buckets t"
    using map_nth [of "buckets t"] table_invD(1) [OF assms] by simp
  have "length (filter P (all_nodes t)) = sum_list (map (\<lambda>b. length (filter P (nodes b))) (buckets t))"
    by (simp add: all_nodes_def filter_concat length_concat comp_def)
  also have "\<dots> = sum_list (map (\<lambda>b. length (filter P (nodes b))) (map ((!) (buckets t)) [0..<NUM_BUCKETS]))"
    by (simp only: bs)
  finally show ?thesis by (simp add: comp_def)
qed

lemma count_first_rest:
  assumes "table_inv t" and L: "filter (bit d) (rev [1..<NUM_BUCKETS]) = i # rest" and j: "j \<in> set rest"
    and n: "n \<in> set (nodes (buckets t ! j))"
  shows "distance (node_bytes n) (key_bytes (local_key t)) \<le> d"
proof -
  have s: "sorted_wrt (\<lambda>i j. j < i) (i # rest)"
    unfolding L [symmetric] by (intro sorted_wrt_filter) (simp add: sorted_wrt_rev)
  have m: "set (i # rest) \<subseteq> {1..<NUM_BUCKETS} \<inter> {k. bit d k}" unfolding L [symmetric] by auto
  have ji: "j < i" "j < NUM_BUCKETS" "bit d i" using s m j by auto
  have i_top: "\<not> bit d k" if "i < k" for k
  proof
    assume "bit d k"
    moreover from this have "k < NUM_BUCKETS" using bit_U256_bound [of d k] by (auto simp: NUM_BUCKETS_def not_le)
    ultimately have "k \<in> set (i # rest)" unfolding L [symmetric] using that by simp
    with s that show False by auto
  qed
  have "ilog2 (distance (key_bytes (local_key t)) (node_bytes n)) = Some j"
    using table_invD(3) [OF assms(1) ji(2)] n by (simp add: bucket_inv_def)
  with ji i_top have "distance (key_bytes (local_key t)) (node_bytes n) < d"
    by (intro less_by_bit [of i]) (auto simp: ilog2_bit_iff)
  then show ?thesis by (simp add: kad.dist_sym [of "node_bytes n"])
qed

lemma count_nodes_between_sum:
  assumes "table_inv t"
  defines "l \<equiv> key_bytes (local_key t)"
  shows "count_nodes_between t target = sum_list (map (\<lambda>i.
     length (filter (\<lambda>n. distance (node_bytes n) l \<le> distance target l) (nodes (buckets t ! i))))
     (filter (bit (distance target l)) (rev [1..<NUM_BUCKETS])))"
proof (cases "filter (bit (distance target l)) (rev [1..<NUM_BUCKETS])")
  case Nil
  then show ?thesis
    unfolding count_nodes_between_def Let_def l_def [symmetric] take_nonzero_buckets by simp
next
  case (Cons i rest)
  have "length (nodes (buckets t ! j)) =
      length (filter (\<lambda>n. distance (node_bytes n) l \<le> distance target l) (nodes (buckets t ! j)))"
    if "j \<in> set rest" for j
    using count_first_rest [OF assms(1) Cons that] by (simp add: l_def cong: filter_cong)
  then have "map (\<lambda>j. length (nodes (buckets t ! j))) rest = map (\<lambda>j.
      length (filter (\<lambda>n. distance (node_bytes n) l \<le> distance target l) (nodes (buckets t ! j)))) rest"
    by (intro map_cong refl)
  with Cons show ?thesis
    unfolding count_nodes_between_def Let_def l_def [symmetric] take_nonzero_buckets bucket_iter_def
      bucket_num_entries_def by (simp del: map_eq_conv)
qed

lemma sum_list_if_filter:
  "sum_list (map (\<lambda>i. if P i then f i else (0 :: nat)) xs) = sum_list (map f (filter P (rev xs)))"
  by (induction xs) auto

lemma between_iff:
  assumes "table_inv t" "i < NUM_BUCKETS" "n \<in> set (nodes (buckets t ! i))"
  shows "distance target (node_bytes n) < distance target (key_bytes (local_key t)) \<and> home t (node_bytes n) \<noteq> Some 0
    \<longleftrightarrow> i \<noteq> 0 \<and> bit (distance target (key_bytes (local_key t))) i"
proof -
  let ?l = "key_bytes (local_key t)"
  have h: "home t (node_bytes n) = Some i" using table_invD(3) [OF assms(1,2)] assms(3) by (simp add: bucket_inv_def)
  have "distance target (node_bytes n) = distance target ?l XOR distance ?l (node_bytes n)"
    unfolding distance_via [of target "node_bytes n" ?l] kad.dist_sym [of ?l target] ..
  with xor_less_iff [OF h, of "distance target ?l"] h show ?thesis by auto
qed

lemma count_nodes_between_eq:
  assumes "table_inv t"
  defines "l \<equiv> key_bytes (local_key t)"
  shows "count_nodes_between t target =
    length (filter (\<lambda>n. distance (node_bytes n) l \<le> distance target l
        \<and> distance target (node_bytes n) < distance target l \<and> home t (node_bytes n) \<noteq> Some 0) (all_nodes t))"
    (is "_ = length (filter ?P _)")
proof -
  let ?d = "distance target l" and ?Q = "\<lambda>n. distance (node_bytes n) l \<le> distance target l"
  have z: "[0..<NUM_BUCKETS] = 0 # [1..<NUM_BUCKETS]" by (simp add: NUM_BUCKETS_def upt_conv_Cons del: upt_Suc)
  have f: "length (filter ?P (nodes (buckets t ! i))) =
      (if i \<noteq> 0 \<and> bit ?d i then length (filter ?Q (nodes (buckets t ! i))) else 0)"
    if "i \<in> set [0..<NUM_BUCKETS]" for i
    using between_iff [OF assms(1), of i _ target] that unfolding l_def
    by (auto simp: filter_empty_conv intro!: arg_cong [of _ _ length] filter_cong)
  have "length (filter ?P (all_nodes t)) = sum_list (map (\<lambda>i. if i \<noteq> 0 \<and> bit ?d i
      then length (filter ?Q (nodes (buckets t ! i))) else 0) [0..<NUM_BUCKETS])"
    unfolding length_filter_all_nodes [OF assms(1)]
    by (intro arg_cong [of _ _ sum_list] map_cong refl f)
  also have "\<dots> = sum_list (map (\<lambda>i. length (filter ?Q (nodes (buckets t ! i))))
      (filter (\<lambda>i. i \<noteq> 0 \<and> bit ?d i) (rev (0 # [1..<NUM_BUCKETS]))))"
    unfolding sum_list_if_filter z ..
  also have "filter (\<lambda>i. i \<noteq> 0 \<and> bit ?d i) (rev (0 # [1..<NUM_BUCKETS])) = filter (bit ?d) (rev [1..<NUM_BUCKETS])"
    by (auto intro: filter_cong)
  finally show ?thesis unfolding count_nodes_between_sum [OF assms(1)] l_def by simp
qed

section \<open>Properties\<close>

text \<open>
  C38: \<open>closest\<close> visits the whole table in the order of the distance from the target: its result is
  the stable sort by distance of all nodes of the table. When the distance from the local key to
  the target is zero or odd, bucket 0 is visited twice, and its node, if there is one, comes twice.
\<close>

theorem closest_is_full_scan:
  assumes "table_inv t"
  shows "closest t target =
      sort_key (\<lambda>n. distance target (node_bytes n))
        (all_nodes t @ (if revisits_0 (distance (key_bytes (local_key t)) target)
                        then nodes (buckets t ! 0) else []))
    \<and> closest_keys t target = map node_key (closest t target)"
  using closest_full_scan [OF assms] by (simp add: full_scan_def closest_keys_eq)

theorem closest_is_full_scan_witness:
  "table_inv sample_table \<and> map node_bytes (closest sample_table 7) = [6, 5, 1, 1]
   \<and> map node_bytes (closest sample_table 4) = [5, 6, 1]"
proof (intro conjI)
  have "map node_bytes (full_scan sample_table 7) = [6, 5, 1, 1]"
    "map node_bytes (full_scan sample_table 4) = [5, 6, 1]" by code_simp+
  then show "map node_bytes (closest sample_table 7) = [6, 5, 1, 1]"
    "map node_bytes (closest sample_table 4) = [5, 6, 1]"
    by (simp_all only: closest_is_full_scan [OF sample_table_inv] full_scan_def)
qed (rule sample_table_inv)

text \<open>
  the closest iterator visits every bucket, in an order in which every node of an earlier
  bucket is at most as far from the target as every node of a later one; only bucket 0 may be
  visited a second time.
\<close>

theorem closest_buckets_order:
  "mset (closest_buckets (cbi_new d)) = mset [0..<NUM_BUCKETS] + (if d = 0 \<or> bit d 0 then {#0#} else {#})
   \<and> sorted_wrt (bucket_le d) (closest_buckets (cbi_new d))"
  using mset_closest_buckets closest_buckets_sorted by (simp add: revisits_0_def)

text \<open>
  \<open>count_nodes_between\<close> counts the nodes of the table that are closer to the target than the
  local node is and no farther from the local node than the target is, without the node of
  bucket 0.
\<close>

theorem count_nodes_between_exact:
  assumes "table_inv t"
  shows "count_nodes_between t target =
    length (filter (\<lambda>n. distance (node_bytes n) (key_bytes (local_key t)) \<le> distance target (key_bytes (local_key t))
        \<and> distance target (node_bytes n) < distance target (key_bytes (local_key t))
        \<and> home t (node_bytes n) \<noteq> Some 0) (all_nodes t))"
  by (rule count_nodes_between_eq [OF assms])

theorem count_nodes_between_exact_witness:
  "count_nodes_between sample_table 5 = 1"
proof -
  have "length (filter (\<lambda>n. distance (node_bytes n) (key_bytes (local_key sample_table)) \<le> distance 5 (key_bytes (local_key sample_table))
        \<and> distance 5 (node_bytes n) < distance 5 (key_bytes (local_key sample_table))
        \<and> home sample_table (node_bytes n) \<noteq> Some 0) (all_nodes sample_table)) = 1" by code_simp
  then show ?thesis by (simp only: count_nodes_between_exact [OF sample_table_inv])
qed

end
