(* ===== verification/Kad_Types.thy ===== *)
theory Kad_Types
  imports Closest_Iter
begin

text \<open>
  Constants, errors and small data types of the Kademlia crate (\<open>protocols/kad/src/lib.rs\<close>,
  \<open>record.rs\<close> and \<open>addresses.rs\<close>). A \<open>Multiaddr\<close> is the byte vector it holds. The payloads of
  errors of other crates (\<open>std::io::Error\<close>, \<open>TransportError\<close>) are their descriptions. A record
  key, \<open>record::Key\<close>, is its bytes.
\<close>

type_synonym Multiaddr = bytes
type_synonym IoError = string
type_synonym TransportError = string
type_synonym RecordKey = bytes

definition ALPHA_VALUE :: nat where
  "ALPHA_VALUE = 3"

definition BETA_VALUE :: nat where
  "BETA_VALUE = 3"

datatype SwarmError =
    NoAddresses PeerId
  | NoConnection PeerId
  | InvalidPeerId PeerId
  | Closing u32
  | General string
  | Transport TransportError
  | Internal
  | CanNotListenOnAny
  | DialToSelf
  | DialBackoff
  | DialNoTransport PeerId
  | AllDialsFailed
  | DialTimeout Multiaddr u64
  | MaxDialAttempts u32
  | ConcurrentDialLimit u32

datatype KadError =
    MaxRecords
  | ValueTooLarge
  | NoKnownPeers
  | NotFound
  | Upgrade
  | Bootstrap
  | Internal
  | Timeout
  | Decode
  | UnexpectedMessage string
  | InvalidSource PeerId
  | Unsupported string
  | Io IoError
  | Swarm SwarmError
  | Closing u32


section \<open>Records\<close>

record Record =
  rec_key :: RecordKey
  rec_value :: bytes
  rec_time_received :: "Instant option"
  publisher :: "PeerId option"

record ProviderRecord =
  prov_key :: RecordKey
  provider :: PeerId
  prov_time_received :: "Instant option"

definition Record_new :: "Instant \<Rightarrow> RecordKey \<Rightarrow> bytes \<Rightarrow> bool \<Rightarrow> PeerId option \<Rightarrow> Record" where
  "Record_new now key value loc publ =
     \<lparr>rec_key = key, rec_value = value, rec_time_received = (if loc then None else Some now),
      publisher = publ\<rparr>"

definition ProviderRecord_new :: "Instant \<Rightarrow> RecordKey \<Rightarrow> PeerId \<Rightarrow> bool \<Rightarrow> ProviderRecord" where
  "ProviderRecord_new now key prov loc =
     \<lparr>prov_key = key, provider = prov, prov_time_received = (if loc then None else Some now)\<rparr>"

definition RecordKey_from_PeerId :: "PeerId \<Rightarrow> RecordKey" where
  "RecordKey_from_PeerId p = to_bytes p"


section \<open>The value of a routing table entry\<close>

record PeerInfo =
  aliveness :: "Instant option"
  added_at :: Instant
  permanent :: bool

definition PeerInfo_new :: "Instant \<Rightarrow> bool \<Rightarrow> bool \<Rightarrow> PeerInfo" where
  "PeerInfo_new now alive perm =
     \<lparr>aliveness = (if alive then Some now else None), added_at = now, permanent = perm\<rparr>"

definition set_aliveness :: "Instant option \<Rightarrow> PeerInfo \<Rightarrow> PeerInfo" where
  "set_aliveness a i = i\<lparr>aliveness := a\<rparr>"

definition get_aliveness :: "PeerInfo \<Rightarrow> Instant option" where
  "get_aliveness i = aliveness i"

definition is_permanent :: "PeerInfo \<Rightarrow> bool" where
  "is_permanent i = permanent i"

text \<open>What all four small accessors come to, for the proofs of their clients.\<close>

lemmas peer_info_defs = PeerInfo_new_def set_aliveness_def get_aliveness_def is_permanent_def

end
