(* ===== verification/Peerstore.thy ===== *)
theory Peerstore
  imports Kad_Types
begin

text \<open>
  The peer store (\<open>core/src/peerstore.rs\<close>): the address book of a node with garbage collection. The
  map behind the mutex is the state; the latencies, which are kept in a second map and averaged
  in floating point, are not modelled. A public key is its protobuf encoding. \<open>HashSet\<close>s of
  protocols are lists without duplicates, in the unspecified order of the set. Operations that create or
  refresh an address take the clock reading.

  The file behind \<open>save_data\<close> and \<open>load_data\<close> is not modelled; what is written to it and what is
  read from it, between the map and the JSON encoder, is.
\<close>

type_synonym PublicKey = bytes

record AddrBookRecord =
  abr_addr :: Multiaddr
  abr_ttl :: Duration
  abr_expiry :: Instant

record PeerRecord =
  pr_pinned :: bool
  pr_addrs :: "AddrBookRecord list"
  pr_key :: "PublicKey option"
  pr_protos :: "string list"


type_synonym PeerStore = "(PeerId, PeerRecord) hashmap"

definition secs :: "nat \<Rightarrow> Duration" where
  "secs n = n * 1000000000"

definition ADDRESS_TTL :: Duration where
  "ADDRESS_TTL = secs (60 * 60)"

definition TEMP_ADDR_TTL :: Duration where
  "TEMP_ADDR_TTL = secs (2 * 60)"

definition PROVIDER_ADDR_TTL :: Duration where
  "PROVIDER_ADDR_TTL = secs (10 * 60)"

definition PERMANENT_ADDR_TTL :: Duration where
  "PERMANENT_ADDR_TTL = secs (2 ^ 64 - 1 - 1)"

definition PeerRecord_new :: "AddrBookRecord list \<Rightarrow> PublicKey option \<Rightarrow> string list \<Rightarrow> PeerRecord" where
  "PeerRecord_new addrs key protos =
     \<lparr>pr_pinned = False, pr_addrs = addrs, pr_key = key, pr_protos = protos\<rparr>"

definition AddrBookRecord_new :: "Instant \<Rightarrow> Multiaddr \<Rightarrow> Duration \<Rightarrow> AddrBookRecord" where
  "AddrBookRecord_new now addr ttl = \<lparr>abr_addr = addr, abr_ttl = ttl, abr_expiry = now\<rparr>"

definition set_ttl :: "Instant \<Rightarrow> Duration \<Rightarrow> AddrBookRecord \<Rightarrow> AddrBookRecord" where
  "set_ttl now ttl r = r\<lparr>abr_ttl := ttl, abr_expiry := now\<rparr>"

definition get_peers :: "PeerStore \<Rightarrow> PeerId list" where
  "get_peers ps = map fst ps"

definition pin :: "PeerId \<Rightarrow> PeerStore \<Rightarrow> PeerStore" where
  "pin p ps = AList.map_entry p (\<lambda>pr. pr\<lparr>pr_pinned := True\<rparr>) ps"

definition unpin :: "PeerId \<Rightarrow> PeerStore \<Rightarrow> PeerStore" where
  "unpin p ps = AList.map_entry p (\<lambda>pr. pr\<lparr>pr_pinned := False\<rparr>) ps"

definition pinned :: "PeerStore \<Rightarrow> PeerId \<Rightarrow> bool" where
  "pinned ps p = (case hm_get ps p of None \<Rightarrow> False | Some pr \<Rightarrow> pr_pinned pr)"

definition add_key :: "PeerId \<Rightarrow> PublicKey \<Rightarrow> PeerStore \<Rightarrow> PeerStore" where
  "add_key p key ps = AList.map_entry p (\<lambda>pr. pr\<lparr>pr_key := Some key\<rparr>) ps"

definition get_key :: "PeerStore \<Rightarrow> PeerId \<Rightarrow> PublicKey option" where
  "get_key ps p = (case hm_get ps p of None \<Rightarrow> None | Some pr \<Rightarrow> pr_key pr)"

text \<open>One step of the loop of \<open>add_addrs\<close> over the addresses of a known peer.\<close>

definition add_addr_record :: "Instant \<Rightarrow> Duration \<Rightarrow> Multiaddr \<Rightarrow> AddrBookRecord list \<Rightarrow> AddrBookRecord list" where
  "add_addr_record now ttl addr rs =
     (case position (\<lambda>item. abr_addr item = addr) rs of
        Some i \<Rightarrow> rs[i := set_ttl now ttl (rs ! i)]
      | None \<Rightarrow> rs @ [AddrBookRecord_new now addr ttl])"

definition add_addrs :: "Instant \<Rightarrow> PeerId \<Rightarrow> Multiaddr list \<Rightarrow> Duration \<Rightarrow> PeerStore \<Rightarrow> PeerStore" where
  "add_addrs now p addrs ttl ps =
     (case hm_get ps p of
        Some _ \<Rightarrow> AList.map_entry p (\<lambda>pr. pr\<lparr>pr_addrs := fold (add_addr_record now ttl) addrs (pr_addrs pr)\<rparr>) ps
      | None \<Rightarrow> hm_insert p (PeerRecord_new (map (\<lambda>addr. AddrBookRecord_new now addr ttl) addrs) None []) ps)"

definition add_addr :: "Instant \<Rightarrow> PeerId \<Rightarrow> Multiaddr \<Rightarrow> Duration \<Rightarrow> PeerStore \<Rightarrow> PeerStore" where
  "add_addr now p addr ttl ps = add_addrs now p [addr] ttl ps"

definition clear_addrs :: "PeerId \<Rightarrow> PeerStore \<Rightarrow> PeerStore" where
  "clear_addrs p ps = AList.map_entry p (\<lambda>pr. pr\<lparr>pr_addrs := []\<rparr>) ps"

definition get_addrs :: "PeerStore \<Rightarrow> PeerId \<Rightarrow> Multiaddr list option" where
  "get_addrs ps p = map_option (\<lambda>pr. map abr_addr (pr_addrs pr)) (hm_get ps p)"

definition update_addr :: "Instant \<Rightarrow> PeerId \<Rightarrow> Duration \<Rightarrow> PeerStore \<Rightarrow> PeerStore" where
  "update_addr now p new_ttl ps =
     AList.map_entry p (\<lambda>pr. pr\<lparr>pr_addrs := map (set_ttl now new_ttl) (pr_addrs pr)\<rparr>) ps"

text \<open>\<open>expiry.elapsed() < ttl\<close>; \<open>elapsed\<close> saturates at zero, as the subtraction of naturals does.\<close>

definition addr_live :: "Instant \<Rightarrow> AddrBookRecord \<Rightarrow> bool" where
  "addr_live now r \<longleftrightarrow> now - abr_expiry r < abr_ttl r"

text \<open>
  \<open>remove_expired_addrs\<close>: the first loop changes the records in place and collects the peers to
  remove, the second loop removes them.
\<close>

fun gc_pass :: "Instant \<Rightarrow> PeerStore \<Rightarrow> PeerId list \<times> PeerStore" where
  "gc_pass now [] = ([], [])"
| "gc_pass now ((peer, pr) # ps) =
     (let (to_remove, ps') = gc_pass now ps
      in if \<not> pr_pinned pr then
           let pr' = pr\<lparr>pr_addrs := filter (addr_live now) (pr_addrs pr)\<rparr>
           in (if pr_addrs pr' = [] then peer # to_remove else to_remove, (peer, pr') # ps')
         else (to_remove, (peer, pr) # ps'))"

definition remove_expired_addrs :: "Instant \<Rightarrow> PeerStore \<Rightarrow> PeerStore" where
  "remove_expired_addrs now ps = (let (to_remove, guard) = gc_pass now ps in fold hm_remove to_remove guard)"

definition add_protocols :: "PeerId \<Rightarrow> string list \<Rightarrow> PeerStore \<Rightarrow> PeerStore" where
  "add_protocols p protos ps =
     (case hm_get ps p of
        Some _ \<Rightarrow> AList.map_entry p (\<lambda>pr. pr\<lparr>pr_protos := fold List.insert protos (pr_protos pr)\<rparr>) ps
      | None \<Rightarrow> hm_insert p (PeerRecord_new [] None (fold List.insert protos [])) ps)"

definition clear_protocols :: "PeerId \<Rightarrow> PeerStore \<Rightarrow> PeerStore" where
  "clear_protocols p ps = AList.map_entry p (\<lambda>pr. pr\<lparr>pr_protos := []\<rparr>) ps"

definition get_protocols :: "PeerStore \<Rightarrow> PeerId \<Rightarrow> string list option" where
  "get_protocols ps p = map_option pr_protos (hm_get ps p)"

definition first_supported_protocol :: "PeerStore \<Rightarrow> PeerId \<Rightarrow> string list \<Rightarrow> string option" where
  "first_supported_protocol ps p protos =
     (case hm_get ps p of
        Some pr \<Rightarrow> find_map (\<lambda>proto. if proto \<in> set (pr_protos pr) then Some proto else None) protos
      | None \<Rightarrow> None)"

definition support_protocols :: "PeerStore \<Rightarrow> PeerId \<Rightarrow> string list \<Rightarrow> string list option" where
  "support_protocols ps p protos =
     (case hm_get ps p of
        Some pr \<Rightarrow> Some (filter (\<lambda>item. item \<in> set (pr_protos pr)) protos)
      | None \<Rightarrow> None)"




section \<open>Lookup after each operation\<close>

lemma map_entry_get [hashmap_simps]:
  "hm_get (AList.map_entry k f m) k' = (if k' = k then map_option f (hm_get m k) else hm_get m k')"
  by (induction m) auto

lemma hm_wf_map_entry [simp, intro]: "hm_wf m \<Longrightarrow> hm_wf (AList.map_entry k f m)"
  by (induction m) (auto simp: AList.dom_map_entry)

lemmas peerstore_modify_defs = pin_def unpin_def add_key_def clear_addrs_def update_addr_def clear_protocols_def

lemma gc_pass_keys: "map fst (snd (gc_pass now ps)) = map fst ps"
  by (induction now ps rule: gc_pass.induct) (auto simp: Let_def split: prod.splits)

definition gc_record :: "Instant \<Rightarrow> PeerRecord \<Rightarrow> PeerRecord" where
  "gc_record now pr = (if pr_pinned pr then pr else pr\<lparr>pr_addrs := filter (addr_live now) (pr_addrs pr)\<rparr>)"

definition gc_drops :: "Instant \<Rightarrow> PeerRecord \<Rightarrow> bool" where
  "gc_drops now pr \<longleftrightarrow> \<not> pr_pinned pr \<and> filter (addr_live now) (pr_addrs pr) = []"

lemma gc_pass_eq:
  "gc_pass now ps =
     (map fst (filter (\<lambda>(p, pr). gc_drops now pr) ps), map (\<lambda>(p, pr). (p, gc_record now pr)) ps)"
  by (induction now ps rule: gc_pass.induct) (auto simp: gc_record_def gc_drops_def)

lemma fold_remove_get: "hm_get (fold hm_remove ks m) k = (if k \<in> set ks then None else hm_get m k)"
  by (induction ks arbitrary: m) (auto simp: hashmap_simps)

lemma hm_wf_fold_remove: "hm_wf m \<Longrightarrow> hm_wf (fold hm_remove ks m)"
  by (induction ks arbitrary: m) auto

lemma remove_expired_get:
  assumes "hm_wf ps"
  shows "hm_get (remove_expired_addrs now ps) p =
    (case hm_get ps p of None \<Rightarrow> None
     | Some pr \<Rightarrow> if gc_drops now pr then None else Some (gc_record now pr))"
proof -
  have m: "hm_get (map (\<lambda>(p, pr). (p, gc_record now pr)) ps) p = map_option (gc_record now) (hm_get ps p)"
    by (simp add: map_of_map)
  have "p \<in> fst ` set (filter (\<lambda>(p, pr). gc_drops now pr) ps) \<longleftrightarrow> (\<exists>pr. hm_get ps p = Some pr \<and> gc_drops now pr)"
    by (force simp: hm_get_mem_iff [OF assms])
  with m show ?thesis
    by (auto simp: remove_expired_addrs_def gc_pass_eq fold_remove_get split: option.splits)
qed

lemma remove_expired_wf: "hm_wf ps \<Longrightarrow> hm_wf (remove_expired_addrs now ps)"
proof -
  assume wf: "hm_wf ps"
  have "map fst (map (\<lambda>(p, pr). (p, gc_record now pr)) ps) = map fst ps"
    by (induction ps) auto
  with wf have "hm_wf (map (\<lambda>(p, pr). (p, gc_record now pr)) ps)" by (simp only:)
  then show ?thesis unfolding remove_expired_addrs_def gc_pass_eq by (simp add: hm_wf_fold_remove)
qed


section \<open>Adding addresses\<close>

lemma set_add_addr_record:
  "abr_addr ` set (add_addr_record now ttl a rs) = insert a (abr_addr ` set rs)"
proof (cases "position (\<lambda>item. abr_addr item = a) rs")
  case None
  then show ?thesis unfolding add_addr_record_def None by (auto simp: AddrBookRecord_new_def)
next
  case (Some i)
  from position_split [OF Some] obtain ys x zs where x: "rs = ys @ x # zs" "length ys = i" "abr_addr x = a"
    by blast
  with Some show ?thesis
    by (auto simp: add_addr_record_def list_update_append set_ttl_def nth_append)
qed

lemma set_fold_add_addr_record:
  "abr_addr ` set (fold (add_addr_record now ttl) as rs) = set as \<union> abr_addr ` set rs"
  by (induction as arbitrary: rs) (auto simp: set_add_addr_record)

text \<open>A record of the address with the new time to live.\<close>

definition refreshed :: "Instant \<Rightarrow> Duration \<Rightarrow> Multiaddr \<Rightarrow> AddrBookRecord list \<Rightarrow> bool" where
  "refreshed now ttl a rs \<longleftrightarrow> (\<exists>r \<in> set rs. abr_addr r = a \<and> abr_ttl r = ttl \<and> abr_expiry r = now)"

lemma refreshed_step:
  "refreshed now ttl a (add_addr_record now ttl b rs) \<longleftrightarrow> a = b \<or> refreshed now ttl a rs"
proof (cases "position (\<lambda>item. abr_addr item = b) rs")
  case None
  then show ?thesis
    unfolding add_addr_record_def None by (auto simp: AddrBookRecord_new_def refreshed_def)
next
  case (Some i)
  from position_split [OF Some] obtain ys x zs where x: "rs = ys @ x # zs" "length ys = i" "abr_addr x = b"
    by blast
  with Some show ?thesis
    by (auto simp: add_addr_record_def list_update_append set_ttl_def nth_append refreshed_def)
qed

lemma refreshed_fold: "refreshed now ttl a (fold (add_addr_record now ttl) as rs) \<longleftrightarrow> a \<in> set as \<or> refreshed now ttl a rs"
  by (induction as arbitrary: rs) (auto simp: refreshed_step)

lemma add_addr_record_other:
  assumes "abr_addr r \<noteq> a"
  shows "r \<in> set (add_addr_record now ttl a rs) \<longleftrightarrow> r \<in> set rs"
proof (cases "position (\<lambda>item. abr_addr item = a) rs")
  case None
  then show ?thesis using assms unfolding add_addr_record_def None by (auto simp: AddrBookRecord_new_def)
next
  case (Some i)
  from position_split [OF Some] obtain ys x zs where x: "rs = ys @ x # zs" "length ys = i" "abr_addr x = a"
    by blast
  with Some assms show ?thesis
    by (auto simp: add_addr_record_def list_update_append set_ttl_def nth_append)
qed

lemma fold_add_addr_record_other:
  "abr_addr r \<notin> set as \<Longrightarrow> r \<in> set (fold (add_addr_record now ttl) as rs) \<longleftrightarrow> r \<in> set rs"
  by (induction as arbitrary: rs) (auto simp: add_addr_record_other)

lemma add_addrs_wf: "hm_wf ps \<Longrightarrow> hm_wf (add_addrs now p as ttl ps)"
  by (auto simp: add_addrs_def split: option.splits)

lemma add_addrs_get:
  "hm_get (add_addrs now p as ttl ps) q =
     (if q = p then
        (case hm_get ps p of
           Some pr \<Rightarrow> Some (pr\<lparr>pr_addrs := fold (add_addr_record now ttl) as (pr_addrs pr)\<rparr>)
         | None \<Rightarrow> Some (PeerRecord_new (map (\<lambda>addr. AddrBookRecord_new now addr ttl) as) None []))
      else hm_get ps q)"
  by (simp add: add_addrs_def hashmap_simps split: option.splits)


section \<open>The contract of an address book\<close>

text \<open>\<open>live s p a t\<close>: at time \<open>t\<close> the address \<open>a\<close> of \<open>p\<close> has not expired.\<close>

locale address_book =
  fixes inv :: "'s \<Rightarrow> bool"
    and addrs :: "'s \<Rightarrow> 'p \<Rightarrow> 'a set"
    and live :: "'s \<Rightarrow> 'p \<Rightarrow> 'a \<Rightarrow> Instant \<Rightarrow> bool"
    and is_pinned :: "'s \<Rightarrow> 'p \<Rightarrow> bool"
    and add :: "Instant \<Rightarrow> 'p \<Rightarrow> 'a list \<Rightarrow> Duration \<Rightarrow> 's \<Rightarrow> 's"
    and gc :: "Instant \<Rightarrow> 's \<Rightarrow> 's"
  assumes add_inv: "inv s \<Longrightarrow> inv (add now p as ttl s)"
    and add_addrs: "addrs (add now p as ttl s) q = (if q = p then set as \<union> addrs s p else addrs s q)"
    and add_live: "a \<in> set as \<Longrightarrow> t - now < ttl \<Longrightarrow> live (add now p as ttl s) p a t"
    and add_keeps: "live s q a t \<Longrightarrow> q \<noteq> p \<or> a \<notin> set as \<Longrightarrow> live (add now p as ttl s) q a t"
    and add_pinned: "is_pinned (add now p as ttl s) q = is_pinned s q"
    and gc_inv: "inv s \<Longrightarrow> inv (gc now s)"
    and gc_pinned: "inv s \<Longrightarrow> is_pinned s p \<Longrightarrow> addrs (gc now s) p = addrs s p \<and> is_pinned (gc now s) p"
    and gc_addrs: "inv s \<Longrightarrow> \<not> is_pinned s p \<Longrightarrow> addrs (gc now s) p = {a \<in> addrs s p. live s p a now}"
begin

text \<open>The addresses of a pinned peer survive every sequence of collections.\<close>

lemma pinned_survives:
  assumes "inv s" "is_pinned s p"
  shows "addrs (fold gc nows s) p = addrs s p \<and> is_pinned (fold gc nows s) p"
  using assms by (induction nows arbitrary: s) (auto simp: gc_pinned gc_inv)

text \<open>An address that was just added survives a collection within its time to live.\<close>

lemma fresh_survives:
  assumes "inv s" "a \<in> set as" "t - now < ttl"
  shows "a \<in> addrs (gc t (add now p as ttl s)) p"
proof (cases "is_pinned (add now p as ttl s) p")
  case True
  with assms show ?thesis by (simp add: gc_pinned add_inv add_addrs)
next
  case False
  with assms show ?thesis by (simp add: gc_addrs add_inv add_addrs add_live)
qed

text \<open>A collection never invents an address.\<close>

lemma gc_subset: "inv s \<Longrightarrow> addrs (gc t s) p \<subseteq> addrs s p"
  using gc_pinned gc_addrs by (cases "is_pinned s p") auto

end

definition addr_set :: "PeerStore \<Rightarrow> PeerId \<Rightarrow> Multiaddr set" where
  "addr_set ps p = (case get_addrs ps p of None \<Rightarrow> {} | Some as \<Rightarrow> set as)"

definition addr_live_at :: "PeerStore \<Rightarrow> PeerId \<Rightarrow> Multiaddr \<Rightarrow> Instant \<Rightarrow> bool" where
  "addr_live_at ps p a t =
     (case hm_get ps p of None \<Rightarrow> False | Some pr \<Rightarrow> \<exists>r \<in> set (pr_addrs pr). abr_addr r = a \<and> addr_live t r)"

lemma add_addrs_live:
  assumes "a \<in> set as" "t - now < ttl"
  shows "addr_live_at (add_addrs now p as ttl ps) p a t"
proof (cases "hm_get ps p")
  case None
  with assms show ?thesis
    by (auto simp: addr_live_at_def add_addrs_get PeerRecord_new_def AddrBookRecord_new_def addr_live_def)
next
  case (Some pr)
  have "refreshed now ttl a (fold (add_addr_record now ttl) as (pr_addrs pr))"
    using assms(1) by (simp add: refreshed_fold)
  with Some assms(2) show ?thesis
    by (auto simp: addr_live_at_def add_addrs_get refreshed_def addr_live_def)
qed

lemma add_addrs_keeps:
  assumes "addr_live_at ps q a t" "q \<noteq> p \<or> a \<notin> set as"
  shows "addr_live_at (add_addrs now p as ttl ps) q a t"
  using assms fold_add_addr_record_other [of _ as]
  by (auto simp: addr_live_at_def add_addrs_get split: option.splits)

lemma add_addrs_set: "addr_set (add_addrs now p as ttl ps) q = (if q = p then set as \<union> addr_set ps p else addr_set ps q)"
  by (cases "hm_get ps p")
    (simp_all add: addr_set_def get_addrs_def add_addrs_get PeerRecord_new_def AddrBookRecord_new_def
      set_fold_add_addr_record image_image)

lemma add_addrs_pinned: "pinned (add_addrs now p as ttl ps) q = pinned ps q"
  by (auto simp: pinned_def add_addrs_get PeerRecord_new_def split: option.splits)

lemma gc_pinned_addrs:
  "hm_wf ps \<Longrightarrow> pinned ps p \<Longrightarrow>
     addr_set (remove_expired_addrs now ps) p = addr_set ps p \<and> pinned (remove_expired_addrs now ps) p"
  by (cases "hm_get ps p")
    (simp_all add: addr_set_def get_addrs_def pinned_def remove_expired_get gc_drops_def gc_record_def)

lemma gc_unpinned_addrs:
  assumes "hm_wf ps" "\<not> pinned ps p"
  shows "addr_set (remove_expired_addrs now ps) p = {a \<in> addr_set ps p. addr_live_at ps p a now}"
proof (cases "hm_get ps p")
  case None
  with assms show ?thesis by (simp add: addr_set_def get_addrs_def remove_expired_get)
next
  case (Some pr)
  have "abr_addr ` {r \<in> set (pr_addrs pr). addr_live now r} =
      {a \<in> abr_addr ` set (pr_addrs pr). \<exists>r \<in> set (pr_addrs pr). abr_addr r = a \<and> addr_live now r}"
    by (auto simp: image_def)
  with assms Some show ?thesis
    by (auto simp: addr_set_def get_addrs_def pinned_def remove_expired_get gc_drops_def gc_record_def
        addr_live_at_def filter_empty_conv)
qed

interpretation book: address_book hm_wf addr_set addr_live_at pinned add_addrs remove_expired_addrs
  apply unfold_locales
  subgoal by (rule add_addrs_wf)
  subgoal by (rule add_addrs_set)
  subgoal by (rule add_addrs_live)
  subgoal by (rule add_addrs_keeps)
  subgoal by (rule add_addrs_pinned)
  subgoal by (rule remove_expired_wf)
  subgoal by (rule gc_pinned_addrs)
  subgoal by (rule gc_unpinned_addrs)
  done


section \<open>Saving and loading\<close>





section \<open>Properties\<close>

text \<open>
  the garbage collection of the peer store is exact. A pinned record is untouched. Of any other
  record exactly the addresses within their time to live are kept, and a record that has none left
  is removed.
\<close>

theorem peerstore_gc_exact:
  assumes "hm_wf ps"
  shows "hm_wf (remove_expired_addrs now ps)
    \<and> hm_get (remove_expired_addrs now ps) p =
      (case hm_get ps p of
         None \<Rightarrow> None
       | Some pr \<Rightarrow>
           if pr_pinned pr then Some pr
           else let live = filter (\<lambda>r. now - abr_expiry r < abr_ttl r) (pr_addrs pr)
                in if live = [] then None else Some (pr\<lparr>pr_addrs := live\<rparr>))"
  using remove_expired_get [OF assms] remove_expired_wf [OF assms]
  by (simp add: gc_drops_def gc_record_def Let_def addr_live_def [abs_def] split: option.splits)

definition sample_peerstore :: PeerStore where
  "sample_peerstore = add_addrs 10 (PeerId [1]) [[4], [5]] 5 (add_addr 0 (PeerId [2]) [6] 7 [])"

theorem peerstore_gc_exact_witness:
  "get_addrs (remove_expired_addrs 12 sample_peerstore) (PeerId [1]) = Some [[4], [5]]
   \<and> get_addrs (remove_expired_addrs 12 sample_peerstore) (PeerId [2]) = None"
proof -
  have wf: "hm_wf sample_peerstore" by code_simp
  have "hm_get sample_peerstore (PeerId [1]) = Some (PeerRecord_new
      [AddrBookRecord_new 10 [4] 5, AddrBookRecord_new 10 [5] 5] None [])"
    "hm_get sample_peerstore (PeerId [2]) = Some (PeerRecord_new [AddrBookRecord_new 0 [6] 7] None [])"
    by code_simp+
  then show ?thesis using peerstore_gc_exact [OF wf, of 12]
    by (simp add: get_addrs_def PeerRecord_new_def AddrBookRecord_new_def Let_def)
qed

text \<open>
  C31: addresses added to the peer store survive: every address just added is returned after a
  collection that runs within its time to live, and once the peer is pinned its addresses survive
  any number of collections at any times.
\<close>

theorem peerstore_addrs_survive:
  assumes "hm_wf ps" "a \<in> set as"
  shows "(t - now < ttl \<longrightarrow> a \<in> addr_set (remove_expired_addrs t (add_addrs now p as ttl ps)) p)
    \<and> a \<in> addr_set (fold remove_expired_addrs ts (pin p (add_addrs now p as ttl ps))) p"
proof
  show "t - now < ttl \<longrightarrow> a \<in> addr_set (remove_expired_addrs t (add_addrs now p as ttl ps)) p"
    using book.fresh_survives [OF assms] by blast
  let ?ps = "add_addrs now p as ttl ps"
  have "hm_wf (pin p ?ps)" using add_addrs_wf [OF assms(1)] by (simp add: pin_def)
  moreover have "hm_get ?ps p \<noteq> None" by (simp add: add_addrs_get split: option.splits)
  then have "pinned (pin p ?ps) p" by (auto simp: pinned_def pin_def hashmap_simps)
  ultimately have "addr_set (fold remove_expired_addrs ts (pin p ?ps)) p = addr_set (pin p ?ps) p"
    by (simp add: book.pinned_survives)
  also have "\<dots> = addr_set ?ps p"
    by (simp add: addr_set_def get_addrs_def pin_def hashmap_simps option.map_comp comp_def)
  finally show "a \<in> addr_set (fold remove_expired_addrs ts (pin p ?ps)) p"
    using assms(2) by (simp add: add_addrs_set)
qed

theorem peerstore_addrs_survive_witness:
  "[4] \<in> addr_set (fold remove_expired_addrs [100, 200] (pin (PeerId [1]) (add_addrs 10 (PeerId [1]) [[4], [5]] 5 []))) (PeerId [1])"
  by (rule conjunct2 [OF peerstore_addrs_survive]) simp_all



end
