(* ===== verification/Kad_Protocol.thy ===== *)
theory Kad_Protocol
  imports Peerstore
begin

text \<open>
  The Kademlia wire protocol (\<open>protocols/kad/src/protocol.rs\<close>): peers, requests and responses, their
  conversion to and from the protobuf messages of \<open>dht.proto\<close>, the handler of incoming requests and the
  messenger that sends requests. The structs generated from \<open>dht.proto\<close> are modelled by records with its
  fields; what is not in the repository is a parameter:
  \<^item> \<open>mh_parse\<close>, the parser of multihashes (see \<open>Peer_Id\<close>);
  \<^item> \<open>ma_parse\<close>, \<open>Multiaddr::try_from\<close> of a byte vector;
  \<^item> \<open>encode\<close> and \<open>decode\<close>, the protobuf codec of \<open>prost\<close> for the type \<open>Message\<close>.
  An \<open>io::Error\<close> made by \<open>invalid_data\<close> is its text (numbers formatted into it are left out). A \<open>oneshot\<close>
  sender is a channel number.
\<close>

section \<open>Peers\<close>

datatype KadConnectionType = NotConnected | Connected | CanConnect | CannotConnect

datatype ConnectionType = NOT_CONNECTED | CONNECTED | CAN_CONNECT | CANNOT_CONNECT

fun KadConnectionType_from :: "ConnectionType \<Rightarrow> KadConnectionType" where
  "KadConnectionType_from NOT_CONNECTED = NotConnected"
| "KadConnectionType_from CONNECTED = Connected"
| "KadConnectionType_from CAN_CONNECT = CanConnect"
| "KadConnectionType_from CANNOT_CONNECT = CannotConnect"

fun KadConnectionType_into :: "KadConnectionType \<Rightarrow> ConnectionType" where
  "KadConnectionType_into NotConnected = NOT_CONNECTED"
| "KadConnectionType_into Connected = CONNECTED"
| "KadConnectionType_into CanConnect = CAN_CONNECT"
| "KadConnectionType_into CannotConnect = CANNOT_CONNECT"

fun ConnectionType_as_i32 :: "ConnectionType \<Rightarrow> int" where
  "ConnectionType_as_i32 NOT_CONNECTED = 0"
| "ConnectionType_as_i32 CONNECTED = 1"
| "ConnectionType_as_i32 CAN_CONNECT = 2"
| "ConnectionType_as_i32 CANNOT_CONNECT = 3"

definition ConnectionType_from_i32 :: "int \<Rightarrow> ConnectionType option" where
  "ConnectionType_from_i32 i =
     (if i = 0 then Some NOT_CONNECTED else if i = 1 then Some CONNECTED
      else if i = 2 then Some CAN_CONNECT else if i = 3 then Some CANNOT_CONNECT else None)"

record KadPeer =
  node_id :: PeerId
  multiaddrs :: "Multiaddr list"
  connection_ty :: KadConnectionType

record ProtoPeer =
  pp_id :: bytes
  pp_addrs :: "bytes list"
  pp_connection :: int

text \<open>The loop that parses the addresses stops at the first one that is not a multiaddress.\<close>

fun parse_addrs :: "(bytes \<Rightarrow> Multiaddr option) \<Rightarrow> bytes list \<Rightarrow> IoError + Multiaddr list" where
  "parse_addrs ma_parse [] = Inr []"
| "parse_addrs ma_parse (addr # addrs) =
     (case ma_parse addr of
        None \<Rightarrow> Inl ''invalid multiaddr''
      | Some as_ma \<Rightarrow>
          (case parse_addrs ma_parse addrs of Inl e \<Rightarrow> Inl e | Inr as \<Rightarrow> Inr (as_ma # as)))"

definition KadPeer_try_from ::
    "(bytes \<Rightarrow> (nat \<times> bytes) option) \<Rightarrow> (bytes \<Rightarrow> Multiaddr option) \<Rightarrow> ProtoPeer \<Rightarrow> IoError + KadPeer" where
  "KadPeer_try_from mh_parse ma_parse peer =
     (case from_bytes mh_parse (pp_id peer) of
        Inl _ \<Rightarrow> Inl ''invalid peer id''
      | Inr pid \<Rightarrow>
          (case parse_addrs ma_parse (pp_addrs peer) of
             Inl e \<Rightarrow> Inl e
           | Inr addrs \<Rightarrow>
               (case ConnectionType_from_i32 (pp_connection peer) of
                  None \<Rightarrow> Inl ''unknown connection type''
                | Some ct \<Rightarrow>
                    Inr \<lparr>node_id = pid, multiaddrs = addrs, connection_ty = KadConnectionType_from ct\<rparr>)))"

definition KadPeer_into :: "KadPeer \<Rightarrow> ProtoPeer" where
  "KadPeer_into p =
     \<lparr>pp_id = to_bytes (node_id p), pp_addrs = multiaddrs p,
      pp_connection = ConnectionType_as_i32 (KadConnectionType_into (connection_ty p))\<rparr>"


section \<open>Messages\<close>

datatype MessageType = PUT_VALUE | GET_VALUE | ADD_PROVIDER | GET_PROVIDERS | FIND_NODE | PING

fun MessageType_as_i32 :: "MessageType \<Rightarrow> int" where
  "MessageType_as_i32 PUT_VALUE = 0"
| "MessageType_as_i32 GET_VALUE = 1"
| "MessageType_as_i32 ADD_PROVIDER = 2"
| "MessageType_as_i32 GET_PROVIDERS = 3"
| "MessageType_as_i32 FIND_NODE = 4"
| "MessageType_as_i32 PING = 5"

definition MessageType_from_i32 :: "int \<Rightarrow> MessageType option" where
  "MessageType_from_i32 i =
     (if i = 0 then Some PUT_VALUE else if i = 1 then Some GET_VALUE
      else if i = 2 then Some ADD_PROVIDER else if i = 3 then Some GET_PROVIDERS
      else if i = 4 then Some FIND_NODE else if i = 5 then Some PING else None)"

record ProtoRecord =
  pr_rec_key :: bytes
  pr_rec_value :: bytes
  pr_rec_time_received :: string
  pr_rec_publisher :: bytes

definition ProtoRecord_default :: ProtoRecord where
  "ProtoRecord_default =
     \<lparr>pr_rec_key = [], pr_rec_value = [], pr_rec_time_received = [], pr_rec_publisher = []\<rparr>"

record Message =
  msg_type :: int
  cluster_level_raw :: int
  msg_key :: bytes
  msg_record :: "ProtoRecord option"
  closer_peers :: "ProtoPeer list"
  provider_peers :: "ProtoPeer list"

definition Message_default :: Message where
  "Message_default =
     \<lparr>msg_type = 0, cluster_level_raw = 0, msg_key = [], msg_record = None, closer_peers = [], provider_peers = []\<rparr>"

datatype KadRequestMsg =
    Ping
  | FindNode RecordKey
  | GetProviders RecordKey
  | AddProvider RecordKey KadPeer
  | GetValue RecordKey
  | PutValue Record

datatype KadResponseMsg =
    Pong
  | FindNode "KadPeer list"
  | GetProviders "KadPeer list" "KadPeer list"
  | GetValue "Record option" "KadPeer list"
  | PutValue RecordKey bytes

definition record_to_proto :: "Record \<Rightarrow> ProtoRecord" where
  "record_to_proto r =
     \<lparr>pr_rec_key = rec_key r, pr_rec_value = rec_value r, pr_rec_time_received = [],
      pr_rec_publisher = (case publisher r of None \<Rightarrow> [] | Some pid \<Rightarrow> to_bytes pid)\<rparr>"

text \<open>A record from the wire carries the time it was received.\<close>

definition record_from_proto ::
    "(bytes \<Rightarrow> (nat \<times> bytes) option) \<Rightarrow> Instant \<Rightarrow> ProtoRecord \<Rightarrow> IoError + Record" where
  "record_from_proto mh_parse now r =
     (if pr_rec_publisher r \<noteq> [] then
        (case from_bytes mh_parse (pr_rec_publisher r) of
           Inl _ \<Rightarrow> Inl ''Invalid publisher peer ID.''
         | Inr pid \<Rightarrow> Inr (Record_new now (pr_rec_key r) (pr_rec_value r) False (Some pid)))
      else Inr (Record_new now (pr_rec_key r) (pr_rec_value r) False None))"

fun req_msg_to_proto :: "KadRequestMsg \<Rightarrow> Message" where
  "req_msg_to_proto Ping = Message_default\<lparr>msg_type := MessageType_as_i32 PING\<rparr>"
| "req_msg_to_proto (KadRequestMsg.FindNode key) =
     Message_default\<lparr>msg_type := MessageType_as_i32 FIND_NODE, msg_key := key, cluster_level_raw := 10\<rparr>"
| "req_msg_to_proto (KadRequestMsg.GetProviders key) =
     Message_default\<lparr>msg_type := MessageType_as_i32 GET_PROVIDERS, msg_key := key, cluster_level_raw := 10\<rparr>"
| "req_msg_to_proto (KadRequestMsg.AddProvider key peer) =
     Message_default\<lparr>msg_type := MessageType_as_i32 ADD_PROVIDER, cluster_level_raw := 10, msg_key := key,
       provider_peers := [KadPeer_into peer]\<rparr>"
| "req_msg_to_proto (KadRequestMsg.GetValue key) =
     Message_default\<lparr>msg_type := MessageType_as_i32 GET_VALUE, cluster_level_raw := 10, msg_key := key\<rparr>"
| "req_msg_to_proto (KadRequestMsg.PutValue r) =
     Message_default\<lparr>msg_type := MessageType_as_i32 PUT_VALUE, msg_record := Some (record_to_proto r)\<rparr>"

fun resp_msg_to_proto :: "KadResponseMsg \<Rightarrow> Message" where
  "resp_msg_to_proto Pong = Message_default\<lparr>msg_type := MessageType_as_i32 PING\<rparr>"
| "resp_msg_to_proto (KadResponseMsg.FindNode closer) =
     Message_default\<lparr>msg_type := MessageType_as_i32 FIND_NODE, cluster_level_raw := 9,
       closer_peers := map KadPeer_into closer\<rparr>"
| "resp_msg_to_proto (KadResponseMsg.GetProviders closer provs) =
     Message_default\<lparr>msg_type := MessageType_as_i32 GET_PROVIDERS, cluster_level_raw := 9,
       closer_peers := map KadPeer_into closer, provider_peers := map KadPeer_into provs\<rparr>"
| "resp_msg_to_proto (KadResponseMsg.GetValue r closer) =
     Message_default\<lparr>msg_type := MessageType_as_i32 GET_VALUE, cluster_level_raw := 9,
       closer_peers := map KadPeer_into closer, msg_record := map_option record_to_proto r\<rparr>"
| "resp_msg_to_proto (KadResponseMsg.PutValue key value) =
     Message_default\<lparr>msg_type := MessageType_as_i32 PUT_VALUE, msg_key := key,
       msg_record := Some (ProtoRecord_default\<lparr>pr_rec_key := key, pr_rec_value := value\<rparr>)\<rparr>"

text \<open>\<open>filter_map(|peer| KadPeer::try_from(peer).ok())\<close>.\<close>

definition valid_peers ::
    "(bytes \<Rightarrow> (nat \<times> bytes) option) \<Rightarrow> (bytes \<Rightarrow> Multiaddr option) \<Rightarrow> ProtoPeer list \<Rightarrow> KadPeer list" where
  "valid_peers mh_parse ma_parse peers =
     List.map_filter (\<lambda>p. case KadPeer_try_from mh_parse ma_parse p of Inl _ \<Rightarrow> None | Inr k \<Rightarrow> Some k) peers"

definition proto_to_req_msg ::
    "(bytes \<Rightarrow> (nat \<times> bytes) option) \<Rightarrow> (bytes \<Rightarrow> Multiaddr option) \<Rightarrow> Instant \<Rightarrow> Message \<Rightarrow> IoError + KadRequestMsg" where
  "proto_to_req_msg mh_parse ma_parse now m =
     (case MessageType_from_i32 (msg_type m) of
        None \<Rightarrow> Inl ''unknown message type''
      | Some PING \<Rightarrow> Inr Ping
      | Some PUT_VALUE \<Rightarrow>
          (case record_from_proto mh_parse now
                  (case msg_record m of None \<Rightarrow> ProtoRecord_default | Some r \<Rightarrow> r) of
             Inl e \<Rightarrow> Inl e
           | Inr r \<Rightarrow> Inr (KadRequestMsg.PutValue r))
      | Some GET_VALUE \<Rightarrow> Inr (KadRequestMsg.GetValue (msg_key m))
      | Some FIND_NODE \<Rightarrow> Inr (KadRequestMsg.FindNode (msg_key m))
      | Some GET_PROVIDERS \<Rightarrow> Inr (KadRequestMsg.GetProviders (msg_key m))
      | Some ADD_PROVIDER \<Rightarrow>
          (case find_map (\<lambda>p. case KadPeer_try_from mh_parse ma_parse p of Inl _ \<Rightarrow> None | Inr k \<Rightarrow> Some k)
                  (provider_peers m) of
             Some peer \<Rightarrow> Inr (KadRequestMsg.AddProvider (msg_key m) peer)
           | None \<Rightarrow> Inl ''AddProvider message with no valid peer.''))"

definition proto_to_resp_msg ::
    "(bytes \<Rightarrow> (nat \<times> bytes) option) \<Rightarrow> (bytes \<Rightarrow> Multiaddr option) \<Rightarrow> Instant \<Rightarrow> Message \<Rightarrow> IoError + KadResponseMsg" where
  "proto_to_resp_msg mh_parse ma_parse now m =
     (case MessageType_from_i32 (msg_type m) of
        None \<Rightarrow> Inl ''unknown message type''
      | Some PING \<Rightarrow> Inr Pong
      | Some GET_VALUE \<Rightarrow>
          (let closer = valid_peers mh_parse ma_parse (closer_peers m)
           in case msg_record m of
                None \<Rightarrow> Inr (KadResponseMsg.GetValue None closer)
              | Some r \<Rightarrow>
                  (case record_from_proto mh_parse now r of
                     Inl e \<Rightarrow> Inl e
                   | Inr r' \<Rightarrow> Inr (KadResponseMsg.GetValue (Some r') closer)))
      | Some FIND_NODE \<Rightarrow> Inr (KadResponseMsg.FindNode (valid_peers mh_parse ma_parse (closer_peers m)))
      | Some GET_PROVIDERS \<Rightarrow>
          Inr (KadResponseMsg.GetProviders (valid_peers mh_parse ma_parse (closer_peers m))
                (valid_peers mh_parse ma_parse (provider_peers m)))
      | Some PUT_VALUE \<Rightarrow>
          (case msg_record m of
             None \<Rightarrow> Inl ''received PutValue message with no record''
           | Some rec \<Rightarrow> Inr (KadResponseMsg.PutValue (msg_key m) (pr_rec_value rec)))
      | Some ADD_PROVIDER \<Rightarrow> Inl ''received an unexpected AddProvider message'')"


section \<open>Configuration and events\<close>

definition DEFAULT_PROTO_NAME :: string where
  "DEFAULT_PROTO_NAME = ''/ipfs/kad/1.0.0''"

definition DEFAULT_MAX_PACKET_SIZE :: nat where
  "DEFAULT_MAX_PACKET_SIZE = 16 * 1024"

definition DEFAULT_MAX_REUSE_TRIES :: nat where
  "DEFAULT_MAX_REUSE_TRIES = 3"

record KademliaProtocolConfig =
  protocol_name :: string
  max_packet_size :: nat
  max_reuse_count :: nat
  client_mode :: bool
  new_stream_timeout :: "Duration option"
  read_timeout :: "Duration option"
  write_timeout :: "Duration option"

definition KademliaProtocolConfig_default :: KademliaProtocolConfig where
  "KademliaProtocolConfig_default =
     \<lparr>protocol_name = DEFAULT_PROTO_NAME, max_packet_size = DEFAULT_MAX_PACKET_SIZE,
      max_reuse_count = DEFAULT_MAX_REUSE_TRIES, client_mode = False, new_stream_timeout = None,
      read_timeout = None, write_timeout = None\<rparr>"

type_synonym Reply = nat

datatype RefreshStage = Start "Reply option" | SelfQueryDone "Reply option" | Completed

datatype ProtocolEvent =
    Refresh RefreshStage
  | PeerConnected PeerId
  | PeerDisconnected PeerId
  | PeerIdentified PeerId
  | AddressChanged "Multiaddr list"
  | KadPeerFound PeerId bool
  | KadPeerStopped PeerId
  | GCTimer
  | RefreshTimer
  | KadRequest KadRequestMsg PeerId Reply


section \<open>The handler of incoming requests\<close>

definition handle_packet ::
    "(bytes \<Rightarrow> (nat \<times> bytes) option) \<Rightarrow> (bytes \<Rightarrow> Multiaddr option) \<Rightarrow> (bytes \<Rightarrow> Message option) \<Rightarrow>
      Instant \<Rightarrow> bytes \<Rightarrow> KadError + KadRequestMsg" where
  "handle_packet mh_parse ma_parse decode now packet =
     (case decode packet of
        None \<Rightarrow> Inl Decode
      | Some m \<Rightarrow>
          (case proto_to_req_msg mh_parse ma_parse now m of
             Inl e \<Rightarrow> Inl (Io e)
           | Inr request \<Rightarrow> Inr request))"

text \<open>
  The loop of \<open>handle\<close> over the packets of one substream, each with its time of arrival. \<open>serve\<close> is the main
  loop of Kademlia answering one request. The result holds the packets written, and the error
  that ended the loop unless the input did.
\<close>

fun handle ::
    "(bytes \<Rightarrow> (nat \<times> bytes) option) \<Rightarrow> (bytes \<Rightarrow> Multiaddr option) \<Rightarrow> (bytes \<Rightarrow> Message option) \<Rightarrow>
      (Message \<Rightarrow> bytes) \<Rightarrow> (KadRequestMsg \<Rightarrow> 's \<Rightarrow> (KadError + KadResponseMsg option) \<times> 's) \<Rightarrow>
      (Instant \<times> bytes) list \<Rightarrow> 's \<Rightarrow> bytes list \<times> KadError option \<times> 's" where
  "handle mh_parse ma_parse decode encode serve [] s = ([], None, s)"
| "handle mh_parse ma_parse decode encode serve ((now, packet) # packets) s =
     (case handle_packet mh_parse ma_parse decode now packet of
        Inl e \<Rightarrow> ([], Some e, s)
      | Inr request \<Rightarrow>
          (case serve request s of
             (Inl e, s') \<Rightarrow> ([], Some e, s')
           | (Inr None, s') \<Rightarrow> handle mh_parse ma_parse decode encode serve packets s'
           | (Inr (Some response), s') \<Rightarrow>
               (case handle mh_parse ma_parse decode encode serve packets s' of
                  (out, r) \<Rightarrow> (encode (resp_msg_to_proto response) # out, r))))"


section \<open>The messenger\<close>

record KadMessenger =
  km_config :: KademliaProtocolConfig
  km_peer :: PeerId
  km_reuse :: nat

definition KadMessenger_build :: "PeerId \<Rightarrow> KademliaProtocolConfig \<Rightarrow> KadMessenger" where
  "KadMessenger_build peer config = \<lparr>km_config = config, km_peer = peer, km_reuse = 0\<rparr>"

definition reuse :: "KadMessenger \<Rightarrow> bool \<times> KadMessenger" where
  "reuse m = (let m' = m\<lparr>km_reuse := km_reuse m + 1\<rparr> in (km_reuse m' < max_reuse_count (km_config m'), m'))"

text \<open>
  A substream is a function: \<open>write\<close> is \<open>write_one\<close>, and \<open>exchange\<close> is \<open>write_one\<close> followed by \<open>read_one\<close>,
  where the remote chooses the packet that is read.
\<close>

definition send_message ::
    "(Message \<Rightarrow> bytes) \<Rightarrow> (bytes \<Rightarrow> KadError + unit) \<Rightarrow> KadRequestMsg \<Rightarrow> KadError + unit" where
  "send_message encode write request = write (encode (req_msg_to_proto request))"

definition send_request ::
    "(bytes \<Rightarrow> (nat \<times> bytes) option) \<Rightarrow> (bytes \<Rightarrow> Multiaddr option) \<Rightarrow> (bytes \<Rightarrow> Message option) \<Rightarrow>
      (Message \<Rightarrow> bytes) \<Rightarrow> Instant \<Rightarrow> (bytes \<Rightarrow> KadError + bytes) \<Rightarrow> KadRequestMsg \<Rightarrow> KadError + KadResponseMsg" where
  "send_request mh_parse ma_parse decode encode now exchange request =
     (case exchange (encode (req_msg_to_proto request)) of
        Inl e \<Rightarrow> Inl e
      | Inr packet \<Rightarrow>
          (case decode packet of
             None \<Rightarrow> Inl Decode
           | Some m \<Rightarrow>
               (case proto_to_resp_msg mh_parse ma_parse now m of
                  Inl e \<Rightarrow> Inl (Io e)
                | Inr response \<Rightarrow> Inr response)))"

definition send_find_node ::
    "(KadRequestMsg \<Rightarrow> KadError + KadResponseMsg) \<Rightarrow> RecordKey \<Rightarrow> KadError + KadPeer list" where
  "send_find_node send key =
     (case send (KadRequestMsg.FindNode key) of
        Inl e \<Rightarrow> Inl e
      | Inr (KadResponseMsg.FindNode closer) \<Rightarrow> Inr closer
      | Inr _ \<Rightarrow> Inl (UnexpectedMessage ''wrong message type received when FindNode''))"

definition send_get_providers ::
    "(KadRequestMsg \<Rightarrow> KadError + KadResponseMsg) \<Rightarrow> RecordKey \<Rightarrow> KadError + KadPeer list \<times> KadPeer list" where
  "send_get_providers send key =
     (case send (KadRequestMsg.GetProviders key) of
        Inl e \<Rightarrow> Inl e
      | Inr (KadResponseMsg.GetProviders closer provs) \<Rightarrow> Inr (closer, provs)
      | Inr _ \<Rightarrow> Inl (UnexpectedMessage ''wrong message type received when GetProviders''))"

definition add_provider_request :: "ProviderRecord \<Rightarrow> Multiaddr list \<Rightarrow> KadRequestMsg" where
  "add_provider_request r addresses =
     KadRequestMsg.AddProvider (prov_key r)
       \<lparr>node_id = provider r, multiaddrs = addresses, connection_ty = Connected\<rparr>"

definition send_add_provider ::
    "(KadRequestMsg \<Rightarrow> KadError + unit) \<Rightarrow> ProviderRecord \<Rightarrow> Multiaddr list \<Rightarrow> KadError + unit" where
  "send_add_provider send r addresses = send (add_provider_request r addresses)"

definition send_get_value ::
    "(KadRequestMsg \<Rightarrow> KadError + KadResponseMsg) \<Rightarrow> RecordKey \<Rightarrow> KadError + KadPeer list \<times> Record option" where
  "send_get_value send key =
     (case send (KadRequestMsg.GetValue key) of
        Inl e \<Rightarrow> Inl e
      | Inr (KadResponseMsg.GetValue r closer) \<Rightarrow> Inr (closer, r)
      | Inr _ \<Rightarrow> Inl (UnexpectedMessage ''wrong message type received when GetValue''))"

definition send_put_value ::
    "(KadRequestMsg \<Rightarrow> KadError + KadResponseMsg) \<Rightarrow> Record \<Rightarrow> KadError + RecordKey \<times> bytes" where
  "send_put_value send r =
     (case send (KadRequestMsg.PutValue r) of
        Inl e \<Rightarrow> Inl e
      | Inr (KadResponseMsg.PutValue key value) \<Rightarrow> Inr (key, value)
      | Inr _ \<Rightarrow> Inl (UnexpectedMessage ''wrong message type received when PutValue''))"


section \<open>Round trips\<close>

definition kad_peer_ok :: "(bytes \<Rightarrow> (nat \<times> bytes) option) \<Rightarrow> (bytes \<Rightarrow> Multiaddr option) \<Rightarrow> KadPeer \<Rightarrow> bool" where
  "kad_peer_ok mh_parse ma_parse p \<longleftrightarrow>
     peer_id_ok mh_parse (node_id p) \<and> (\<forall>a \<in> set (multiaddrs p). ma_parse a = Some a)"

definition record_ok :: "(bytes \<Rightarrow> (nat \<times> bytes) option) \<Rightarrow> Record \<Rightarrow> bool" where
  "record_ok mh_parse r =
     (case publisher r of None \<Rightarrow> True | Some p \<Rightarrow> peer_id_ok mh_parse p \<and> to_bytes p \<noteq> [])"

definition received :: "Instant \<Rightarrow> Record \<Rightarrow> Record" where
  "received now r = r\<lparr>rec_time_received := Some now\<rparr>"

lemma connection_type_round [simp]:
  "KadConnectionType_from (KadConnectionType_into c) = c"
  "KadConnectionType_into (KadConnectionType_from d) = d"
  "ConnectionType_from_i32 (ConnectionType_as_i32 d) = Some d"
  by (cases c; simp) (cases d; simp add: ConnectionType_from_i32_def)+

lemma message_type_round [simp]: "MessageType_from_i32 (MessageType_as_i32 t) = Some t"
  by (cases t) (simp_all add: MessageType_from_i32_def)

lemma parse_addrs_id: "\<forall>a \<in> set as. ma_parse a = Some a \<Longrightarrow> parse_addrs ma_parse as = Inr as"
  by (induction as) auto

lemma kad_peer_round [simp]:
  "kad_peer_ok mh_parse ma_parse p \<Longrightarrow> KadPeer_try_from mh_parse ma_parse (KadPeer_into p) = Inr p"
  by (simp add: KadPeer_try_from_def KadPeer_into_def kad_peer_ok_def peer_id_ok_def parse_addrs_id)

lemma valid_peers_round [simp]:
  "\<forall>p \<in> set ps. kad_peer_ok mh_parse ma_parse p \<Longrightarrow> valid_peers mh_parse ma_parse (map KadPeer_into ps) = ps"
  by (induction ps) (auto simp: valid_peers_def map_filter_simps)

lemma record_round [simp]:
  "record_ok mh_parse r \<Longrightarrow> record_from_proto mh_parse now (record_to_proto r) = Inr (received now r)"
  by (auto simp: record_from_proto_def record_to_proto_def record_ok_def peer_id_ok_def received_def Record_new_def
      split: option.splits)

text \<open>What \<open>try_from\<close> accepts is well formed.\<close>

lemma parse_addrs_ok:
  assumes "\<And>a b. ma_parse a = Some b \<Longrightarrow> ma_parse b = Some b"
  shows "parse_addrs ma_parse as = Inr bs \<Longrightarrow> \<forall>b \<in> set bs. ma_parse b = Some b"
  using assms by (induction as arbitrary: bs) (auto split: option.splits sum.splits)

lemma kad_peer_try_from_ok:
  assumes "\<And>a b. ma_parse a = Some b \<Longrightarrow> ma_parse b = Some b"
    and "KadPeer_try_from mh_parse ma_parse p = Inr k"
  shows "kad_peer_ok mh_parse ma_parse k"
  using assms(2) parse_addrs_ok [of ma_parse, OF assms(1)] from_bytes_ok
  by (auto simp: KadPeer_try_from_def kad_peer_ok_def split: sum.splits option.splits)

lemma record_from_proto_ok:
  assumes "record_from_proto mh_parse now r = Inr r'"
  shows "record_ok mh_parse r' \<and> rec_time_received r' = Some now"
  using assms from_bytes_ok from_bytes_to_bytes
  by (auto simp: record_from_proto_def record_ok_def Record_new_def split: if_splits sum.splits)

fun req_ok :: "(bytes \<Rightarrow> (nat \<times> bytes) option) \<Rightarrow> (bytes \<Rightarrow> Multiaddr option) \<Rightarrow> KadRequestMsg \<Rightarrow> bool" where
  "req_ok mh_parse ma_parse (KadRequestMsg.AddProvider k p) = kad_peer_ok mh_parse ma_parse p"
| "req_ok mh_parse ma_parse (KadRequestMsg.PutValue r) = record_ok mh_parse r"
| "req_ok mh_parse ma_parse _ = True"

fun req_received :: "Instant \<Rightarrow> KadRequestMsg \<Rightarrow> KadRequestMsg" where
  "req_received now (KadRequestMsg.PutValue r) = KadRequestMsg.PutValue (received now r)"
| "req_received now m = m"

fun resp_ok :: "(bytes \<Rightarrow> (nat \<times> bytes) option) \<Rightarrow> (bytes \<Rightarrow> Multiaddr option) \<Rightarrow> KadResponseMsg \<Rightarrow> bool" where
  "resp_ok mh_parse ma_parse Pong = True"
| "resp_ok mh_parse ma_parse (KadResponseMsg.FindNode c) = (\<forall>p \<in> set c. kad_peer_ok mh_parse ma_parse p)"
| "resp_ok mh_parse ma_parse (KadResponseMsg.GetProviders c ps) =
     ((\<forall>p \<in> set c. kad_peer_ok mh_parse ma_parse p) \<and> (\<forall>p \<in> set ps. kad_peer_ok mh_parse ma_parse p))"
| "resp_ok mh_parse ma_parse (KadResponseMsg.GetValue r c) =
     ((case r of None \<Rightarrow> True | Some r \<Rightarrow> record_ok mh_parse r) \<and> (\<forall>p \<in> set c. kad_peer_ok mh_parse ma_parse p))"
| "resp_ok mh_parse ma_parse (KadResponseMsg.PutValue k v) = True"

fun resp_received :: "Instant \<Rightarrow> KadResponseMsg \<Rightarrow> KadResponseMsg" where
  "resp_received now (KadResponseMsg.GetValue r c) = KadResponseMsg.GetValue (map_option (received now) r) c"
| "resp_received now m = m"

lemma req_round:
  "req_ok mh_parse ma_parse m \<Longrightarrow>
     proto_to_req_msg mh_parse ma_parse now (req_msg_to_proto m) = Inr (req_received now m)"
  by (cases m) (simp_all add: proto_to_req_msg_def Message_default_def del: MessageType_as_i32.simps)

lemma resp_round:
  "resp_ok mh_parse ma_parse m \<Longrightarrow>
     proto_to_resp_msg mh_parse ma_parse now (resp_msg_to_proto m) = Inr (resp_received now m)"
  by (cases m) (auto simp: proto_to_resp_msg_def Message_default_def ProtoRecord_default_def Let_def
      simp del: MessageType_as_i32.simps split: option.splits)

lemma req_accepted_ok:
  assumes "\<And>a b. ma_parse a = Some b \<Longrightarrow> ma_parse b = Some b"
    and "proto_to_req_msg mh_parse ma_parse now m = Inr q"
  shows "req_ok mh_parse ma_parse q"
  using assms(2) kad_peer_try_from_ok [of ma_parse mh_parse, OF assms(1)] record_from_proto_ok
  by (fastforce simp: proto_to_req_msg_def find_map_Some_iff split: option.splits MessageType.splits sum.splits)


section \<open>Properties\<close>

text \<open>
  C28: a well-formed request survives the wire: the handler decodes the packet of the messenger to the
  same request, with the time of arrival in the record of a \<open>PutValue\<close>. The hypothesis on the codec is
  that it decodes the message it encoded.
\<close>

theorem request_roundtrip:
  assumes "decode (encode (req_msg_to_proto q)) = Some (req_msg_to_proto q)"
    and "req_ok mh_parse ma_parse q"
  shows "handle_packet mh_parse ma_parse decode now (encode (req_msg_to_proto q)) = Inr (req_received now q)"
  using assms by (simp add: handle_packet_def req_round)

definition sample_mh :: "bytes \<Rightarrow> (nat \<times> bytes) option" where
  "sample_mh bs = (if length bs = 3 then Some (0x12, bs) else None)"

definition sample_ma :: "bytes \<Rightarrow> Multiaddr option" where
  "sample_ma bs = (if hd bs = 4 then Some bs else None)"

definition sample_kad_peer :: KadPeer where
  "sample_kad_peer = \<lparr>node_id = PeerId [1, 2, 3], multiaddrs = [[4, 7]], connection_ty = CanConnect\<rparr>"

theorem request_roundtrip_witness:
  "handle_packet sample_mh sample_ma (\<lambda>_. Some (req_msg_to_proto (KadRequestMsg.AddProvider [5] sample_kad_peer))) 9
     ((\<lambda>_. [0]) (req_msg_to_proto (KadRequestMsg.AddProvider [5] sample_kad_peer)))
   = Inr (KadRequestMsg.AddProvider [5] sample_kad_peer)"
  using request_roundtrip [of "\<lambda>_. Some (req_msg_to_proto (KadRequestMsg.AddProvider [5] sample_kad_peer))"
      "\<lambda>_. [0]" "KadRequestMsg.AddProvider [5] sample_kad_peer" sample_mh sample_ma 9]
  by (simp add: kad_peer_ok_def peer_id_ok_def sample_kad_peer_def sample_mh_def sample_ma_def
      from_bytes_def from_multihash_def code_try_from_def to_bytes_def)

text \<open>
  C29: whatever bytes arrive, a request that the handler accepts is well formed: its peers have valid
  identities and addresses, a publisher is a valid identity, and a record carries the time of its
  arrival, so it never counts as created locally. The hypothesis on the address parser is that it
  accepts the addresses it returned.
\<close>

theorem accepted_request_ok:
  assumes "\<And>a b. ma_parse a = Some b \<Longrightarrow> ma_parse b = Some b"
    and "handle_packet mh_parse ma_parse decode now packet = Inr q"
  shows "req_ok mh_parse ma_parse q
    \<and> (case q of KadRequestMsg.PutValue r \<Rightarrow> rec_time_received r = Some now | _ \<Rightarrow> True)"
proof -
  obtain m where m: "proto_to_req_msg mh_parse ma_parse now m = Inr q"
    using assms(2) by (auto simp: handle_packet_def split: option.splits sum.splits)
  have "rec_time_received r = Some now" if "q = KadRequestMsg.PutValue r" for r
    using m that record_from_proto_ok
    by (fastforce simp: proto_to_req_msg_def split: option.splits MessageType.splits sum.splits)
  with req_accepted_ok [OF assms(1) m] show ?thesis by (simp split: KadRequestMsg.splits)
qed

theorem accepted_request_ok_witness:
  "req_ok sample_mh sample_ma (KadRequestMsg.AddProvider [5] sample_kad_peer)"
proof -
  let ?m = "Message_default\<lparr>msg_type := 2, msg_key := [5],
    provider_peers := [\<lparr>pp_id = [1], pp_addrs = [], pp_connection = 0\<rparr>,
      \<lparr>pp_id = [1, 2, 3], pp_addrs = [[4, 7]], pp_connection = 2\<rparr>]\<rparr>"
  have a: "handle_packet sample_mh sample_ma (\<lambda>_. Some ?m) 9 [0] = Inr (KadRequestMsg.AddProvider [5] sample_kad_peer)"
    by code_simp
  have "sample_ma a = Some b \<Longrightarrow> sample_ma b = Some b" for a b by (simp add: sample_ma_def split: if_splits)
  from accepted_request_ok [OF this a] show ?thesis by simp
qed

text \<open>
  a response survives the wire: when the remote answers with a well-formed response, the messenger
  of each request returns its contents if the response is of the kind it waits for, and the
  error \<open>UnexpectedMessage\<close> otherwise.
\<close>

theorem response_roundtrip:
  assumes "\<And>packet. exchange packet = Inr (encode (resp_msg_to_proto r))"
    and "decode (encode (resp_msg_to_proto r)) = Some (resp_msg_to_proto r)"
    and "resp_ok mh_parse ma_parse r"
    and "send = send_request mh_parse ma_parse decode encode now exchange"
  shows "send_find_node send key =
      (case r of KadResponseMsg.FindNode closer \<Rightarrow> Inr closer
       | _ \<Rightarrow> Inl (UnexpectedMessage ''wrong message type received when FindNode''))
    \<and> send_get_providers send key =
      (case r of KadResponseMsg.GetProviders closer provs \<Rightarrow> Inr (closer, provs)
       | _ \<Rightarrow> Inl (UnexpectedMessage ''wrong message type received when GetProviders''))
    \<and> send_get_value send key =
      (case r of KadResponseMsg.GetValue v closer \<Rightarrow> Inr (closer, map_option (received now) v)
       | _ \<Rightarrow> Inl (UnexpectedMessage ''wrong message type received when GetValue''))
    \<and> send_put_value send rec =
      (case r of KadResponseMsg.PutValue k v \<Rightarrow> Inr (k, v)
       | _ \<Rightarrow> Inl (UnexpectedMessage ''wrong message type received when PutValue''))"
proof -
  have "send req = Inr (resp_received now r)" for req
    using assms by (simp add: send_request_def resp_round)
  then show ?thesis
    by (cases r) (simp_all add: send_find_node_def send_get_providers_def send_get_value_def send_put_value_def)
qed

theorem response_roundtrip_witness:
  "send_find_node (send_request sample_mh sample_ma
       (\<lambda>_. Some (resp_msg_to_proto (KadResponseMsg.FindNode [sample_kad_peer]))) (\<lambda>_. [0]) 9 (\<lambda>_. Inr [0])) [5]
   = Inr [sample_kad_peer]"
  using response_roundtrip [of "\<lambda>_. Inr [0]" "\<lambda>_. [0]" "KadResponseMsg.FindNode [sample_kad_peer]"
      "\<lambda>_. Some (resp_msg_to_proto (KadResponseMsg.FindNode [sample_kad_peer]))" sample_mh sample_ma _ 9 "[5]", OF _ _ _ refl]
  by (simp add: kad_peer_ok_def peer_id_ok_def sample_kad_peer_def sample_mh_def sample_ma_def
      from_bytes_def from_multihash_def code_try_from_def to_bytes_def)

end
