(* ===== verification/Kad_Query.thy ===== *)
theory Kad_Query
  imports Kad_Protocol
begin

text \<open>
  The queries of Kademlia (\<open>protocols/kad/src/query.rs\<close>). An iterative query is a loop that receives
  the results of concurrent jobs over a channel. It is modelled by a state, \<open>IterState\<close>, and a step
  relation, \<open>query_step\<close>: a job finishes and sends its update, the loop receives the next update and
  runs its body, or the deadline passes. The channel is a list in the order of sending; a send waits
  while the channel is full, which delays the step of a job and nothing else.

  The table of peers by distance is a B-tree map. Errors of sending on a channel are ignored by the
  code and do not appear. The peer store of the swarm and the events posted to the main loop are part of the state. The
  statistics are machine words, as in the code.
\<close>

section \<open>Data\<close>

record QueryConfig =
  qc_timeout :: Duration
  k_value :: nat
  alpha_value :: nat
  beta_value :: nat

definition QueryConfig_default :: QueryConfig where
  "QueryConfig_default =
     \<lparr>qc_timeout = secs 180, k_value = K_VALUE, alpha_value = ALPHA_VALUE, beta_value = BETA_VALUE\<rparr>"

datatype PeerState = NotContacted | Waiting | Unreachable | Succeeded

record PeerWithState =
  pws_peer :: KadPeer
  pws_state :: PeerState

definition PeerWithState_new :: "KadPeer \<Rightarrow> PeerWithState" where
  "PeerWithState_new p = \<lparr>pws_peer = p, pws_state = NotContacted\<rparr>"

datatype QueryUpdate =
    Queried PeerId "KadPeer list" "KadPeer list option" "Record option" Duration
  | Unreachable PeerId

text \<open>\<open>PeerRecord\<close> of \<open>query.rs\<close>: a record with the peer it came from.\<close>

record FoundRecord =
  fr_peer :: "PeerId option"
  fr_record :: Record

record QueryResult =
  qr_closest_peers :: "KadPeer list option"
  qr_found_peer :: "KadPeer option"
  qr_providers :: "KadPeer list option"
  qr_records :: "FoundRecord list option"
  qr_cache_peers :: "PeerId list option"

datatype QueryType =
    FindPeer
  | GetClosestPeers
  | GetProviders nat "KadPeer list option"
  | GetRecord nat "FoundRecord list option"
  | AddProvider ProviderRecord "Multiaddr list"
  | PutRecord Record


record IterativeStats =
  requests :: u32
  success :: u32
  failure :: u32

record MessageStats =
  cnt_ping :: usize
  cnt_find_node :: usize
  cnt_get_provider :: usize
  cnt_add_provider :: usize
  cnt_get_value :: usize
  cnt_put_value :: usize

record QueryStats =
  fixed_query_executed :: usize
  fixed_query_completed :: usize
  iter_query_executed :: usize
  iter_query_completed :: usize
  iter_query_timeout :: usize
  fixed_tx_error :: usize
  iterative :: IterativeStats
  message_tx :: MessageStats

definition MessageStats_default :: MessageStats where
  "MessageStats_default =
     \<lparr>cnt_ping = 0, cnt_find_node = 0, cnt_get_provider = 0, cnt_add_provider = 0, cnt_get_value = 0, cnt_put_value = 0\<rparr>"

definition QueryStats_default :: QueryStats where
  "QueryStats_default =
     \<lparr>fixed_query_executed = 0, fixed_query_completed = 0, iter_query_executed = 0, iter_query_completed = 0,
      iter_query_timeout = 0, fixed_tx_error = 0, iterative = \<lparr>requests = 0, success = 0, failure = 0\<rparr>,
      message_tx = MessageStats_default\<rparr>"

record Ledger =
  succeed :: u32
  succeed_cost :: u64
  failed :: u32
  failed_cost :: u64

definition Ledger_default :: Ledger where
  "Ledger_default = \<lparr>succeed = 0, succeed_cost = 0, failed = 0, failed_cost = 0\<rparr>"

definition failure_increase :: "u64 \<Rightarrow> Ledger \<Rightarrow> Ledger" where
  "failure_increase cost l = l\<lparr>failed := failed l + 1, failed_cost := failed_cost l + cost\<rparr>"

definition success_increase :: "u64 \<Rightarrow> Ledger \<Rightarrow> Ledger" where
  "success_increase cost l = l\<lparr>succeed := succeed l + 1, succeed_cost := succeed_cost l + cost\<rparr>"

text \<open>\<open>MetricMap::store_or_modify\<close> with a default value.\<close>

definition store_or_modify :: "'k \<Rightarrow> ('v \<Rightarrow> 'v) \<Rightarrow> 'v \<Rightarrow> ('k, 'v) hashmap \<Rightarrow> ('k, 'v) hashmap" where
  "store_or_modify k f d m = hm_insert k (f (case hm_get m k of None \<Rightarrow> d | Some v \<Rightarrow> v)) m"


section \<open>The table of the closest peers\<close>

record ClosestPeers =
  cp_target :: "bytes Key"
  cp_peers :: "(Distance, PeerWithState) btreemap"

definition ClosestPeers_new :: "(bytes \<Rightarrow> U256) \<Rightarrow> RecordKey \<Rightarrow> ClosestPeers" where
  "ClosestPeers_new sha key = \<lparr>cp_target = Key_new sha key, cp_peers = []\<rparr>"

definition cp_distance :: "(bytes \<Rightarrow> U256) \<Rightarrow> ClosestPeers \<Rightarrow> PeerId \<Rightarrow> Distance" where
  "cp_distance sha cp p =
     distance (key_bytes (Key_new sha (RecordKey_from_PeerId p))) (key_bytes (cp_target cp))"

definition add_peers :: "(bytes \<Rightarrow> U256) \<Rightarrow> KadPeer list \<Rightarrow> ClosestPeers \<Rightarrow> ClosestPeers" where
  "add_peers sha peers cp =
     fold (\<lambda>peer cp. cp\<lparr>cp_peers := bt_or_insert (cp_distance sha cp (node_id peer)) (PeerWithState_new peer) (cp_peers cp)\<rparr>)
       peers cp"

definition has_target :: "ClosestPeers \<Rightarrow> KadPeer option" where
  "has_target cp =
     map_option pws_peer
       (map_of (cp_peers cp) (distance (key_bytes (cp_target cp)) (key_bytes (cp_target cp))))"

definition peers_filter :: "ClosestPeers \<Rightarrow> nat \<Rightarrow> (PeerWithState \<Rightarrow> bool) \<Rightarrow> PeerWithState list" where
  "peers_filter cp num p = take num (filter p (map snd (cp_peers cp)))"

definition peers_in_states :: "ClosestPeers \<Rightarrow> PeerState list \<Rightarrow> nat \<Rightarrow> PeerWithState list" where
  "peers_in_states cp states num = take num (filter (\<lambda>p. pws_state p \<in> set states) (map snd (cp_peers cp)))"

definition get_peer_state :: "(bytes \<Rightarrow> U256) \<Rightarrow> ClosestPeers \<Rightarrow> PeerId \<Rightarrow> PeerState option" where
  "get_peer_state sha cp p = map_option pws_state (map_of (cp_peers cp) (cp_distance sha cp p))"

definition set_peer_state :: "(bytes \<Rightarrow> U256) \<Rightarrow> PeerId \<Rightarrow> PeerState \<Rightarrow> ClosestPeers \<Rightarrow> ClosestPeers" where
  "set_peer_state sha p st cp =
     cp\<lparr>cp_peers := bt_modify (cp_distance sha cp p) (\<lambda>pws. pws\<lparr>pws_state := st\<rparr>) (cp_peers cp)\<rparr>"

definition num_of_state :: "ClosestPeers \<Rightarrow> PeerState \<Rightarrow> nat" where
  "num_of_state cp st = length (filter (\<lambda>p. pws_state p = st) (map snd (cp_peers cp)))"

definition num_of_states :: "ClosestPeers \<Rightarrow> PeerState list \<Rightarrow> nat" where
  "num_of_states cp states = length (filter (\<lambda>p. pws_state p \<in> set states) (map snd (cp_peers cp)))"

definition is_starved :: "ClosestPeers \<Rightarrow> bool" where
  "is_starved cp \<longleftrightarrow> num_of_states cp [NotContacted, Waiting] = 0"

definition can_terminate :: "ClosestPeers \<Rightarrow> nat \<Rightarrow> bool" where
  "can_terminate cp beta =
     list_all (\<lambda>p. pws_state p = Succeeded)
       (take beta (filter (\<lambda>p. pws_state p = NotContacted \<or> pws_state p = Waiting \<or> pws_state p = Succeeded)
         (map snd (cp_peers cp))))"

text \<open>
  \<open>peers_in_state_mut(NotContacted, num)\<close> with the assignments of the loop that consumes it: the first
  \<open>num\<close> peers that were not contacted become \<open>Waiting\<close>, and their identities are returned in order.
\<close>

fun mark_waiting :: "nat \<Rightarrow> (Distance, PeerWithState) btreemap \<Rightarrow> PeerId list \<times> (Distance, PeerWithState) btreemap" where
  "mark_waiting num [] = ([], [])"
| "mark_waiting num ((d, pws) # m) =
     (if num > 0 \<and> pws_state pws = NotContacted
      then (case mark_waiting (num - 1) m of
              (ids, m') \<Rightarrow> (node_id (pws_peer pws) # ids, (d, pws\<lparr>pws_state := Waiting\<rparr>) # m'))
      else (case mark_waiting num m of (ids, m') \<Rightarrow> (ids, (d, pws) # m')))"


section \<open>Jobs\<close>

text \<open>
  \<open>QueryJob::execute\<close>: \<open>ms\<close> is the result of opening a messenger and \<open>send\<close> its request function. The
  outer \<open>None\<close> is the panic on a query type that has no job.
\<close>

definition execute ::
    "QueryType \<Rightarrow> RecordKey \<Rightarrow> PeerId \<Rightarrow> KadError + unit \<Rightarrow> (KadRequestMsg \<Rightarrow> KadError + KadResponseMsg) \<Rightarrow>
      Duration \<Rightarrow> (KadError + QueryUpdate) option" where
  "execute qt key peer ms send duration =
     (case ms of
        Inl e \<Rightarrow> Some (Inl e)
      | Inr _ \<Rightarrow>
          (case qt of
             GetClosestPeers \<Rightarrow>
               (case send_find_node send key of
                  Inl e \<Rightarrow> Some (Inl e)
                | Inr closer \<Rightarrow> Some (Inr (Queried peer closer None None duration)))
           | FindPeer \<Rightarrow>
               (case send_find_node send key of
                  Inl e \<Rightarrow> Some (Inl e)
                | Inr closer \<Rightarrow> Some (Inr (Queried peer closer None None duration)))
           | QueryType.GetProviders _ _ \<Rightarrow>
               (case send_get_providers send key of
                  Inl e \<Rightarrow> Some (Inl e)
                | Inr (closer, provs) \<Rightarrow> Some (Inr (Queried peer closer (Some provs) None duration)))
           | GetRecord _ _ \<Rightarrow>
               (case send_get_value send key of
                  Inl e \<Rightarrow> Some (Inl e)
                | Inr (closer, r) \<Rightarrow> Some (Inr (Queried peer closer None r duration)))
           | QueryType.AddProvider _ _ \<Rightarrow> None
           | PutRecord _ \<Rightarrow> None))"


section \<open>The iterative query\<close>

datatype QueryStatus = Running | Completed QueryResult | TimedOut | Panicked

record IterState =
  it_swarm :: PeerStore
  it_posted :: "ProtocolEvent list"
  it_results :: QueryResult
  it_closest :: ClosestPeers
  it_queue :: "QueryUpdate list"
  it_jobs :: "PeerId list"
  it_spawned :: "PeerId list"
  it_stats :: QueryStats
  it_ledgers :: "(PeerId, Ledger) hashmap"
  it_status :: QueryStatus

record IterativeQuery =
  iq_key :: RecordKey
  iq_query_type :: QueryType
  iq_local_id :: PeerId
  iq_config :: QueryConfig
  iq_seeds :: "PeerId Key list"

text \<open>The effect of adding the addresses of all peers of a list to the peer store.\<close>

definition swarm_add_peers :: "Instant \<Rightarrow> Duration \<Rightarrow> KadPeer list \<Rightarrow> PeerStore \<Rightarrow> PeerStore" where
  "swarm_add_peers now ttl peers ps = fold (\<lambda>peer. add_addrs now (node_id peer) (multiaddrs peer) ttl) peers ps"

text \<open>
  \<open>handle_update\<close>; the Boolean tells whether the query is done, and \<open>None\<close> is its panic. \<open>sort_unstable_by\<close>
  leaves the order of providers with one identity open; the model takes the stable order.
\<close>

definition merge_providers :: "KadPeer list option \<Rightarrow> KadPeer list \<Rightarrow> KadPeer list" where
  "merge_providers old new =
     (case old of
        Some old \<Rightarrow> dedup_by node_id (sort_key node_id (old @ new))
      | None \<Rightarrow> new)"

definition handle_update ::
    "(bytes \<Rightarrow> U256) \<Rightarrow> Instant \<Rightarrow> IterativeQuery \<Rightarrow> QueryUpdate \<Rightarrow> IterState \<Rightarrow> (bool \<times> IterState) option" where
  "handle_update sha now q update st =
     (case update of
        Queried source closer provs rec duration \<Rightarrow>
          (let closer = filter (\<lambda>p. node_id p \<noteq> iq_local_id q) closer;
               cp = set_peer_state sha source Succeeded (add_peers sha closer (it_closest st));
               st = st\<lparr>it_swarm := swarm_add_peers now TEMP_ADDR_TTL closer (it_swarm st),
                       it_closest := cp, it_posted := it_posted st @ [KadPeerFound source True]\<rparr>;
               res = it_results st
           in case iq_query_type q of
                GetClosestPeers \<Rightarrow> Some (False, st)
              | FindPeer \<Rightarrow>
                  (case has_target cp of
                     Some peer \<Rightarrow> Some (True, st\<lparr>it_results := res\<lparr>qr_found_peer := Some peer\<rparr>\<rparr>)
                   | None \<Rightarrow> Some (False, st))
              | QueryType.GetProviders cnt _ \<Rightarrow>
                  (case provs of
                     None \<Rightarrow> Some (False, st)
                   | Some provs \<Rightarrow>
                       (let st = st\<lparr>it_swarm := swarm_add_peers now PROVIDER_ADDR_TTL provs (it_swarm st)\<rparr>
                        in if provs \<noteq> [] then
                             let new = merge_providers (qr_providers res) provs
                             in Some (cnt \<noteq> 0 \<and> length new \<ge> cnt,
                                  st\<lparr>it_results := res\<lparr>qr_providers := Some new\<rparr>\<rparr>)
                           else Some (False, st)))
              | GetRecord quorum _ \<Rightarrow>
                  (case rec of
                     None \<Rightarrow> Some (False, st)
                   | Some r \<Rightarrow>
                       (let new = (case qr_records res of None \<Rightarrow> [] | Some old \<Rightarrow> old) @ [\<lparr>fr_peer = Some source, fr_record = r\<rparr>];
                            res = res\<lparr>qr_records := Some new\<rparr>
                        in if length new > quorum then
                             let have_value = List.map_filter fr_peer new;
                                 peers = map (\<lambda>p. node_id (pws_peer p))
                                   (peers_filter cp (k_value (iq_config q))
                                     (\<lambda>p. pws_state p \<noteq> PeerState.Unreachable \<and> node_id (pws_peer p) \<notin> set have_value))
                             in Some (True, st\<lparr>it_results := res\<lparr>qr_cache_peers := Some peers\<rparr>\<rparr>)
                           else Some (False, st\<lparr>it_results := res\<rparr>)))
              | QueryType.AddProvider _ _ \<Rightarrow> None
              | PutRecord _ \<Rightarrow> None)
      | QueryUpdate.Unreachable peer \<Rightarrow>
          Some (False, st\<lparr>it_closest := set_peer_state sha peer PeerState.Unreachable (it_closest st),
                          it_posted := it_posted st @ [KadPeerStopped peer]\<rparr>))"

text \<open>The end of the loop: the result is collected.\<close>

definition wanted_states :: "PeerState list" where
  "wanted_states = [NotContacted, Waiting, Succeeded]"

definition collect_result :: "IterativeQuery \<Rightarrow> IterState \<Rightarrow> IterState" where
  "collect_result q st =
     (let peers = map pws_peer (peers_in_states (it_closest st) wanted_states (k_value (iq_config q)));
          res = (if peers \<noteq> [] then (it_results st)\<lparr>qr_closest_peers := Some peers\<rparr> else it_results st)
      in st\<lparr>it_results := res, it_status := Completed res,
            it_stats := (it_stats st)\<lparr>iter_query_completed := iter_query_completed (it_stats st) + 1\<rparr>\<rparr>)"

text \<open>The part of the loop body that starts new jobs; \<open>checked_sub(..).unwrap()\<close> is the panic.\<close>

definition start_jobs :: "IterativeQuery \<Rightarrow> IterState \<Rightarrow> IterState" where
  "start_jobs q st =
     (if num_of_state (it_closest st) Waiting > alpha_value (iq_config q) then st\<lparr>it_status := Panicked\<rparr>
      else
        let num_jobs = alpha_value (iq_config q) - num_of_state (it_closest st) Waiting;
            (ids, m) = mark_waiting num_jobs (cp_peers (it_closest st))
        in st\<lparr>it_closest := (it_closest st)\<lparr>cp_peers := m\<rparr>, it_jobs := it_jobs st @ ids,
              it_spawned := it_spawned st @ ids,
              it_stats := (it_stats st)\<lparr>iterative := (iterative (it_stats st))
                \<lparr>requests := requests (iterative (it_stats st)) + of_nat (length ids)\<rparr>\<rparr>\<rparr>)"

definition loop_body :: "(bytes \<Rightarrow> U256) \<Rightarrow> Instant \<Rightarrow> IterativeQuery \<Rightarrow> QueryUpdate \<Rightarrow> IterState \<Rightarrow> IterState" where
  "loop_body sha now q update st =
     (case handle_update sha now q update st of
        None \<Rightarrow> st\<lparr>it_status := Panicked\<rparr>
      | Some (is_completed, st) \<Rightarrow>
          if is_completed then collect_result q st
          else if is_starved (it_closest st) then collect_result q st
          else if can_terminate (it_closest st) (beta_value (iq_config q)) then collect_result q st
          else start_jobs q st)"

text \<open>
  What a spawned job does when \<open>execute\<close> has returned. The update of a success was sent by the job
  itself, after it counted the message.
\<close>

fun count_message :: "QueryType \<Rightarrow> MessageStats \<Rightarrow> MessageStats" where
  "count_message FindPeer m = m\<lparr>cnt_find_node := cnt_find_node m + 1\<rparr>"
| "count_message GetClosestPeers m = m\<lparr>cnt_find_node := cnt_find_node m + 1\<rparr>"
| "count_message (QueryType.GetProviders _ _) m = m\<lparr>cnt_get_provider := cnt_get_provider m + 1\<rparr>"
| "count_message (GetRecord _ _) m = m\<lparr>cnt_get_value := cnt_get_value m + 1\<rparr>"
| "count_message (QueryType.AddProvider _ _) m = m\<lparr>cnt_add_provider := cnt_add_provider m + 1\<rparr>"
| "count_message (PutRecord _) m = m\<lparr>cnt_put_value := cnt_put_value m + 1\<rparr>"

definition job_done :: "QueryType \<Rightarrow> PeerId \<Rightarrow> u64 \<Rightarrow> KadError + QueryUpdate \<Rightarrow> IterState \<Rightarrow> IterState" where
  "job_done qt peer cost r st =
     (let stats = it_stats st; it = iterative stats
      in case r of
           Inr update \<Rightarrow>
             st\<lparr>it_jobs := remove1 peer (it_jobs st), it_queue := it_queue st @ [update],
                it_stats := stats\<lparr>message_tx := count_message qt (message_tx stats), iterative := it\<lparr>success := success it + 1\<rparr>\<rparr>,
                it_ledgers := store_or_modify peer (success_increase cost) Ledger_default (it_ledgers st)\<rparr>
         | Inl _ \<Rightarrow>
             st\<lparr>it_jobs := remove1 peer (it_jobs st), it_queue := it_queue st @ [QueryUpdate.Unreachable peer],
                it_stats := stats\<lparr>iterative := it\<lparr>failure := failure it + 1\<rparr>\<rparr>,
                it_ledgers := store_or_modify peer (failure_increase cost) Ledger_default (it_ledgers st)\<rparr>)"

text \<open>The state when \<open>run\<close> enters its loop: the seeds are delivered as the first update.\<close>

definition local_results :: "QueryType \<Rightarrow> QueryResult" where
  "local_results qt =
     (let res = \<lparr>qr_closest_peers = None, qr_found_peer = None, qr_providers = None, qr_records = None, qr_cache_peers = None\<rparr>
      in case qt of
           QueryType.GetProviders _ loc \<Rightarrow> res\<lparr>qr_providers := loc\<rparr>
         | GetRecord _ loc \<Rightarrow> res\<lparr>qr_records := loc\<rparr>
         | _ \<Rightarrow> res)"

definition seed_peers :: "PeerStore \<Rightarrow> PeerId Key list \<Rightarrow> KadPeer list" where
  "seed_peers ps seeds =
     map (\<lambda>k. \<lparr>node_id = preimage k,
               multiaddrs = (case get_addrs ps (preimage k) of None \<Rightarrow> [] | Some as \<Rightarrow> as),
               connection_ty = CanConnect\<rparr>) seeds"

definition run_start ::
    "(bytes \<Rightarrow> U256) \<Rightarrow> IterativeQuery \<Rightarrow> PeerStore \<Rightarrow> QueryStats \<Rightarrow> (PeerId, Ledger) hashmap \<Rightarrow> KadError + IterState" where
  "run_start sha q ps stats ledgers =
     (if iq_seeds q = [] then Inl NoKnownPeers
      else Inr \<lparr>it_swarm = ps, it_posted = [], it_results = local_results (iq_query_type q),
                it_closest = ClosestPeers_new sha (iq_key q),
                it_queue = [Queried (iq_local_id q) (seed_peers ps (iq_seeds q)) None None 0],
                it_jobs = [], it_spawned = [],
                it_stats = stats\<lparr>iter_query_executed := iter_query_executed stats + 1\<rparr>, it_ledgers = ledgers, it_status = Running\<rparr>)"

inductive query_step :: "(bytes \<Rightarrow> U256) \<Rightarrow> IterativeQuery \<Rightarrow> IterState \<Rightarrow> IterState \<Rightarrow> bool"
  for sha q where
  step_job: "peer \<in> set (it_jobs st) \<Longrightarrow> execute (iq_query_type q) (iq_key q) peer ms send duration = Some r
    \<Longrightarrow> query_step sha q st (job_done (iq_query_type q) peer cost r st)"
| step_loop: "it_status st = Running \<Longrightarrow> it_queue st = update # rest
    \<Longrightarrow> query_step sha q st (loop_body sha now q update (st\<lparr>it_queue := rest\<rparr>))"

inductive deadline_step :: "IterState \<Rightarrow> IterState \<Rightarrow> bool" where
  "it_status st = Running \<Longrightarrow> deadline_step st (st\<lparr>it_status := TimedOut,
    it_stats := (it_stats st)\<lparr>iter_query_timeout := iter_query_timeout (it_stats st) + 1\<rparr>\<rparr>)"

text \<open>The value that \<open>run\<close> hands to its callback.\<close>

fun run_result :: "QueryStatus \<Rightarrow> (KadError + QueryResult) option" where
  "run_result Running = None"
| "run_result (Completed res) = Some (Inr res)"
| "run_result TimedOut = Some (Inl Timeout)"
| "run_result Panicked = None"


section \<open>The fixed query\<close>

text \<open>One task of \<open>FixedQuery::run\<close>; the outer \<open>None\<close> is its panic on other query types.\<close>

definition fixed_task ::
    "(PeerId \<Rightarrow> KadError + unit) \<Rightarrow> (PeerId \<Rightarrow> KadRequestMsg \<Rightarrow> KadError + KadResponseMsg) \<Rightarrow>
      (PeerId \<Rightarrow> KadRequestMsg \<Rightarrow> KadError + unit) \<Rightarrow> QueryType \<Rightarrow> PeerId \<Rightarrow> (KadError + unit) option" where
  "fixed_task ms send write qt peer =
     (case ms peer of
        Inl e \<Rightarrow> Some (Inl e)
      | Inr _ \<Rightarrow>
          (case qt of
             PutRecord r \<Rightarrow> (case send_put_value (send peer) r of Inl e \<Rightarrow> Some (Inl e) | Inr _ \<Rightarrow> Some (Inr ()))
           | QueryType.AddProvider p addrs \<Rightarrow> Some (send_add_provider (write peer) p addrs)
           | _ \<Rightarrow> None))"

definition fixed_run ::
    "(PeerId \<Rightarrow> KadError + unit) \<Rightarrow> (PeerId \<Rightarrow> KadRequestMsg \<Rightarrow> KadError + KadResponseMsg) \<Rightarrow>
      (PeerId \<Rightarrow> KadRequestMsg \<Rightarrow> KadError + unit) \<Rightarrow> QueryType \<Rightarrow> PeerId list \<Rightarrow> QueryStats \<Rightarrow>
      (KadError + unit) \<times> QueryStats" where
  "fixed_run ms send write qt peers stats =
     (if peers = [] then (Inl NoKnownPeers, stats)
      else
        let executed = length peers;
            succeeded = length (filter (\<lambda>p. fixed_task ms send write qt p = Some (Inr ())) peers)
        in (Inr (), stats\<lparr>fixed_query_executed := fixed_query_executed stats + 1,
              message_tx := (count_message qt ^^ succeeded) (message_tx stats),
              fixed_tx_error := fixed_tx_error stats + of_nat (executed - succeeded),
              fixed_query_completed := fixed_query_completed stats + 1\<rparr>))"



section \<open>The table during a query\<close>

text \<open>The distances of the peers in a given state, and the peers stored under their own distance.\<close>

definition state_keys :: "PeerState \<Rightarrow> (Distance, PeerWithState) btreemap \<Rightarrow> Distance list" where
  "state_keys s m = map fst (filter (\<lambda>(_, p). pws_state p = s) m)"

definition peers_ok :: "(PeerId \<Rightarrow> Distance) \<Rightarrow> (Distance, PeerWithState) btreemap \<Rightarrow> bool" where
  "peers_ok \<delta> m \<longleftrightarrow> (\<forall>(d, p) \<in> set m. d = \<delta> (node_id (pws_peer p)))"

lemma state_keys_simps [simp]:
  "state_keys s [] = []"
  "state_keys s ((d, p) # m) = (if pws_state p = s then d # state_keys s m else state_keys s m)"
  by (simp_all add: state_keys_def)

lemma peers_ok_simps [simp]:
  "peers_ok \<delta> []"
  "peers_ok \<delta> ((d, p) # m) \<longleftrightarrow> d = \<delta> (node_id (pws_peer p)) \<and> peers_ok \<delta> m"
  by (simp_all add: peers_ok_def)

lemma state_keys_subset: "set (state_keys s m) \<subseteq> fst ` set m"
  by (auto simp: state_keys_def)

lemma distinct_state_keys: "bt_wf m \<Longrightarrow> distinct (state_keys s m)"
  unfolding state_keys_def by (rule distinct_map_filter) (rule bt_wf_distinct)

lemma num_of_state_keys: "num_of_state cp s = length (state_keys s (cp_peers cp))"
  by (simp add: num_of_state_def state_keys_def filter_map comp_def case_prod_unfold)

lemma state_keys_or_insert [simp]:
  "s \<noteq> NotContacted \<Longrightarrow> state_keys s (bt_or_insert d (PeerWithState_new p) m) = state_keys s m"
  by (induction d "PeerWithState_new p" m rule: bt_or_insert.induct)
    (auto simp: PeerWithState_new_def)

lemma state_keys_or_insert_new:
  assumes "bt_wf m"
  shows "set (state_keys NotContacted (bt_or_insert d (PeerWithState_new p) m)) =
     (if d \<in> fst ` set m then set (state_keys NotContacted m) else insert d (set (state_keys NotContacted m)))"
  using assms
proof (induction m)
  case Nil
  then show ?case by (simp add: PeerWithState_new_def)
next
  case (Cons x m)
  obtain d' v where x: "x = (d', v)" by (cases x)
  have "d \<noteq> d' \<Longrightarrow> d < d' \<Longrightarrow> d \<notin> fst ` set m" using Cons.prems x by auto
  with Cons x show ?case by (auto simp: PeerWithState_new_def)
qed

lemma state_keys_modify:
  assumes "s \<noteq> t"
  shows "state_keys s (bt_modify d (\<lambda>p. p\<lparr>pws_state := t\<rparr>) m) = filter (\<lambda>d'. d' \<noteq> d) (state_keys s m)"
  using assms by (induction m) (auto simp: bt_modify_def)

lemma peers_ok_or_insert:
  "peers_ok \<delta> m \<Longrightarrow> d = \<delta> (node_id p) \<Longrightarrow> peers_ok \<delta> (bt_or_insert d (PeerWithState_new p) m)"
  by (induction d "PeerWithState_new p" m rule: bt_or_insert.induct)
    (auto simp: PeerWithState_new_def)

lemma peers_ok_modify: "peers_ok \<delta> m \<Longrightarrow> peers_ok \<delta> (bt_modify d (\<lambda>p. p\<lparr>pws_state := t\<rparr>) m)"
  by (induction m) (auto simp: bt_modify_def)

text \<open>Marking peers as waiting.\<close>

lemma mark_waiting_keys: "mark_waiting n m = (ids, m') \<Longrightarrow> map fst m' = map fst m"
  by (induction n m arbitrary: ids m' rule: mark_waiting.induct) (auto split: if_splits prod.splits)

lemma mark_waiting_ok: "mark_waiting n m = (ids, m') \<Longrightarrow> peers_ok \<delta> m \<Longrightarrow> peers_ok \<delta> m'"
  by (induction n m arbitrary: ids m' rule: mark_waiting.induct)
    (auto split: if_splits prod.splits)

lemma mark_waiting_length: "mark_waiting n m = (ids, m') \<Longrightarrow> length ids = min n (length (state_keys NotContacted m))"
  by (induction n m arbitrary: ids m' rule: mark_waiting.induct)
    (auto split: if_splits prod.splits)

lemma mark_waiting_waiting:
  "mark_waiting n m = (ids, m') \<Longrightarrow> peers_ok \<delta> m \<Longrightarrow>
     mset (state_keys Waiting m') = mset (state_keys Waiting m) + mset (map \<delta> ids)"
  by (induction n m arbitrary: ids m' rule: mark_waiting.induct)
    (auto split: if_splits prod.splits)

lemma mark_waiting_not_contacted:
  "mark_waiting n m = (ids, m') \<Longrightarrow> peers_ok \<delta> m \<Longrightarrow>
     mset (state_keys NotContacted m) = mset (state_keys NotContacted m') + mset (map \<delta> ids)"
  by (induction n m arbitrary: ids m' rule: mark_waiting.induct)
    (auto split: if_splits prod.splits)

lemma is_starved_keys:
  "is_starved cp \<longleftrightarrow> state_keys NotContacted (cp_peers cp) = [] \<and> state_keys Waiting (cp_peers cp) = []"
  by (force simp: is_starved_def num_of_states_def state_keys_def filter_empty_conv)

lemma starved_can_terminate: "is_starved cp \<Longrightarrow> can_terminate cp beta"
  by (force simp: is_starved_keys state_keys_def can_terminate_def list_all_iff filter_empty_conv
      dest!: in_set_takeD)


section \<open>The invariant of an iterative query\<close>

definition query_dist :: "(bytes \<Rightarrow> U256) \<Rightarrow> IterativeQuery \<Rightarrow> PeerId \<Rightarrow> Distance" where
  "query_dist sha q p = distance (sha (to_bytes p)) (sha (iq_key q))"

fun update_source :: "QueryUpdate \<Rightarrow> PeerId" where
  "update_source (Queried p _ _ _ _) = p"
| "update_source (QueryUpdate.Unreachable p) = p"

text \<open>The peers that were contacted and whose answer the loop has not handled.\<close>

definition pending :: "IterState \<Rightarrow> PeerId list" where
  "pending st = it_jobs st @ map update_source (it_queue st)"

definition table_ok :: "(bytes \<Rightarrow> U256) \<Rightarrow> IterativeQuery \<Rightarrow> ClosestPeers \<Rightarrow> bool" where
  "table_ok sha q cp \<longleftrightarrow>
     cp_target cp = Key_new sha (iq_key q) \<and> bt_wf (cp_peers cp) \<and> peers_ok (query_dist sha q) (cp_peers cp)"

definition spawned_ok :: "(bytes \<Rightarrow> U256) \<Rightarrow> IterativeQuery \<Rightarrow> IterState \<Rightarrow> bool" where
  "spawned_ok sha q st \<longleftrightarrow>
     distinct (map (query_dist sha q) (it_spawned st))
     \<and> (\<forall>p \<in> set (it_spawned st). query_dist sha q p \<in> fst ` set (cp_peers (it_closest st))
          \<and> query_dist sha q p \<notin> set (state_keys NotContacted (cp_peers (it_closest st))))"

definition pending_ok :: "(bytes \<Rightarrow> U256) \<Rightarrow> IterativeQuery \<Rightarrow> IterState \<Rightarrow> bool" where
  "pending_ok sha q st \<longleftrightarrow>
     mset (map (query_dist sha q) (pending st)) = mset (state_keys Waiting (cp_peers (it_closest st)))
     \<and> length (pending st) \<le> alpha_value (iq_config q)
     \<and> set (pending st) \<subseteq> set (it_spawned st)
     \<and> (it_status st = Running \<longrightarrow> pending st \<noteq> [])"

definition initial :: "IterativeQuery \<Rightarrow> IterState \<Rightarrow> bool" where
  "initial q st \<longleftrightarrow>
     cp_peers (it_closest st) = [] \<and> it_jobs st = [] \<and> it_spawned st = [] \<and> it_status st \<in> {Running, TimedOut}
     \<and> (\<exists>seeds. it_queue st = [Queried (iq_local_id q) seeds None None 0])"

fun iterative_type :: "QueryType \<Rightarrow> bool" where
  "iterative_type (QueryType.AddProvider _ _) = False"
| "iterative_type (PutRecord _) = False"
| "iterative_type _ = True"

definition query_inv :: "(bytes \<Rightarrow> U256) \<Rightarrow> IterativeQuery \<Rightarrow> IterState \<Rightarrow> bool" where
  "query_inv sha q st \<longleftrightarrow>
     table_ok sha q (it_closest st) \<and> spawned_ok sha q st \<and> it_status st \<noteq> Panicked
     \<and> (initial q st \<or> pending_ok sha q st)"

lemma cp_distance_query:
  "cp_target cp = Key_new sha (iq_key q) \<Longrightarrow> cp_distance sha cp p = query_dist sha q p"
  by (simp add: cp_distance_def query_dist_def Key_new_def KeyBytes_new_def RecordKey_from_PeerId_def)

lemma add_peers_props:
  assumes "table_ok sha q cp"
  shows "table_ok sha q (add_peers sha ps cp)
    \<and> (\<forall>s. s \<noteq> NotContacted \<longrightarrow> state_keys s (cp_peers (add_peers sha ps cp)) = state_keys s (cp_peers cp))
    \<and> (\<forall>d \<in> fst ` set (cp_peers cp). d \<in> fst ` set (cp_peers (add_peers sha ps cp))
         \<and> (d \<in> set (state_keys NotContacted (cp_peers (add_peers sha ps cp)))
              \<longrightarrow> d \<in> set (state_keys NotContacted (cp_peers cp))))"
  using assms
proof (induction ps arbitrary: cp)
  case Nil
  then show ?case by (simp add: add_peers_def)
next
  case (Cons p ps)
  let ?d = "cp_distance sha cp (node_id p)"
  let ?cp = "cp\<lparr>cp_peers := bt_or_insert ?d (PeerWithState_new p) (cp_peers cp)\<rparr>"
  have e: "add_peers sha (p # ps) cp = add_peers sha ps ?cp" by (simp add: add_peers_def)
  have t: "cp_target cp = Key_new sha (iq_key q)" "bt_wf (cp_peers cp)" "peers_ok (query_dist sha q) (cp_peers cp)"
    using Cons.prems by (auto simp: table_ok_def)
  have "table_ok sha q ?cp"
    using t by (simp add: table_ok_def peers_ok_or_insert cp_distance_query bt_wf_or_insert)
  note ih = Cons.IH [OF this]
  have "set (state_keys NotContacted (cp_peers ?cp)) = (if ?d \<in> fst ` set (cp_peers cp)
      then set (state_keys NotContacted (cp_peers cp)) else insert ?d (set (state_keys NotContacted (cp_peers cp))))"
    using state_keys_or_insert_new [OF t(2)] by simp
  then have new: "d \<in> fst ` set (cp_peers cp) \<Longrightarrow> d \<in> set (state_keys NotContacted (cp_peers ?cp)) \<Longrightarrow>
      d \<in> set (state_keys NotContacted (cp_peers cp))" for d
    by (metis insertE)
  have old: "d \<in> fst ` set (cp_peers cp) \<Longrightarrow> d \<in> fst ` set (cp_peers ?cp)" for d
    unfolding ClosestPeers.select_convs ClosestPeers.update_convs by simp
  show ?case unfolding e
  proof (intro conjI ballI allI impI)
    fix d assume d: "d \<in> fst ` set (cp_peers cp)"
    show "d \<in> fst ` set (cp_peers (add_peers sha ps ?cp))" using ih old [OF d] by blast
    assume "d \<in> set (state_keys NotContacted (cp_peers (add_peers sha ps ?cp)))"
    then show "d \<in> set (state_keys NotContacted (cp_peers cp))" using ih old [OF d] new [OF d] by blast
  qed (use ih in simp_all)
qed

lemma set_peer_state_props:
  assumes "table_ok sha q cp"
  shows "table_ok sha q (set_peer_state sha p t cp)"
    and "s \<noteq> t \<Longrightarrow> state_keys s (cp_peers (set_peer_state sha p t cp)) =
      filter (\<lambda>d. d \<noteq> query_dist sha q p) (state_keys s (cp_peers cp))"
    and "fst ` set (cp_peers (set_peer_state sha p t cp)) = fst ` set (cp_peers cp)"
proof -
  have d: "cp_distance sha cp p = query_dist sha q p" and wf: "bt_wf (cp_peers cp)"
    using assms by (auto simp: table_ok_def cp_distance_query)
  have k: "map fst (cp_peers (set_peer_state sha p t cp)) = map fst (cp_peers cp)"
    by (simp add: set_peer_state_def)
  show "table_ok sha q (set_peer_state sha p t cp)"
    using assms by (simp add: table_ok_def set_peer_state_def peers_ok_modify)
  show "s \<noteq> t \<Longrightarrow> state_keys s (cp_peers (set_peer_state sha p t cp)) =
      filter (\<lambda>d. d \<noteq> query_dist sha q p) (state_keys s (cp_peers cp))"
    using d by (simp add: set_peer_state_def state_keys_modify)
  show "fst ` set (cp_peers (set_peer_state sha p t cp)) = fst ` set (cp_peers cp)"
    using arg_cong [OF k, of set] by simp
qed

lemma handle_update_total: "iterative_type (iq_query_type q) \<Longrightarrow> handle_update sha now q u st \<noteq> None"
  by (auto simp: handle_update_def Let_def split: QueryUpdate.splits QueryType.splits option.splits)

lemma handle_update_frame:
  assumes "handle_update sha now q u st = Some (b, st')"
  shows "it_jobs st' = it_jobs st \<and> it_queue st' = it_queue st \<and> it_spawned st' = it_spawned st
    \<and> it_status st' = it_status st
    \<and> it_closest st' = (case u of
        Queried p closer _ _ _ \<Rightarrow>
          set_peer_state sha p Succeeded (add_peers sha (filter (\<lambda>p. node_id p \<noteq> iq_local_id q) closer) (it_closest st))
      | QueryUpdate.Unreachable p \<Rightarrow> set_peer_state sha p PeerState.Unreachable (it_closest st))"
  using assms
  by (auto simp: handle_update_def Let_def split: QueryUpdate.splits QueryType.splits option.splits if_splits)

lemma handle_update_table:
  assumes "handle_update sha now q u st = Some (b, st')" "table_ok sha q (it_closest st)"
  shows "table_ok sha q (it_closest st')"
    and "state_keys Waiting (cp_peers (it_closest st')) =
      filter (\<lambda>d. d \<noteq> query_dist sha q (update_source u)) (state_keys Waiting (cp_peers (it_closest st)))"
    and "d \<in> fst ` set (cp_peers (it_closest st)) \<Longrightarrow> d \<in> fst ` set (cp_peers (it_closest st'))
      \<and> (d \<in> set (state_keys NotContacted (cp_peers (it_closest st')))
           \<longrightarrow> d \<in> set (state_keys NotContacted (cp_peers (it_closest st))))"
proof -
  obtain p t ps where c: "update_source u = p" "t \<in> {Succeeded, PeerState.Unreachable}"
      "it_closest st' = set_peer_state sha p t (add_peers sha ps (it_closest st))"
  proof (cases u)
    case (Queried p closer x y z)
    with handle_update_frame [OF assms(1)] show thesis by (intro that) auto
  next
    case (Unreachable p)
    moreover have "add_peers sha [] (it_closest st) = it_closest st" by (simp add: add_peers_def)
    ultimately show thesis using handle_update_frame [OF assms(1)] by (intro that [of p _ "[]"]) auto
  qed
  note a = add_peers_props [OF assms(2), of ps]
  then have t: "table_ok sha q (add_peers sha ps (it_closest st))" by blast
  note m = set_peer_state_props [OF t, where p = p]
  show "table_ok sha q (it_closest st')" using m(1) c(3) by simp
  show "state_keys Waiting (cp_peers (it_closest st')) =
      filter (\<lambda>d. d \<noteq> query_dist sha q (update_source u)) (state_keys Waiting (cp_peers (it_closest st)))"
    using m(2) [where s = Waiting and t = t] a c by auto
  show "d \<in> fst ` set (cp_peers (it_closest st)) \<Longrightarrow> d \<in> fst ` set (cp_peers (it_closest st'))
      \<and> (d \<in> set (state_keys NotContacted (cp_peers (it_closest st')))
           \<longrightarrow> d \<in> set (state_keys NotContacted (cp_peers (it_closest st))))"
    using m(2) [where s = NotContacted and t = t] m(3) [where t = t] a c by auto
qed

text \<open>After the update of a peer that was waiting, or of the seeds, the pending peers are the waiting ones.\<close>

lemma mset_filter_neq: "distinct xs \<Longrightarrow> mset (filter (\<lambda>y. y \<noteq> x) xs) = mset xs - {#x#}"
  by (induction xs) (auto simp: filter_id_conv)

lemma handle_update_pending:
  assumes inv: "query_inv sha q st" and run: "it_status st = Running" and u: "it_queue st = u # rest"
    and h: "handle_update sha now q u (st\<lparr>it_queue := rest\<rparr>) = Some (b, st')"
  shows "mset (map (query_dist sha q) (pending st')) = mset (state_keys Waiting (cp_peers (it_closest st')))"
    and "length (pending st') < alpha_value (iq_config q) \<or> pending st' = []"
    and "set (pending st') \<subseteq> set (it_spawned st')"
proof -
  have t: "table_ok sha q (it_closest st)" using inv by (simp add: query_inv_def)
  note f = handle_update_frame [OF h] and w = handle_update_table(2) [OF h]
  have p': "pending st' = it_jobs st @ map update_source rest" using f by (simp add: pending_def)
  show "mset (map (query_dist sha q) (pending st')) = mset (state_keys Waiting (cp_peers (it_closest st')))"
  proof (cases "initial q st")
    case True
    with u p' w t show ?thesis by (auto simp: initial_def)
  next
    case False
    with inv have po: "mset (map (query_dist sha q) (pending st)) = mset (state_keys Waiting (cp_peers (it_closest st)))"
      by (simp add: query_inv_def pending_ok_def)
    have "distinct (state_keys Waiting (cp_peers (it_closest st)))"
      using t by (simp add: table_ok_def distinct_state_keys)
    note d = mset_filter_neq [OF this]
    have w': "state_keys Waiting (cp_peers (it_closest st')) =
        filter (\<lambda>d. d \<noteq> query_dist sha q (update_source u)) (state_keys Waiting (cp_peers (it_closest st)))"
      using w t by simp
    have "mset (state_keys Waiting (cp_peers (it_closest st'))) =
        mset (map (query_dist sha q) (pending st)) - {#query_dist sha q (update_source u)#}"
      unfolding w' d po ..
    then show ?thesis using u p' by (simp add: pending_def)
  qed
  show "length (pending st') < alpha_value (iq_config q) \<or> pending st' = []"
  proof (cases "initial q st")
    case True
    then show ?thesis using u p' by (auto simp: initial_def)
  next
    case False
    with inv have "length (pending st) \<le> alpha_value (iq_config q)" by (simp add: query_inv_def pending_ok_def)
    then show ?thesis using u p' by (simp add: pending_def)
  qed
  show "set (pending st') \<subseteq> set (it_spawned st')"
  proof (cases "initial q st")
    case True
    then show ?thesis using u p' by (auto simp: initial_def)
  next
    case False
    with inv have "set (pending st) \<subseteq> set (it_spawned st)" by (simp add: query_inv_def pending_ok_def)
    then show ?thesis using u p' f by (auto simp: pending_def)
  qed
qed

lemma handle_update_spawned:
  assumes "query_inv sha q st" "handle_update sha now q u (st\<lparr>it_queue := rest\<rparr>) = Some (b, st')"
  shows "spawned_ok sha q st'"
proof -
  have t: "table_ok sha q (it_closest (st\<lparr>it_queue := rest\<rparr>))" using assms(1) by (simp add: query_inv_def)
  have "it_spawned st' = it_spawned st" using handle_update_frame [OF assms(2)] by simp
  moreover have "spawned_ok sha q st" using assms(1) by (simp add: query_inv_def)
  moreover have "it_closest (st\<lparr>it_queue := rest\<rparr>) = it_closest st" by simp
  note tb = handle_update_table(3) [OF assms(2) t, unfolded this]
  ultimately show ?thesis unfolding spawned_ok_def using tb by metis
qed

lemma collect_result_frame:
  "it_jobs (collect_result q st) = it_jobs st \<and> it_queue (collect_result q st) = it_queue st
   \<and> it_spawned (collect_result q st) = it_spawned st \<and> it_closest (collect_result q st) = it_closest st
   \<and> (\<exists>res. it_status (collect_result q st) = Completed res \<and> it_results (collect_result q st) = res)"
  by (simp add: collect_result_def Let_def)

lemma query_inv_collect:
  assumes "table_ok sha q (it_closest st)" "spawned_ok sha q st"
    and "mset (map (query_dist sha q) (pending st)) = mset (state_keys Waiting (cp_peers (it_closest st)))"
    and "length (pending st) < alpha_value (iq_config q) \<or> pending st = []"
    and "set (pending st) \<subseteq> set (it_spawned st)"
  shows "query_inv sha q (collect_result q st)"
  using assms collect_result_frame [of q st]
  by (auto simp: query_inv_def pending_ok_def pending_def spawned_ok_def)

lemma query_inv_start_jobs:
  assumes t: "table_ok sha q (it_closest st)" and sp: "spawned_ok sha q st"
    and w: "mset (map (query_dist sha q) (pending st)) = mset (state_keys Waiting (cp_peers (it_closest st)))"
    and len: "length (pending st) < alpha_value (iq_config q) \<or> pending st = []"
    and sub: "set (pending st) \<subseteq> set (it_spawned st)"
    and run: "it_status st = Running" and alpha: "0 < alpha_value (iq_config q)"
    and not_starved: "\<not> is_starved (it_closest st)"
  shows "query_inv sha q (start_jobs q st) \<and> it_status (start_jobs q st) = Running"
proof -
  let ?m = "cp_peers (it_closest st)" and ?\<delta> = "query_dist sha q" and ?alpha = "alpha_value (iq_config q)"
  have ok: "bt_wf ?m" "peers_ok ?\<delta> ?m" "cp_target (it_closest st) = Key_new sha (iq_key q)"
    using t by (auto simp: table_ok_def)
  have nw: "num_of_state (it_closest st) Waiting = length (pending st)"
    unfolding num_of_state_keys using arg_cong [OF w, of size] by simp
  with len alpha have le: "num_of_state (it_closest st) Waiting < ?alpha" by auto
  obtain ids m' where mw: "mark_waiting (?alpha - num_of_state (it_closest st) Waiting) ?m = (ids, m')"
    by (cases "mark_waiting (?alpha - num_of_state (it_closest st) Waiting) ?m")
  let ?st = "start_jobs q st"
  have st: "it_closest ?st = (it_closest st)\<lparr>cp_peers := m'\<rparr>" "it_jobs ?st = it_jobs st @ ids"
    "it_spawned ?st = it_spawned st @ ids" "it_queue ?st = it_queue st" "it_status ?st = Running"
    using le mw run by (auto simp: start_jobs_def Let_def)
  have keys: "map fst m' = map fst ?m" by (rule mark_waiting_keys [OF mw])
  have t': "table_ok sha q (it_closest ?st)"
    using ok mark_waiting_ok [OF mw ok(2)] keys by (simp add: table_ok_def st)
  note nc = mark_waiting_not_contacted [OF mw ok(2)] and lw = mark_waiting_length [OF mw]
  have dnc: "distinct (state_keys NotContacted ?m)" by (rule distinct_state_keys [OF ok(1)])
  have d_nc: "set (state_keys NotContacted ?m) = set (state_keys NotContacted m') \<union> ?\<delta> ` set ids"
    using arg_cong [OF nc, of set_mset] by simp
  have d_ids: "distinct (map ?\<delta> ids)" "?\<delta> ` set ids \<inter> set (state_keys NotContacted m') = {}"
  proof -
    have "mset (state_keys NotContacted ?m) = mset (state_keys NotContacted m' @ map ?\<delta> ids)" using nc by simp
    then have "distinct (state_keys NotContacted m' @ map ?\<delta> ids)"
      using dnc mset_eq_imp_distinct_iff by blast
    then show "distinct (map ?\<delta> ids)" "?\<delta> ` set ids \<inter> set (state_keys NotContacted m') = {}" by auto
  qed
  have fk: "fst ` set m' = fst ` set ?m" using arg_cong [OF keys, of set] by simp
  have "spawned_ok sha q ?st"
    using sp d_ids d_nc state_keys_subset [of NotContacted ?m]
    by (auto simp: spawned_ok_def st fk simp del: map_append) (auto simp: distinct_append image_iff)
  moreover have "pending_ok sha q ?st"
  proof -
    have "mset (map ?\<delta> (pending ?st)) = mset (map ?\<delta> (pending st)) + mset (map ?\<delta> ids)"
      by (simp add: pending_def st)
    moreover have "length (pending ?st) = length (pending st) + length ids" by (simp add: pending_def st)
    moreover have "pending ?st \<noteq> []"
    proof (cases "pending st = []")
      case True
      then have "state_keys Waiting ?m = []" using w by simp
      with not_starved have "state_keys NotContacted ?m \<noteq> []" by (simp add: is_starved_keys)
      with lw le have "0 < length ids" by simp
      then have "ids \<noteq> []" by simp
      then show ?thesis by (simp add: pending_def st)
    next
      case False
      then show ?thesis by (auto simp: pending_def st)
    qed
    ultimately show ?thesis
      using mark_waiting_waiting [OF mw ok(2)] w lw le nw sub by (auto simp: pending_ok_def st pending_def)
  qed
  ultimately show ?thesis using t' st(5) by (simp add: query_inv_def)
qed

lemma query_inv_loop_body:
  assumes inv: "query_inv sha q st" and run: "it_status st = Running" and u: "it_queue st = u # rest"
    and it: "iterative_type (iq_query_type q)" and alpha: "0 < alpha_value (iq_config q)"
  shows "query_inv sha q (loop_body sha now q u (st\<lparr>it_queue := rest\<rparr>))"
proof -
  obtain b st' where h: "handle_update sha now q u (st\<lparr>it_queue := rest\<rparr>) = Some (b, st')"
    using handle_update_total [OF it, of sha now u "st\<lparr>it_queue := rest\<rparr>"] by auto
  have "table_ok sha q (it_closest (st\<lparr>it_queue := rest\<rparr>))" using inv by (simp add: query_inv_def)
  note t = handle_update_table(1) [OF h this] and p = handle_update_pending [OF inv run u h]
    and s = handle_update_spawned [OF inv h]
  have r: "it_status st' = Running" using handle_update_frame [OF h] run by simp
  show ?thesis
    unfolding loop_body_def h
    using query_inv_collect [OF t s p] query_inv_start_jobs [OF t s p r alpha] by simp
qed

lemma query_inv_job_done:
  assumes inv: "query_inv sha q st" and p: "peer \<in> set (it_jobs st)"
    and e: "execute qt (iq_key q) peer ms send duration = Some r"
  shows "query_inv sha q (job_done (iq_query_type q) peer cost r st)"
proof -
  let ?st = "job_done (iq_query_type q) peer cost r st"
  have src: "update_source u = peer" if "r = Inr u" for u
    using e that by (auto simp: execute_def split: sum.splits QueryType.splits)
  have f: "it_closest ?st = it_closest st" "it_spawned ?st = it_spawned st" "it_status ?st = it_status st"
    by (auto simp: job_done_def Let_def split: sum.splits)
  have ms: "mset (pending ?st) = mset (pending st)"
    using p src by (cases r) (auto simp: pending_def job_done_def Let_def)
  have "\<not> initial q st" using p by (auto simp: initial_def)
  with inv have po: "pending_ok sha q st" by (simp add: query_inv_def)
  have "pending_ok sha q ?st"
  proof -
    have "length (pending ?st) = length (pending st)" using arg_cong [OF ms, of size] by simp
    moreover have "set (pending ?st) = set (pending st)" using arg_cong [OF ms, of set_mset] by simp
    ultimately show ?thesis using po ms by (auto simp: pending_ok_def f)
  qed
  with inv f show ?thesis by (simp add: query_inv_def spawned_ok_def)
qed

lemma query_inv_step:
  assumes "query_step sha q st st'" "query_inv sha q st"
    and "iterative_type (iq_query_type q)" "0 < alpha_value (iq_config q)"
  shows "query_inv sha q st'"
  using assms by (cases rule: query_step.cases) (auto intro: query_inv_loop_body query_inv_job_done)

lemma query_inv_deadline:
  assumes "deadline_step st st'" "query_inv sha q st"
  shows "query_inv sha q st'"
proof -
  have "it_jobs st' = it_jobs st" "it_queue st' = it_queue st" "it_spawned st' = it_spawned st"
    "it_closest st' = it_closest st" "it_status st' = TimedOut"
    using assms(1) by (auto elim: deadline_step.cases)
  moreover from this have "pending st' = pending st" by (simp add: pending_def)
  ultimately show ?thesis
    using assms(2) by (simp add: query_inv_def spawned_ok_def pending_ok_def initial_def) blast
qed

lemma query_inv_start: "run_start sha q ps stats ledgers = Inr st \<Longrightarrow> query_inv sha q st \<and> it_status st = Running"
  by (auto simp: run_start_def query_inv_def table_ok_def spawned_ok_def initial_def ClosestPeers_new_def
      split: if_splits)

text \<open>The states an iterative query can be in.\<close>

inductive query_reach :: "(bytes \<Rightarrow> U256) \<Rightarrow> IterativeQuery \<Rightarrow> PeerStore \<Rightarrow> IterState \<Rightarrow> bool"
  for sha q ps where
  reach_start: "run_start sha q ps stats ledgers = Inr st \<Longrightarrow> query_reach sha q ps st"
| reach_step: "query_reach sha q ps st \<Longrightarrow> query_step sha q st st' \<Longrightarrow> query_reach sha q ps st'"
| reach_deadline: "query_reach sha q ps st \<Longrightarrow> deadline_step st st' \<Longrightarrow> query_reach sha q ps st'"

lemma query_reach_inv:
  assumes "query_reach sha q ps st" "iterative_type (iq_query_type q)" "0 < alpha_value (iq_config q)"
  shows "query_inv sha q st"
  using assms
  by (induction rule: query_reach.induct) (auto dest: query_inv_start intro: query_inv_step query_inv_deadline)


section \<open>The number of steps\<close>

text \<open>Every job causes two steps, its end and the handling of its update; the seeds cause one.\<close>

lemma steps_invariant:
  assumes "(query_step sha q ^^ n) st0 st" "run_start sha q ps stats ledgers = Inr st0"
    and "iterative_type (iq_query_type q)" "0 < alpha_value (iq_config q)"
  shows "query_reach sha q ps st
    \<and> n + 2 * length (it_jobs st) + length (it_queue st) = 1 + 2 * length (it_spawned st)"
  using assms(1)
proof (induction n arbitrary: st)
  case 0
  then show ?case using assms(2) by (auto intro: reach_start simp: run_start_def split: if_splits)
next
  case (Suc n)
  then obtain st1 where st1: "(query_step sha q ^^ n) st0 st1" "query_step sha q st1 st" by auto
  note ih = Suc.IH [OF st1(1)]
  from query_reach_inv [OF _ assms(3,4)] ih have "query_inv sha q st1" by blast
  from st1(2) have "Suc n + 2 * length (it_jobs st) + length (it_queue st) = 1 + 2 * length (it_spawned st)"
  proof (cases rule: query_step.cases)
    case (step_job peer ms send duration r cost)
    then have "it_jobs st1 \<noteq> []" by auto
    then have "length (it_jobs st1) = Suc (length (it_jobs st))" "it_spawned st = it_spawned st1"
      "length (it_queue st) = length (it_queue st1) + 1"
      using step_job by (auto simp: length_remove1 job_done_def Let_def split: sum.splits)
    then show ?thesis using ih by simp
  next
    case (step_loop u rest now)
    obtain b st2 where h: "handle_update sha now q u (st1\<lparr>it_queue := rest\<rparr>) = Some (b, st2)"
      using handle_update_total [OF assms(3), of sha now u "st1\<lparr>it_queue := rest\<rparr>"] by auto
    have f: "it_jobs st2 = it_jobs st1" "it_queue st2 = rest" "it_spawned st2 = it_spawned st1"
      using handle_update_frame [OF h] by simp_all
    obtain k where k: "length (it_jobs st) = length (it_jobs st1) + k" "it_queue st = rest"
      "length (it_spawned st) = length (it_spawned st1) + k"
    proof (cases "b \<or> is_starved (it_closest st2) \<or> can_terminate (it_closest st2) (beta_value (iq_config q))")
      case True
      then have "st = collect_result q st2" using step_loop(1) h by (auto simp: loop_body_def)
      then show thesis using f collect_result_frame [of q st2] by (intro that [of 0]) auto
    next
      case False
      then have "st = start_jobs q st2" using step_loop(1) h by (auto simp: loop_body_def)
      then show thesis using f that
        by (cases "num_of_state (it_closest st2) Waiting > alpha_value (iq_config q)")
          (auto simp: start_jobs_def Let_def split: prod.splits)
    qed
    then show ?thesis using ih step_loop(3) by simp
  qed
  with ih st1(2) show ?case by (blast intro: reach_step)
qed

lemma spawned_bound:
  assumes "query_inv sha q st"
  shows "length (it_spawned st) \<le> length (cp_peers (it_closest st))"
proof -
  have s: "distinct (map (query_dist sha q) (it_spawned st))"
    "set (map (query_dist sha q) (it_spawned st)) \<subseteq> set (map fst (cp_peers (it_closest st)))"
    using assms by (auto simp: query_inv_def spawned_ok_def)
  have "length (it_spawned st) = card (set (map (query_dist sha q) (it_spawned st)))"
    using distinct_card [OF s(1)] by simp
  also have "\<dots> \<le> card (set (map fst (cp_peers (it_closest st))))" by (rule card_mono [OF _ s(2)]) simp
  also have "\<dots> \<le> length (cp_peers (it_closest st))" using card_length [of "map fst (cp_peers (it_closest st))"] by simp
  finally show ?thesis .
qed


section \<open>The local node is never a peer of the query\<close>

definition no_local :: "PeerId \<Rightarrow> (Distance, PeerWithState) btreemap \<Rightarrow> bool" where
  "no_local l m \<longleftrightarrow> (\<forall>(d, p) \<in> set m. node_id (pws_peer p) \<noteq> l)"

lemma no_local_simps [simp]:
  "no_local l []" "no_local l ((d, p) # m) \<longleftrightarrow> node_id (pws_peer p) \<noteq> l \<and> no_local l m"
  by (simp_all add: no_local_def)

lemma no_local_or_insert: "no_local l m \<Longrightarrow> node_id p \<noteq> l \<Longrightarrow> no_local l (bt_or_insert d (PeerWithState_new p) m)"
  by (induction d "PeerWithState_new p" m rule: bt_or_insert.induct) (auto simp: PeerWithState_new_def)

lemma no_local_modify: "no_local l m \<Longrightarrow> no_local l (bt_modify d (\<lambda>p. p\<lparr>pws_state := t\<rparr>) m)"
  by (induction m) (auto simp: bt_modify_def)

lemma no_local_add_peers:
  "no_local l (cp_peers cp) \<Longrightarrow> \<forall>p \<in> set ps. node_id p \<noteq> l \<Longrightarrow> no_local l (cp_peers (add_peers sha ps cp))"
  by (induction ps arbitrary: cp) (auto simp: add_peers_def no_local_or_insert)

lemma no_local_mark_waiting:
  "mark_waiting n m = (ids, m') \<Longrightarrow> no_local l m \<Longrightarrow> no_local l m' \<and> l \<notin> set ids"
  by (induction n m arbitrary: ids m' rule: mark_waiting.induct) (auto split: if_splits prod.splits)

definition local_free :: "IterativeQuery \<Rightarrow> IterState \<Rightarrow> bool" where
  "local_free q st \<longleftrightarrow> no_local (iq_local_id q) (cp_peers (it_closest st)) \<and> iq_local_id q \<notin> set (it_spawned st)"

lemma local_free_handle_update:
  assumes "handle_update sha now q u st = Some (b, st')" "local_free q st"
  shows "local_free q st'"
  using handle_update_frame [OF assms(1)] assms(2)
  by (auto simp: local_free_def set_peer_state_def no_local_modify no_local_add_peers split: QueryUpdate.splits)

lemma local_free_loop_body:
  assumes "local_free q st"
  shows "local_free q (loop_body sha now q u st)"
proof (cases "handle_update sha now q u st")
  case None
  with assms show ?thesis by (simp add: loop_body_def local_free_def)
next
  case (Some r)
  obtain b st' where r: "r = (b, st')" by (cases r)
  have l: "local_free q st'" using local_free_handle_update Some r assms by blast
  obtain ids m where mw: "mark_waiting (alpha_value (iq_config q) - num_of_state (it_closest st') Waiting)
      (cp_peers (it_closest st')) = (ids, m)"
    by (cases "mark_waiting (alpha_value (iq_config q) - num_of_state (it_closest st') Waiting) (cp_peers (it_closest st'))")
  have "local_free q (collect_result q st')" using l collect_result_frame [of q st'] by (simp add: local_free_def)
  moreover have "local_free q (start_jobs q st')"
    using l no_local_mark_waiting [OF mw] mw by (auto simp: local_free_def start_jobs_def Let_def)
  ultimately show ?thesis by (simp add: loop_body_def Some r)
qed

lemma query_reach_local_free:
  assumes "query_reach sha q ps st"
  shows "local_free q st"
  using assms
proof (induction rule: query_reach.induct)
  case (reach_start stats ledgers st)
  then show ?case by (auto simp: run_start_def local_free_def ClosestPeers_new_def split: if_splits)
next
  case (reach_step st st')
  from reach_step(2) show ?case
  proof (cases rule: query_step.cases)
    case (step_job peer ms send duration r cost)
    with reach_step.IH show ?thesis by (auto simp: local_free_def job_done_def Let_def split: sum.splits)
  next
    case (step_loop u rest now)
    with reach_step.IH local_free_loop_body [of q "st\<lparr>it_queue := rest\<rparr>"] show ?thesis
      by (simp add: local_free_def)
  qed
next
  case (reach_deadline st st')
  then show ?case by (auto simp: local_free_def elim!: deadline_step.cases)
qed


section \<open>The result of a query\<close>

text \<open>The peers that have not failed, closest first; a result that fits the table at the end.\<close>

definition live_peers :: "ClosestPeers \<Rightarrow> PeerWithState list" where
  "live_peers cp = filter (\<lambda>p. pws_state p \<noteq> PeerState.Unreachable) (map snd (cp_peers cp))"

definition answer_ok :: "IterativeQuery \<Rightarrow> ClosestPeers \<Rightarrow> QueryResult \<Rightarrow> bool" where
  "answer_ok q cp res \<longleftrightarrow>
     qr_closest_peers res =
       (case take (k_value (iq_config q)) (live_peers cp) of [] \<Rightarrow> None | ps \<Rightarrow> Some (map pws_peer ps))
     \<and> (iq_query_type q = FindPeer \<longrightarrow> qr_found_peer res = has_target cp)
     \<and> (iq_query_type q = GetClosestPeers \<or> (iq_query_type q = FindPeer \<and> qr_found_peer res = None)
          \<longrightarrow> (\<forall>p \<in> set (take (beta_value (iq_config q)) (live_peers cp)). pws_state p = Succeeded))"

definition results_ok :: "IterativeQuery \<Rightarrow> IterState \<Rightarrow> bool" where
  "results_ok q st \<longleftrightarrow>
     (it_status st = Running \<longrightarrow>
        qr_closest_peers (it_results st) = None \<and> qr_found_peer (it_results st) = None
        \<and> (iq_query_type q = FindPeer \<longrightarrow> has_target (it_closest st) = None))
     \<and> (\<forall>res. it_status st = Completed res \<longrightarrow> answer_ok q (it_closest st) res)"

lemma live_peers_wanted: "filter (\<lambda>p. pws_state p \<in> set wanted_states) xs = filter (\<lambda>p. pws_state p \<noteq> PeerState.Unreachable) xs"
  by (rule filter_cong) (auto simp: wanted_states_def intro: PeerState.exhaust)

lemma can_terminate_live:
  "can_terminate cp beta \<longleftrightarrow> (\<forall>p \<in> set (take beta (live_peers cp)). pws_state p = Succeeded)"
proof -
  have "(\<lambda>p :: PeerWithState. pws_state p = NotContacted \<or> pws_state p = Waiting \<or> pws_state p = Succeeded) =
      (\<lambda>p. pws_state p \<noteq> PeerState.Unreachable)"
    by (rule ext) (auto intro: PeerState.exhaust)
  then show ?thesis unfolding can_terminate_def live_peers_def list_all_iff by (simp only:)
qed

lemma has_target_set_state [simp]: "has_target (set_peer_state sha p t cp) = has_target cp"
  by (auto simp: has_target_def set_peer_state_def map_of_bt_modify option.map_comp comp_def)

lemma has_target_mark_waiting:
  assumes "mark_waiting n (cp_peers cp) = (ids, m)"
  shows "has_target (cp\<lparr>cp_peers := m\<rparr>) = None \<longleftrightarrow> has_target cp = None"
  using arg_cong [OF mark_waiting_keys [OF assms], of set] by (simp add: has_target_def map_of_eq_None_iff)

lemma handle_update_results:
  assumes "handle_update sha now q u st = Some (b, st')" "results_ok q st" "it_status st = Running"
  shows "qr_closest_peers (it_results st') = None"
    and "iq_query_type q = GetClosestPeers \<Longrightarrow> \<not> b"
    and "\<not> b \<Longrightarrow> qr_found_peer (it_results st') = None"
    and "iq_query_type q = FindPeer \<Longrightarrow> qr_found_peer (it_results st') = has_target (it_closest st')"
    and "iq_query_type q = FindPeer \<Longrightarrow> b \<longleftrightarrow> has_target (it_closest st') \<noteq> None"
  using assms
  by (auto simp: handle_update_def Let_def results_ok_def
      split: QueryUpdate.splits QueryType.splits option.splits if_splits)

lemma collect_result_answer:
  assumes "qr_closest_peers (it_results st) = None"
    and "iq_query_type q = FindPeer \<Longrightarrow> qr_found_peer (it_results st) = has_target (it_closest st)"
    and "iq_query_type q = GetClosestPeers \<or> (iq_query_type q = FindPeer \<and> has_target (it_closest st) = None)
      \<Longrightarrow> can_terminate (it_closest st) (beta_value (iq_config q))"
  shows "results_ok q (collect_result q st)"
  using assms
  by (auto simp: results_ok_def answer_ok_def collect_result_def Let_def peers_in_states_def live_peers_wanted
      can_terminate_live live_peers_def [symmetric] split: list.splits)

lemma results_ok_loop_body:
  assumes "results_ok q st" "it_status st = Running" "iterative_type (iq_query_type q)"
  shows "results_ok q (loop_body sha now q u st)"
proof -
  obtain b st' where h: "handle_update sha now q u st = Some (b, st')"
    using handle_update_total [OF assms(3), of sha now u st] by auto
  note r = handle_update_results [OF h assms(1,2)]
  have c: "results_ok q (collect_result q st')"
    if "b \<or> is_starved (it_closest st') \<or> can_terminate (it_closest st') (beta_value (iq_config q))"
  proof (rule collect_result_answer)
    show "can_terminate (it_closest st') (beta_value (iq_config q))"
      if "iq_query_type q = GetClosestPeers \<or> (iq_query_type q = FindPeer \<and> has_target (it_closest st') = None)"
      using that \<open>b \<or> is_starved _ \<or> _\<close> r(2,5) starved_can_terminate by auto
  qed (use r in simp_all)
  have s: "results_ok q (start_jobs q st')" if "\<not> b"
  proof (cases "mark_waiting (alpha_value (iq_config q) - num_of_state (it_closest st') Waiting) (cp_peers (it_closest st'))")
    case (Pair ids m)
    have "it_status st' = Running" using handle_update_frame [OF h] assms(2) by simp
    with that r has_target_mark_waiting [OF Pair] Pair show ?thesis
      by (auto simp: results_ok_def start_jobs_def Let_def)
  qed
  from c s show ?thesis by (simp add: loop_body_def h)
qed

lemma query_reach_results:
  assumes "query_reach sha q ps st" "iterative_type (iq_query_type q)"
  shows "results_ok q st"
  using assms(1)
proof (induction rule: query_reach.induct)
  case (reach_start stats ledgers st)
  then show ?case
    by (auto simp: run_start_def results_ok_def ClosestPeers_new_def has_target_def local_results_def Let_def
        split: if_splits QueryType.splits)
next
  case (reach_step st st')
  from reach_step(2) show ?case
  proof (cases rule: query_step.cases)
    case (step_job peer ms send duration r cost)
    with reach_step.IH show ?thesis by (auto simp: results_ok_def job_done_def Let_def split: sum.splits)
  next
    case (step_loop u rest now)
    moreover have "results_ok q (st\<lparr>it_queue := rest\<rparr>)" using reach_step.IH by (simp add: results_ok_def)
    ultimately show ?thesis using results_ok_loop_body [OF _ _ assms(2)] by simp
  qed
next
  case (reach_deadline st st')
  then show ?case by (auto simp: results_ok_def elim!: deadline_step.cases)
qed

lemma live_peers_sorted:
  assumes "table_ok sha q cp"
  shows "sorted_wrt (<) (map (\<lambda>p. query_dist sha q (node_id (pws_peer p))) (live_peers cp))"
proof -
  have "map (\<lambda>p. query_dist sha q (node_id (pws_peer p))) (map snd (cp_peers cp)) = map fst (cp_peers cp)"
    using assms by (auto simp: table_ok_def peers_ok_def)
  then have "sorted_wrt (<) (map (\<lambda>p. query_dist sha q (node_id (pws_peer p))) (map snd (cp_peers cp)))"
    using assms unfolding table_ok_def by (simp only:)
  then show ?thesis by (simp add: live_peers_def sorted_wrt_map sorted_wrt_filter)
qed

lemma has_target_hash:
  assumes "table_ok sha q cp" "has_target cp = Some p"
  shows "query_dist sha q (node_id p) = 0"
  using assms by (force simp: has_target_def table_ok_def peers_ok_def distance_def dest!: map_of_SomeD)


section \<open>Properties of the iterative query\<close>

definition sample_hash :: "bytes \<Rightarrow> U256" where
  "sample_hash bs = (case bs of [] \<Rightarrow> 0 | b # _ \<Rightarrow> ucast b)"

definition sample_query :: "QueryType \<Rightarrow> IterativeQuery" where
  "sample_query qt = \<lparr>iq_key = [1], iq_query_type = qt, iq_local_id = PeerId [0],
     iq_config = \<lparr>qc_timeout = 9, k_value = 2, alpha_value = 2, beta_value = 1\<rparr>,
     iq_seeds = [Key_from_PeerId sample_hash (PeerId [1])]\<rparr>"

text \<open>The query starts, contacts its seed, gets its answer and completes.\<close>

definition sample_start :: "QueryType \<Rightarrow> IterState" where
  "sample_start qt =
     \<lparr>it_swarm = [], it_posted = [], it_results = local_results qt,
      it_closest = ClosestPeers_new sample_hash [1],
      it_queue = [Queried (PeerId [0]) (seed_peers [] (iq_seeds (sample_query qt))) None None 0],
      it_jobs = [], it_spawned = [], it_stats = QueryStats_default\<lparr>iter_query_executed := 1\<rparr>,
      it_ledgers = [], it_status = Running\<rparr>"

definition sample_next :: "QueryType \<Rightarrow> IterState \<Rightarrow> IterState" where
  "sample_next qt st = loop_body sample_hash 0 (sample_query qt) (hd (it_queue st)) (st\<lparr>it_queue := tl (it_queue st)\<rparr>)"

definition sample_answered :: IterState where
  "sample_answered = job_done GetClosestPeers (PeerId [1]) 5 (Inr (Queried (PeerId [1]) [] None None 3))
     (sample_next GetClosestPeers (sample_start GetClosestPeers))"

lemma sample_start_run: "run_start sample_hash (sample_query qt) [] QueryStats_default [] = Inr (sample_start qt)"
  by (simp add: run_start_def sample_start_def sample_query_def QueryStats_default_def)

lemmas sample_defs =
  sample_next_def sample_start_def sample_answered_def sample_query_def loop_body_def handle_update_def start_jobs_def
  collect_result_def job_done_def seed_peers_def ClosestPeers_new_def add_peers_def set_peer_state_def cp_distance_def
  Key_from_PeerId_def Key_new_def KeyBytes_new_def RecordKey_from_PeerId_def sample_hash_def distance_def
  PeerWithState_new_def is_starved_def num_of_states_def num_of_state_def can_terminate_def has_target_def
  peers_in_states_def wanted_states_def local_results_def bt_modify_def to_bytes_def Let_def

lemma sample_values:
  "it_status (sample_next GetClosestPeers (sample_start GetClosestPeers)) = Running"
  "it_jobs (sample_next GetClosestPeers (sample_start GetClosestPeers)) = [PeerId [1]]"
  "it_queue sample_answered = [Queried (PeerId [1]) [] None None 3]"
  "it_status sample_answered = Running"
  by (simp_all add: sample_defs)


lemma sample_step1: "query_step sample_hash (sample_query qt) (sample_start qt) (sample_next qt (sample_start qt))"
  unfolding sample_next_def by (rule step_loop) (simp_all add: sample_start_def)

lemma sample_reach1: "query_reach sample_hash (sample_query qt) [] (sample_next qt (sample_start qt))"
  by (rule reach_step [OF reach_start [OF sample_start_run] sample_step1])

lemma sample_step2: "query_step sample_hash (sample_query GetClosestPeers)
    (sample_next GetClosestPeers (sample_start GetClosestPeers)) sample_answered"
  using step_job [of "PeerId [1]" "sample_next GetClosestPeers (sample_start GetClosestPeers)" "sample_query GetClosestPeers"
      "Inr ()" "\<lambda>_. Inr (KadResponseMsg.FindNode [])" 3 "Inr (Queried (PeerId [1]) [] None None 3)" sample_hash 5]
  by (simp add: sample_values sample_answered_def sample_query_def execute_def send_find_node_def)

lemma sample_step3: "query_step sample_hash (sample_query GetClosestPeers) sample_answered
    (sample_next GetClosestPeers sample_answered)"
  unfolding sample_next_def by (rule step_loop) (simp_all add: sample_values)

lemma sample_reach3:
  "query_reach sample_hash (sample_query GetClosestPeers) [] (sample_next GetClosestPeers sample_answered)"
  by (intro reach_step [OF _ sample_step3] reach_step [OF _ sample_step2] sample_reach1)

text \<open>
  C2: In every state that an iterative query can reach, whatever the contacted peers answer and in whatever
  order their answers arrive: the query has not panicked (the \<open>unwrap\<close> of the job budget and the
  \<open>panic!\<close> on query types never fire), at most \<open>alpha_value\<close> requests are in flight, no peer is ever
  contacted twice, the local node is never contacted, and while the query runs it is never stuck: an answer
  is awaited or an update is ready to be handled.
\<close>

theorem query_run_safe:
  assumes "query_reach sha q ps st" "iterative_type (iq_query_type q)" "0 < alpha_value (iq_config q)"
  shows "it_status st \<noteq> Panicked
    \<and> length (it_jobs st) \<le> alpha_value (iq_config q) \<and> set (it_jobs st) \<subseteq> set (it_spawned st)
    \<and> distinct (it_spawned st) \<and> iq_local_id q \<notin> set (it_spawned st)
    \<and> (it_status st = Running \<longrightarrow> (\<exists>st'. query_step sha q st st'))"
proof -
  have inv: "query_inv sha q st" using query_reach_inv assms by blast
  have "\<exists>st'. query_step sha q st st'" if run: "it_status st = Running"
  proof (cases "it_jobs st")
    case Nil
    then obtain u rest where "it_queue st = u # rest"
      using inv run by (cases "it_queue st") (auto simp: query_inv_def initial_def pending_ok_def pending_def)
    with run show ?thesis by (blast intro: step_loop)
  next
    case (Cons peer jobs)
    have "execute (iq_query_type q) (iq_key q) peer (Inl (KadError.Closing 0)) (\<lambda>_. Inl (KadError.Closing 0)) 0
        = Some (Inl (KadError.Closing 0))"
      by (simp add: execute_def)
    from step_job [OF _ this, of st sha] Cons show ?thesis by auto
  qed
  moreover have "distinct (it_spawned st)"
    using inv by (simp add: query_inv_def spawned_ok_def distinct_map)
  moreover have "length (it_jobs st) \<le> alpha_value (iq_config q)" "set (it_jobs st) \<subseteq> set (it_spawned st)"
    using inv by (auto simp: query_inv_def initial_def pending_ok_def pending_def)
  ultimately show ?thesis using inv query_reach_local_free [OF assms(1)] by (auto simp: query_inv_def local_free_def)
qed

theorem query_run_safe_witness:
  "it_jobs (sample_next GetClosestPeers (sample_start GetClosestPeers)) = [PeerId [1]]
   \<and> (\<exists>st'. query_step sample_hash (sample_query GetClosestPeers)
        (sample_next GetClosestPeers (sample_start GetClosestPeers)) st')"
  using query_run_safe [OF sample_reach1 [of GetClosestPeers]] by (simp add: sample_values) (simp add: sample_query_def)

text \<open>
  C3: An iterative query ends without its deadline. Counted from the start, the number of events it has
  handled (answers of jobs and updates) is at most one more than twice the number of peers it has learnt,
  and so at most one more than twice the number of the 256-bit distances. With the previous property, a run
  that goes on reaches a state in which the query has completed.
\<close>

theorem query_terminates:
  assumes "run_start sha q ps stats ledgers = Inr st0" "(query_step sha q ^^ n) st0 st"
    and "iterative_type (iq_query_type q)" "0 < alpha_value (iq_config q)"
  shows "n \<le> 1 + 2 * length (cp_peers (it_closest st)) \<and> length (cp_peers (it_closest st)) \<le> 2 ^ 256"
proof -
  note i = steps_invariant [OF assms(2,1,3,4)]
  then have inv: "query_inv sha q st" using query_reach_inv assms(3,4) by blast
  have d: "distinct (map fst (cp_peers (it_closest st)))"
    using inv by (auto simp: query_inv_def table_ok_def intro: bt_wf_distinct)
  have "length (map fst (cp_peers (it_closest st))) = card (set (map fst (cp_peers (it_closest st))))"
    using distinct_card [OF d] by simp
  also have "\<dots> \<le> card (UNIV :: Distance set)" by (rule card_mono) simp_all
  finally have "length (cp_peers (it_closest st)) \<le> 2 ^ 256" by (simp add: card_word)
  with i spawned_bound [OF inv] show ?thesis by linarith
qed

theorem query_terminates_witness:
  "3 \<le> 1 + 2 * length (cp_peers (it_closest (sample_next GetClosestPeers sample_answered)))
   \<and> length (cp_peers (it_closest (sample_next GetClosestPeers sample_answered))) = 1"
proof -
  have "(query_step sample_hash (sample_query GetClosestPeers) ^^ 3) (sample_start GetClosestPeers)
      (sample_next GetClosestPeers sample_answered)"
    using sample_step1 sample_step2 sample_step3 by (auto simp: numeral_3_eq_3)
  from query_terminates [OF sample_start_run this] show ?thesis by (simp add: sample_query_def) (simp add: sample_defs)
qed


text \<open>
  C4: What a completed query returns as \<open>closest_peers\<close>: the first \<open>k_value\<close> of the peers it has learnt
  that have not failed, in strictly increasing distance from the key, none of them the local node, and
  nothing when there is no such peer. A query for the closest peers has completed only when the
  \<open>beta_value\<close> closest of them have all answered.
\<close>

theorem query_answer:
  assumes "query_reach sha q ps st" "iterative_type (iq_query_type q)" "0 < alpha_value (iq_config q)"
    and "it_status st = Completed res"
  shows "qr_closest_peers res =
      (case take (k_value (iq_config q)) (live_peers (it_closest st)) of [] \<Rightarrow> None | ps \<Rightarrow> Some (map pws_peer ps))
    \<and> sorted_wrt (<) (map (\<lambda>p. query_dist sha q (node_id (pws_peer p))) (live_peers (it_closest st)))
    \<and> (\<forall>p \<in> set (live_peers (it_closest st)). node_id (pws_peer p) \<noteq> iq_local_id q)
    \<and> (iq_query_type q = GetClosestPeers \<longrightarrow>
         (\<forall>p \<in> set (take (beta_value (iq_config q)) (live_peers (it_closest st))). pws_state p = Succeeded))"
proof -
  have "table_ok sha q (it_closest st)" using query_reach_inv [OF assms(1-3)] by (simp add: query_inv_def)
  moreover have "answer_ok q (it_closest st) res"
    using query_reach_results [OF assms(1,2)] assms(4) by (simp add: results_ok_def)
  moreover have "\<forall>p \<in> set (live_peers (it_closest st)). node_id (pws_peer p) \<noteq> iq_local_id q"
    using query_reach_local_free [OF assms(1)] by (fastforce simp: local_free_def live_peers_def no_local_def)
  ultimately show ?thesis by (simp add: answer_ok_def live_peers_sorted)
qed

theorem query_answer_witness:
  "\<exists>res. it_status (sample_next GetClosestPeers sample_answered) = Completed res
     \<and> qr_closest_peers res = Some [\<lparr>node_id = PeerId [1], multiaddrs = [], connection_ty = CanConnect\<rparr>]"
proof -
  define st where "st = sample_next GetClosestPeers sample_answered"
  have l: "live_peers (it_closest st) =
      [\<lparr>pws_peer = \<lparr>node_id = PeerId [1], multiaddrs = [], connection_ty = CanConnect\<rparr>, pws_state = Succeeded\<rparr>]"
    by (simp add: st_def live_peers_def) (simp add: sample_defs get_addrs_def)
  obtain res where res: "it_status st = Completed res" by (simp add: st_def) (simp add: sample_defs)
  from query_answer [OF sample_reach3 _ _ res [unfolded st_def]] res l
  show ?thesis unfolding st_def [symmetric] by (simp add: sample_query_def)
qed

text \<open>
  C5: A completed search for a peer returns the peer exactly when it has learnt a peer whose hash is the
  hash of the key that is searched; without such a peer it gives up only when the \<open>beta_value\<close> closest
  peers that have not failed have all answered.
\<close>

theorem query_find_peer:
  assumes "query_reach sha q ps st" "iq_query_type q = FindPeer" "0 < alpha_value (iq_config q)"
    and "it_status st = Completed res"
  shows "(case qr_found_peer res of
      Some p \<Rightarrow> sha (to_bytes (node_id p)) = sha (iq_key q)
        \<and> p \<in> (\<lambda>(d, pws). pws_peer pws) ` set (cp_peers (it_closest st))
    | None \<Rightarrow> (\<forall>(d, pws) \<in> set (cp_peers (it_closest st)). sha (to_bytes (node_id (pws_peer pws))) \<noteq> sha (iq_key q))
        \<and> (\<forall>p \<in> set (take (beta_value (iq_config q)) (live_peers (it_closest st))). pws_state p = Succeeded))"
proof -
  have it: "iterative_type (iq_query_type q)" by (simp add: assms(2))
  have t: "table_ok sha q (it_closest st)" using query_reach_inv [OF assms(1) it assms(3)] by (simp add: query_inv_def)
  have a: "answer_ok q (it_closest st) res"
    using query_reach_results [OF assms(1) it] assms(4) by (simp add: results_ok_def)
  then have f: "qr_found_peer res = has_target (it_closest st)" by (simp add: answer_ok_def assms(2))
  show ?thesis
  proof (cases "qr_found_peer res")
    case None
    have "sha (to_bytes (node_id (pws_peer pws))) \<noteq> sha (iq_key q)" if "(d, pws) \<in> set (cp_peers (it_closest st))" for d pws
      using that None f t
      by (force simp: has_target_def map_of_eq_None_iff table_ok_def peers_ok_def query_dist_def distance_def)
    with None a show ?thesis by (auto simp: answer_ok_def assms(2))
  next
    case (Some p)
    then have "p \<in> (\<lambda>(d, pws). pws_peer pws) ` set (cp_peers (it_closest st))"
      using f by (force simp: has_target_def dest: map_of_SomeD)
    with Some has_target_hash [OF t] f show ?thesis by (simp add: query_dist_def kad.dist_zero_iff)
  qed
qed

theorem query_find_peer_witness:
  "\<exists>res. it_status (sample_next FindPeer (sample_start FindPeer)) = Completed res
     \<and> map_option node_id (qr_found_peer res) = Some (PeerId [1]) \<and> sample_hash (to_bytes (PeerId [1])) = sample_hash [1]"
proof -
  obtain res where res: "it_status (sample_next FindPeer (sample_start FindPeer)) = Completed res"
    "map_option node_id (qr_found_peer res) = Some (PeerId [1])"
    by (simp add: sample_defs)
  with query_find_peer [OF sample_reach1 _ _ res(1)] show ?thesis
    by (auto simp: sample_query_def)
qed

end
