(* ===== verification/Record_Store.thy ===== *)
theory Record_Store
  imports Kad_Types
begin

text \<open>
  The record store of Kademlia: the trait \<open>RecordStore\<close> (\<open>record/store.rs\<close>) as the locales
  \<open>record_store\<close> and \<open>provider_store\<close>, and its implementation \<open>MemoryStore\<close>
  (\<open>record/store/memory.rs\<close>), which interprets both. The \<open>SmallVec\<close> of provider records is a
  list; \<open>now.checked_duration_since(t + ttl).is_some()\<close> is \<open>t + ttl \<le> now\<close>.
\<close>

section \<open>The store\<close>

record MemoryStoreConfig =
  max_records :: nat
  max_value_bytes :: nat
  max_providers_per_key :: nat

definition MemoryStoreConfig_default :: MemoryStoreConfig where
  "MemoryStoreConfig_default =
     \<lparr>max_records = 1024, max_value_bytes = 65 * 1024, max_providers_per_key = K_VALUE\<rparr>"

record MemoryStore =
  ms_local_key :: "PeerId Key"
  ms_config :: MemoryStoreConfig
  ms_records :: "(RecordKey, Record) hashmap"
  ms_providers :: "(RecordKey, ProviderRecord list) hashmap"

definition store_with_config :: "(bytes \<Rightarrow> U256) \<Rightarrow> PeerId \<Rightarrow> MemoryStoreConfig \<Rightarrow> MemoryStore" where
  "store_with_config sha local_id config =
     \<lparr>ms_local_key = Key_from_PeerId sha local_id, ms_config = config, ms_records = [], ms_providers = []\<rparr>"

definition store_new :: "(bytes \<Rightarrow> U256) \<Rightarrow> PeerId \<Rightarrow> MemoryStore" where
  "store_new sha local_id = store_with_config sha local_id MemoryStoreConfig_default"

definition store_retain :: "(RecordKey \<Rightarrow> Record \<Rightarrow> bool) \<Rightarrow> MemoryStore \<Rightarrow> MemoryStore" where
  "store_retain f s = s\<lparr>ms_records := filter (\<lambda>(k, r). f k r) (ms_records s)\<rparr>"

definition store_get :: "MemoryStore \<Rightarrow> RecordKey \<Rightarrow> Record option" where
  "store_get s k = hm_get (ms_records s) k"

definition store_put :: "MemoryStore \<Rightarrow> Record \<Rightarrow> (KadError + unit) \<times> MemoryStore" where
  "store_put s r =
     (if length (rec_value r) \<ge> max_value_bytes (ms_config s) then (Inl ValueTooLarge, s)
      else
        let num_records = length (ms_records s)
        in case hm_get (ms_records s) (rec_key r) of
             Some _ \<Rightarrow> (Inr (), s\<lparr>ms_records := hm_insert (rec_key r) r (ms_records s)\<rparr>)
           | None \<Rightarrow>
               if num_records \<ge> max_records (ms_config s) then (Inl MaxRecords, s)
               else (Inr (), s\<lparr>ms_records := hm_insert (rec_key r) r (ms_records s)\<rparr>))"

definition store_remove :: "MemoryStore \<Rightarrow> RecordKey \<Rightarrow> MemoryStore" where
  "store_remove s k = s\<lparr>ms_records := hm_remove k (ms_records s)\<rparr>"

definition all_records :: "MemoryStore \<Rightarrow> Record list" where
  "all_records s = hm_values (ms_records s)"

definition outdated :: "Instant \<Rightarrow> Duration \<Rightarrow> Instant option \<Rightarrow> bool" where
  "outdated now ttl t = (case t of None \<Rightarrow> False | Some t \<Rightarrow> t + ttl \<le> now)"

definition gc_records :: "Instant \<Rightarrow> Duration \<Rightarrow> MemoryStore \<Rightarrow> MemoryStore" where
  "gc_records now ttl s =
     (let records = filter (\<lambda>r. outdated now ttl (rec_time_received r)) (all_records s)
      in fold (\<lambda>r s. store_remove s (rec_key r)) records s)"

definition add_provider :: "(bytes \<Rightarrow> U256) \<Rightarrow> MemoryStore \<Rightarrow> ProviderRecord \<Rightarrow> (KadError + unit) \<times> MemoryStore" where
  "add_provider sha s r =
     (let ps = (case hm_get (ms_providers s) (prov_key r) of Some ps \<Rightarrow> ps | None \<Rightarrow> []);
          ps' =
            (case position (\<lambda>p. provider p = provider r) ps of
               Some i \<Rightarrow> ps[i := r]
             | None \<Rightarrow>
                 let key = key_bytes (Key_new sha (prov_key r));
                     prov = key_bytes (Key_from_PeerId sha (provider r));
                     ps1 =
                       (case position (\<lambda>p. distance prov key
                                < distance (key_bytes (Key_from_PeerId sha (provider p))) key) ps of
                          Some i \<Rightarrow> vec_insert i r ps
                        | None \<Rightarrow> ps @ [r])
                 in take (max_providers_per_key (ms_config s)) ps1)
      in (Inr (), s\<lparr>ms_providers := hm_insert (prov_key r) ps' (ms_providers s)\<rparr>))"

definition providers :: "MemoryStore \<Rightarrow> RecordKey \<Rightarrow> ProviderRecord list" where
  "providers s k = (case hm_get (ms_providers s) k of None \<Rightarrow> [] | Some ps \<Rightarrow> ps)"

definition all_providers :: "MemoryStore \<Rightarrow> ProviderRecord list" where
  "all_providers s = concat (hm_values (ms_providers s))"

definition remove_provider :: "MemoryStore \<Rightarrow> RecordKey \<Rightarrow> PeerId \<Rightarrow> MemoryStore" where
  "remove_provider s k p =
     (case hm_get (ms_providers s) k of
        None \<Rightarrow> s
      | Some ps \<Rightarrow>
          let ps' = (case position (\<lambda>r. provider r = p) ps of Some i \<Rightarrow> vec_remove i ps | None \<Rightarrow> ps)
          in if ps' = [] then s\<lparr>ms_providers := hm_remove k (ms_providers s)\<rparr>
             else s\<lparr>ms_providers := hm_insert k ps' (ms_providers s)\<rparr>)"

definition gc_providers :: "Instant \<Rightarrow> Duration \<Rightarrow> MemoryStore \<Rightarrow> MemoryStore" where
  "gc_providers now ttl s =
     (let provider_records = filter (\<lambda>r. outdated now ttl (prov_time_received r)) (all_providers s)
      in fold (\<lambda>r s. remove_provider s (prov_key r) (provider r)) provider_records s)"

definition providers_count :: "MemoryStore \<Rightarrow> nat" where
  "providers_count s = length (ms_providers s)"

definition records_count :: "MemoryStore \<Rightarrow> nat" where
  "records_count s = length (ms_records s)"


section \<open>Inserting into a bounded sorted list\<close>

text \<open>Insertion after the elements with an equal key, which is what \<open>add_provider\<close> does.\<close>

fun insert_after :: "('a \<Rightarrow> 'k::linorder) \<Rightarrow> 'a \<Rightarrow> 'a list \<Rightarrow> 'a list" where
  "insert_after f x [] = [x]"
| "insert_after f x (y # ys) = (if f x < f y then x # y # ys else y # insert_after f x ys)"

lemma position_insert_after:
  "(case position (\<lambda>y. f x < f y) ys of Some i \<Rightarrow> vec_insert i x ys | None \<Rightarrow> ys @ [x])
     = insert_after f x ys"
proof (induction ys)
  case (Cons y ys)
  then show ?case
    by (cases "position (\<lambda>y. f x < f y) ys") (simp_all add: vec_insert_def del: position_None_iff)
qed simp

lemma mset_insert_after [simp]: "mset (insert_after f x ys) = add_mset x (mset ys)"
  by (induction ys) auto

lemma set_insert_after [simp]: "set (insert_after f x ys) = insert x (set ys)"
  by (induction ys) auto

lemma sorted_insert_after: "sorted (map f ys) \<Longrightarrow> sorted (map f (insert_after f x ys))"
  by (induction ys) auto

lemma filter_insert_after:
  assumes "sorted (map f ys)"
  shows "filter (\<lambda>y. k = f y) (insert_after f x ys) = filter (\<lambda>y. k = f y) (ys @ [x])"
  using assms
proof (induction ys)
  case (Cons y ys)
  show ?case
  proof (cases "f x < f y")
    case True
    with Cons.prems have "\<forall>z \<in> set (y # ys). f z \<noteq> f x" by auto
    then have "k = f x \<Longrightarrow> filter (\<lambda>y. k = f y) (y # ys) = []" by (auto simp: filter_empty_conv)
    with True show ?thesis by auto
  next
    case False
    with Cons show ?thesis by (cases "k = f y"; cases "k = f x") auto
  qed
qed simp

lemma sort_key_snoc: "sort_key f (xs @ [x]) = insert_after f x (sort_key f xs)"
proof (rule properties_for_sort_key)
  show "mset (insert_after f x (sort_key f xs)) = mset (xs @ [x])" by simp
  show "sorted (map f (insert_after f x (sort_key f xs)))" by (intro sorted_insert_after) simp
  fix k assume "k \<in> set (insert_after f x (sort_key f xs))"
  have "filter (\<lambda>y. f y = f k) (sort_key f xs) = filter (\<lambda>y. f y = f k) xs"
    by (rule sort_key_stable)
  then have "filter (\<lambda>y. f k = f y) (sort_key f xs) = filter (\<lambda>y. f k = f y) xs"
    by (simp add: eq_commute [of "f k"])
  then show "filter (\<lambda>y. f k = f y) (insert_after f x (sort_key f xs)) = filter (\<lambda>y. f k = f y) (xs @ [x])"
    by (simp add: filter_insert_after)
qed

lemma take_insert_after: "take m (insert_after f x (take m ys)) = take m (insert_after f x ys)"
proof (induction ys arbitrary: m)
  case (Cons y ys)
  show ?case
  proof (cases m)
    case (Suc n)
    with Cons.IH [of n] show ?thesis by (cases n) (auto simp: take_Cons')
  qed simp
qed simp

lemma take_sort_snoc:
  "take m (insert_after f x (take m (sort_key f xs))) = take m (sort_key f (xs @ [x]))"
  by (simp add: take_insert_after sort_key_snoc)


section \<open>The contracts of a record store\<close>

text \<open>
  Value records: a store is a finite map of the records it accepted. \<open>gc\<close> drops the records that
  were received from the network at least \<open>ttl\<close> ago.
\<close>

locale record_store =
  fixes inv :: "'s \<Rightarrow> bool"
    and get :: "'s \<Rightarrow> RecordKey \<Rightarrow> Record option"
    and put :: "'s \<Rightarrow> Record \<Rightarrow> (KadError + unit) \<times> 's"
    and remove :: "'s \<Rightarrow> RecordKey \<Rightarrow> 's"
    and gc :: "Instant \<Rightarrow> Duration \<Rightarrow> 's \<Rightarrow> 's"
  assumes put_ok: "inv s \<Longrightarrow> put s r = (Inr u, s') \<Longrightarrow> inv s' \<and> get s' = (get s)(rec_key r \<mapsto> r)"
    and put_err: "put s r = (Inl e, s') \<Longrightarrow> s' = s"
    and remove_ok: "inv s \<Longrightarrow> inv (remove s k) \<and> get (remove s k) = (get s)(k := None)"
    and gc_ok: "inv s \<Longrightarrow> inv (gc now ttl s) \<and>
      get (gc now ttl s) k =
        (case get s k of None \<Rightarrow> None
         | Some r \<Rightarrow> if outdated now ttl (rec_time_received r) then None else Some r)"
begin

lemma put_inv: "inv s \<Longrightarrow> inv (snd (put s r))"
  using put_ok put_err by (cases "put s r"; cases "fst (put s r)") fastforce+

lemma put_cases:
  assumes "inv s"
  shows "get (snd (put s r)) = get s \<or> get (snd (put s r)) = (get s)(rec_key r \<mapsto> r)"
  using put_ok [OF assms, of r] put_err [of s r]
  by (cases "put s r"; cases "fst (put s r)") fastforce+

lemma gc_twice:
  assumes "inv s" "n1 \<le> n2"
  shows "get (gc n2 ttl (gc n1 ttl s)) = get (gc n2 ttl s)"
proof
  fix k
  have "inv (gc n1 ttl s)" using gc_ok assms(1) by blast
  then show "get (gc n2 ttl (gc n1 ttl s)) k = get (gc n2 ttl s) k"
    using assms by (auto simp: gc_ok outdated_def split: option.splits)
qed

lemma put_gc_fresh:
  assumes "inv s" "put s r = (Inr u, s')" "\<not> outdated now ttl (rec_time_received r)"
  shows "get (gc now ttl s') (rec_key r) = Some r"
  using put_ok [OF assms(1,2)] assms(3) by (simp add: gc_ok)

end

text \<open>
  Provider records: for every key the store keeps the \<open>limit\<close> records whose providers are closest
  to the key, in the order of the distance.
\<close>

locale provider_store =
  fixes inv :: "'s \<Rightarrow> bool"
    and limit :: "'s \<Rightarrow> nat"
    and dist :: "RecordKey \<Rightarrow> PeerId \<Rightarrow> 'd::linorder"
    and provs :: "'s \<Rightarrow> RecordKey \<Rightarrow> ProviderRecord list"
    and add :: "'s \<Rightarrow> ProviderRecord \<Rightarrow> (KadError + unit) \<times> 's"
    and remove :: "'s \<Rightarrow> RecordKey \<Rightarrow> PeerId \<Rightarrow> 's"
    and gc :: "Instant \<Rightarrow> Duration \<Rightarrow> 's \<Rightarrow> 's"
  assumes provs_inv: "inv s \<Longrightarrow> sorted (map (\<lambda>r. dist k (provider r)) (provs s k))
      \<and> distinct (map provider (provs s k)) \<and> length (provs s k) \<le> limit s
      \<and> (\<forall>r \<in> set (provs s k). prov_key r = k)"
    and add_inv: "inv s \<Longrightarrow> inv (snd (add s r)) \<and> limit (snd (add s r)) = limit s"
    and add_new: "inv s \<Longrightarrow> provider r \<notin> provider ` set (provs s (prov_key r)) \<Longrightarrow>
      provs (snd (add s r)) (prov_key r) =
        take (limit s) (sort_key (\<lambda>p. dist (prov_key r) (provider p)) (provs s (prov_key r) @ [r]))"
    and add_known: "inv s \<Longrightarrow> provider r \<in> provider ` set (provs s (prov_key r)) \<Longrightarrow>
      provs (snd (add s r)) (prov_key r) =
        map (\<lambda>p. if provider p = provider r then r else p) (provs s (prov_key r))"
    and add_other: "inv s \<Longrightarrow> k \<noteq> prov_key r \<Longrightarrow> provs (snd (add s r)) k = provs s k"
    and remove_ok: "inv s \<Longrightarrow> inv (remove s k p) \<and> limit (remove s k p) = limit s \<and>
      provs (remove s k p) k' = (if k' = k then filter (\<lambda>r. provider r \<noteq> p) (provs s k') else provs s k')"
    and gc_ok: "inv s \<Longrightarrow> inv (gc now ttl s) \<and> limit (gc now ttl s) = limit s \<and>
      provs (gc now ttl s) k = filter (\<lambda>r. \<not> outdated now ttl (prov_time_received r)) (provs s k)"
begin

text \<open>A sequence of additions for one key keeps the closest providers, whatever its order.\<close>

lemma add_all_closest:
  assumes "inv s" "\<forall>r \<in> set rs. prov_key r = k" "distinct (map provider (xs @ rs))"
    and "provs s k = take (limit s) (sort_key (\<lambda>r. dist k (provider r)) xs)"
  shows "provs (fold (\<lambda>r s. snd (add s r)) rs s) k =
    take (limit s) (sort_key (\<lambda>r. dist k (provider r)) (xs @ rs))"
  using assms
proof (induction rs arbitrary: s xs)
  case (Cons r rs)
  let ?f = "\<lambda>r. dist k (provider r)"
  let ?s = "snd (add s r)"
  have k: "prov_key r = k" using Cons.prems(2) by simp
  have "set (provs s k) \<subseteq> set xs" unfolding Cons.prems(4) by (auto dest: in_set_takeD)
  then have new: "provider r \<notin> provider ` set (provs s (prov_key r))"
    using Cons.prems(3) k by auto
  have s: "sort_key ?f (provs s k) = provs s k"
    using provs_inv [OF Cons.prems(1), of k] by (intro properties_for_sort_key) auto
  have "provs ?s k = take (limit s) (insert_after ?f r (provs s k))"
    using add_new [OF Cons.prems(1) new] unfolding k sort_key_snoc s .
  also have "\<dots> = take (limit ?s) (sort_key ?f (xs @ [r]))"
    using add_inv [OF Cons.prems(1)] unfolding Cons.prems(4) take_sort_snoc by simp
  finally show ?case
    using Cons.IH [of ?s "xs @ [r]"] Cons.prems(2,3) add_inv [OF Cons.prems(1)] by simp
qed simp

lemma add_then_remove:
  assumes "inv s"
  shows "p \<notin> provider ` set (provs (remove (snd (add s r)) (prov_key r) p) (prov_key r))"
  using add_inv [OF assms] remove_ok by auto

lemma gc_keeps_local:
  assumes "inv s" "r \<in> set (provs s k)" "prov_time_received r = None"
  shows "r \<in> set (provs (gc now ttl s) k)"
  using assms by (simp add: gc_ok outdated_def)

end


section \<open>The memory store keeps the contracts\<close>

definition provider_dist :: "(bytes \<Rightarrow> U256) \<Rightarrow> RecordKey \<Rightarrow> PeerId \<Rightarrow> Distance" where
  "provider_dist sha k p = distance (key_bytes (Key_from_PeerId sha p)) (key_bytes (Key_new sha k))"

definition records_inv :: "MemoryStore \<Rightarrow> bool" where
  "records_inv s \<longleftrightarrow>
     hm_wf (ms_records s)
     \<and> length (ms_records s) \<le> max_records (ms_config s)
     \<and> (\<forall>(k, r) \<in> set (ms_records s). rec_key r = k \<and> length (rec_value r) < max_value_bytes (ms_config s))"

definition provider_list_inv :: "(bytes \<Rightarrow> U256) \<Rightarrow> nat \<Rightarrow> RecordKey \<Rightarrow> ProviderRecord list \<Rightarrow> bool" where
  "provider_list_inv sha m k ps \<longleftrightarrow>
     sorted (map (\<lambda>r. provider_dist sha k (provider r)) ps)
     \<and> distinct (map provider ps) \<and> length ps \<le> m \<and> (\<forall>r \<in> set ps. prov_key r = k)"

definition providers_inv :: "(bytes \<Rightarrow> U256) \<Rightarrow> MemoryStore \<Rightarrow> bool" where
  "providers_inv sha s \<longleftrightarrow>
     hm_wf (ms_providers s)
     \<and> (\<forall>(k, ps) \<in> set (ms_providers s). provider_list_inv sha (max_providers_per_key (ms_config s)) k ps)"

definition store_inv :: "(bytes \<Rightarrow> U256) \<Rightarrow> MemoryStore \<Rightarrow> bool" where
  "store_inv sha s \<longleftrightarrow> records_inv s \<and> providers_inv sha s"

lemma store_inv_new: "store_inv sha (store_with_config sha p c)"
  by (simp add: store_inv_def records_inv_def providers_inv_def store_with_config_def)

lemma store_put_ok:
  assumes "store_inv sha s" "store_put s r = (Inr u, s')"
  shows "store_inv sha s' \<and> store_get s' = (store_get s)(rec_key r \<mapsto> r)"
proof -
  have s': "s' = s\<lparr>ms_records := hm_insert (rec_key r) r (ms_records s)\<rparr>"
    and len: "length (rec_value r) < max_value_bytes (ms_config s)"
    and room: "rec_key r \<in> fst ` set (ms_records s) \<or> length (ms_records s) < max_records (ms_config s)"
    using assms(2)
    by (auto simp: store_put_def Let_def map_of_eq_None_iff image_iff dest!: map_of_SomeD
        split: if_splits option.splits) force
  with assms(1) show ?thesis
    by (auto simp: store_inv_def records_inv_def providers_inv_def store_get_def hm_insert_length
        hashmap_simps fun_eq_iff hm_set_insert)
qed

lemma store_put_err: "store_put s r = (Inl e, s') \<Longrightarrow> s' = s"
  by (auto simp: store_put_def Let_def split: if_splits option.splits)

lemma store_remove_ok:
  "store_inv sha s \<Longrightarrow> store_inv sha (store_remove s k) \<and> store_get (store_remove s k) = (store_get s)(k := None)"
  by (auto simp: store_inv_def records_inv_def providers_inv_def store_remove_def store_get_def
      hashmap_simps hm_set_remove fun_eq_iff intro: order.trans [OF AList.length_delete_le])

lemma fold_store_remove:
  assumes "store_inv sha s"
  shows "store_inv sha (fold (\<lambda>r s. store_remove s (rec_key r)) rs s)
    \<and> store_get (fold (\<lambda>r s. store_remove s (rec_key r)) rs s) k =
      (if k \<in> rec_key ` set rs then None else store_get s k)"
  using assms
proof (induction rs arbitrary: s)
  case (Cons r rs)
  from Cons.IH [of "store_remove s (rec_key r)"] store_remove_ok [OF Cons.prems] show ?case by auto
qed simp

lemma gc_records_ok:
  assumes "store_inv sha s"
  shows "store_inv sha (gc_records now ttl s) \<and>
    store_get (gc_records now ttl s) k =
      (case store_get s k of None \<Rightarrow> None
       | Some r \<Rightarrow> if outdated now ttl (rec_time_received r) then None else Some r)"
proof -
  have wf: "hm_wf (ms_records s)" and key: "\<And>k r. (k, r) \<in> set (ms_records s) \<Longrightarrow> rec_key r = k"
    using assms by (auto simp: store_inv_def records_inv_def)
  have "k \<in> rec_key ` set (filter (\<lambda>r. outdated now ttl (rec_time_received r)) (all_records s)) \<longleftrightarrow>
      (\<exists>r. store_get s k = Some r \<and> outdated now ttl (rec_time_received r))"
    using key by (force simp: all_records_def store_get_def hm_get_mem_iff [OF wf] image_iff)
  with fold_store_remove [OF assms, of "filter (\<lambda>r. outdated now ttl (rec_time_received r)) (all_records s)" k]
  show ?thesis unfolding gc_records_def Let_def by (auto split: option.splits)
qed

interpretation ms: record_store "store_inv sha" store_get store_put store_remove gc_records for sha
  by unfold_locales (rule store_put_ok store_put_err store_remove_ok gc_records_ok; assumption)+

lemma providers_list_inv:
  assumes "store_inv sha s"
  shows "provider_list_inv sha (max_providers_per_key (ms_config s)) k (providers s k)"
  using assms
  by (auto simp: store_inv_def providers_inv_def providers_def provider_list_inv_def
      dest!: map_of_SomeD split: option.splits)

text \<open>An operation that replaces the list of one key by a list that satisfies the invariant.\<close>

lemma providers_update:
  assumes "store_inv sha s" "provider_list_inv sha (max_providers_per_key (ms_config s)) k ps"
  defines "s' \<equiv> s\<lparr>ms_providers := hm_insert k ps (ms_providers s)\<rparr>"
  shows "store_inv sha s'" "providers s' k' = (if k' = k then ps else providers s k')" "ms_config s' = ms_config s"
  using assms
  by (auto simp: store_inv_def records_inv_def providers_inv_def providers_def hashmap_simps hm_set_insert)

lemma providers_delete:
  fixes k :: RecordKey
  assumes "store_inv sha s"
  defines "s' \<equiv> s\<lparr>ms_providers := hm_remove k (ms_providers s)\<rparr>"
  shows "store_inv sha s'" "providers s' k' = (if k' = k then [] else providers s k')" "ms_config s' = ms_config s"
  using assms
  by (auto simp: store_inv_def records_inv_def providers_inv_def providers_def hashmap_simps hm_set_remove)

text \<open>The new list of \<open>add_provider\<close>.\<close>

definition provider_list_add :: "(bytes \<Rightarrow> U256) \<Rightarrow> nat \<Rightarrow> ProviderRecord \<Rightarrow> ProviderRecord list \<Rightarrow> ProviderRecord list" where
  "provider_list_add sha m r ps =
     (if provider r \<in> provider ` set ps then map (\<lambda>p. if provider p = provider r then r else p) ps
      else take m (insert_after (\<lambda>p. provider_dist sha (prov_key r) (provider p)) r ps))"

lemma add_provider_eq:
  assumes "store_inv sha s"
  shows "add_provider sha s r = (Inr (), s\<lparr>ms_providers := hm_insert (prov_key r)
    (provider_list_add sha (max_providers_per_key (ms_config s)) r (providers s (prov_key r))) (ms_providers s)\<rparr>)"
proof -
  let ?ps = "providers s (prov_key r)" and ?m = "max_providers_per_key (ms_config s)"
  have d: "distinct (map provider ?ps)"
    using providers_list_inv [OF assms] by (simp add: provider_list_inv_def)
  have "(case position (\<lambda>p. provider p = provider r) ?ps of Some i \<Rightarrow> ?ps[i := r]
      | None \<Rightarrow> take ?m (insert_after (\<lambda>p. provider_dist sha (prov_key r) (provider p)) r ?ps))
      = provider_list_add sha ?m r ?ps"
  proof (cases "position (\<lambda>p. provider p = provider r) ?ps")
    case None
    then have "provider r \<notin> provider ` set ?ps" by fastforce
    then show ?thesis unfolding None by (simp add: provider_list_add_def)
  next
    case (Some i)
    from position_SomeD [OF Some] have "provider r \<in> provider ` set ?ps" by (metis image_eqI nth_mem)
    with Some update_first_distinct [OF d Some] show ?thesis by (simp add: provider_list_add_def)
  qed
  moreover have "(case hm_get (ms_providers s) (prov_key r) of Some ps \<Rightarrow> ps | None \<Rightarrow> []) = ?ps"
    by (simp add: providers_def)
  ultimately show ?thesis
    unfolding add_provider_def Let_def provider_dist_def [symmetric]
    by (simp only: position_insert_after [where f = "\<lambda>p. provider_dist sha (prov_key r) (provider p)"])
qed

lemma provider_list_inv_add:
  assumes "provider_list_inv sha m (prov_key r) ps"
  shows "provider_list_inv sha m (prov_key r) (provider_list_add sha m r ps)"
proof (cases "provider r \<in> provider ` set ps")
  case True
  let ?new = "map (\<lambda>p. if provider p = provider r then r else p) ps"
  let ?D = "provider_dist sha (prov_key r)"
  have p: "map provider ?new = map provider ps" by simp
  have "map (\<lambda>r. ?D (provider r)) ?new = map ?D (map provider ?new)" by simp
  also have "\<dots> = map (\<lambda>r. ?D (provider r)) ps" unfolding p by simp
  finally have d: "map (\<lambda>r. ?D (provider r)) ?new = map (\<lambda>r. ?D (provider r)) ps" .
  from True have "provider_list_add sha m r ps = ?new" by (simp add: provider_list_add_def)
  then show ?thesis using assms unfolding provider_list_inv_def by (simp only: p d) auto
next
  case False
  let ?f = "\<lambda>p. provider_dist sha (prov_key r) (provider p)"
  have "sorted (map ?f (insert_after ?f r ps))"
    using assms by (intro sorted_insert_after) (simp add: provider_list_inv_def)
  moreover have "distinct (map provider (insert_after ?f r ps))"
  proof -
    have "mset (map provider (insert_after ?f r ps)) = mset (map provider (r # ps))" by simp
    then have "distinct (map provider (insert_after ?f r ps)) = distinct (map provider (r # ps))"
      by (rule mset_eq_imp_distinct_iff)
    then show ?thesis using assms False by (simp add: provider_list_inv_def)
  qed
  ultimately show ?thesis using assms False
    by (auto simp: provider_list_inv_def provider_list_add_def sorted_map_take take_map [symmetric]
        dest!: in_set_takeD)
qed

lemma add_provider_ok:
  fixes r :: ProviderRecord
  assumes "store_inv sha s"
  defines "s' \<equiv> snd (add_provider sha s r)"
  shows "store_inv sha s'" "ms_config s' = ms_config s"
    "providers s' k = (if k = prov_key r
      then provider_list_add sha (max_providers_per_key (ms_config s)) r (providers s k) else providers s k)"
  using providers_update [OF assms(1) provider_list_inv_add [OF providers_list_inv [OF assms(1)]], of r]
  by (simp_all add: s'_def add_provider_eq [OF assms(1)])

lemma remove_provider_ok:
  assumes "store_inv sha s"
  shows "store_inv sha (remove_provider s k p) \<and> ms_config (remove_provider s k p) = ms_config s \<and>
    providers (remove_provider s k p) k' =
      (if k' = k then filter (\<lambda>r. provider r \<noteq> p) (providers s k') else providers s k')"
proof (cases "hm_get (ms_providers s) k")
  case None
  with assms show ?thesis by (simp add: remove_provider_def providers_def)
next
  case (Some ps)
  let ?ps = "filter (\<lambda>r. provider r \<noteq> p) ps"
  have ps: "providers s k = ps" using Some by (simp add: providers_def)
  have i: "provider_list_inv sha (max_providers_per_key (ms_config s)) k ps"
    using providers_list_inv [OF assms, of k] by (simp add: ps)
  then have f: "(case position (\<lambda>r. provider r = p) ps of Some i \<Rightarrow> vec_remove i ps | None \<Rightarrow> ps) = ?ps"
    by (intro remove_first_distinct) (simp add: provider_list_inv_def)
  from i have i': "provider_list_inv sha (max_providers_per_key (ms_config s)) k ?ps"
    by (auto simp: provider_list_inv_def sorted_map_filter distinct_map_filter intro: le_trans [OF length_filter_le])
  show ?thesis
    using providers_delete [OF assms, of k] providers_update [OF assms i'] Some ps
    by (auto simp: remove_provider_def Let_def f)
qed

lemma fold_remove_provider:
  assumes "store_inv sha s"
  defines "s' rs \<equiv> fold (\<lambda>r s. remove_provider s (prov_key r) (provider r)) rs s"
  shows "store_inv sha (s' rs) \<and> ms_config (s' rs) = ms_config s \<and>
    providers (s' rs) k =
      filter (\<lambda>r. provider r \<notin> provider ` {x \<in> set rs. prov_key x = k}) (providers s k)"
  using assms(1) unfolding s'_def
proof (induction rs arbitrary: s)
  case (Cons x rs)
  let ?s = "remove_provider s (prov_key x) (provider x)"
  note ok = remove_provider_ok [OF Cons.prems, of "prov_key x" "provider x"]
  have inv: "store_inv sha ?s" using ok [of k] by simp
  have "{y \<in> set (x # rs). prov_key y = k} =
      (if k = prov_key x then insert x {y \<in> set rs. prov_key y = k} else {y \<in> set rs. prov_key y = k})"
    by auto
  with Cons.IH [OF inv] ok [of k] show ?case
    by (cases "k = prov_key x") (simp_all add: conj_commute)
qed simp

lemma gc_providers_ok:
  assumes "store_inv sha s"
  shows "store_inv sha (gc_providers now ttl s) \<and>
    ms_config (gc_providers now ttl s) = ms_config s \<and>
    providers (gc_providers now ttl s) k =
      filter (\<lambda>r. \<not> outdated now ttl (prov_time_received r)) (providers s k)"
proof -
  let ?o = "\<lambda>r. outdated now ttl (prov_time_received r)"
  have l: "provider_list_inv sha (max_providers_per_key (ms_config s)) k (providers s k)" for k
    by (rule providers_list_inv [OF assms])
  have all: "r \<in> set (all_providers s) \<and> prov_key r = k \<longleftrightarrow> r \<in> set (providers s k)" for r
  proof -
    have wf: "hm_wf (ms_providers s)" using assms by (simp add: store_inv_def providers_inv_def)
    have "r \<in> set (all_providers s) \<longleftrightarrow> (\<exists>k ps. (k, ps) \<in> set (ms_providers s) \<and> r \<in> set ps)"
      by (force simp: all_providers_def)
    also have "\<dots> \<longleftrightarrow> (\<exists>k ps. hm_get (ms_providers s) k = Some ps \<and> r \<in> set ps)"
      by (simp add: hm_get_mem_iff [OF wf])
    also have "\<dots> \<longleftrightarrow> (\<exists>k. r \<in> set (providers s k))"
    proof -
      have "(\<exists>ps. hm_get (ms_providers s) k = Some ps \<and> r \<in> set ps) \<longleftrightarrow> r \<in> set (providers s k)" for k
        by (cases "hm_get (ms_providers s) k") (simp_all add: providers_def)
      then show ?thesis by simp
    qed
    finally have "r \<in> set (all_providers s) \<longleftrightarrow> (\<exists>k. r \<in> set (providers s k))" .
    moreover have "prov_key r = k'" if "r \<in> set (providers s k')" for k'
      using l [of k'] that by (simp add: provider_list_inv_def)
    ultimately show ?thesis by auto
  qed
  have "provider r \<in> provider ` {x \<in> set (filter ?o (all_providers s)). prov_key x = k} \<longleftrightarrow> ?o r"
    if r: "r \<in> set (providers s k)" for r
  proof -
    have same: "x = r" if "x \<in> set (providers s k)" "provider x = provider r" for x
      using l [of k] r that by (auto simp: provider_list_inv_def distinct_map dest: inj_onD)
    have "{x \<in> set (filter ?o (all_providers s)). prov_key x = k} = {x \<in> set (providers s k). ?o x}"
      using all by auto
    then show ?thesis using same r by (auto intro: rev_image_eqI)
  qed
  with fold_remove_provider [OF assms, of "filter ?o (all_providers s)" k] show ?thesis
    by (auto simp: gc_providers_def Let_def intro!: filter_cong)
qed

lemma insert_after_sort:
  assumes "sorted (map f xs)"
  shows "insert_after f x xs = sort_key f (xs @ [x])"
proof -
  have "sort_key f xs = xs" using assms by (intro properties_for_sort_key) auto
  then show ?thesis by (simp add: sort_key_snoc)
qed

lemma add_provider_new:
  assumes "store_inv sha s" "provider r \<notin> provider ` set (providers s (prov_key r))"
  shows "providers (snd (add_provider sha s r)) (prov_key r) = take (max_providers_per_key (ms_config s))
    (sort_key (\<lambda>p. provider_dist sha (prov_key r) (provider p)) (providers s (prov_key r) @ [r]))"
proof -
  have "sorted (map (\<lambda>p. provider_dist sha (prov_key r) (provider p)) (providers s (prov_key r)))"
    using providers_list_inv [OF assms(1), of "prov_key r"] by (simp add: provider_list_inv_def)
  from insert_after_sort [OF this, of r] assms(2) show ?thesis
    by (simp add: add_provider_ok(3) [OF assms(1)] provider_list_add_def)
qed

lemma add_provider_known:
  assumes "store_inv sha s" "provider r \<in> provider ` set (providers s (prov_key r))"
  shows "providers (snd (add_provider sha s r)) (prov_key r) =
    map (\<lambda>p. if provider p = provider r then r else p) (providers s (prov_key r))"
  using assms(2) by (simp add: add_provider_ok(3) [OF assms(1)] provider_list_add_def)

lemma add_provider_other:
  "store_inv sha s \<Longrightarrow> k \<noteq> prov_key r \<Longrightarrow> providers (snd (add_provider sha s r)) k = providers s k"
  by (simp add: add_provider_ok(3))

interpretation ps: provider_store "store_inv sha" "\<lambda>s. max_providers_per_key (ms_config s)"
    "provider_dist sha" providers "add_provider sha" remove_provider gc_providers for sha
  apply unfold_locales
  subgoal by (rule providers_list_inv [unfolded provider_list_inv_def])
  subgoal by (simp add: add_provider_ok)
  subgoal by (rule add_provider_new)
  subgoal by (rule add_provider_known)
  subgoal by (rule add_provider_other)
  subgoal premises inv for s k p k' using remove_provider_ok [OF inv, of k p k'] by (elim conjE) simp
  subgoal premises inv for s now ttl k using gc_providers_ok [OF inv, of now ttl k] by (elim conjE) simp
  done

section \<open>Properties\<close>

text \<open>
  C40: adding any sequence of provider records for one key, from distinct providers, to a store
  that has none for it leaves the \<open>max_providers_per_key\<close> records whose providers are closest to
  the key, in the order of their distance.
\<close>

theorem add_providers_keeps_closest:
  assumes "store_inv sha s" "providers s k = []"
    and "\<forall>r \<in> set rs. prov_key r = k" "distinct (map provider rs)"
  shows "providers (fold (\<lambda>r s. snd (add_provider sha s r)) rs s) k =
    take (max_providers_per_key (ms_config s)) (sort_key (\<lambda>r. provider_dist sha k (provider r)) rs)"
  using ps.add_all_closest [OF assms(1,3), of "[]"] assms(2,4) by simp

definition sample_sha :: "bytes \<Rightarrow> U256" where
  "sample_sha bs = of_nat (be_nat bs)"

definition sample_provider :: "u8 \<Rightarrow> Instant option \<Rightarrow> ProviderRecord" where
  "sample_provider b t = \<lparr>prov_key = [9], provider = PeerId [b], prov_time_received = t\<rparr>"

definition sample_store :: MemoryStore where
  "sample_store = store_with_config sample_sha (PeerId [1])
     \<lparr>max_records = 2, max_value_bytes = 4, max_providers_per_key = 2\<rparr>"

lemma sample_store_inv: "store_inv sample_sha sample_store"
  unfolding sample_store_def by (rule store_inv_new)

theorem add_providers_keeps_closest_witness:
  "map provider (providers (fold (\<lambda>r s. snd (add_provider sample_sha s r))
      [sample_provider 1 None, sample_provider 8 None, sample_provider 11 (Some 5)] sample_store) [9])
     = [PeerId [8], PeerId [11]]"
proof -
  let ?rs = "[sample_provider 1 None, sample_provider 8 None, sample_provider 11 (Some 5)]"
  have "providers (fold (\<lambda>r s. snd (add_provider sample_sha s r)) ?rs sample_store) [9] =
      take (max_providers_per_key (ms_config sample_store))
        (sort_key (\<lambda>r. provider_dist sample_sha [9] (provider r)) ?rs)"
    by (rule add_providers_keeps_closest [OF sample_store_inv])
      (simp_all add: sample_provider_def sample_store_def providers_def store_with_config_def)
  moreover have "map provider (take (max_providers_per_key (ms_config sample_store))
        (sort_key (\<lambda>r. provider_dist sample_sha [9] (provider r)) ?rs)) = [PeerId [8], PeerId [11]]"
    by code_simp
  ultimately show ?thesis by simp
qed

text \<open>
  the garbage collection of the store removes exactly the value records and the provider
  records that were received from the network \<open>ttl\<close> ago or earlier; what was created locally
  stays, and the invariant of the store is kept.
\<close>

theorem store_gc_exact:
  assumes "store_inv sha s"
  shows "store_inv sha (gc_records now ttl s) \<and> store_inv sha (gc_providers now ttl s)
    \<and> store_get (gc_records now ttl s) k =
        (case store_get s k of None \<Rightarrow> None
         | Some r \<Rightarrow> if outdated now ttl (rec_time_received r) then None else Some r)
    \<and> providers (gc_providers now ttl s) k =
        filter (\<lambda>r. \<not> outdated now ttl (prov_time_received r)) (providers s k)"
  using ms.gc_ok [OF assms] ps.gc_ok [OF assms] by blast

theorem store_gc_exact_witness:
  "providers (gc_providers 15 10 (snd (add_provider sample_sha
     (snd (add_provider sample_sha sample_store (sample_provider 8 None))) (sample_provider 11 (Some 5))))) [9]
   = [sample_provider 8 None]"
proof -
  let ?s = "snd (add_provider sample_sha (snd (add_provider sample_sha sample_store (sample_provider 8 None)))
    (sample_provider 11 (Some 5)))"
  have i: "store_inv sample_sha ?s" using ps.add_inv sample_store_inv by blast
  have "filter (\<lambda>r. \<not> outdated 15 10 (prov_time_received r)) (providers ?s [9]) = [sample_provider 8 None]"
    by code_simp
  then show ?thesis using store_gc_exact [OF i, of 15 10 "[9]"] by simp
qed

text \<open>
  \<open>put\<close> accepts a record exactly when its value is shorter than \<open>max_value_bytes\<close> and its key is
  already stored or fewer than \<open>max_records\<close> records are; then the record is found under its key and
  the other keys are untouched. A refused record changes nothing, and the error names the limit.
\<close>

theorem store_put_contract:
  assumes "store_inv sha s"
  shows "case store_put s r of
      (Inr _, s') \<Rightarrow>
        length (rec_value r) < max_value_bytes (ms_config s)
        \<and> (store_get s (rec_key r) \<noteq> None \<or> records_count s < max_records (ms_config s))
        \<and> store_inv sha s' \<and> store_get s' = (store_get s)(rec_key r \<mapsto> r)
        \<and> records_count s' \<le> max_records (ms_config s)
    | (Inl e, s') \<Rightarrow>
        s' = s \<and> (e = ValueTooLarge \<and> max_value_bytes (ms_config s) \<le> length (rec_value r)
          \<or> e = MaxRecords \<and> store_get s (rec_key r) = None \<and> records_count s = max_records (ms_config s))"
proof -
  obtain res s' where p: "store_put s r = (res, s')" by (cases "store_put s r")
  show ?thesis
  proof (cases res)
    case (Inl e)
    with p assms show ?thesis
      by (auto simp: store_put_def store_get_def records_count_def store_inv_def records_inv_def Let_def
          split: if_splits option.splits)
  next
    case (Inr u)
    from ms.put_ok [OF assms p [unfolded Inr]] have "store_inv sha s'"
      "store_get s' = (store_get s)(rec_key r \<mapsto> r)" by auto
    moreover have "length (rec_value r) < max_value_bytes (ms_config s)"
      "store_get s (rec_key r) \<noteq> None \<or> records_count s < max_records (ms_config s)"
      "ms_config s' = ms_config s"
      using p Inr by (auto simp: store_put_def store_get_def records_count_def Let_def split: if_splits option.splits)
    ultimately show ?thesis
      using p Inr by (simp add: store_inv_def records_inv_def records_count_def)
  qed
qed

theorem store_put_contract_witness:
  "store_get (snd (store_put sample_store (Record_new 3 [1] [2] False None))) [1] = Some (Record_new 3 [1] [2] False None)"
proof -
  let ?r = "Record_new 3 [1] [2] False None"
  have "fst (store_put sample_store ?r) = Inr ()" by code_simp
  moreover have "rec_key ?r = [1]" by (simp add: Record_new_def)
  ultimately show ?thesis using store_put_contract [OF sample_store_inv, of ?r]
    by (auto split: prod.splits sum.splits)
qed

end
