(* ===== verification/Task_Limiter.thy ===== *)
theory Task_Limiter
  imports Prelude
begin

text \<open>
  The task limiter (\<open>runtime/src/limit.rs\<close>), which runs at most \<open>parallelism\<close> futures at a time.
  Its dispatcher, the tasks it spawns and the client run concurrently; each of them is a function that
  performs its next atomic step (an operation on a channel, on the map of handles or on an atomic counter),
  or returns \<open>None\<close> while it is blocked or when it has ended. The states of the whole are
  those reached by any interleaving of the steps.

  The channels and the runtime are the documented ones: a closed channel still delivers what it holds,
  \<open>try_send\<close> fails on a closed channel, a cancelled task is dropped at its current \<open>await\<close>, and a handle
  can be awaited until its task has ended.
\<close>

section \<open>The counters\<close>

record Stat =
  st_parallelism :: usize
  st_accepted :: usize
  st_spawned :: usize
  st_executed :: usize
  st_crashed :: usize
  st_canceled :: usize
  st_succeeded :: usize

record Snapshot =
  sn_parallelism :: usize
  sn_accepted :: usize
  sn_spawned :: usize
  sn_executed :: usize
  sn_crashed :: usize
  sn_canceled :: usize
  sn_running :: usize
  sn_succeeded :: usize

definition Stat_new :: "usize \<Rightarrow> Stat" where
  "Stat_new parallelism =
     \<lparr>st_parallelism = parallelism, st_accepted = 0, st_spawned = 0, st_executed = 0, st_crashed = 0, st_canceled = 0,
      st_succeeded = 0\<rparr>"

definition stat_accepted :: "Stat \<Rightarrow> Stat" where
  "stat_accepted st = st\<lparr>st_accepted := st_accepted st + 1\<rparr>"

definition stat_spawned :: "Stat \<Rightarrow> Stat" where
  "stat_spawned st = st\<lparr>st_spawned := st_spawned st + 1\<rparr>"

definition stat_executed :: "Stat \<Rightarrow> Stat" where
  "stat_executed st = st\<lparr>st_executed := st_executed st + 1\<rparr>"

definition stat_crashed :: "Stat \<Rightarrow> Stat" where
  "stat_crashed st = st\<lparr>st_crashed := st_crashed st + 1\<rparr>"

definition stat_canceled :: "Stat \<Rightarrow> Stat" where
  "stat_canceled st = st\<lparr>st_canceled := st_canceled st + 1\<rparr>"

definition stat_success :: "Stat \<Rightarrow> Stat" where
  "stat_success st = st\<lparr>st_succeeded := st_succeeded st + 1\<rparr>"

text \<open>
  \<open>snapshot\<close> loads the counters one after the other, so it takes the counters at the time of each
  load. The subtraction is the one of machine words, as in a release build.
\<close>

definition snapshot_loads :: "Stat \<Rightarrow> Stat \<Rightarrow> Stat \<Rightarrow> Stat \<Rightarrow> Stat \<Rightarrow> Stat \<Rightarrow> Snapshot" where
  "snapshot_loads a b c d e f =
     \<lparr>sn_parallelism = st_parallelism a, sn_accepted = st_accepted a, sn_spawned = st_spawned b, sn_executed = st_executed c,
      sn_crashed = st_crashed d, sn_canceled = st_canceled e,
      sn_running = st_spawned b - st_executed c - st_crashed d - st_canceled e, sn_succeeded = st_succeeded f\<rparr>"

definition snapshot :: "Stat \<Rightarrow> Snapshot" where
  "snapshot st = snapshot_loads st st st st st st"


section \<open>The steps\<close>

text \<open>
  Where a task is: not polled yet, in its future, at the count of a success, in \<open>feedback\<close> before the token is
  returned, before the handle is removed, before the counter; and how it ended.
\<close>

datatype TaskEnd = Executed | Crashed | Canceled

datatype TaskPc =
    Created
  | Running
  | Returned
  | Feedback bool
  | Released bool
  | Unregistered bool
  | Finished TaskEnd
  | Dropped

datatype DispatcherPc =
    CheckTerminated
  | Dequeue
  | Acquire nat
  | Recheck nat
  | Launch nat
  | Register nat
  | Drain
  | Await "nat list"
  | Exited Snapshot

text \<open>
  A future is known by a number. The task with identifier \<open>i + 1\<close> is the element \<open>i\<close> of \<open>tl_tasks\<close>, with the future
  it runs. \<open>tl_submitting\<close> holds between the two steps of \<open>spawn\<close>.
\<close>

record TaskLimiter =
  tl_stat :: Stat
  tl_tokens :: nat
  tl_token_open :: bool
  tl_queue :: "nat list"
  tl_enqueue_open :: bool
  tl_terminated :: bool
  tl_submitting :: bool
  tl_dispatcher :: DispatcherPc
  tl_tasks :: "(nat \<times> TaskPc) list"
  tl_handles :: "nat list"

definition TaskLimiter_new :: "nat \<Rightarrow> TaskLimiter" where
  "TaskLimiter_new parallelism =
     \<lparr>tl_stat = Stat_new (of_nat parallelism), tl_tokens = parallelism, tl_token_open = True, tl_queue = [], tl_enqueue_open = True,
      tl_terminated = False, tl_submitting = False, tl_dispatcher = CheckTerminated, tl_tasks = [], tl_handles = []\<rparr>"

abbreviation set_pc :: "nat \<Rightarrow> TaskPc \<Rightarrow> TaskLimiter \<Rightarrow> TaskLimiter" where
  "set_pc i pc s \<equiv> s\<lparr>tl_tasks := (tl_tasks s)[i := (fst (tl_tasks s ! i), pc)]\<rparr>"

definition ended :: "TaskPc \<Rightarrow> bool" where
  "ended pc = (case pc of Finished _ \<Rightarrow> True | Dropped \<Rightarrow> True | _ \<Rightarrow> False)"

text \<open>The task that runs the dispatcher's loop, and after it the end of the limiter.\<close>

definition dispatch :: "TaskLimiter \<Rightarrow> TaskLimiter option" where
  "dispatch s =
     (case tl_dispatcher s of
        CheckTerminated \<Rightarrow> Some (s\<lparr>tl_dispatcher := if tl_terminated s then Drain else Dequeue\<rparr>)
      | Dequeue \<Rightarrow>
          (case tl_queue s of
             fut # rest \<Rightarrow> Some (s\<lparr>tl_queue := rest, tl_dispatcher := Acquire fut\<rparr>)
           | [] \<Rightarrow> if tl_enqueue_open s then None else Some (s\<lparr>tl_dispatcher := Drain\<rparr>))
      | Acquire fut \<Rightarrow>
          if tl_tokens s > 0 then Some (s\<lparr>tl_tokens := tl_tokens s - 1, tl_dispatcher := Recheck fut\<rparr>)
          else if tl_token_open s then None
          else Some (s\<lparr>tl_dispatcher := Drain\<rparr>)
      | Recheck fut \<Rightarrow> Some (s\<lparr>tl_dispatcher := if tl_terminated s then Drain else Launch fut\<rparr>)
      | Launch fut \<Rightarrow>
          Some (s\<lparr>tl_tasks := tl_tasks s @ [(fut, Created)], tl_dispatcher := Register (length (tl_tasks s) + 1)\<rparr>)
      | Register task_id \<Rightarrow> Some (s\<lparr>tl_handles := task_id # tl_handles s, tl_dispatcher := CheckTerminated\<rparr>)
      | Drain \<Rightarrow> Some (s\<lparr>tl_handles := [], tl_dispatcher := Await (tl_handles s)\<rparr>)
      | Await [] \<Rightarrow> Some (s\<lparr>tl_dispatcher := Exited (snapshot (tl_stat s))\<rparr>)
      | Await (task_id # rest) \<Rightarrow>
          (let pc = snd (tl_tasks s ! (task_id - 1))
           in if ended pc then Some (s\<lparr>tl_dispatcher := Await rest\<rparr>)
              else if tl_terminated s \<and> pc = Created then Some (set_pc (task_id - 1) Dropped s)
              else if tl_terminated s \<and> pc = Running then Some (set_pc (task_id - 1) (Feedback False) s)
              else None)
      | Exited _ \<Rightarrow> None)"

text \<open>A spawned task; \<open>result\<close> is how its future ends: with \<open>Ok\<close>, with \<open>Err\<close>, or with a panic.\<close>

datatype FutureResult = Success | Failure | Panic

definition task_step :: "nat \<Rightarrow> FutureResult \<Rightarrow> TaskLimiter \<Rightarrow> TaskLimiter option" where
  "task_step i result s =
     (case snd (tl_tasks s ! i) of
        Created \<Rightarrow> Some (set_pc i Running (s\<lparr>tl_stat := stat_spawned (tl_stat s)\<rparr>))
      | Running \<Rightarrow>
          Some (set_pc i (case result of Success \<Rightarrow> Returned | Failure \<Rightarrow> Feedback True | Panic \<Rightarrow> Feedback False) s)
      | Returned \<Rightarrow> Some (set_pc i (Feedback True) (s\<lparr>tl_stat := stat_success (tl_stat s)\<rparr>))
      | Feedback normal \<Rightarrow>
          Some (set_pc i (Released normal) (s\<lparr>tl_tokens := if tl_token_open s then tl_tokens s + 1 else tl_tokens s\<rparr>))
      | Released normal \<Rightarrow> Some (set_pc i (Unregistered normal) (s\<lparr>tl_handles := remove1 (i + 1) (tl_handles s)\<rparr>))
      | Unregistered normal \<Rightarrow>
          Some (if normal then set_pc i (Finished Executed) (s\<lparr>tl_stat := stat_executed (tl_stat s)\<rparr>)
                else if tl_terminated s then set_pc i (Finished Canceled) (s\<lparr>tl_stat := stat_canceled (tl_stat s)\<rparr>)
                else set_pc i (Finished Crashed) (s\<lparr>tl_stat := stat_crashed (tl_stat s)\<rparr>))
      | Finished _ \<Rightarrow> None
      | Dropped \<Rightarrow> None)"

text \<open>The operations of the client: the two steps of \<open>spawn\<close>, the steps of \<open>shutdown\<close>, and \<open>wait\<close>.\<close>

definition spawn_send :: "nat \<Rightarrow> TaskLimiter \<Rightarrow> TaskLimiter option" where
  "spawn_send fut s = (if tl_enqueue_open s then Some (s\<lparr>tl_queue := tl_queue s @ [fut], tl_submitting := True\<rparr>) else None)"

definition spawn_count :: "TaskLimiter \<Rightarrow> TaskLimiter" where
  "spawn_count s = s\<lparr>tl_stat := stat_accepted (tl_stat s), tl_submitting := False\<rparr>"

definition terminate :: "TaskLimiter \<Rightarrow> TaskLimiter" where
  "terminate s = s\<lparr>tl_terminated := True\<rparr>"

definition close_tokens :: "TaskLimiter \<Rightarrow> TaskLimiter" where
  "close_tokens s = s\<lparr>tl_token_open := False\<rparr>"

definition close_enqueue :: "TaskLimiter \<Rightarrow> TaskLimiter" where
  "close_enqueue s = s\<lparr>tl_enqueue_open := False\<rparr>"

text \<open>
  The steps the limiter makes by itself, and the states it reaches together with its client, which owns the
  limiter: it ends a \<open>spawn\<close> before it calls anything else, and nothing follows \<open>shutdown\<close> or \<open>wait\<close>.
\<close>

inductive lim_step :: "TaskLimiter \<Rightarrow> TaskLimiter \<Rightarrow> bool" where
  step_dispatch: "dispatch s = Some s' \<Longrightarrow> lim_step s s'"
| step_task: "i < length (tl_tasks s) \<Longrightarrow> task_step i result s = Some s' \<Longrightarrow> lim_step s s'"

inductive lim_reach :: "nat \<Rightarrow> nat list \<Rightarrow> TaskLimiter \<Rightarrow> bool" for parallelism where
  reach_new: "parallelism > 0 \<Longrightarrow> lim_reach parallelism [] (TaskLimiter_new parallelism)"
| reach_step: "lim_reach parallelism futs s \<Longrightarrow> lim_step s s' \<Longrightarrow> lim_reach parallelism futs s'"
| reach_send: "lim_reach parallelism futs s \<Longrightarrow> \<not> tl_submitting s \<Longrightarrow> \<not> tl_terminated s \<Longrightarrow> spawn_send fut s = Some s'
    \<Longrightarrow> lim_reach parallelism (futs @ [fut]) s'"
| reach_count: "lim_reach parallelism futs s \<Longrightarrow> tl_submitting s \<Longrightarrow> lim_reach parallelism futs (spawn_count s)"
| reach_terminate: "lim_reach parallelism futs s \<Longrightarrow> \<not> tl_submitting s \<Longrightarrow> tl_enqueue_open s \<Longrightarrow> lim_reach parallelism futs (terminate s)"
| reach_close_tokens: "lim_reach parallelism futs s \<Longrightarrow> tl_terminated s \<Longrightarrow> lim_reach parallelism futs (close_tokens s)"
| reach_close_enqueue: "lim_reach parallelism futs s \<Longrightarrow> \<not> tl_submitting s \<Longrightarrow> (tl_terminated s \<longrightarrow> \<not> tl_token_open s)
    \<Longrightarrow> lim_reach parallelism futs (close_enqueue s)"


section \<open>Invariants\<close>

definition count_pc :: "(TaskPc \<Rightarrow> bool) \<Rightarrow> (nat \<times> TaskPc) list \<Rightarrow> nat" where
  "count_pc P ts = length (filter (P \<circ> snd) ts)"

abbreviation tasks_in :: "(TaskPc \<Rightarrow> bool) \<Rightarrow> TaskLimiter \<Rightarrow> nat" where
  "tasks_in P s \<equiv> count_pc P (tl_tasks s)"

lemma count_pc_simps [simp]:
  "count_pc P [] = 0" "count_pc P (ts @ [(f, pc)]) = count_pc P ts + of_bool (P pc)"
  by (simp_all add: count_pc_def)

lemma count_pc_update:
  assumes "i < length ts"
  shows "count_pc P (ts[i := (x, pc)]) + of_bool (P (snd (ts ! i))) = count_pc P ts + of_bool (P pc)"
proof -
  let ?xs = "take i ts" and ?ys = "drop (Suc i) ts"
  have "ts = ?xs @ ts ! i # ?ys" using assms by (rule id_take_nth_drop)
  then have "count_pc P ts = length (filter (P \<circ> snd) (?xs @ ts ! i # ?ys))" unfolding count_pc_def by simp
  moreover have "count_pc P (ts[i := (x, pc)]) = length (filter (P \<circ> snd) (?xs @ (x, pc) # ?ys))"
    using assms by (simp add: count_pc_def upd_conv_take_nth_drop)
  ultimately show ?thesis by simp
qed

lemma count_pc_same:
  "i < length ts \<Longrightarrow> P pc = P (snd (ts ! i)) \<Longrightarrow> count_pc P (ts[i := (x, pc)]) = count_pc P ts"
  using count_pc_update [of i ts P x pc] by simp

lemma count_pc_more:
  "i < length ts \<Longrightarrow> P pc \<Longrightarrow> \<not> P (snd (ts ! i)) \<Longrightarrow> count_pc P (ts[i := (x, pc)]) = Suc (count_pc P ts)"
  using count_pc_update [of i ts P x pc] by simp

lemma count_pc_less:
  "i < length ts \<Longrightarrow> \<not> P pc \<Longrightarrow> P (snd (ts ! i)) \<Longrightarrow> Suc (count_pc P (ts[i := (x, pc)])) = count_pc P ts"
  using count_pc_update [of i ts P x pc] by simp

text \<open>The tasks that own a token; the tasks between the counter \<open>spawned\<close> and their last counter; the ended futures.\<close>

fun holding :: "TaskPc \<Rightarrow> bool" where
  "holding Created = True" | "holding Running = True" | "holding Returned = True" | "holding (Feedback _) = True"
| "holding _ = False"

fun counted :: "TaskPc \<Rightarrow> bool" where
  "counted Created = False" | "counted Dropped = False" | "counted (Finished _) = False" | "counted _ = True"

fun future_over :: "TaskPc \<Rightarrow> bool" where
  "future_over (Unregistered _) = True" | "future_over (Finished _) = True" | "future_over Dropped = True"
| "future_over _ = False"

fun dispatcher_token :: "DispatcherPc \<Rightarrow> nat" where
  "dispatcher_token (Recheck _) = 1" | "dispatcher_token (Launch _) = 1" | "dispatcher_token _ = 0"

fun dispatcher_future :: "DispatcherPc \<Rightarrow> nat list" where
  "dispatcher_future (Acquire f) = [f]" | "dispatcher_future (Recheck f) = [f]" | "dispatcher_future (Launch f) = [f]"
| "dispatcher_future _ = []"

fun dispatcher_over :: "DispatcherPc \<Rightarrow> bool" where
  "dispatcher_over Drain = True" | "dispatcher_over (Await _) = True" | "dispatcher_over (Exited _) = True"
| "dispatcher_over _ = False"

definition token_inv :: "nat \<Rightarrow> TaskLimiter \<Rightarrow> bool" where
  "token_inv p s \<longleftrightarrow>
     tl_tokens s + tasks_in holding s + dispatcher_token (tl_dispatcher s) \<le> p
     \<and> (\<not> tl_terminated s \<longrightarrow> tl_token_open s \<and> tl_tokens s + tasks_in holding s + dispatcher_token (tl_dispatcher s) = p)"

abbreviation finished :: "TaskEnd \<Rightarrow> TaskLimiter \<Rightarrow> nat" where
  "finished e \<equiv> tasks_in (\<lambda>pc. pc = Finished e)"

definition count_inv :: "nat list \<Rightarrow> TaskLimiter \<Rightarrow> bool" where
  "count_inv futs s \<longleftrightarrow>
     st_accepted (tl_stat s) + of_bool (tl_submitting s) = of_nat (length futs)
     \<and> st_executed (tl_stat s) = of_nat (finished Executed s)
     \<and> st_crashed (tl_stat s) = of_nat (finished Crashed s)
     \<and> st_canceled (tl_stat s) = of_nat (finished Canceled s)
     \<and> st_spawned (tl_stat s) = of_nat (tasks_in counted s + finished Executed s + finished Crashed s + finished Canceled s)"

definition order_inv :: "nat list \<Rightarrow> TaskLimiter \<Rightarrow> bool" where
  "order_inv futs s \<longleftrightarrow>
     (\<exists>ignored. futs = map fst (tl_tasks s) @ ignored @ dispatcher_future (tl_dispatcher s) @ tl_queue s
        \<and> (\<not> tl_terminated s \<longrightarrow> ignored = []) \<and> (ignored \<noteq> [] \<longrightarrow> dispatcher_over (tl_dispatcher s)))
     \<and> (\<not> tl_terminated s \<and> dispatcher_over (tl_dispatcher s) \<longrightarrow> tl_queue s = [] \<and> \<not> tl_enqueue_open s)"

fun dispatcher_ids :: "DispatcherPc \<Rightarrow> nat list" where
  "dispatcher_ids (Register i) = [i]" | "dispatcher_ids (Await ids) = ids" | "dispatcher_ids _ = []"

fun dispatcher_left :: "DispatcherPc \<Rightarrow> bool" where
  "dispatcher_left (Await _) = True" | "dispatcher_left (Exited _) = True" | "dispatcher_left _ = False"

definition handle_inv :: "TaskLimiter \<Rightarrow> bool" where
  "handle_inv s \<longleftrightarrow>
     (\<forall>i < length (tl_tasks s). \<not> future_over (snd (tl_tasks s ! i)) \<longrightarrow>
        Suc i \<in> set (tl_handles s) \<union> set (dispatcher_ids (tl_dispatcher s)))
     \<and> set (tl_handles s) \<union> set (dispatcher_ids (tl_dispatcher s)) \<subseteq> {1..length (tl_tasks s)}
     \<and> (dispatcher_left (tl_dispatcher s) \<longrightarrow> tl_handles s = [])"

text \<open>A step of the dispatcher.\<close>

lemma ended_simps [simp]: "ended (Finished e)" "ended Dropped" "\<not> ended Created" "\<not> ended Running" "\<not> ended Returned"
  "\<not> ended (Feedback b)" "\<not> ended (Released b)" "\<not> ended (Unregistered b)"
  by (simp_all add: ended_def)

lemma future_over_ended: "ended pc \<Longrightarrow> future_over pc"
  by (cases pc) simp_all

lemma dispatch_await:
  assumes "tl_dispatcher s = Await ids" "dispatch s = Some s'" "handle_inv s"
  obtains (leave) "ids = []" "s' = s\<lparr>tl_dispatcher := Exited (snapshot (tl_stat s))\<rparr>"
    | (pop) i rest where "ids = Suc i # rest" "i < length (tl_tasks s)" "ended (snd (tl_tasks s ! i))"
        "s' = s\<lparr>tl_dispatcher := Await rest\<rparr>"
    | (cancel) i rest pc where "ids = Suc i # rest" "i < length (tl_tasks s)" "tl_terminated s" "s' = set_pc i pc s"
        "snd (tl_tasks s ! i) = Created \<and> pc = Dropped \<or> snd (tl_tasks s ! i) = Running \<and> pc = Feedback False"
proof (cases ids)
  case Nil
  with assms leave show thesis by (simp add: dispatch_def)
next
  case (Cons j rest)
  with assms(1,3) have "0 < j" "j \<le> length (tl_tasks s)" by (auto simp: handle_inv_def)
  then obtain i where i: "j = Suc i" "i < length (tl_tasks s)" by (cases j) auto
  let ?pc = "snd (tl_tasks s ! i)"
  consider "ended ?pc" | "?pc = Created" "tl_terminated s" | "?pc = Running" "tl_terminated s"
    using assms(1,2) Cons i(1) by (auto simp: dispatch_def Let_def split: if_splits)
  then show thesis
  proof cases
    case 1
    with assms(1,2) Cons i(1) have "s' = s\<lparr>tl_dispatcher := Await rest\<rparr>" by (simp add: dispatch_def)
    with 1 Cons i show thesis by (intro pop) simp_all
  next
    case 2
    with assms(1,2) Cons i(1) have "s' = set_pc i Dropped s" by (simp add: dispatch_def)
    with 2 Cons i show thesis by (intro cancel [of i rest Dropped]) simp_all
  next
    case 3
    with assms(1,2) Cons i(1) have "s' = set_pc i (Feedback False) s" by (simp add: dispatch_def)
    with 3 Cons i show thesis by (intro cancel [of i rest "Feedback False"]) simp_all
  qed
qed

lemma dispatch_token_inv:
  assumes "dispatch s = Some s'" "handle_inv s" "token_inv p s"
  shows "token_inv p s'"
proof (cases "tl_dispatcher s")
  case (Await ids)
  from Await assms(1,2) show ?thesis
  proof (cases rule: dispatch_await)
    case (cancel i rest pc)
    have "tasks_in holding s' \<le> tasks_in holding s"
      using count_pc_update [OF cancel(2), of holding "fst (tl_tasks s ! i)" pc] cancel(4,5) by auto
    with assms(3) Await cancel(3,4) show ?thesis by (simp add: token_inv_def)
  next
    case leave
    with assms(3) Await show ?thesis by (simp add: token_inv_def)
  next
    case (pop i rest)
    with assms(3) Await show ?thesis by (simp add: token_inv_def)
  qed
qed (use assms(1,3) in \<open>auto simp: dispatch_def token_inv_def split: if_splits list.splits\<close>)

lemma dispatch_count_inv:
  assumes "dispatch s = Some s'" "handle_inv s" "count_inv futs s"
  shows "count_inv futs s'"
proof (cases "tl_dispatcher s")
  case (Await ids)
  from Await assms(1,2) show ?thesis
  proof (cases rule: dispatch_await)
    case (cancel i rest pc)
    have "tasks_in counted s' = tasks_in counted s" "finished e s' = finished e s" for e
      unfolding cancel(4) using cancel(2,5) by (auto intro!: count_pc_same)
    with assms(3) cancel(4) show ?thesis by (simp add: count_inv_def)
  next
    case leave
    with assms(3) show ?thesis by (simp add: count_inv_def)
  next
    case (pop i rest)
    with assms(3) show ?thesis by (simp add: count_inv_def)
  qed
qed (use assms(1,3) in \<open>auto simp: dispatch_def count_inv_def split: if_splits list.splits\<close>)

lemma map_fst_set_pc [simp]: "map fst (xs[i := (fst (xs ! i), pc)]) = map fst xs"
  by (cases "i < length xs") (simp_all add: map_update list_update_same_conv list_update_beyond)

lemma dispatch_order_inv:
  assumes "dispatch s = Some s'" "handle_inv s" "token_inv p s" "order_inv futs s"
  shows "order_inv futs s'"
proof (cases "tl_dispatcher s")
  case (Await ids)
  from Await assms(1,2) show ?thesis
  proof (cases rule: dispatch_await)
    case leave
    with assms(4) Await show ?thesis by (simp add: order_inv_def)
  next
    case (pop i rest)
    with assms(4) Await show ?thesis by (simp add: order_inv_def)
  next
    case (cancel i rest pc)
    with assms(4) Await show ?thesis by (simp add: order_inv_def)
  qed
qed (use assms(1,3,4) in \<open>auto simp: dispatch_def order_inv_def token_inv_def split: if_splits list.splits\<close>)

lemma dispatch_handle_inv:
  assumes "dispatch s = Some s'" "handle_inv s"
  shows "handle_inv s'"
proof (cases "tl_dispatcher s")
  case (Await ids)
  from Await assms show ?thesis
  proof (cases rule: dispatch_await)
    case leave
    with assms(2) Await show ?thesis by (auto simp: handle_inv_def)
  next
    case (pop i rest)
    have "future_over (snd (tl_tasks s ! i))" using pop(3) by (rule future_over_ended)
    with assms(2) Await pop(1) have "Suc j \<in> set (tl_handles s) \<union> set rest"
      if "j < length (tl_tasks s)" "\<not> future_over (snd (tl_tasks s ! j))" for j
      using that by (cases "j = i") (auto simp: handle_inv_def)
    with assms(2) Await pop(1,4) show ?thesis by (simp add: handle_inv_def)
  next
    case (cancel i rest pc)
    have "Suc j \<in> set (tl_handles s) \<union> set ids"
      if "j < length (tl_tasks s)" "\<not> future_over (snd ((tl_tasks s)[i := (fst (tl_tasks s ! i), pc)] ! j))" for j
      using assms(2) Await cancel(1) that by (cases "j = i") (auto simp: handle_inv_def)
    with assms(2) Await cancel(4) show ?thesis by (simp add: handle_inv_def)
  qed
next
  case (Launch f)
  then have "s' = s\<lparr>tl_tasks := tl_tasks s @ [(f, Created)], tl_dispatcher := Register (Suc (length (tl_tasks s)))\<rparr>"
    using assms(1) by (simp add: dispatch_def)
  with assms(2) Launch show ?thesis by (auto simp: handle_inv_def nth_append less_Suc_eq)
qed (use assms in \<open>auto simp: dispatch_def handle_inv_def split: if_splits list.splits\<close>)

text \<open>A step of a task.\<close>

lemma task_step_cases:
  assumes "task_step i result s = Some s'" "i < length (tl_tasks s)"
  obtains (step) pc st toks hs where "s' = set_pc i pc (s\<lparr>tl_stat := st, tl_tokens := toks, tl_handles := hs\<rparr>)"
    "pc \<noteq> Created" "pc \<noteq> Dropped" "future_over (snd (tl_tasks s ! i)) \<Longrightarrow> future_over pc"
    "toks + of_bool (holding pc) = tl_tokens s + of_bool (holding (snd (tl_tasks s ! i))) \<or>
      \<not> tl_token_open s \<and> toks = tl_tokens s \<and> (holding pc \<longrightarrow> holding (snd (tl_tasks s ! i)))"
    "\<forall>j. j \<noteq> i \<longrightarrow> Suc j \<in> set (tl_handles s) \<longrightarrow> Suc j \<in> set hs" "set hs \<subseteq> set (tl_handles s)"
    "\<not> future_over pc \<Longrightarrow> hs = tl_handles s"
proof -
  let ?pc = "snd (tl_tasks s ! i)"
  have "\<exists>pc st toks hs. s' = set_pc i pc (s\<lparr>tl_stat := st, tl_tokens := toks, tl_handles := hs\<rparr>)
    \<and> pc \<noteq> Created \<and> pc \<noteq> Dropped \<and> (future_over ?pc \<longrightarrow> future_over pc)
    \<and> (toks + of_bool (holding pc) = tl_tokens s + of_bool (holding ?pc)
       \<or> \<not> tl_token_open s \<and> toks = tl_tokens s \<and> (holding pc \<longrightarrow> holding ?pc))
    \<and> (\<forall>j. j \<noteq> i \<longrightarrow> Suc j \<in> set (tl_handles s) \<longrightarrow> Suc j \<in> set hs) \<and> set hs \<subseteq> set (tl_handles s)
    \<and> (\<not> future_over pc \<longrightarrow> hs = tl_handles s)"
  proof (cases ?pc)
    case (Feedback normal)
    with assms show ?thesis
      by (intro exI [of _ "Released normal"] exI [of _ "tl_stat s"] exI [of _ "if tl_token_open s then tl_tokens s + 1 else tl_tokens s"]
          exI [of _ "tl_handles s"]) (auto simp: task_step_def)
  next
    case (Released normal)
    with assms show ?thesis
      by (intro exI [of _ "Unregistered normal"] exI [of _ "tl_stat s"] exI [of _ "tl_tokens s"]
          exI [of _ "remove1 (Suc i) (tl_handles s)"]) (auto simp: task_step_def dest: set_remove1_subset [THEN subsetD])
  next
    case Created
    with assms show ?thesis
      by (intro exI [of _ Running] exI [of _ "stat_spawned (tl_stat s)"] exI [of _ "tl_tokens s"] exI [of _ "tl_handles s"])
        (auto simp: task_step_def)
  next
    case Running
    with assms show ?thesis
      by (intro exI [of _ "case result of Success \<Rightarrow> Returned | Failure \<Rightarrow> Feedback True | Panic \<Rightarrow> Feedback False"]
          exI [of _ "tl_stat s"] exI [of _ "tl_tokens s"] exI [of _ "tl_handles s"])
        (auto simp: task_step_def split: FutureResult.splits)
  next
    case Returned
    with assms show ?thesis
      by (intro exI [of _ "Feedback True"] exI [of _ "stat_success (tl_stat s)"] exI [of _ "tl_tokens s"] exI [of _ "tl_handles s"])
        (auto simp: task_step_def)
  next
    case (Unregistered normal)
    let ?e = "if normal then Executed else if tl_terminated s then Canceled else Crashed"
    from assms Unregistered show ?thesis
      by (intro exI [of _ "Finished ?e"] exI [of _ "tl_stat s'"] exI [of _ "tl_tokens s"] exI [of _ "tl_handles s"])
        (auto simp: task_step_def)
  qed (use assms in \<open>simp_all add: task_step_def\<close>)
  with that show thesis by blast
qed

lemma task_token_inv:
  assumes "task_step i result s = Some s'" "i < length (tl_tasks s)" "token_inv p s"
  shows "token_inv p s'"
  using assms(1,2)
proof (cases rule: task_step_cases)
  case (step pc st toks hs)
  have "tasks_in holding s' + of_bool (holding (snd (tl_tasks s ! i))) = tasks_in holding s + of_bool (holding pc)"
    using count_pc_update [OF assms(2)] by (simp add: step(1))
  moreover have "tl_tokens s' = toks" "tl_dispatcher s' = tl_dispatcher s" "tl_terminated s' = tl_terminated s"
    "tl_token_open s' = tl_token_open s" by (simp_all add: step(1))
  ultimately show ?thesis using assms(3) step(5) by (auto simp: token_inv_def of_bool_def split: if_splits)
qed

lemma task_order_inv:
  assumes "task_step i result s = Some s'" "i < length (tl_tasks s)" "order_inv futs s"
  shows "order_inv futs s'"
  using assms(1,2)
proof (cases rule: task_step_cases)
  case (step pc st toks hs)
  with assms(3) show ?thesis by (simp add: order_inv_def)
qed

lemma task_handle_inv:
  assumes "task_step i result s = Some s'" "i < length (tl_tasks s)" "handle_inv s"
  shows "handle_inv s'"
  using assms(1,2)
proof (cases rule: task_step_cases)
  case (step pc st toks hs)
  have "Suc j \<in> set hs \<union> set (dispatcher_ids (tl_dispatcher s))"
    if "j < length (tl_tasks s)" "\<not> future_over (snd ((tl_tasks s)[i := (fst (tl_tasks s ! i), pc)] ! j))" for j
    using assms(2,3) that step(4,6,8) by (cases "j = i") (auto simp: handle_inv_def)
  with assms(3) step(1,7) show ?thesis by (auto simp: handle_inv_def)
qed

lemma task_count_inv:
  assumes "task_step i result s = Some s'" "i < length (tl_tasks s)" "count_inv futs s"
  shows "count_inv futs s'"
proof -
  note more = count_pc_more [OF assms(2)] and same = count_pc_same [OF assms(2)] and less = count_pc_less [OF assms(2)]
  show ?thesis
  proof (cases "snd (tl_tasks s ! i)")
    case Created
    then have "s' = set_pc i Running (s\<lparr>tl_stat := stat_spawned (tl_stat s)\<rparr>)" using assms(1) by (simp add: task_step_def)
    with Created assms(2,3) show ?thesis by (simp add: count_inv_def more same stat_spawned_def)
  next
    case Running
    let ?pc = "case result of Success \<Rightarrow> Returned | Failure \<Rightarrow> Feedback True | Panic \<Rightarrow> Feedback False"
    have "s' = set_pc i ?pc s" "counted ?pc" "\<And>e. ?pc \<noteq> Finished e"
      using assms(1) Running by (simp_all add: task_step_def split: FutureResult.splits)
    with Running assms(2,3) show ?thesis by (simp add: count_inv_def same)
  next
    case Returned
    then have "s' = set_pc i (Feedback True) (s\<lparr>tl_stat := stat_success (tl_stat s)\<rparr>)" using assms(1) by (simp add: task_step_def)
    with Returned assms(2,3) show ?thesis by (simp add: count_inv_def same stat_success_def)
  next
    case (Feedback normal)
    with assms show ?thesis by (auto simp: task_step_def count_inv_def same)
  next
    case (Released normal)
    with assms show ?thesis by (auto simp: task_step_def count_inv_def same)
  next
    case (Unregistered normal)
    have c: "tasks_in counted s = Suc (tasks_in counted s')"
      using assms(1) Unregistered less [of counted] by (auto simp: task_step_def split: if_splits)
    consider "s' = set_pc i (Finished Executed) (s\<lparr>tl_stat := stat_executed (tl_stat s)\<rparr>)"
      | "s' = set_pc i (Finished Canceled) (s\<lparr>tl_stat := stat_canceled (tl_stat s)\<rparr>)"
      | "s' = set_pc i (Finished Crashed) (s\<lparr>tl_stat := stat_crashed (tl_stat s)\<rparr>)"
      using assms(1) Unregistered by (auto simp: task_step_def split: if_splits)
    then show ?thesis
    proof cases
      case 1
      with c assms(3) Unregistered show ?thesis by (simp add: count_inv_def more same stat_executed_def)
    next
      case 2
      with c assms(3) Unregistered show ?thesis by (simp add: count_inv_def more same stat_canceled_def)
    next
      case 3
      with c assms(3) Unregistered show ?thesis by (simp add: count_inv_def more same stat_crashed_def)
    qed
  qed (use assms(1) in \<open>simp_all add: task_step_def\<close>)
qed

text \<open>Without a \<open>shutdown\<close> no task is cancelled.\<close>

definition uncanceled_inv :: "TaskLimiter \<Rightarrow> bool" where
  "uncanceled_inv s \<longleftrightarrow> (\<not> tl_terminated s \<longrightarrow> (\<forall>t \<in> set (tl_tasks s). snd t \<noteq> Dropped \<and> snd t \<noteq> Finished Canceled))"

lemma uncanceled_set_pc:
  assumes "uncanceled_inv s" "tl_terminated s' = tl_terminated s" "tl_tasks s' = (tl_tasks s)[i := (x, pc)]"
    and "tl_terminated s \<or> pc \<noteq> Dropped \<and> pc \<noteq> Finished Canceled"
  shows "uncanceled_inv s'"
proof -
  have "set (tl_tasks s') \<subseteq> insert (x, pc) (set (tl_tasks s))" unfolding assms(3) by (rule set_update_subset_insert)
  with assms(1,2,4) show ?thesis unfolding uncanceled_inv_def by auto
qed

lemma dispatch_uncanceled:
  assumes "dispatch s = Some s'" "handle_inv s" "uncanceled_inv s"
  shows "uncanceled_inv s'"
proof (cases "tl_dispatcher s")
  case (Await ids)
  from Await assms(1,2) show ?thesis
  proof (cases rule: dispatch_await)
    case (cancel i rest pc)
    then show ?thesis by (intro uncanceled_set_pc [OF assms(3)]) simp_all
  qed (use assms(3) in \<open>simp_all add: uncanceled_inv_def\<close>)
qed (use assms(1,3) in \<open>auto simp: dispatch_def uncanceled_inv_def split: if_splits list.splits\<close>)

lemma task_uncanceled:
  assumes "task_step i result s = Some s'" "i < length (tl_tasks s)" "uncanceled_inv s"
  shows "uncanceled_inv s'"
  using assms(1,2)
proof (cases rule: task_step_cases)
  case (step pc st toks hs)
  have "tl_terminated s" if "pc = Finished Canceled"
  proof -
    have "snd (tl_tasks s' ! i) = Finished Canceled" using step(1) that assms(2) by simp
    with assms(1,2) show ?thesis
      by (auto simp: task_step_def split: TaskPc.splits FutureResult.splits if_splits)
  qed
  with step(1,3) show ?thesis by (intro uncanceled_set_pc [OF assms(3)]) auto
qed

definition lim_inv :: "nat \<Rightarrow> nat list \<Rightarrow> TaskLimiter \<Rightarrow> bool" where
  "lim_inv p futs s \<longleftrightarrow>
     0 < p \<and> token_inv p s \<and> count_inv futs s \<and> order_inv futs s \<and> handle_inv s \<and> uncanceled_inv s"

lemmas lim_inv_defs = lim_inv_def token_inv_def count_inv_def order_inv_def handle_inv_def uncanceled_inv_def

lemma lim_inv_step: "lim_step s s' \<Longrightarrow> lim_inv p futs s \<Longrightarrow> lim_inv p futs s'"
proof (induction rule: lim_step.induct)
  case (step_dispatch s s')
  then show ?case
    unfolding lim_inv_def
    using dispatch_token_inv dispatch_count_inv dispatch_order_inv dispatch_handle_inv dispatch_uncanceled by blast
next
  case (step_task i s result s')
  note t = step_task(2,1)
  from step_task(3) show ?case
    by (simp add: lim_inv_def task_token_inv [OF t] task_count_inv [OF t] task_order_inv [OF t] task_handle_inv [OF t]
        task_uncanceled [OF t])
qed

lemma lim_reach_inv: "lim_reach p futs s \<Longrightarrow> lim_inv p futs s"
proof (induction rule: lim_reach.induct)
  case reach_new
  then show ?case by (simp add: lim_inv_defs TaskLimiter_new_def Stat_new_def)
next
  case (reach_step futs s s')
  then show ?case using lim_inv_step by blast
next
  case (reach_send futs s fut s')
  then have "s' = s\<lparr>tl_queue := tl_queue s @ [fut], tl_submitting := True\<rparr>" "tl_enqueue_open s"
    by (auto simp: spawn_send_def split: if_splits)
  with reach_send show ?case by (auto simp: lim_inv_defs)
next
  case (reach_count futs s)
  then show ?case by (auto simp: lim_inv_defs spawn_count_def stat_accepted_def)
next
  case (reach_terminate futs s)
  then show ?case by (auto simp: lim_inv_defs terminate_def)
next
  case (reach_close_tokens futs s)
  then show ?case by (auto simp: lim_inv_defs close_tokens_def)
next
  case (reach_close_enqueue futs s)
  then show ?case by (auto simp: lim_inv_defs close_enqueue_def)
qed


section \<open>Progress\<close>

text \<open>Every step that the limiter makes on its own brings the work it has accepted closer to its end.\<close>

fun task_work :: "TaskPc \<Rightarrow> nat" where
  "task_work Created = 7" | "task_work Running = 6" | "task_work Returned = 5" | "task_work (Feedback _) = 4"
| "task_work (Released _) = 3" | "task_work (Unregistered _) = 2" | "task_work _ = 0"

fun dispatcher_work :: "DispatcherPc \<Rightarrow> nat" where
  "dispatcher_work CheckTerminated = 2" | "dispatcher_work Dequeue = 1" | "dispatcher_work (Acquire _) = 20"
| "dispatcher_work (Recheck _) = 19" | "dispatcher_work (Launch _) = 18" | "dispatcher_work (Register _) = 3"
| "dispatcher_work _ = 0"

definition work :: "TaskLimiter \<Rightarrow> nat" where
  "work s = 20 * length (tl_queue s) + dispatcher_work (tl_dispatcher s) + (\<Sum>t \<leftarrow> tl_tasks s. task_work (snd t))"

definition all_done :: "TaskLimiter \<Rightarrow> bool" where
  "all_done s \<longleftrightarrow> tl_queue s = [] \<and> dispatcher_future (tl_dispatcher s) = [] \<and> (\<forall>t \<in> set (tl_tasks s). ended (snd t))"

lemma task_progress:
  assumes "i < length (tl_tasks s)" "\<not> ended (snd (tl_tasks s ! i))"
  shows "\<exists>s'. task_step i Success s = Some s' \<and> work s' < work s \<and> tl_terminated s' = tl_terminated s"
proof -
  have "\<exists>s' pc. task_step i Success s = Some s' \<and> tl_terminated s' = tl_terminated s \<and> tl_queue s' = tl_queue s
    \<and> tl_dispatcher s' = tl_dispatcher s \<and> tl_tasks s' = (tl_tasks s)[i := (fst (tl_tasks s ! i), pc)]
    \<and> task_work pc < task_work (snd (tl_tasks s ! i))"
    using assms(2) by (cases "snd (tl_tasks s ! i)") (auto simp: task_step_def ended_def)
  then obtain s' pc where s': "task_step i Success s = Some s'" "tl_terminated s' = tl_terminated s" "tl_queue s' = tl_queue s"
    "tl_dispatcher s' = tl_dispatcher s" "tl_tasks s' = (tl_tasks s)[i := (fst (tl_tasks s ! i), pc)]"
    "task_work pc < task_work (snd (tl_tasks s ! i))" by blast
  have "(\<Sum>t \<leftarrow> tl_tasks s'. task_work (snd t)) < (\<Sum>t \<leftarrow> tl_tasks s. task_work (snd t))"
    using s'(5,6) assms(1) elem_le_sum_list [of i "map (\<lambda>t. task_work (snd t)) (tl_tasks s)"]
    by (simp add: map_update sum_list_update)
  with s' show ?thesis by (simp add: work_def)
qed

lemma dispatch_progress:
  assumes "lim_inv p futs s" "\<not> tl_terminated s" "\<forall>t \<in> set (tl_tasks s). ended (snd t)" "\<not> all_done s"
  shows "\<exists>s'. dispatch s = Some s' \<and> work s' < work s \<and> tl_terminated s' = tl_terminated s"
proof -
  have "\<not> holding (snd t)" if "t \<in> set (tl_tasks s)" for t
    using that assms(3) by (cases "snd t") (auto simp: ended_def)
  then have "tasks_in holding s = 0" by (simp add: count_pc_def filter_empty_conv)
  then have "tl_tokens s + dispatcher_token (tl_dispatcher s) = p" "0 < p"
    using assms(1,2) by (auto simp: lim_inv_def token_inv_def)
  moreover have "tl_queue s \<noteq> [] \<or> dispatcher_future (tl_dispatcher s) \<noteq> []" using assms(3,4) by (auto simp: all_done_def)
  ultimately show ?thesis
    using assms(1,2) by (cases "tl_dispatcher s") (auto simp: dispatch_def work_def lim_inv_def order_inv_def neq_Nil_conv)
qed

lemma lim_progress:
  assumes "lim_inv p futs s" "\<not> tl_terminated s"
  shows "\<exists>s'. lim_step\<^sup>*\<^sup>* s s' \<and> all_done s' \<and> lim_inv p futs s' \<and> \<not> tl_terminated s'"
  using assms
proof (induction "work s" arbitrary: s rule: less_induct)
  case less
  show ?case
  proof (cases "all_done s")
    case True
    with less.prems show ?thesis by blast
  next
    case False
    have "\<exists>s'. lim_step s s' \<and> work s' < work s \<and> tl_terminated s' = tl_terminated s"
    proof (cases "\<forall>t \<in> set (tl_tasks s). ended (snd t)")
      case True
      with dispatch_progress [OF less.prems True False] step_dispatch show ?thesis by blast
    next
      case f: False
      then obtain i where "i < length (tl_tasks s)" "\<not> ended (snd (tl_tasks s ! i))" by (auto simp: in_set_conv_nth)
      with task_progress step_task show ?thesis by blast
    qed
    then obtain s1 where s1: "lim_step s s1" "work s1 < work s" "\<not> tl_terminated s1" using less.prems(2) by auto
    from less.hyps [OF s1(2) lim_inv_step [OF s1(1) less.prems(1)] s1(3)] s1(1) show ?thesis
      by (meson converse_rtranclp_into_rtranclp)
  qed
qed


text \<open>A run given by the choices of the scheduler.\<close>

datatype Choice = RunDispatcher | RunTask nat FutureResult

fun run_choices :: "Choice list \<Rightarrow> TaskLimiter \<Rightarrow> TaskLimiter option" where
  "run_choices [] s = Some s"
| "run_choices (RunDispatcher # cs) s = (case dispatch s of None \<Rightarrow> None | Some s' \<Rightarrow> run_choices cs s')"
| "run_choices (RunTask i result # cs) s =
     (if i < length (tl_tasks s) then case task_step i result s of None \<Rightarrow> None | Some s' \<Rightarrow> run_choices cs s' else None)"

lemma run_choices_steps: "run_choices cs s = Some s' \<Longrightarrow> lim_step\<^sup>*\<^sup>* s s'"
proof (induction cs s rule: run_choices.induct)
  case (2 cs s)
  then obtain s1 where "dispatch s = Some s1" "lim_step\<^sup>*\<^sup>* s1 s'" by (auto split: option.splits)
  then show ?case by (meson converse_rtranclp_into_rtranclp step_dispatch)
next
  case (3 i result cs s)
  then obtain s1 where "i < length (tl_tasks s)" "task_step i result s = Some s1" "lim_step\<^sup>*\<^sup>* s1 s'"
    by (auto split: option.splits if_splits)
  then show ?case by (meson converse_rtranclp_into_rtranclp step_task)
qed simp

lemma lim_reach_steps: "lim_step\<^sup>*\<^sup>* s s' \<Longrightarrow> lim_reach p futs s \<Longrightarrow> lim_reach p futs s'"
  by (induction rule: rtranclp_induct) (auto intro: reach_step)

text \<open>A limiter with one token, one accepted future and \<open>wait\<close> called, run to its end by one order of the steps.\<close>

definition sample_limiter :: TaskLimiter where
  "sample_limiter = close_enqueue (spawn_count (the (spawn_send 7 (TaskLimiter_new 1))))"

lemma sample_limiter_reach: "lim_reach 1 [7] sample_limiter"
proof -
  have "lim_reach 1 ([] @ [7]) (the (spawn_send 7 (TaskLimiter_new 1)))"
    by (rule reach_send [OF reach_new]) (simp_all add: TaskLimiter_new_def spawn_send_def)
  then have "lim_reach 1 [7] (spawn_count (the (spawn_send 7 (TaskLimiter_new 1))))"
    using reach_count by (simp add: TaskLimiter_new_def spawn_send_def)
  then show ?thesis unfolding sample_limiter_def
    by (rule reach_close_enqueue) (simp_all add: TaskLimiter_new_def spawn_send_def spawn_count_def)
qed

definition sample_run :: "Choice list" where
  "sample_run =
     [RunDispatcher, RunDispatcher, RunDispatcher, RunDispatcher, RunDispatcher, RunDispatcher,
      RunTask 0 Success, RunTask 0 Success, RunTask 0 Success, RunTask 0 Success, RunTask 0 Success,
      RunDispatcher, RunDispatcher, RunDispatcher, RunDispatcher]"

lemmas limiter_eval = sample_limiter_def TaskLimiter_new_def spawn_send_def spawn_count_def close_enqueue_def dispatch_def
  task_step_def sample_run_def Let_def Stat_new_def stat_accepted_def stat_spawned_def stat_success_def stat_executed_def
  snapshot_def snapshot_loads_def

text \<open>
  A task leaves the map of handles before it is counted, so the snapshot that \<open>wait\<close> returns may miss tasks that
  have run to their end.
\<close>

lemma wait_snapshot_early:
  "\<exists>s snap. lim_reach 1 [7] s \<and> tl_dispatcher s = Exited snap \<and> \<not> tl_terminated s \<and> sn_accepted snap = 1 \<and> sn_executed snap = 0
     \<and> sn_running snap = 1"
proof -
  obtain s snap where "run_choices sample_run sample_limiter = Some s" "tl_dispatcher s = Exited snap" "\<not> tl_terminated s"
    "sn_accepted snap = 1" "sn_executed snap = 0" "sn_running snap = 1"
    by (simp add: limiter_eval)
  with lim_reach_steps [OF run_choices_steps sample_limiter_reach] show ?thesis by blast
qed

text \<open>
  The counters are loaded one after the other, so a snapshot taken while a task starts and ends has a
  number of running tasks that wraps around below zero.
\<close>

lemma snapshot_wraps:
  "\<exists>s s'. lim_reach 1 [7] s \<and> lim_step\<^sup>*\<^sup>* s s'
     \<and> sn_running (snapshot_loads (tl_stat s) (tl_stat s) (tl_stat s') (tl_stat s') (tl_stat s') (tl_stat s')) = - 1"
proof -
  let ?cs = "take 11 sample_run @ [RunTask 0 Success]"
  obtain s' where s': "run_choices ?cs sample_limiter = Some s'" "st_executed (tl_stat s') = 1" "st_crashed (tl_stat s') = 0"
    "st_canceled (tl_stat s') = 0"
    by (simp add: limiter_eval)
  have "sn_running (snapshot_loads (tl_stat sample_limiter) (tl_stat sample_limiter) (tl_stat s') (tl_stat s') (tl_stat s') (tl_stat s'))
      = - 1"
    using s'(2-4) by (simp add: limiter_eval)
  with run_choices_steps [OF s'(1)] sample_limiter_reach show ?thesis by blast
qed

section \<open>Properties\<close>



text \<open>
  When the dispatcher has ended, no future of the limiter runs any more. After \<open>wait\<close> (no \<open>shutdown\<close> before it)
  every accepted future was run, in order, and none was cancelled.
\<close>

theorem limiter_completes:
  assumes "lim_reach p futs s" "tl_dispatcher s = Exited snap"
  shows "(\<forall>t \<in> set (tl_tasks s). future_over (snd t))
    \<and> (\<not> tl_terminated s \<longrightarrow> map fst (tl_tasks s) = futs \<and> (\<forall>t \<in> set (tl_tasks s). snd t \<noteq> Dropped \<and> snd t \<noteq> Finished Canceled))"
proof -
  have "\<forall>i < length (tl_tasks s). future_over (snd (tl_tasks s ! i))"
    using lim_reach_inv [OF assms(1)] assms(2) by (auto simp: lim_inv_def handle_inv_def)
  then have "\<forall>t \<in> set (tl_tasks s). future_over (snd t)" by (metis in_set_conv_nth)
  then show ?thesis using lim_reach_inv [OF assms(1)] assms(2) by (auto simp: lim_inv_def order_inv_def uncanceled_inv_def)
qed

theorem limiter_completes_witness:
  "\<exists>(s :: TaskLimiter) snap. tl_dispatcher s = Exited snap \<and> \<not> tl_terminated s \<and> map fst (tl_tasks s) = [7] \<and> (\<exists>t \<in> set (tl_tasks s). future_over (snd t))"
proof -
  obtain s snap where s: "run_choices sample_run sample_limiter = Some s" "tl_dispatcher s = Exited snap" "\<not> tl_terminated s"
    by (simp add: limiter_eval)
  from limiter_completes [OF lim_reach_steps [OF run_choices_steps [OF s(1)] sample_limiter_reach] s(2)] s(2,3)
  show ?thesis by (cases "tl_tasks s") auto
qed

lemma count_ends:
  "\<forall>t \<in> set ts. snd t = Finished Executed \<or> snd t = Finished Crashed \<Longrightarrow>
     count_pc (\<lambda>pc. pc = Finished Executed) ts + count_pc (\<lambda>pc. pc = Finished Crashed) ts = length ts"
  by (induction ts) (auto simp: count_pc_def)

text \<open>
  C27: The limiter never gets stuck. From every state it can reach without a \<open>shutdown\<close>, its own steps
  lead to a state in which every accepted future was run and has ended, and is counted as executed or
  crashed.
\<close>

theorem limiter_drains:
  assumes "lim_reach p futs s" "\<not> tl_terminated s"
  shows "\<exists>s'. lim_step\<^sup>*\<^sup>* s s' \<and> map fst (tl_tasks s') = futs
    \<and> (\<forall>t \<in> set (tl_tasks s'). snd t = Finished Executed \<or> snd t = Finished Crashed)
    \<and> st_executed (tl_stat s') + st_crashed (tl_stat s') = of_nat (length futs)"
proof -
  obtain s' where s': "lim_step\<^sup>*\<^sup>* s s'" "all_done s'" "lim_inv p futs s'" "\<not> tl_terminated s'"
    using lim_progress [OF lim_reach_inv [OF assms(1)] assms(2)] by blast
  have m: "map fst (tl_tasks s') = futs" using s'(2-4) by (auto simp: all_done_def lim_inv_def order_inv_def)
  have "snd t = Finished Executed \<or> snd t = Finished Crashed" if t: "t \<in> set (tl_tasks s')" for t
  proof -
    have "ended (snd t)" "snd t \<noteq> Dropped" "snd t \<noteq> Finished Canceled"
      using s'(2-4) t by (auto simp: all_done_def lim_inv_def uncanceled_inv_def)
    then obtain e where "snd t = Finished e" "e \<noteq> Canceled" by (cases "snd t") auto
    then show ?thesis by (cases e) auto
  qed
  moreover from this have "length (tl_tasks s') = finished Executed s' + finished Crashed s'" using count_ends [of "tl_tasks s'"] by auto
  then have "st_executed (tl_stat s') + st_crashed (tl_stat s') = of_nat (length futs)"
    using s'(3) m [symmetric] by (simp add: lim_inv_def count_inv_def)
  ultimately show ?thesis using s'(1) m by blast
qed

theorem limiter_drains_witness:
  "\<exists>s'. lim_step\<^sup>*\<^sup>* sample_limiter s' \<and> map fst (tl_tasks s') = [7] \<and> st_executed (tl_stat s') + st_crashed (tl_stat s') = 1"
  using limiter_drains [OF sample_limiter_reach] by (auto simp: limiter_eval)

end
