(* ===== verification/Kad_Config.thy ===== *)
theory Kad_Config
  imports Kad_Query Record_Store Task_Limiter
begin

text \<open>
  The configuration of Kademlia, the cache of open messengers, the commands of its control and the
  records of its statistics (\<open>protocols/kad/src/kad.rs\<close>, \<open>control.rs\<close>). The numbers of type
  \<open>NonZeroUsize\<close> are naturals; that they are positive is the predicate \<open>config_ok\<close>.
\<close>

section \<open>Configuration\<close>

record KademliaConfig =
  kc_query_config :: QueryConfig
  kc_protocol_config :: KademliaProtocolConfig
  kc_refresh_interval :: "Duration option"
  kc_gc_interval :: Duration
  kc_record_ttl :: Duration
  kc_provider_ttl :: Duration
  kc_check_kad_peer_interval :: Duration
  kc_iter_qry_parallelism :: nat

definition KademliaConfig_default :: KademliaConfig where
  "KademliaConfig_default =
     \<lparr>kc_query_config = QueryConfig_default, kc_protocol_config = KademliaProtocolConfig_default,
      kc_refresh_interval = Some (secs (10 * 60)), kc_gc_interval = secs (12 * 60 * 60),
      kc_record_ttl = secs (36 * 60 * 60), kc_provider_ttl = secs (24 * 60 * 60),
      kc_check_kad_peer_interval = secs (10 * 60), kc_iter_qry_parallelism = 50\<rparr>"

definition with_protocol_name :: "string \<Rightarrow> KademliaConfig \<Rightarrow> KademliaConfig" where
  "with_protocol_name name c = c\<lparr>kc_protocol_config := (kc_protocol_config c)\<lparr>protocol_name := name\<rparr>\<rparr>"

definition with_client_mode :: "bool \<Rightarrow> KademliaConfig \<Rightarrow> KademliaConfig" where
  "with_client_mode mode c = c\<lparr>kc_protocol_config := (kc_protocol_config c)\<lparr>client_mode := mode\<rparr>\<rparr>"

definition with_io_timeout ::
    "Duration option \<Rightarrow> Duration option \<Rightarrow> Duration option \<Rightarrow> KademliaConfig \<Rightarrow> KademliaConfig" where
  "with_io_timeout dial_timeout r_timeout w_timeout c =
     c\<lparr>kc_protocol_config := (kc_protocol_config c)
       \<lparr>new_stream_timeout := dial_timeout, read_timeout := r_timeout, write_timeout := w_timeout\<rparr>\<rparr>"

definition with_query_timeout :: "Duration \<Rightarrow> KademliaConfig \<Rightarrow> KademliaConfig" where
  "with_query_timeout timeout c = c\<lparr>kc_query_config := (kc_query_config c)\<lparr>qc_timeout := timeout\<rparr>\<rparr>"

definition with_k :: "nat \<Rightarrow> KademliaConfig \<Rightarrow> KademliaConfig" where
  "with_k k c = c\<lparr>kc_query_config := (kc_query_config c)\<lparr>k_value := k\<rparr>\<rparr>"

definition with_alpha :: "nat \<Rightarrow> KademliaConfig \<Rightarrow> KademliaConfig" where
  "with_alpha alpha c = c\<lparr>kc_query_config := (kc_query_config c)\<lparr>alpha_value := alpha\<rparr>\<rparr>"

definition with_beta :: "nat \<Rightarrow> KademliaConfig \<Rightarrow> KademliaConfig" where
  "with_beta beta c = c\<lparr>kc_query_config := (kc_query_config c)\<lparr>beta_value := beta\<rparr>\<rparr>"

definition with_refresh_interval :: "Duration option \<Rightarrow> KademliaConfig \<Rightarrow> KademliaConfig" where
  "with_refresh_interval interval c = c\<lparr>kc_refresh_interval := interval\<rparr>"

definition with_cleanup_interval :: "Duration \<Rightarrow> KademliaConfig \<Rightarrow> KademliaConfig" where
  "with_cleanup_interval interval c = c\<lparr>kc_gc_interval := interval\<rparr>"

definition with_record_ttl :: "Duration \<Rightarrow> KademliaConfig \<Rightarrow> KademliaConfig" where
  "with_record_ttl ttl c = c\<lparr>kc_record_ttl := ttl\<rparr>"

definition with_provider_record_ttl :: "Duration \<Rightarrow> KademliaConfig \<Rightarrow> KademliaConfig" where
  "with_provider_record_ttl ttl c = c\<lparr>kc_provider_ttl := ttl\<rparr>"

definition with_max_packet_size :: "nat \<Rightarrow> KademliaConfig \<Rightarrow> KademliaConfig" where
  "with_max_packet_size sz c = c\<lparr>kc_protocol_config := (kc_protocol_config c)\<lparr>max_packet_size := sz\<rparr>\<rparr>"

definition with_new_stream_timeout :: "Duration option \<Rightarrow> KademliaConfig \<Rightarrow> KademliaConfig" where
  "with_new_stream_timeout timeout c = c\<lparr>kc_protocol_config := (kc_protocol_config c)\<lparr>new_stream_timeout := timeout\<rparr>\<rparr>"

definition with_read_timeout :: "Duration option \<Rightarrow> KademliaConfig \<Rightarrow> KademliaConfig" where
  "with_read_timeout timeout c = c\<lparr>kc_protocol_config := (kc_protocol_config c)\<lparr>read_timeout := timeout\<rparr>\<rparr>"

definition with_write_timeout :: "Duration option \<Rightarrow> KademliaConfig \<Rightarrow> KademliaConfig" where
  "with_write_timeout timeout c = c\<lparr>kc_protocol_config := (kc_protocol_config c)\<lparr>write_timeout := timeout\<rparr>\<rparr>"

definition with_iter_qry_parallelism :: "nat \<Rightarrow> KademliaConfig \<Rightarrow> KademliaConfig" where
  "with_iter_qry_parallelism parallelism c = c\<lparr>kc_iter_qry_parallelism := parallelism\<rparr>"

definition query_config_ok :: "QueryConfig \<Rightarrow> bool" where
  "query_config_ok c \<longleftrightarrow> 0 < k_value c \<and> 0 < alpha_value c \<and> 0 < beta_value c"


section \<open>Statistics and views\<close>

record KademliaStats =
  total_refreshes :: usize
  ks_query :: QueryStats
  message_rx :: MessageStats
  total_provider_records :: usize
  total_kv_records :: usize
  ks_task :: Snapshot

definition KademliaStats_default :: KademliaStats where
  "KademliaStats_default =
     \<lparr>total_refreshes = 0, ks_query = QueryStats_default, message_rx = MessageStats_default,
      total_provider_records = 0, total_kv_records = 0,
      ks_task = \<lparr>sn_parallelism = 0, sn_accepted = 0, sn_spawned = 0, sn_executed = 0, sn_crashed = 0,
        sn_canceled = 0, sn_running = 0, sn_succeeded = 0\<rparr>\<rparr>"

record StorageStats =
  ss_provider :: "ProviderRecord list"
  ss_record :: "Record list"

record KNodeView =
  kn_id :: PeerId
  kn_aliveness :: "Instant option"
  kn_addresses :: "Multiaddr list"
  kn_connected :: bool

record KBucketView =
  kb_index :: nat
  kb_bucket :: "KNodeView list"


section \<open>Commands of the control\<close>

datatype DumpCommand =
    Storage Reply
  | Entries Reply
  | Statistics Reply
  | Ledgers "PeerId option" Reply
  | Messengers Reply
  | Providers RecordKey Reply

datatype ControlCommand =
    Bootstrap "(PeerId \<times> Multiaddr) list" "Reply option"
  | Lookup RecordKey Reply
  | FindPeer PeerId Reply
  | FindProviders RecordKey nat Reply
  | Providing RecordKey Reply
  | Unprovide RecordKey
  | PutValue RecordKey bytes Reply
  | GetValue RecordKey Reply
  | Dump DumpCommand
  | AddNode PeerId "Multiaddr list"
  | RemoveNode PeerId
  | NotAddressPeer Reply
  | ClosestByBucket RecordKey Reply


section \<open>The cache of messengers\<close>

text \<open>
  The map is shared under a lock; each operation below is one critical section, except that
  \<open>get_messenger\<close> opens a new substream outside of it. \<open>opened\<close> is the result of opening one.
\<close>

record MessengerManager =
  mm_config :: KademliaProtocolConfig
  mm_cache :: "(PeerId, KadMessenger) hashmap"

definition MessengerManager_new :: "KademliaProtocolConfig \<Rightarrow> MessengerManager" where
  "MessengerManager_new config = \<lparr>mm_config = config, mm_cache = []\<rparr>"

definition get_messenger ::
    "KadError + unit \<Rightarrow> PeerId \<Rightarrow> MessengerManager \<Rightarrow> (KadError + KadMessenger) \<times> MessengerManager" where
  "get_messenger opened peer mm =
     (let r = hm_get (mm_cache mm) peer; mm = mm\<lparr>mm_cache := hm_remove peer (mm_cache mm)\<rparr>
      in case r of
           Some sender \<Rightarrow> (Inr sender, mm)
         | None \<Rightarrow>
             (case opened of
                Inl e \<Rightarrow> (Inl e, mm)
              | Inr _ \<Rightarrow> (Inr (KadMessenger_build peer (mm_config mm)), mm)))"

definition put_messenger :: "KadMessenger \<Rightarrow> MessengerManager \<Rightarrow> MessengerManager" where
  "put_messenger messenger mm =
     (let (again, messenger) = reuse messenger
      in if again then
           let peer = km_peer messenger
           in if hm_get (mm_cache mm) peer = None
              then mm\<lparr>mm_cache := hm_insert peer messenger (mm_cache mm)\<rparr> else mm
         else mm)"

definition clear_messengers :: "PeerId \<Rightarrow> MessengerManager \<Rightarrow> MessengerManager" where
  "clear_messengers peer mm = mm\<lparr>mm_cache := hm_remove peer (mm_cache mm)\<rparr>"

text \<open>\<open>messengers\<close>: the view of a messenger is its peer and its counter; the substream is left out.\<close>

definition messengers_view :: "MessengerManager \<Rightarrow> (PeerId \<times> nat) list" where
  "messengers_view mm = map (\<lambda>m. (km_peer m, km_reuse m)) (hm_values (mm_cache mm))"

end
