(* ===== verification/Kademlia.thy ===== *)
theory Kademlia
  imports Kad_Config "HOL-Library.Option_ord" "HOL-Library.Monad_Syntax"
begin

text \<open>
  The main loop of Kademlia (\<open>protocols/kad/src/kad.rs\<close>): its state, the routing table updates, the
  handlers of events and requests, the commands of the control and the refresh procedure.

  A handler maps the state to the new state and the list of its effects; \<open>None\<close> is a panic (an
  \<open>expect\<close> or \<open>unwrap\<close> that fails). The effects are the answers on one-shot channels, posted events
  and spawned tasks; the closure passed to a query is a \<open>Callback\<close>, and \<open>finish_query\<close> is what it does
  with the result. A one-shot channel is a number. The store is the \<open>MemoryStore\<close>. The peer store of the
  swarm, the statistics and the messengers are shared with other tasks; a handler sees the contents they
  have when it runs. The readings of the clock within one call share the argument \<open>now\<close>, except the second
  reading of \<open>try_add_peer\<close>. \<open>sha\<close> is SHA-256 and \<open>rand\<close> the random peer identities.
\<close>

section \<open>State and effects\<close>

record Kademlia =
  kbuckets :: "(PeerId, PeerInfo) KBucketsTable"
  protocol_config :: KademliaProtocolConfig
  refreshing :: bool
  query_config :: QueryConfig
  query_stats :: QueryStats
  ledgers :: "(PeerId, Ledger) hashmap"
  stats :: KademliaStats
  messengers :: "MessengerManager option"
  connected_peers :: "PeerId set"
  provider_timer_handle :: "Duration option"
  refresh_timer_handle :: "Duration option"
  gc_interval :: Duration
  refresh_interval :: "Duration option"
  record_ttl :: Duration
  provider_ttl :: Duration
  check_kad_peer_interval :: Duration
  local_addrs :: "Multiaddr list"
  store :: MemoryStore
  swarm :: "PeerStore option"
  iter_qry_limiter :: Snapshot

datatype KadReply =
    Response "KadError + KadResponseMsg option"
  | RUnit "KadError + unit"
  | RPeers "KadError + KadPeer list"
  | RPeer "KadError + KadPeer"
  | RRecord "KadError + FoundRecord"
  | RIds "KadError + PeerId list"
  | RStorage StorageStats
  | REntries "KBucketView list"
  | RStatistics KademliaStats
  | RLedgers "(PeerId \<times> Ledger) list"
  | RMessengers "(PeerId \<times> nat) list"
  | RProviders "ProviderRecord list"

datatype Callback =
    OnLookup Reply
  | OnFindPeer Reply
  | OnProviders Reply
  | OnRecord Reply
  | OnPut Record Reply
  | OnProviding ProviderRecord "Multiaddr list" Reply
  | OnRefresh "Reply option"

datatype KadOutput =
    Answer Reply KadReply
  | Post ProtocolEvent
  | SpawnIterative IterativeQuery Callback
  | SpawnFixed QueryType "PeerId list" "Reply option"
  | SpawnHealthCheck "PeerId list"
  | SpawnWalk "PeerId list" "Reply option"

type_synonym outcome = "(Kademlia \<times> KadOutput list) option"

definition with_config :: "(bytes \<Rightarrow> U256) \<Rightarrow> PeerId \<Rightarrow> MemoryStore \<Rightarrow> KademliaConfig \<Rightarrow> Kademlia option" where
  "with_config sha p s config =
     (if kc_iter_qry_parallelism config = 0 then None
      else Some
        \<lparr>kbuckets = table_new (Key_from_PeerId sha p), protocol_config = kc_protocol_config config,
         refreshing = False, query_config = kc_query_config config, query_stats = QueryStats_default,
         ledgers = [], stats = KademliaStats_default, messengers = None, connected_peers = {},
         provider_timer_handle = None, refresh_timer_handle = None, gc_interval = kc_gc_interval config,
         refresh_interval = kc_refresh_interval config, record_ttl = kc_record_ttl config,
         provider_ttl = kc_provider_ttl config, check_kad_peer_interval = kc_check_kad_peer_interval config,
         local_addrs = [], store = s, swarm = None,
         iter_qry_limiter = (ks_task KademliaStats_default)
           \<lparr>sn_parallelism := of_nat (kc_iter_qry_parallelism config)\<rparr>\<rparr>)"

definition Kademlia_new :: "(bytes \<Rightarrow> U256) \<Rightarrow> PeerId \<Rightarrow> MemoryStore \<Rightarrow> Kademlia option" where
  "Kademlia_new sha p s = with_config sha p s KademliaConfig_default"

abbreviation local_id :: "Kademlia \<Rightarrow> PeerId" where
  "local_id k \<equiv> preimage (self_key (kbuckets k))"

text \<open>\<open>if let Some(s) = self.swarm.as_ref()\<close> around an operation of the peer store.\<close>

definition with_swarm :: "(PeerStore \<Rightarrow> PeerStore) \<Rightarrow> Kademlia \<Rightarrow> Kademlia" where
  "with_swarm f k = k\<lparr>swarm := map_option f (swarm k)\<rparr>"

text \<open>\<open>iter_qry_limiter.spawn\<close>.\<close>

definition spawn_iterative :: "IterativeQuery \<Rightarrow> Callback \<Rightarrow> Kademlia \<Rightarrow> Kademlia \<times> KadOutput list" where
  "spawn_iterative q cb k =
     (k\<lparr>iter_qry_limiter := (iter_qry_limiter k)\<lparr>sn_accepted := sn_accepted (iter_qry_limiter k) + 1\<rparr>\<rparr>,
      [SpawnIterative q cb])"


section \<open>The routing table\<close>

text \<open>The nodes that may be replaced: not permanent, and not known to be alive for longer than the timeout.\<close>

definition is_stale :: "Instant \<Rightarrow> Duration \<Rightarrow> PeerInfo \<Rightarrow> bool" where
  "is_stale now timeout info \<longleftrightarrow>
     \<not> is_permanent info \<and> (case get_aliveness info of None \<Rightarrow> True | Some a \<Rightarrow> now - a > timeout)"

definition eviction_candidate ::
    "Instant \<Rightarrow> Duration \<Rightarrow> (PeerId, PeerInfo) Node list \<Rightarrow> (PeerId, PeerInfo) Node option" where
  "eviction_candidate now timeout ns =
     min_by (\<lambda>n. get_aliveness (node_value n)) (filter (\<lambda>n. is_stale now timeout (node_value n)) ns)"

text \<open>\<open>now\<close> is the first and \<open>now'\<close> the second reading of the clock.\<close>

definition try_add_peer ::
    "(bytes \<Rightarrow> U256) \<Rightarrow> Instant \<Rightarrow> Instant \<Rightarrow> PeerId \<Rightarrow> bool \<Rightarrow> bool \<Rightarrow> Kademlia \<Rightarrow> Kademlia option" where
  "try_add_peer sha now now' peer queried perm k =
     (let timeout = check_kad_peer_interval k; key = Key_from_PeerId sha peer
      in case table_entry (kbuckets k) key of
           Present e \<Rightarrow>
             if queried
             then map_option (\<lambda>t. k\<lparr>kbuckets := t\<rparr>) (present_modify (kbuckets k) e (set_aliveness (Some now')))
             else Some k
         | Absent e \<Rightarrow>
             (let info = PeerInfo_new now' queried perm
              in case absent_insert (kbuckets k) e info of
                   (True, t) \<Rightarrow> Some (with_swarm (pin peer) (k\<lparr>kbuckets := t\<rparr>))
                 | (False, t) \<Rightarrow>
                     (case eviction_candidate now timeout (entry_nodes t e) of
                        Some candidate \<Rightarrow>
                          (let key = node_key candidate;
                               (evicted, t) = absent_bucket_remove t e key;
                               k = with_swarm (unpin (preimage key)) k;
                               (inserted, t) = absent_insert t e info
                           in Some (with_swarm (pin peer) (k\<lparr>kbuckets := t\<rparr>)))
                      | None \<Rightarrow> Some (k\<lparr>kbuckets := t\<rparr>)))
         | SelfEntry \<Rightarrow> Some k)"

definition try_remove_peer ::
    "(bytes \<Rightarrow> U256) \<Rightarrow> PeerId \<Rightarrow> bool \<Rightarrow> Kademlia \<Rightarrow> ((PeerId, PeerInfo) Node option \<times> Kademlia) option" where
  "try_remove_peer sha peer forced k =
     (case table_entry (kbuckets k) (Key_from_PeerId sha peer) of
        Present e \<Rightarrow>
          if forced
          then map_option (\<lambda>(n, t). (Some n, with_swarm (unpin peer) (k\<lparr>kbuckets := t\<rparr>))) (present_remove (kbuckets k) e)
          else map_option (\<lambda>t. (None, k\<lparr>kbuckets := t\<rparr>)) (present_modify (kbuckets k) e (set_aliveness None))
      | _ \<Rightarrow> Some (None, k))"

definition try_deactivate_peer :: "(bytes \<Rightarrow> U256) \<Rightarrow> PeerId \<Rightarrow> Kademlia \<Rightarrow> Kademlia option" where
  "try_deactivate_peer sha peer k =
     (case table_entry (kbuckets k) (Key_from_PeerId sha peer) of
        Present e \<Rightarrow> map_option (\<lambda>t. k\<lparr>kbuckets := t\<rparr>) (present_modify (kbuckets k) e (set_aliveness None))
      | _ \<Rightarrow> Some k)"

definition nonempty_kbuckets :: "Kademlia \<Rightarrow> (BucketIndex \<times> (PeerId, PeerInfo) KBucket) list" where
  "nonempty_kbuckets k = filter (\<lambda>b. \<not> bucket_ref_is_empty b) (table_iter (kbuckets k))"

definition kbucket :: "(bytes \<Rightarrow> U256) \<Rightarrow> bytes \<Rightarrow> Kademlia \<Rightarrow> (BucketIndex \<times> (PeerId, PeerInfo) KBucket) option" where
  "kbucket sha key k = table_bucket (kbuckets k) (Key_new sha key)"


section \<open>Starting queries\<close>

definition prepare_iterative_query :: "(bytes \<Rightarrow> U256) \<Rightarrow> QueryType \<Rightarrow> RecordKey \<Rightarrow> Kademlia \<Rightarrow> IterativeQuery option" where
  "prepare_iterative_query sha qt key k =
     (let seeds = take (k_value (query_config k)) (closest_keys (kbuckets k) (key_bytes (Key_new sha key)))
      in if swarm k = None \<or> messengers k = None then None
         else Some \<lparr>iq_key = key, iq_query_type = qt, iq_local_id = local_id k, iq_config = query_config k,
                    iq_seeds = seeds\<rparr>)"

text \<open>The common end of all functions that start an iterative query.\<close>

definition start_query :: "(bytes \<Rightarrow> U256) \<Rightarrow> QueryType \<Rightarrow> RecordKey \<Rightarrow> Callback \<Rightarrow> Kademlia \<Rightarrow> outcome" where
  "start_query sha qt key cb k =
     map_option (\<lambda>q. spawn_iterative q cb k) (prepare_iterative_query sha qt key k)"

definition get_closest_peers :: "(bytes \<Rightarrow> U256) \<Rightarrow> RecordKey \<Rightarrow> Callback \<Rightarrow> Kademlia \<Rightarrow> outcome" where
  "get_closest_peers sha key cb k = start_query sha GetClosestPeers key cb k"

definition find_peer :: "(bytes \<Rightarrow> U256) \<Rightarrow> PeerId \<Rightarrow> Reply \<Rightarrow> Kademlia \<Rightarrow> outcome" where
  "find_peer sha p reply k =
     (case Option.bind (swarm k) (\<lambda>s. get_addrs s p) of
        Some addrs \<Rightarrow>
          Some (k, [Answer reply (RPeer (Inr \<lparr>node_id = p, multiaddrs = addrs, connection_ty = NotConnected\<rparr>))])
      | None \<Rightarrow> start_query sha QueryType.FindPeer (RecordKey_from_PeerId p) (OnFindPeer reply) k)"

definition connection_type :: "Kademlia \<Rightarrow> PeerId \<Rightarrow> KadConnectionType" where
  "connection_type k p = (if p \<in> connected_peers k then Connected else NotConnected)"

definition provider_peers :: "RecordKey \<Rightarrow> PeerId option \<Rightarrow> Kademlia \<Rightarrow> KadPeer list option" where
  "provider_peers key source k =
     map_option (\<lambda>ps.
       take (k_value (query_config k))
         (List.map_filter (\<lambda>r.
            if (case source of None \<Rightarrow> True | Some s \<Rightarrow> s \<noteq> provider r)
            then Some \<lparr>node_id = provider r,
                       multiaddrs = (if provider r = local_id k then local_addrs k
                         else case get_addrs ps (provider r) of None \<Rightarrow> [] | Some as \<Rightarrow> as),
                       connection_ty = connection_type k (provider r)\<rparr>
            else None) (providers (store k) key)))
       (swarm k)"

definition find_providers :: "(bytes \<Rightarrow> U256) \<Rightarrow> RecordKey \<Rightarrow> nat \<Rightarrow> Reply \<Rightarrow> Kademlia \<Rightarrow> outcome" where
  "find_providers sha key cnt reply k =
     do { ps \<leftarrow> provider_peers key None k;
          if cnt \<noteq> 0 \<and> length ps \<ge> cnt then Some (k, [Answer reply (RPeers (Inr ps))])
          else start_query sha (QueryType.GetProviders cnt (if ps = [] then None else Some ps)) key (OnProviders reply) k }"

definition get_record :: "(bytes \<Rightarrow> U256) \<Rightarrow> RecordKey \<Rightarrow> Reply \<Rightarrow> Kademlia \<Rightarrow> outcome" where
  "get_record sha key reply k =
     (let quorum = k_value (query_config k);
          records = (case store_get (store k) key of None \<Rightarrow> [] | Some r \<Rightarrow> [\<lparr>fr_peer = None, fr_record = r\<rparr>])
      in if length records \<ge> quorum then
           Some (k, [Answer reply (RRecord (case records of [] \<Rightarrow> Inl NotFound | r # _ \<Rightarrow> Inr r))])
         else start_query sha (GetRecord quorum (if records = [] then None else Some records)) key (OnRecord reply) k)"

definition put_record :: "(bytes \<Rightarrow> U256) \<Rightarrow> Instant \<Rightarrow> RecordKey \<Rightarrow> bytes \<Rightarrow> Reply \<Rightarrow> Kademlia \<Rightarrow> outcome" where
  "put_record sha now key value reply k =
     (let r = Record_new now key value True (Some (local_id k))
      in case store_put (store k) r of
           (Inl e, s) \<Rightarrow> Some (k\<lparr>store := s\<rparr>, [Answer reply (RUnit (Inl e))])
         | (Inr _, s) \<Rightarrow> get_closest_peers sha (rec_key r) (OnPut r reply) (k\<lparr>store := s\<rparr>))"

definition remove_record :: "RecordKey \<Rightarrow> Kademlia \<Rightarrow> Kademlia" where
  "remove_record key k =
     (case store_get (store k) key of
        Some r \<Rightarrow> if publisher r = Some (local_id k) then k\<lparr>store := store_remove (store k) key\<rparr> else k
      | None \<Rightarrow> k)"

definition start_providing :: "(bytes \<Rightarrow> U256) \<Rightarrow> Instant \<Rightarrow> RecordKey \<Rightarrow> Reply \<Rightarrow> Kademlia \<Rightarrow> outcome" where
  "start_providing sha now key reply k =
     (let prov = ProviderRecord_new now key (local_id k) True
      in case add_provider sha (store k) prov of
           (Inl e, s) \<Rightarrow> Some (k\<lparr>store := s\<rparr>, [Answer reply (RUnit (Inl e))])
         | (Inr _, s) \<Rightarrow> get_closest_peers sha key (OnProviding prov (local_addrs k) reply) (k\<lparr>store := s\<rparr>))"

definition stop_providing :: "RecordKey \<Rightarrow> Kademlia \<Rightarrow> Kademlia" where
  "stop_providing key k = k\<lparr>store := remove_provider (store k) key (local_id k)\<rparr>"

text \<open>The closures passed to the queries, and the one passed to a fixed query.\<close>

definition ok_or_not_found :: "('a \<Rightarrow> 'b option) \<Rightarrow> KadError + 'a \<Rightarrow> KadError + 'b" where
  "ok_or_not_found f r = (case r of Inl e \<Rightarrow> Inl e | Inr x \<Rightarrow> (case f x of None \<Rightarrow> Inl NotFound | Some y \<Rightarrow> Inr y))"

definition first_record :: "QueryResult \<Rightarrow> FoundRecord option" where
  "first_record res = (case qr_records res of Some (r # _) \<Rightarrow> Some r | _ \<Rightarrow> None)"

fun finish_query :: "Callback \<Rightarrow> KadError + QueryResult \<Rightarrow> KadOutput list" where
  "finish_query (OnLookup reply) r = [Answer reply (RPeers (ok_or_not_found qr_closest_peers r))]"
| "finish_query (OnFindPeer reply) r = [Answer reply (RPeer (ok_or_not_found qr_found_peer r))]"
| "finish_query (OnProviders reply) r = [Answer reply (RPeers (ok_or_not_found qr_providers r))]"
| "finish_query (OnRecord reply) r =
     (case r of
        Inl _ \<Rightarrow> []
      | Inr res \<Rightarrow>
          (case (first_record res, qr_cache_peers res) of
             (Some fr, Some peers) \<Rightarrow> [SpawnFixed (PutRecord (fr_record fr)) peers None]
           | _ \<Rightarrow> []))
     @ [Answer reply (RRecord (ok_or_not_found first_record r))]"
| "finish_query (OnPut r0 reply) r =
     (case ok_or_not_found qr_closest_peers r of
        Inl e \<Rightarrow> [Answer reply (RUnit (Inl e))]
      | Inr peers \<Rightarrow> [SpawnFixed (PutRecord r0) (map node_id peers) (Some reply)])"
| "finish_query (OnProviding prov addrs reply) r =
     (case ok_or_not_found qr_closest_peers r of
        Inl e \<Rightarrow> [Answer reply (RUnit (Inl e))]
      | Inr peers \<Rightarrow> [SpawnFixed (QueryType.AddProvider prov addrs) (map node_id peers) (Some reply)])"
| "finish_query (OnRefresh reply) r = [Post (Refresh (SelfQueryDone reply))]"

definition finish_fixed :: "Reply option \<Rightarrow> KadError + unit \<Rightarrow> KadOutput list" where
  "finish_fixed reply r = (case reply of None \<Rightarrow> [] | Some tx \<Rightarrow> [Answer tx (RUnit r)])"


section \<open>Control commands on the state\<close>

definition get_peer_without_addr :: "Kademlia \<Rightarrow> PeerId list option" where
  "get_peer_without_addr k =
     map_option (\<lambda>ps.
       filter (\<lambda>p. get_addrs ps p = None)
         (concat (map (\<lambda>b. map (\<lambda>n. preimage (node_key n)) (bucket_iter (snd b))) (table_iter (kbuckets k)))))
       (swarm k)"

definition add_node :: "(bytes \<Rightarrow> U256) \<Rightarrow> Instant \<Rightarrow> Instant \<Rightarrow> PeerId \<Rightarrow> Multiaddr list \<Rightarrow> Kademlia \<Rightarrow> Kademlia option" where
  "add_node sha now now' peer addresses k =
     try_add_peer sha now now' peer False True (with_swarm (add_addrs now peer addresses ADDRESS_TTL) k)"

definition remove_node :: "(bytes \<Rightarrow> U256) \<Rightarrow> PeerId \<Rightarrow> Kademlia \<Rightarrow> Kademlia option" where
  "remove_node sha peer k = map_option snd (try_remove_peer sha peer True (with_swarm (clear_addrs peer) k))"

fun add_boot_nodes :: "(bytes \<Rightarrow> U256) \<Rightarrow> Instant \<Rightarrow> Instant \<Rightarrow> (PeerId \<times> Multiaddr) list \<Rightarrow> Kademlia \<Rightarrow> Kademlia option" where
  "add_boot_nodes sha now now' [] k = Some k"
| "add_boot_nodes sha now now' ((node, addr) # boot) k =
     do { k \<leftarrow> add_node sha now now' node [addr] k; add_boot_nodes sha now now' boot k }"

definition bootstrap ::
    "(bytes \<Rightarrow> U256) \<Rightarrow> Instant \<Rightarrow> Instant \<Rightarrow> (PeerId \<times> Multiaddr) list \<Rightarrow> Reply option \<Rightarrow> Kademlia \<Rightarrow> outcome" where
  "bootstrap sha now now' boot reply k =
     map_option (\<lambda>k. (k, [Post (Refresh (Start reply))])) (add_boot_nodes sha now now' boot k)"

definition dump_messengers :: "Kademlia \<Rightarrow> (PeerId \<times> nat) list option" where
  "dump_messengers k = map_option messengers_view (messengers k)"

definition dump_statistics :: "Kademlia \<Rightarrow> KademliaStats" where
  "dump_statistics k = (stats k)
     \<lparr>ks_query := query_stats k, total_provider_records := of_nat (providers_count (store k)),
      total_kv_records := of_nat (records_count (store k)), ks_task := iter_qry_limiter k\<rparr>"

definition dump_ledgers :: "PeerId option \<Rightarrow> Kademlia \<Rightarrow> (PeerId \<times> Ledger) list" where
  "dump_ledgers p k =
     (case p of
        Some p \<Rightarrow> (case hm_get (ledgers k) p of None \<Rightarrow> [] | Some l \<Rightarrow> [(p, l)])
      | None \<Rightarrow> ledgers k)"

definition dump_storage :: "Kademlia \<Rightarrow> StorageStats" where
  "dump_storage k = \<lparr>ss_provider = all_providers (store k), ss_record = all_records (store k)\<rparr>"

definition dump_providers :: "RecordKey \<Rightarrow> Kademlia \<Rightarrow> ProviderRecord list" where
  "dump_providers key k = providers (store k) key"

definition dump_kbuckets :: "Kademlia \<Rightarrow> KBucketView list option" where
  "dump_kbuckets k =
     map_option (\<lambda>ps.
       map (\<lambda>b. \<lparr>kb_index = fst b,
                 kb_bucket = map (\<lambda>n. let p = preimage (node_key n)
                   in \<lparr>kn_id = p, kn_aliveness = get_aliveness (node_value n),
                       kn_addresses = (case get_addrs ps p of None \<Rightarrow> [] | Some as \<Rightarrow> as),
                       kn_connected = (p \<in> connected_peers k)\<rparr>) (bucket_iter (snd b))\<rparr>)
         (filter (\<lambda>b. \<not> bucket_ref_is_empty b) (table_iter (kbuckets k))))
       (swarm k)"

section \<open>Requests of remote peers\<close>

definition find_closest :: "KeyBytes \<Rightarrow> PeerId \<Rightarrow> Kademlia \<Rightarrow> KadPeer list option" where
  "find_closest target source k =
     (if target = key_bytes (self_key (kbuckets k))
      then Some [\<lparr>node_id = local_id k, multiaddrs = [], connection_ty = Connected\<rparr>]
      else
        map_option (\<lambda>ps.
          map (\<lambda>n. let p = preimage (node_key n)
               in \<lparr>node_id = p, multiaddrs = (case get_addrs ps p of None \<Rightarrow> [] | Some as \<Rightarrow> as),
                   connection_ty = connection_type k p\<rparr>)
            (take (k_value (query_config k))
              (filter (\<lambda>n. preimage (node_key n) \<noteq> source) (closest (kbuckets k) target))))
          (swarm k))"

definition handle_put_record :: "Record \<Rightarrow> Kademlia \<Rightarrow> (KadError + KadResponseMsg) \<times> Kademlia" where
  "handle_put_record r k =
     (if publisher r = Some (local_id k) then (Inr (KadResponseMsg.PutValue (rec_key r) (rec_value r)), k)
      else
        case store_put (store k) r of
          (Inl e, s) \<Rightarrow> (Inl e, k\<lparr>store := s\<rparr>)
        | (Inr _, s) \<Rightarrow> (Inr (KadResponseMsg.PutValue (rec_key r) (rec_value r)), k\<lparr>store := s\<rparr>))"

definition handle_add_provider :: "(bytes \<Rightarrow> U256) \<Rightarrow> Instant \<Rightarrow> RecordKey \<Rightarrow> KadPeer \<Rightarrow> Kademlia \<Rightarrow> Kademlia option" where
  "handle_add_provider sha now key prov k =
     (if node_id prov \<noteq> local_id k then
        case swarm k of
          None \<Rightarrow> None
        | Some ps \<Rightarrow>
            (let r = ProviderRecord_new now key (node_id prov) False
             in Some (k\<lparr>swarm := Some (add_addrs now (node_id prov) (multiaddrs prov) PROVIDER_ADDR_TTL ps),
                        store := snd (add_provider sha (store k) r)\<rparr>))
      else Some k)"

definition count_rx :: "(MessageStats \<Rightarrow> MessageStats) \<Rightarrow> Kademlia \<Rightarrow> Kademlia" where
  "count_rx f k = k\<lparr>stats := (stats k)\<lparr>message_rx := f (message_rx (stats k))\<rparr>\<rparr>"

text \<open>The response of \<open>handle_kad_request\<close>, before it is sent.\<close>

definition kad_response ::
    "(bytes \<Rightarrow> U256) \<Rightarrow> Instant \<Rightarrow> KadRequestMsg \<Rightarrow> PeerId \<Rightarrow> Kademlia \<Rightarrow>
      ((KadError + KadResponseMsg option) \<times> Kademlia) option" where
  "kad_response sha now request source k =
     (case request of
        KadRequestMsg.Ping \<Rightarrow>
          Some (Inr (Some KadResponseMsg.Pong), count_rx (\<lambda>m. m\<lparr>cnt_ping := cnt_ping m + 1\<rparr>) k)
      | KadRequestMsg.FindNode key \<Rightarrow>
          (let k = count_rx (\<lambda>m. m\<lparr>cnt_find_node := cnt_find_node m + 1\<rparr>) k
           in do { closer \<leftarrow> find_closest (key_bytes (Key_new sha key)) source k;
                   Some (Inr (Some (KadResponseMsg.FindNode closer)), k) })
      | KadRequestMsg.AddProvider key prov \<Rightarrow>
          (let k = count_rx (\<lambda>m. m\<lparr>cnt_add_provider := cnt_add_provider m + 1\<rparr>) k
           in if node_id prov \<noteq> source then Some (Inl (InvalidSource source), k)
              else do { k \<leftarrow> handle_add_provider sha now key prov k; Some (Inr None, k) })
      | KadRequestMsg.GetProviders key \<Rightarrow>
          (let k = count_rx (\<lambda>m. m\<lparr>cnt_get_provider := cnt_get_provider m + 1\<rparr>) k
           in do { provs \<leftarrow> provider_peers key (Some source) k;
                   closer \<leftarrow> find_closest (key_bytes (Key_new sha key)) source k;
                   Some (Inr (Some (KadResponseMsg.GetProviders closer provs)), k) })
      | KadRequestMsg.GetValue key \<Rightarrow>
          (let k = count_rx (\<lambda>m. m\<lparr>cnt_get_value := cnt_get_value m + 1\<rparr>) k
           in do { closer \<leftarrow> find_closest (key_bytes (Key_new sha key)) source k;
                   Some (Inr (Some (KadResponseMsg.GetValue (store_get (store k) key) closer)), k) })
      | KadRequestMsg.PutValue r \<Rightarrow>
          (let k = count_rx (\<lambda>m. m\<lparr>cnt_put_value := cnt_put_value m + 1\<rparr>) k
           in case handle_put_record r k of
                (Inl e, k) \<Rightarrow> Some (Inl e, k)
              | (Inr resp, k) \<Rightarrow> Some (Inr (Some resp), k)))"

definition handle_kad_request :: "(bytes \<Rightarrow> U256) \<Rightarrow> Instant \<Rightarrow> KadRequestMsg \<Rightarrow> PeerId \<Rightarrow> Reply \<Rightarrow> Kademlia \<Rightarrow> outcome" where
  "handle_kad_request sha now request source reply k =
     map_option (\<lambda>(response, k). (k, [Answer reply (Response response)])) (kad_response sha now request source k)"


section \<open>Timers and the refresh procedure\<close>

definition start_provider_gc_timer :: "Kademlia \<Rightarrow> Kademlia" where
  "start_provider_gc_timer k = k\<lparr>provider_timer_handle := Some (gc_interval k)\<rparr>"

definition start_refresh_timer :: "Kademlia \<Rightarrow> Kademlia" where
  "start_refresh_timer k =
     (case refresh_interval k of Some interval \<Rightarrow> k\<lparr>refresh_timer_handle := Some interval\<rparr> | None \<Rightarrow> k)"

definition handle_gc_timer :: "Instant \<Rightarrow> Kademlia \<Rightarrow> Kademlia" where
  "handle_gc_timer now k = k\<lparr>store := gc_providers now (provider_ttl k) (gc_records now (record_ttl k) (store k))\<rparr>"

definition peers_to_check :: "Instant \<Rightarrow> Kademlia \<Rightarrow> PeerId list" where
  "peers_to_check now k =
     map (\<lambda>n. preimage (node_key n))
       (filter (\<lambda>n. is_stale now (check_kad_peer_interval k) (node_value n))
         (closest (kbuckets k) (key_bytes (self_key (kbuckets k)))))"

definition handle_refresh_timer :: "Instant \<Rightarrow> Kademlia \<Rightarrow> outcome" where
  "handle_refresh_timer now k =
     (if swarm k = None then None else Some (k, [SpawnHealthCheck (peers_to_check now k)]))"

text \<open>The spawned health check; \<open>connect\<close> tells whether \<open>new_connection\<close> succeeds.\<close>

definition health_check :: "(PeerId \<Rightarrow> bool) \<Rightarrow> PeerId list \<Rightarrow> ProtocolEvent list" where
  "health_check connect peers =
     concat (map (\<lambda>p. if connect p then [] else [KadPeerStopped p]) peers) @ [Refresh (Start None)]"

text \<open>
  A random identity for a bucket, with at most 16 trials. \<open>rand\<close> is the stream of random identities
  that is drawn for the bucket, and \<open>i\<close> the number of identities drawn before the current one.
\<close>

fun random_target :: "(bytes \<Rightarrow> U256) \<Rightarrow> KeyBytes \<Rightarrow> BucketIndex \<times> (PeerId, PeerInfo) KBucket \<Rightarrow> (nat \<Rightarrow> PeerId) \<Rightarrow> nat \<Rightarrow> nat \<Rightarrow> PeerId" where
  "random_target sha self b rand 0 i = rand i"
| "random_target sha self b rand (Suc n) i =
     (if bucket_ref_contains b (distance self (key_bytes (Key_from_PeerId sha (rand i)))) then rand i
      else random_target sha self b rand n (Suc i))"

definition walk_buckets :: "Kademlia \<Rightarrow> (BucketIndex \<times> (PeerId, PeerInfo) KBucket) list" where
  "walk_buckets k = take 16 (drop 1 (dropWhile bucket_ref_is_empty (table_iter (kbuckets k))))"

definition walk_targets :: "(bytes \<Rightarrow> U256) \<Rightarrow> (BucketIndex \<Rightarrow> nat \<Rightarrow> PeerId) \<Rightarrow> Kademlia \<Rightarrow> PeerId list" where
  "walk_targets sha rand k =
     map (\<lambda>b. random_target sha (key_bytes (self_key (kbuckets k))) b (rand (fst b)) 16 0) (walk_buckets k)"

definition handle_refresh_stage ::
    "(bytes \<Rightarrow> U256) \<Rightarrow> (BucketIndex \<Rightarrow> nat \<Rightarrow> PeerId) \<Rightarrow> RefreshStage \<Rightarrow> Kademlia \<Rightarrow> outcome" where
  "handle_refresh_stage sha rand stage k =
     (case stage of
        Start reply \<Rightarrow>
          (let refused = (case reply of None \<Rightarrow> [] | Some tx \<Rightarrow> [Answer tx (RUnit (Inl KadError.Bootstrap))])
           in if refreshing k then Some (k, refused)
              else if table_num_entries (kbuckets k) = 0 then Some (k, refused)
              else
                get_closest_peers sha (RecordKey_from_PeerId (local_id k)) (OnRefresh reply)
                  (k\<lparr>refreshing := True, stats := (stats k)\<lparr>total_refreshes := total_refreshes (stats k) + 1\<rparr>\<rparr>))
      | SelfQueryDone reply \<Rightarrow> Some (k, [SpawnWalk (walk_targets sha rand k) reply])
      | RefreshStage.Completed \<Rightarrow> Some (k\<lparr>refreshing := False\<rparr>, []))"

text \<open>What the spawned walk does after its lookups, whatever they return.\<close>

definition finish_walk :: "Reply option \<Rightarrow> KadOutput list" where
  "finish_walk reply =
     Post (Refresh RefreshStage.Completed)
     # (case reply of None \<Rightarrow> [] | Some tx \<Rightarrow> [Answer tx (RUnit (Inr ()))])"


section \<open>Events\<close>

definition handle_peer_connected :: "PeerId \<Rightarrow> Kademlia \<Rightarrow> Kademlia" where
  "handle_peer_connected p k = k\<lparr>connected_peers := insert p (connected_peers k)\<rparr>"

definition handle_peer_disconnected :: "PeerId \<Rightarrow> Kademlia \<Rightarrow> Kademlia" where
  "handle_peer_disconnected p k =
     k\<lparr>connected_peers := connected_peers k - {p}, messengers := map_option (clear_messengers p) (messengers k)\<rparr>"

definition handle_peer_identified :: "(bytes \<Rightarrow> U256) \<Rightarrow> Instant \<Rightarrow> Instant \<Rightarrow> PeerId \<Rightarrow> Kademlia \<Rightarrow> Kademlia option" where
  "handle_peer_identified sha now now' p k =
     (case swarm k of
        Some ps \<Rightarrow>
          if first_supported_protocol ps p [protocol_name (protocol_config k)] \<noteq> None
          then try_add_peer sha now now' p False False k else Some k
      | None \<Rightarrow> Some k)"

definition handle_address_changed ::
    "(bytes \<Rightarrow> U256) \<Rightarrow> (BucketIndex \<Rightarrow> nat \<Rightarrow> PeerId) \<Rightarrow> Multiaddr list \<Rightarrow> Kademlia \<Rightarrow> outcome" where
  "handle_address_changed sha rand addrs k = handle_refresh_stage sha rand (Start None) (k\<lparr>local_addrs := addrs\<rparr>)"

definition handle_peer_found :: "(bytes \<Rightarrow> U256) \<Rightarrow> Instant \<Rightarrow> Instant \<Rightarrow> PeerId \<Rightarrow> bool \<Rightarrow> Kademlia \<Rightarrow> Kademlia option" where
  "handle_peer_found sha now now' p queried k = try_add_peer sha now now' p queried False k"

definition handle_peer_stopped :: "(bytes \<Rightarrow> U256) \<Rightarrow> PeerId \<Rightarrow> Kademlia \<Rightarrow> Kademlia option" where
  "handle_peer_stopped sha p k = map_option snd (try_remove_peer sha p False k)"

abbreviation quiet :: "Kademlia option \<Rightarrow> outcome" where
  "quiet r \<equiv> map_option (\<lambda>k. (k, [])) r"

definition on_event ::
    "(bytes \<Rightarrow> U256) \<Rightarrow> (BucketIndex \<Rightarrow> nat \<Rightarrow> PeerId) \<Rightarrow> Instant \<Rightarrow> Instant \<Rightarrow> ProtocolEvent \<Rightarrow> Kademlia \<Rightarrow> outcome" where
  "on_event sha rand now now' event k =
     (case event of
        PeerConnected p \<Rightarrow> Some (handle_peer_connected p k, [])
      | PeerDisconnected p \<Rightarrow> Some (handle_peer_disconnected p k, [])
      | PeerIdentified p \<Rightarrow> quiet (handle_peer_identified sha now now' p k)
      | AddressChanged addrs \<Rightarrow> handle_address_changed sha rand addrs k
      | KadPeerFound p queried \<Rightarrow> quiet (handle_peer_found sha now now' p queried k)
      | KadPeerStopped p \<Rightarrow> quiet (handle_peer_stopped sha p k)
      | KadRequest request source reply \<Rightarrow> handle_kad_request sha now request source reply k
      | GCTimer \<Rightarrow> Some (handle_gc_timer now k, [])
      | RefreshTimer \<Rightarrow> handle_refresh_timer now k
      | Refresh stage \<Rightarrow> handle_refresh_stage sha rand stage k)"

definition on_dump :: "DumpCommand \<Rightarrow> Kademlia \<Rightarrow> (Reply \<times> KadReply) option" where
  "on_dump cmd k =
     (case cmd of
        Storage reply \<Rightarrow> Some (reply, RStorage (dump_storage k))
      | Entries reply \<Rightarrow> map_option (\<lambda>v. (reply, REntries v)) (dump_kbuckets k)
      | Statistics reply \<Rightarrow> Some (reply, RStatistics (dump_statistics k))
      | Ledgers p reply \<Rightarrow> Some (reply, RLedgers (dump_ledgers p k))
      | Messengers reply \<Rightarrow> map_option (\<lambda>v. (reply, RMessengers v)) (dump_messengers k)
      | Providers key reply \<Rightarrow> Some (reply, RProviders (dump_providers key k)))"

definition on_command :: "(bytes \<Rightarrow> U256) \<Rightarrow> Instant \<Rightarrow> Instant \<Rightarrow> ControlCommand \<Rightarrow> Kademlia \<Rightarrow> outcome" where
  "on_command sha now now' cmd k =
     (case cmd of
        ControlCommand.Bootstrap boot reply \<Rightarrow> bootstrap sha now now' boot reply k
      | AddNode p addresses \<Rightarrow> quiet (add_node sha now now' p addresses k)
      | RemoveNode p \<Rightarrow> quiet (remove_node sha p k)
      | Lookup key reply \<Rightarrow> get_closest_peers sha key (OnLookup reply) k
      | ControlCommand.FindPeer p reply \<Rightarrow> find_peer sha p reply k
      | FindProviders key cnt reply \<Rightarrow> find_providers sha key cnt reply k
      | Providing key reply \<Rightarrow> start_providing sha now key reply k
      | Unprovide key \<Rightarrow> Some (stop_providing key k, [])
      | ControlCommand.PutValue key value reply \<Rightarrow> put_record sha now key value reply k
      | ControlCommand.GetValue key reply \<Rightarrow> get_record sha key reply k
      | Dump d \<Rightarrow> map_option (\<lambda>(reply, v). (k, [Answer reply v])) (on_dump d k)
      | NotAddressPeer reply \<Rightarrow> map_option (\<lambda>ps. (k, [Answer reply (RIds (Inr ps))])) (get_peer_without_addr k)
      | ClosestByBucket key reply \<Rightarrow>
          Some (k, [Answer reply (RIds (Inr (map (\<lambda>n. preimage (node_key n))
            (closest (kbuckets k) (key_bytes (Key_new sha key))))))]))"

text \<open>\<open>on_events\<close> and \<open>on_control_command\<close> with the closed channel as \<open>None\<close>; an error ends the loop.\<close>

definition on_events ::
    "(bytes \<Rightarrow> U256) \<Rightarrow> (BucketIndex \<Rightarrow> nat \<Rightarrow> PeerId) \<Rightarrow> Instant \<Rightarrow> Instant \<Rightarrow> ProtocolEvent option \<Rightarrow> Kademlia \<Rightarrow>
      (KadError + Kademlia \<times> KadOutput list) option" where
  "on_events sha rand now now' msg k =
     (case msg of None \<Rightarrow> Some (Inl (KadError.Closing 2)) | Some event \<Rightarrow> map_option Inr (on_event sha rand now now' event k))"

definition on_control_command ::
    "(bytes \<Rightarrow> U256) \<Rightarrow> Instant \<Rightarrow> Instant \<Rightarrow> ControlCommand option \<Rightarrow> Kademlia \<Rightarrow> (KadError + Kademlia \<times> KadOutput list) option" where
  "on_control_command sha now now' cmd k =
     (case cmd of None \<Rightarrow> Some (Inl (KadError.Closing 1)) | Some cmd \<Rightarrow> map_option Inr (on_command sha now now' cmd k))"

text \<open>\<open>start\<close>: the timers depend on two environment variables, whose values are given when they are set.\<close>

definition start :: "bool option \<Rightarrow> bool option \<Rightarrow> PeerStore \<Rightarrow> Kademlia \<Rightarrow> Kademlia" where
  "start gc_timer refresh_timer ps k =
     (let k = k\<lparr>messengers := Some (MessengerManager_new (protocol_config k)), swarm := Some ps\<rparr>;
          k = (if gc_timer \<noteq> Some False then start_provider_gc_timer k else k)
      in if refresh_timer \<noteq> Some False then start_refresh_timer k else k)"

end
