(* ===== verification/Kad_Routing.thy ===== *)
theory Kad_Routing
  imports Kademlia
begin

text \<open>
  What the operations of the main loop do to the routing table: adding a peer, with the replacement of
  stale nodes in a full bucket, and removing or deactivating one. The table is seen through \<open>table_map\<close>,
  the map from keys to values it stands for.
\<close>

section \<open>The keys of the nodes\<close>

definition table_keys :: "('a, 'v) KBucketsTable \<Rightarrow> 'a Key set" where
  "table_keys t = node_key ` set (all_nodes t)"

definition keys_ok :: "(bytes \<Rightarrow> U256) \<Rightarrow> (PeerId, 'v) KBucketsTable \<Rightarrow> bool" where
  "keys_ok sha t \<longleftrightarrow> (\<forall>key \<in> table_keys t. key = Key_from_PeerId sha (preimage key))"

lemma all_nodes_update:
  "set (all_nodes (t\<lparr>buckets := (buckets t)[i := b]\<rparr>)) \<subseteq> set (nodes b) \<union> set (all_nodes t)"
  using set_update_subset_insert [of "buckets t" i b] by (fastforce simp: all_nodes_def)

lemma table_keys_update:
  assumes "node_key ` set (nodes b) \<subseteq> A \<union> table_keys t"
  shows "table_keys (t\<lparr>buckets := (buckets t)[i := b]\<rparr>) \<subseteq> A \<union> table_keys t"
  using all_nodes_update [of t i b] assms by (fastforce simp: table_keys_def)

lemma bucket_keys: "i < length (buckets t) \<Longrightarrow> node_key ` set (nodes (buckets t ! i)) \<subseteq> table_keys t"
  unfolding table_keys_def by (rule image_mono) (auto simp: in_all_nodes)

lemma entry_bucket_keys:
  assumes "table_inv t" "is_present t e k \<or> is_absent t e k"
  shows "node_key ` set (nodes (buckets t ! entry_bucket e)) \<subseteq> table_keys t"
proof -
  have "home t k = Some (entry_bucket e)" using assms(2) is_absentD(1) by (auto elim: is_presentD)
  with table_invD(1,2) [OF assms(1)] show ?thesis by (intro bucket_keys) auto
qed

lemma insert_keys:
  assumes "table_inv t" "is_absent t e k" "absent_insert t e v = (ok, t')"
  shows "table_keys t' \<subseteq> insert (entry_key e) (table_keys t)" "local_key t' = local_key t"
proof -
  let ?b = "snd (bucket_insert (buckets t ! entry_bucket e) \<lparr>node_key = entry_key e, node_value = v\<rparr>)"
  have t': "t' = t\<lparr>buckets := (buckets t)[entry_bucket e := ?b]\<rparr>"
    using assms(3) by (auto simp: absent_insert_def split: prod.splits)
  have "node_key ` set (nodes ?b) \<subseteq> {entry_key e} \<union> table_keys t"
    using entry_bucket_keys [OF assms(1) disjI2 [OF assms(2)]] by (auto simp: bucket_insert_def)
  from table_keys_update [OF this] show "table_keys t' \<subseteq> insert (entry_key e) (table_keys t)" by (simp add: t')
  show "local_key t' = local_key t" by (simp add: t')
qed

lemma remove_keys:
  assumes "table_inv t" "is_absent t e k" "absent_bucket_remove t e j = (o', t')"
  shows "table_keys t' \<subseteq> table_keys t" "local_key t' = local_key t"
proof -
  let ?b = "snd (bucket_remove (buckets t ! entry_bucket e) j)"
  have t': "t' = t\<lparr>buckets := (buckets t)[entry_bucket e := ?b]\<rparr>"
    using assms(3) by (auto simp: absent_bucket_remove_def split: prod.splits)
  have "node_key ` set (nodes ?b) \<subseteq> {} \<union> table_keys t"
    using entry_bucket_keys [OF assms(1) disjI2 [OF assms(2)]] set_vec_remove_subset
    by (fastforce simp: bucket_remove_def split: option.splits)
  from table_keys_update [OF this] show "table_keys t' \<subseteq> table_keys t" by (simp add: t')
  show "local_key t' = local_key t" by (simp add: t')
qed

lemma present_remove_keys:
  assumes "table_inv t" "is_present t e k" "present_remove t e = Some (n, t')"
  shows "table_keys t' \<subseteq> table_keys t" "local_key t' = local_key t"
proof -
  let ?b = "snd (bucket_remove (buckets t ! entry_bucket e) (entry_key e))"
  have t': "t' = t\<lparr>buckets := (buckets t)[entry_bucket e := ?b]\<rparr>"
    using assms(3) by (auto simp: present_remove_def split: prod.splits option.splits)
  have "node_key ` set (nodes ?b) \<subseteq> {} \<union> table_keys t"
    using entry_bucket_keys [OF assms(1) disjI1 [OF assms(2)]] set_vec_remove_subset
    by (fastforce simp: bucket_remove_def split: option.splits)
  from table_keys_update [OF this] show "table_keys t' \<subseteq> table_keys t" by (simp add: t')
  show "local_key t' = local_key t" by (simp add: t')
qed

lemma modify_keys:
  assumes "table_inv t" "is_present t e k" "present_modify t e f = Some t'"
  shows "table_keys t' \<subseteq> table_keys t" "local_key t' = local_key t"
proof -
  obtain pos where pos: "home t k = Some (entry_bucket e)"
      "bucket_position (buckets t ! entry_bucket e) (entry_key e) = Some pos"
    using assms(2) by (rule is_presentD)
  let ?ns = "nodes (buckets t ! entry_bucket e)"
  let ?b = "(buckets t ! entry_bucket e)\<lparr>nodes := ?ns[pos := (?ns ! pos)\<lparr>node_value := f (node_value (?ns ! pos))\<rparr>]\<rparr>"
  have t': "t' = t\<lparr>buckets := (buckets t)[entry_bucket e := ?b]\<rparr>"
    using assms(3) pos(2) by (auto simp: present_modify_def bucket_get_mut_def)
  have "pos < length ?ns" using pos(2) by (auto simp: bucket_position_def dest: position_SomeD)
  then have "map node_key (nodes ?b) = map node_key ?ns" by (simp add: map_update [symmetric] list_update_id map_update)
  then have "node_key ` set (nodes ?b) \<subseteq> {} \<union> table_keys t"
    using entry_bucket_keys [OF assms(1) disjI1 [OF assms(2)]] by (metis image_set sup_bot_left)
  from table_keys_update [OF this] show "table_keys t' \<subseteq> table_keys t" by (simp add: t')
  show "local_key t' = local_key t" by (simp add: t')
qed


section \<open>Adding a peer\<close>

definition routing_ok :: "(bytes \<Rightarrow> U256) \<Rightarrow> (PeerId, PeerInfo) KBucketsTable \<Rightarrow> bool" where
  "routing_ok sha t \<longleftrightarrow> table_inv t \<and> keys_ok sha t"

text \<open>The nodes of the bucket a key belongs to.\<close>

definition bucket_nodes :: "('a, 'v) KBucketsTable \<Rightarrow> KeyBytes \<Rightarrow> ('a, 'v) Node list" where
  "bucket_nodes t key = (case home t key of None \<Rightarrow> [] | Some i \<Rightarrow> nodes (buckets t ! i))"

lemma Key_from_PeerId_simps [simp]:
  "key_bytes (Key_from_PeerId sha p) = sha (to_bytes p)" "preimage (Key_from_PeerId sha p) = p"
  by (simp_all add: Key_from_PeerId_def KeyBytes_new_def)

text \<open>A new version of the table, with what it holds.\<close>

definition routes :: "(bytes \<Rightarrow> U256) \<Rightarrow> (PeerId, PeerInfo) KBucketsTable \<Rightarrow> (KeyBytes \<Rightarrow> PeerInfo option) \<Rightarrow>
    (PeerId, PeerInfo) KBucketsTable \<Rightarrow> bool" where
  "routes sha t m t' \<longleftrightarrow> routing_ok sha t' \<and> local_key t' = local_key t \<and> table_map t' = m"

lemma routes_refl: "routing_ok sha t \<Longrightarrow> routes sha t (table_map t) t"
  by (simp add: routes_def)

lemma modify_routes:
  assumes "routing_ok sha t" "table_entry t (Key_from_PeerId sha p) = Present e"
  obtains t' where "present_modify t e f = Some t'"
    "routes sha t ((table_map t)(sha (to_bytes p) := map_option f (table_map t (sha (to_bytes p))))) t'"
proof -
  have inv: "table_inv t" and pr: "is_present t e (sha (to_bytes p))"
    using assms by (auto simp: routing_ok_def is_present_def table_entry_cases)
  from rt.modify_ok [OF this, of f] obtain t' where t': "present_modify t e f = Some t'" "table_inv t'"
    "table_map t' = (table_map t)(sha (to_bytes p) := map_option f (table_map t (sha (to_bytes p))))" by blast
  moreover have "keys_ok sha t'" using modify_keys(1) [OF inv pr t'(1)] assms(1) by (auto simp: routing_ok_def keys_ok_def)
  ultimately show thesis using that modify_keys(2) [OF inv pr t'(1)] by (auto simp: routes_def routing_ok_def)
qed

lemma insert_routes:
  assumes "routing_ok sha t" "table_entry t (Key_from_PeerId sha p) = Absent e" "absent_insert t e v = (True, t')"
  shows "routes sha t ((table_map t)(sha (to_bytes p) \<mapsto> v)) t'"
proof -
  have inv: "table_inv t" and ab: "is_absent t e (sha (to_bytes p))" and e: "entry_key e = Key_from_PeerId sha p"
    using assms by (auto simp: routing_ok_def is_absent_def table_entry_cases)
  have "keys_ok sha t'" using insert_keys(1) [OF inv ab assms(3)] assms(1) e by (auto simp: routing_ok_def keys_ok_def)
  with rt.insert_ok [OF inv ab assms(3)] insert_keys(2) [OF inv ab assms(3)] show ?thesis
    by (simp add: routes_def routing_ok_def)
qed

lemma replace_routes:
  assumes "routing_ok sha t" "table_entry t (Key_from_PeerId sha p) = Absent e" "c \<in> set (entry_nodes t e)"
    and "absent_bucket_remove t e (node_key c) = (o', t1)" "absent_insert t1 e v = (ok, t2)"
  shows "routes sha t ((table_map t)(node_bytes c := None, sha (to_bytes p) \<mapsto> v)) t2"
proof -
  have inv: "table_inv t" and ab: "is_absent t e (sha (to_bytes p))" and e: "entry_key e = Key_from_PeerId sha p"
    using assms by (auto simp: routing_ok_def is_absent_def table_entry_cases)
  have s: "shares_bucket t e (node_bytes c)"
    using assms(3) is_absentD(1) [OF ab] table_invD(1,2) [OF inv] by (auto simp: shares_bucket_def)
  from rt.evict_ok [OF inv ab s assms(4), of v] have t1: "table_inv t1" "is_absent t1 e (sha (to_bytes p))" by auto
  note r = rt.replace_ok [OF inv ab s assms(4,5)]
  have "table_keys t2 \<subseteq> insert (entry_key e) (table_keys t)"
    using insert_keys(1) [OF t1 assms(5)] remove_keys(1) [OF inv ab assms(4)] by blast
  then have "keys_ok sha t2" using assms(1) e by (auto simp: routing_ok_def keys_ok_def)
  with r insert_keys(2) [OF t1 assms(5)] remove_keys(2) [OF inv ab assms(4)] show ?thesis
    by (simp add: routes_def routing_ok_def)
qed

text \<open>The five cases of \<open>try_add_peer\<close>.\<close>

lemma try_add_self:
  assumes "sha (to_bytes p) = key_bytes (self_key (kbuckets k))"
  shows "try_add_peer sha now now' p queried perm k = Some k"
proof -
  have "table_entry (kbuckets k) (Key_from_PeerId sha p) = SelfEntry"
    using assms by (simp add: table_entry_cases self_key_def)
  then show ?thesis by (simp add: try_add_peer_def)
qed

lemma try_add_known:
  assumes "routing_ok sha (kbuckets k)" "table_map (kbuckets k) (sha (to_bytes p)) = Some info"
  shows "\<exists>t'. try_add_peer sha now now' p queried perm k = Some (k\<lparr>kbuckets := t'\<rparr>)
    \<and> routes sha (kbuckets k) ((table_map (kbuckets k))(sha (to_bytes p) \<mapsto>
        (if queried then set_aliveness (Some now') info else info))) t'"
proof -
  obtain e where e: "table_entry (kbuckets k) (Key_from_PeerId sha p) = Present e"
    using assms(2) by (cases "table_entry (kbuckets k) (Key_from_PeerId sha p)") (auto simp: table_entry_cases table_map_def)
  obtain t' where t': "present_modify (kbuckets k) e (set_aliveness (Some now')) = Some t'"
    "routes sha (kbuckets k) ((table_map (kbuckets k))(sha (to_bytes p) \<mapsto> set_aliveness (Some now') info)) t'"
    using modify_routes [OF assms(1) e, of "set_aliveness (Some now')"] assms(2) by auto
  show ?thesis
  proof (cases queried)
    case True
    with e t' show ?thesis by (intro exI [of _ t']) (simp add: try_add_peer_def)
  next
    case False
    then have "try_add_peer sha now now' p queried perm k = Some (k\<lparr>kbuckets := kbuckets k\<rparr>)"
      using e by (simp add: try_add_peer_def)
    moreover have "(table_map (kbuckets k))(sha (to_bytes p) \<mapsto> info) = table_map (kbuckets k)"
      using assms(2) by (rule fun_upd_idem)
    ultimately show ?thesis using False routes_refl [OF assms(1)] by (intro exI [of _ "kbuckets k"]) simp
  qed
qed

lemma absent_entry:
  assumes "table_map t (sha (to_bytes p)) = None" "sha (to_bytes p) \<noteq> key_bytes (local_key t)"
  obtains e where "table_entry t (Key_from_PeerId sha p) = Absent e"
    "entry_nodes t e = bucket_nodes t (sha (to_bytes p))"
  using assms that
  by (cases "table_entry t (Key_from_PeerId sha p)")
    (auto simp: table_entry_cases entry_nodes_def bucket_iter_def bucket_nodes_def)

lemma try_add_room:
  assumes "routing_ok sha (kbuckets k)" "table_map (kbuckets k) (sha (to_bytes p)) = None"
    and "sha (to_bytes p) \<noteq> key_bytes (self_key (kbuckets k))"
    and "length (bucket_nodes (kbuckets k) (sha (to_bytes p))) < K_VALUE"
  shows "\<exists>t'. try_add_peer sha now now' p queried perm k = Some (with_swarm (pin p) (k\<lparr>kbuckets := t'\<rparr>))
    \<and> routes sha (kbuckets k) ((table_map (kbuckets k))(sha (to_bytes p) \<mapsto> PeerInfo_new now' queried perm)) t'"
proof -
  obtain e where e: "table_entry (kbuckets k) (Key_from_PeerId sha p) = Absent e"
    "entry_nodes (kbuckets k) e = bucket_nodes (kbuckets k) (sha (to_bytes p))"
    using absent_entry assms(2,3) unfolding self_key_def by blast
  obtain t' where t': "absent_insert (kbuckets k) e (PeerInfo_new now' queried perm) = (True, t')"
    using assms(4) e(2) by (auto simp: absent_insert_def bucket_insert_def entry_nodes_def bucket_iter_def)
  with e(1) insert_routes [OF assms(1) e(1) t'] show ?thesis by (intro exI [of _ t']) (simp add: try_add_peer_def)
qed

lemma try_add_full:
  assumes "routing_ok sha (kbuckets k)" "table_map (kbuckets k) (sha (to_bytes p)) = None"
    and "sha (to_bytes p) \<noteq> key_bytes (self_key (kbuckets k))"
    and "length (bucket_nodes (kbuckets k) (sha (to_bytes p))) = K_VALUE"
  shows "case eviction_candidate now (check_kad_peer_interval k) (bucket_nodes (kbuckets k) (sha (to_bytes p))) of
      None \<Rightarrow> try_add_peer sha now now' p queried perm k = Some k
    | Some c \<Rightarrow> \<exists>t'. try_add_peer sha now now' p queried perm k =
          Some (with_swarm (pin p) (with_swarm (unpin (preimage (node_key c))) (k\<lparr>kbuckets := t'\<rparr>)))
        \<and> routes sha (kbuckets k)
            ((table_map (kbuckets k))(node_bytes c := None, sha (to_bytes p) \<mapsto> PeerInfo_new now' queried perm)) t'"
proof -
  let ?t = "kbuckets k" and ?i = "PeerInfo_new now' queried perm"
  obtain e where e: "table_entry ?t (Key_from_PeerId sha p) = Absent e"
    "entry_nodes ?t e = bucket_nodes ?t (sha (to_bytes p))"
    using absent_entry assms(2,3) unfolding self_key_def by blast
  have full: "absent_insert ?t e ?i = (False, ?t)"
  proof -
    have "fst (absent_insert ?t e ?i) = False"
      using assms(4) e(2) by (simp add: absent_insert_def bucket_insert_def entry_nodes_def bucket_iter_def)
    then show ?thesis using absent_insert_full [of ?t e ?i "snd (absent_insert ?t e ?i)"] by (metis prod.collapse)
  qed
  show ?thesis
  proof (cases "eviction_candidate now (check_kad_peer_interval k) (bucket_nodes ?t (sha (to_bytes p)))")
    case None
    with e full show ?thesis by (simp add: try_add_peer_def)
  next
    case (Some c)
    obtain o' t1 where t1: "absent_bucket_remove ?t e (node_key c) = (o', t1)" by (rule prod.exhaust)
    obtain ok t2 where t2: "absent_insert t1 e ?i = (ok, t2)" by (rule prod.exhaust)
    have "c \<in> set (entry_nodes ?t e)" using Some e(2) by (auto simp: eviction_candidate_def dest!: min_by_SomeD)
    note r = replace_routes [OF assms(1) e(1) this t1 t2]
    have "try_add_peer sha now now' p queried perm k =
        Some (with_swarm (pin p) (with_swarm (unpin (preimage (node_key c))) (k\<lparr>kbuckets := t2\<rparr>)))"
      using Some e full t1 t2 by (simp add: try_add_peer_def with_swarm_def)
    with r Some show ?thesis by auto
  qed
qed


lemma bucket_nodes_length: "table_inv t \<Longrightarrow> length (bucket_nodes t key) \<le> K_VALUE"
  using table_invD(2,3) [of t] by (auto simp: bucket_nodes_def bucket_inv_def split: option.splits)

lemma bucket_nodes_new [simp]: "bucket_nodes (table_new key) x = []"
  by (auto simp: bucket_nodes_def table_new_def KBucket_new_def NUM_BUCKETS_def dest: ilog2_bound split: option.splits)

lemma all_nodes_new [simp]: "all_nodes (table_new key) = []"
  by (simp add: all_nodes_def table_new_def KBucket_new_def)

lemma local_key_new [simp]: "local_key (table_new key) = key"
  by (simp add: table_new_def)

lemma routing_ok_new: "routing_ok sha (table_new key)"
  by (simp add: routing_ok_def keys_ok_def table_keys_def)

lemma is_stale_eq:
  "is_stale now timeout info \<longleftrightarrow> \<not> permanent info \<and> (\<forall>a. aliveness info = Some a \<longrightarrow> now - a > timeout)"
  by (auto simp: is_stale_def is_permanent_def get_aliveness_def split: option.splits)

lemma eviction_candidate_None:
  "eviction_candidate now timeout ns = None \<longleftrightarrow> (\<forall>n \<in> set ns. \<not> is_stale now timeout (node_value n))"
  by (auto simp: eviction_candidate_def filter_empty_conv)

lemma eviction_candidate_Some:
  assumes "eviction_candidate now timeout ns = Some c"
  shows "c \<in> set ns" "is_stale now timeout (node_value c)"
    "\<forall>n \<in> set ns. is_stale now timeout (node_value n) \<longrightarrow> aliveness (node_value c) \<le> aliveness (node_value n)"
  using min_by_SomeD [OF assms [unfolded eviction_candidate_def]] by (auto simp: get_aliveness_def)


section \<open>Removing and deactivating a peer\<close>

lemma absent_or_self:
  assumes "table_map t (sha (to_bytes p)) = None"
  shows "\<nexists>e. table_entry t (Key_from_PeerId sha p) = Present e"
  using assms by (auto simp: table_entry_cases)

lemma remove_routes:
  assumes "routing_ok sha t" "table_entry t (Key_from_PeerId sha p) = Present e"
  obtains n t' where "present_remove t e = Some (n, t')" "routes sha t ((table_map t)(sha (to_bytes p) := None)) t'"
proof -
  have inv: "table_inv t" and pr: "is_present t e (sha (to_bytes p))"
    using assms by (auto simp: routing_ok_def is_present_def table_entry_cases)
  from rt.remove_ok [OF this] obtain n t' where t': "present_remove t e = Some (n, t')" "table_inv t'"
    "table_map t' = (table_map t)(sha (to_bytes p) := None)" by blast
  moreover have "keys_ok sha t'"
    using present_remove_keys(1) [OF inv pr t'(1)] assms(1) by (auto simp: routing_ok_def keys_ok_def)
  ultimately show thesis using that present_remove_keys(2) [OF inv pr t'(1)] by (auto simp: routes_def routing_ok_def)
qed

lemma try_remove_forced:
  assumes "routing_ok sha (kbuckets k)"
  shows "\<exists>n k' t'. try_remove_peer sha p True k = Some (n, k')
    \<and> (n = None \<longleftrightarrow> table_map (kbuckets k) (sha (to_bytes p)) = None)
    \<and> k' = (if n = None then k else with_swarm (unpin p) (k\<lparr>kbuckets := t'\<rparr>)) \<and> kbuckets k' = t'
    \<and> routes sha (kbuckets k) ((table_map (kbuckets k))(sha (to_bytes p) := None)) t'"
proof (cases "table_entry (kbuckets k) (Key_from_PeerId sha p)")
  case (Present e)
  then have "table_map (kbuckets k) (sha (to_bytes p)) \<noteq> None" by (simp add: table_entry_cases)
  moreover obtain n t' where "present_remove (kbuckets k) e = Some (n, t')"
      "routes sha (kbuckets k) ((table_map (kbuckets k))(sha (to_bytes p) := None)) t'"
    using remove_routes [OF assms Present] .
  ultimately show ?thesis using Present
    by (intro exI [of _ "Some n"] exI [of _ "with_swarm (unpin p) (k\<lparr>kbuckets := t'\<rparr>)"] exI [of _ t'])
      (simp add: try_remove_peer_def with_swarm_def)
next
  case (Absent e)
  then have "table_map (kbuckets k) (sha (to_bytes p)) = None" by (simp add: table_entry_cases)
  with Absent routes_refl [OF assms] show ?thesis by (simp add: try_remove_peer_def fun_upd_idem)
next
  case SelfEntry
  then have "table_map (kbuckets k) (sha (to_bytes p)) = None" by (simp add: table_entry_cases table_map_def)
  with SelfEntry routes_refl [OF assms] show ?thesis by (simp add: try_remove_peer_def fun_upd_idem)
qed

lemma try_remove_soft:
  assumes "routing_ok sha (kbuckets k)"
  shows "\<exists>t'. try_remove_peer sha p False k = Some (None, k\<lparr>kbuckets := t'\<rparr>)
    \<and> routes sha (kbuckets k) ((table_map (kbuckets k))(sha (to_bytes p) :=
        map_option (set_aliveness None) (table_map (kbuckets k) (sha (to_bytes p))))) t'"
proof (cases "table_entry (kbuckets k) (Key_from_PeerId sha p)")
  case (Present e)
  obtain t' where "present_modify (kbuckets k) e (set_aliveness None) = Some t'"
      "routes sha (kbuckets k) ((table_map (kbuckets k))(sha (to_bytes p) :=
        map_option (set_aliveness None) (table_map (kbuckets k) (sha (to_bytes p))))) t'"
    using modify_routes [OF assms Present] .
  with Present show ?thesis by (intro exI [of _ t']) (simp add: try_remove_peer_def)
next
  case (Absent e)
  then have "table_map (kbuckets k) (sha (to_bytes p)) = None" by (simp add: table_entry_cases)
  with Absent routes_refl [OF assms] show ?thesis
    by (intro exI [of _ "kbuckets k"]) (simp add: try_remove_peer_def fun_upd_idem)
next
  case SelfEntry
  then have "table_map (kbuckets k) (sha (to_bytes p)) = None" by (simp add: table_entry_cases table_map_def)
  with SelfEntry routes_refl [OF assms] show ?thesis
    by (intro exI [of _ "kbuckets k"]) (simp add: try_remove_peer_def fun_upd_idem)
qed

lemma try_deactivate_eq: "try_deactivate_peer sha p k = map_option snd (try_remove_peer sha p False k)"
  by (cases "table_entry (kbuckets k) (Key_from_PeerId sha p)")
    (simp_all add: try_deactivate_peer_def try_remove_peer_def option.map_comp comp_def)

section \<open>Properties\<close>

text \<open>
  C17: Adding a peer to the routing table never panics and keeps the table well formed. The local node is
  ignored. A known peer is updated, its aliveness only when it was queried. A new peer enters a bucket with
  room and is pinned in the peer store. When its bucket is full it takes the place of the
  node that was seen alive longest ago among the nodes that are not permanent and not alive within the
  check interval; that node is unpinned. Without such a node nothing changes.
\<close>

theorem try_add_peer_contract:
  assumes "routing_ok sha (kbuckets k)"
    and "K = sha (to_bytes p)" "V = table_map (kbuckets k)" "B = bucket_nodes (kbuckets k) K"
    and "stale = (\<lambda>n. \<not> permanent (node_value n) \<and> (\<forall>a. aliveness (node_value n) = Some a \<longrightarrow> now - a > check_kad_peer_interval k))"
  shows "\<exists>k'. try_add_peer sha now now' p queried perm k = Some k'
    \<and> routing_ok sha (kbuckets k') \<and> self_key (kbuckets k') = self_key (kbuckets k)
    \<and> (if K = key_bytes (self_key (kbuckets k)) then k' = k
       else case V K of
         Some info \<Rightarrow> swarm k' = swarm k
           \<and> table_map (kbuckets k') = V(K \<mapsto> (if queried then info\<lparr>aliveness := Some now'\<rparr> else info))
       | None \<Rightarrow>
           if length B < K_VALUE then swarm k' = map_option (pin p) (swarm k)
             \<and> table_map (kbuckets k') = V(K \<mapsto> PeerInfo_new now' queried perm)
           else if \<forall>n \<in> set B. \<not> stale n then k' = k
           else \<exists>c \<in> set B. stale c \<and> (\<forall>n \<in> set B. stale n \<longrightarrow> aliveness (node_value c) \<le> aliveness (node_value n))
             \<and> swarm k' = map_option (pin p \<circ> unpin (preimage (node_key c))) (swarm k)
             \<and> table_map (kbuckets k') = V(node_bytes c := None, K \<mapsto> PeerInfo_new now' queried perm))"
proof (cases "K = key_bytes (self_key (kbuckets k))")
  case True
  with assms(1,2) show ?thesis by (simp add: try_add_self)
next
  case self: False
  have st: "stale n \<longleftrightarrow> is_stale now (check_kad_peer_interval k) (node_value n)" for n
    by (simp add: assms(5) is_stale_eq)
  show ?thesis
  proof (cases "V K")
    case (Some info)
    with try_add_known [OF assms(1), of p info now now' queried perm] self assms(2,3) show ?thesis
      by (auto simp: routes_def self_key_def set_aliveness_def)
  next
    case None
    note new = assms(1) None [unfolded assms(2,3)] self [unfolded assms(2)]
    have len: "length B \<le> K_VALUE" using bucket_nodes_length [of "kbuckets k"] assms(1,4) by (simp add: routing_ok_def)
    show ?thesis
    proof (cases "length B < K_VALUE")
      case True
      with try_add_room [OF new, of now now' queried perm] None self assms(2-4) show ?thesis
        by (auto simp: routes_def self_key_def with_swarm_def)
    next
      case full: False
      then have "length (bucket_nodes (kbuckets k) (sha (to_bytes p))) = K_VALUE" using len assms(2,4) by simp
      note add = try_add_full [OF new this, of now now' queried perm]
      show ?thesis
      proof (cases "eviction_candidate now (check_kad_peer_interval k) B")
        case c: None
        then have "try_add_peer sha now now' p queried perm k = Some k" using add assms(2,4) by simp
        moreover have "\<forall>n \<in> set B. \<not> stale n" using c by (simp add: eviction_candidate_None st)
        ultimately show ?thesis using None self full assms(1) by simp
      next
        case (Some c)
        note e = eviction_candidate_Some [OF Some]
        from add Some assms(2,4) obtain t' where "try_add_peer sha now now' p queried perm k =
            Some (with_swarm (pin p) (with_swarm (unpin (preimage (node_key c))) (k\<lparr>kbuckets := t'\<rparr>)))"
          "routes sha (kbuckets k) (V(node_bytes c := None, K \<mapsto> PeerInfo_new now' queried perm)) t'"
          using assms(3) by auto
        with e None self full show ?thesis
          by (auto simp: st routes_def self_key_def with_swarm_def option.map_comp comp_def)
      qed
    qed
  qed
qed


definition sample_kad :: Kademlia where
  "sample_kad = the (with_config sample_hash (PeerId [0]) (store_new sample_hash (PeerId [0])) KademliaConfig_default)"

lemma sample_kad_simps [simp]:
  "kbuckets sample_kad = table_new (Key_from_PeerId sample_hash (PeerId [0]))" "swarm sample_kad = None"
  "messengers sample_kad = None" "store sample_kad = store_new sample_hash (PeerId [0])" "refreshing sample_kad = False"
  "query_config sample_kad = QueryConfig_default" "check_kad_peer_interval sample_kad = secs (10 * 60)"
  by (simp_all add: sample_kad_def with_config_def KademliaConfig_default_def)

theorem try_add_peer_contract_witness:
  "\<exists>k'. try_add_peer sample_hash 5 6 (PeerId [1]) True False sample_kad = Some k'
     \<and> table_map (kbuckets k') (sample_hash [1]) = Some (PeerInfo_new 6 True False)"
  using try_add_peer_contract [of sample_hash sample_kad "sample_hash [1]" "PeerId [1]", OF _ _ refl refl refl, of 5 6 True False]
  by (auto simp: routing_ok_new table_map_new self_key_def to_bytes_def sample_hash_def K_VALUE_def)


lemma dropWhile_at:
  assumes "i < length xs" "\<And>j. j < i \<Longrightarrow> P (xs ! j)" "\<not> P (xs ! i)"
  shows "dropWhile P xs = drop i xs"
proof -
  have "takeWhile P xs = take i xs" using assms by (intro takeWhile_eq_take_P_nth) auto
  then show ?thesis using assms(1) by (simp add: dropWhile_eq_drop)
qed

lemma random_target_hit:
  assumes "t < n" "bucket_ref_contains b (distance self (sha (to_bytes (rand (i + t)))))"
  shows "bucket_ref_contains b (distance self (sha (to_bytes (random_target sha self b rand n i))))"
  using assms
proof (induction n arbitrary: i t)
  case (Suc n)
  show ?case
  proof (cases "bucket_ref_contains b (distance self (sha (to_bytes (rand i))))")
    case False
    with Suc.prems have "t \<noteq> 0" by (intro notI) simp
    then obtain u where "t = Suc u" by (cases t) auto
    with Suc.prems Suc.IH [of u "Suc i"] False show ?thesis by simp
  qed simp
qed simp

text \<open>
  C20: The random walk of a refresh visits the 16 buckets that follow the first bucket with a node, or as many
  as there are, one target for each, in increasing distance. The target lies in its bucket whenever one of
  the first 16 identities drawn for it does.
\<close>

theorem walk_targets_buckets:
  assumes "table_inv (kbuckets k)" "i < NUM_BUCKETS" "nodes (buckets (kbuckets k) ! i) \<noteq> []"
    and "\<forall>j < i. nodes (buckets (kbuckets k) ! j) = []"
  shows "map fst (walk_buckets k) = [i + 1..<min NUM_BUCKETS (i + 17)]
    \<and> length (walk_targets sha rand k) = min 16 (NUM_BUCKETS - (i + 1))
    \<and> (\<forall>n < length (walk_targets sha rand k).
         (\<exists>t < 16. BucketIndex_new (distance (key_bytes (self_key (kbuckets k))) (sha (to_bytes (rand (i + 1 + n) t)))) = Some (i + 1 + n))
         \<longrightarrow> BucketIndex_new (distance (key_bytes (self_key (kbuckets k))) (sha (to_bytes (walk_targets sha rand k ! n)))) = Some (i + 1 + n))"
proof -
  let ?bs = "table_iter (kbuckets k)" and ?self = "key_bytes (self_key (kbuckets k))"
  have len: "length ?bs = NUM_BUCKETS" using table_invD(1) [OF assms(1)] by (simp add: table_iter_def)
  have nth: "?bs ! j = (j, buckets (kbuckets k) ! j)" if "j < NUM_BUCKETS" for j
    using that table_invD(1) [OF assms(1)] by (simp add: table_iter_def nth_enumerate_eq)
  have "dropWhile bucket_ref_is_empty ?bs = drop i ?bs"
    by (rule dropWhile_at) (use assms len nth in \<open>auto simp: bucket_ref_is_empty_def bucket_num_entries_def\<close>)
  then have w: "walk_buckets k = take 16 (drop (i + 1) ?bs)" by (simp add: walk_buckets_def)
  have fst: "map fst ?bs = [0..<NUM_BUCKETS]" using len by (simp add: table_iter_def)
  have "map fst (walk_buckets k) = take 16 (drop (i + 1) [0..<NUM_BUCKETS])"
    unfolding w by (simp add: take_map [symmetric] drop_map [symmetric] fst del: upt_Suc)
  also have "\<dots> = [i + 1..<min NUM_BUCKETS (i + 17)]"
    by (cases "i + 17 \<le> NUM_BUCKETS") (simp_all add: min_def take_upt add.commute del: upt_Suc)
  finally have m: "map fst (walk_buckets k) = [i + 1..<min NUM_BUCKETS (i + 17)]" .
  have l: "length (walk_targets sha rand k) = min 16 (NUM_BUCKETS - (i + 1))"
    using len by (simp add: walk_targets_def w min.commute)
  have "BucketIndex_new (distance ?self (sha (to_bytes (walk_targets sha rand k ! n)))) = Some (i + 1 + n)"
    if n: "n < length (walk_targets sha rand k)" and t: "t < 16"
      "BucketIndex_new (distance ?self (sha (to_bytes (rand (i + 1 + n) t)))) = Some (i + 1 + n)" for n t
  proof -
    have "i + 1 + n < NUM_BUCKETS" using n l by linarith
    then have b: "walk_buckets k ! n = (i + 1 + n, buckets (kbuckets k) ! (i + 1 + n))"
      using n l nth [of "i + 1 + n"] len assms(2) nth_drop [of "i + 1" ?bs n] by (simp add: w)
    with n have "walk_targets sha rand k ! n = random_target sha ?self (walk_buckets k ! n) (rand (i + 1 + n)) 16 0"
      by (simp add: walk_targets_def)
    moreover have "bucket_ref_contains (walk_buckets k ! n) (distance ?self (sha (to_bytes (rand (i + 1 + n) (0 + t)))))"
      using t b by (simp add: bucket_ref_contains_def)
    ultimately show ?thesis
      using random_target_hit [OF t(1), of "walk_buckets k ! n" ?self sha "rand (i + 1 + n)" 0] b
      by (simp add: bucket_ref_contains_def split: option.splits)
  qed
  with m l show ?thesis by blast
qed

theorem walk_targets_buckets_witness:
  "\<exists>k. nodes (buckets (kbuckets k) ! 0) \<noteq> [] \<and> map fst (walk_buckets k) = [1..<17]"
proof -
  let ?n = "\<lparr>node_key = \<lparr>preimage = PeerId [1], key_bytes = 1\<rparr>, node_value = PeerInfo_new 0 False False\<rparr>"
  let ?t = "\<lparr>local_key = \<lparr>preimage = PeerId [0], key_bytes = 0\<rparr>,
     buckets = (map (\<lambda>_. KBucket_new) [0..<NUM_BUCKETS])[0 := \<lparr>nodes = [?n]\<rparr>]\<rparr>"
  have "table_inv ?t"
    by (auto simp: table_inv_def bucket_inv_def nth_list_update NUM_BUCKETS_def KBucket_new_def distance_def K_VALUE_def
        ilog2_bit_iff bit_1_iff)
  from walk_targets_buckets [of "sample_kad\<lparr>kbuckets := ?t\<rparr>" 0] this show ?thesis
    by (intro exI [of _ "sample_kad\<lparr>kbuckets := ?t\<rparr>"]) (simp add: NUM_BUCKETS_def nth_list_update KBucket_new_def)
qed

end
