(* ===== verification/Kad_Loop.thy ===== *)
theory Kad_Loop
  imports Kad_Routing
begin

text \<open>
  The main loop as a whole: its invariant, that no handler panics once the loop has started, that
  permanent nodes stay in the routing table, and what remote requests can and cannot change.
\<close>

section \<open>The cache of messengers\<close>

definition messenger_inv :: "MessengerManager \<Rightarrow> bool" where
  "messenger_inv mm \<longleftrightarrow> hm_wf (mm_cache mm)
     \<and> (\<forall>p m. hm_get (mm_cache mm) p = Some m \<longrightarrow>
          km_peer m = p \<and> km_config m = mm_config mm \<and> km_reuse m < max_reuse_count (mm_config mm))"

lemma messenger_inv_new [simp]: "messenger_inv (MessengerManager_new c)"
  by (simp add: messenger_inv_def MessengerManager_new_def)

lemma messenger_inv_clear [simp]: "messenger_inv mm \<Longrightarrow> messenger_inv (clear_messengers p mm)"
  by (auto simp: messenger_inv_def clear_messengers_def hashmap_simps split: if_splits)

lemma get_messenger_eq:
  "get_messenger opened p mm =
     ((case hm_get (mm_cache mm) p of
         Some m \<Rightarrow> Inr m
       | None \<Rightarrow> map_sum id (\<lambda>_. KadMessenger_build p (mm_config mm)) opened),
      clear_messengers p mm)"
  by (simp add: get_messenger_def clear_messengers_def Let_def split: option.split sum.split)

lemma messenger_inv_get:
  assumes "messenger_inv mm" "get_messenger opened p mm = (r, mm')"
  shows "messenger_inv mm'" "mm_config mm' = mm_config mm"
    "r = Inr m \<Longrightarrow> km_peer m = p \<and> km_config m = mm_config mm
      \<and> (km_reuse m = 0 \<or> km_reuse m < max_reuse_count (mm_config mm))"
proof -
  have r: "r = (case hm_get (mm_cache mm) p of Some m \<Rightarrow> Inr m
       | None \<Rightarrow> map_sum id (\<lambda>_. KadMessenger_build p (mm_config mm)) opened)" and mm': "mm' = clear_messengers p mm"
    using assms(2) by (simp_all add: get_messenger_eq)
  show "messenger_inv mm'" "mm_config mm' = mm_config mm"
    using assms(1) by (simp_all add: mm') (simp add: clear_messengers_def)
  assume m: "r = Inr m"
  show "km_peer m = p \<and> km_config m = mm_config mm \<and> (km_reuse m = 0 \<or> km_reuse m < max_reuse_count (mm_config mm))"
  proof (cases "hm_get (mm_cache mm) p")
    case None
    with r m show ?thesis by (cases opened) (auto simp: KadMessenger_build_def)
  next
    case (Some m')
    with r m have "m' = m" by simp
    with Some assms(1) show ?thesis by (simp add: messenger_inv_def)
  qed
qed

lemma messenger_inv_put:
  assumes "messenger_inv mm" "km_config m = mm_config mm"
  shows "messenger_inv (put_messenger m mm)" "mm_config (put_messenger m mm) = mm_config mm"
  using assms by (auto simp: messenger_inv_def put_messenger_def reuse_def Let_def hm_set_insert split: if_splits)

text \<open>
  The cache with the messengers that queries hold: a query takes one, and puts it back after a
  successful exchange or drops it; a disconnected peer's messenger is cleared.
\<close>

inductive pool_step :: "MessengerManager \<times> KadMessenger list \<Rightarrow> MessengerManager \<times> KadMessenger list \<Rightarrow> bool" where
  pool_get: "get_messenger opened p mm = (Inr m, mm') \<Longrightarrow> pool_step (mm, lent) (mm', m # lent)"
| pool_fail: "get_messenger opened p mm = (Inl e, mm') \<Longrightarrow> pool_step (mm, lent) (mm', lent)"
| pool_put: "m \<in> set lent \<Longrightarrow> pool_step (mm, lent) (put_messenger m mm, remove1 m lent)"
| pool_drop: "m \<in> set lent \<Longrightarrow> pool_step (mm, lent) (mm, remove1 m lent)"
| pool_clear: "pool_step (mm, lent) (clear_messengers p mm, lent)"

definition pool_inv :: "KademliaProtocolConfig \<Rightarrow> MessengerManager \<times> KadMessenger list \<Rightarrow> bool" where
  "pool_inv c s \<longleftrightarrow> messenger_inv (fst s) \<and> mm_config (fst s) = c
     \<and> (\<forall>m \<in> set (snd s). km_config m = c \<and> (km_reuse m = 0 \<or> km_reuse m < max_reuse_count c))"

lemma pool_inv_step:
  assumes "pool_step s s'" "pool_inv c s"
  shows "pool_inv c s'"
  using assms
proof (cases rule: pool_step.cases)
  case (pool_get opened p mm m mm' lent)
  with assms(2) messenger_inv_get [of mm opened p "Inr m" mm'] show ?thesis by (auto simp: pool_inv_def)
next
  case (pool_fail opened p mm e mm' lent)
  with assms(2) messenger_inv_get [of mm opened p "Inl e" mm'] show ?thesis by (auto simp: pool_inv_def)
next
  case (pool_put m lent mm)
  with assms(2) messenger_inv_put [of mm m] show ?thesis by (auto simp: pool_inv_def dest: notin_set_remove1 [rotated])
next
  case (pool_drop m lent mm)
  with assms(2) show ?thesis by (auto simp: pool_inv_def dest: notin_set_remove1 [rotated])
next
  case (pool_clear mm lent p)
  with assms(2) show ?thesis by (simp add: pool_inv_def) (simp add: clear_messengers_def)
qed

section \<open>The invariant of the main loop\<close>

definition kad_inv :: "(bytes \<Rightarrow> U256) \<Rightarrow> Kademlia \<Rightarrow> bool" where
  "kad_inv sha k \<longleftrightarrow>
     routing_ok sha (kbuckets k) \<and> self_key (kbuckets k) = Key_from_PeerId sha (local_id k)
     \<and> store_inv sha (store k) \<and> query_config_ok (query_config k)
     \<and> (\<exists>ps. swarm k = Some ps \<and> hm_wf ps) \<and> (\<exists>mm. messengers k = Some mm \<and> messenger_inv mm)"

definition keeps_permanent :: "Kademlia \<Rightarrow> Kademlia \<Rightarrow> bool" where
  "keeps_permanent k k' \<longleftrightarrow>
     (\<forall>key info. table_map (kbuckets k) key = Some info \<and> permanent info \<longrightarrow>
        (\<exists>info'. table_map (kbuckets k') key = Some info' \<and> permanent info'))"

definition evolves :: "(bytes \<Rightarrow> U256) \<Rightarrow> Kademlia \<Rightarrow> Kademlia \<Rightarrow> bool" where
  "evolves sha k k' \<longleftrightarrow> kad_inv sha k' \<and> local_id k' = local_id k \<and> keeps_permanent k k'"

lemma evolves_refl: "kad_inv sha k \<Longrightarrow> evolves sha k k"
  by (simp add: evolves_def keeps_permanent_def)

lemma evolves_trans: "evolves sha k1 k2 \<Longrightarrow> evolves sha k2 k3 \<Longrightarrow> evolves sha k1 k3"
  unfolding evolves_def keeps_permanent_def by metis

lemma evolves_same_table:
  assumes "kad_inv sha k'" "kbuckets k' = kbuckets k"
  shows "evolves sha k k'"
  using assms by (auto simp: evolves_def keeps_permanent_def)

text \<open>The fields on which the invariant does not depend.\<close>

lemma kad_inv_frame [simp]:
  "kad_inv sha (k\<lparr>stats := a\<rparr>) = kad_inv sha k" "kad_inv sha (k\<lparr>refreshing := b\<rparr>) = kad_inv sha k"
  "kad_inv sha (k\<lparr>local_addrs := c\<rparr>) = kad_inv sha k" "kad_inv sha (k\<lparr>connected_peers := d\<rparr>) = kad_inv sha k"
  "kad_inv sha (k\<lparr>iter_qry_limiter := e\<rparr>) = kad_inv sha k"
  by (simp_all add: kad_inv_def)

lemma kad_inv_store: "kad_inv sha k \<Longrightarrow> store_inv sha s \<Longrightarrow> kad_inv sha (k\<lparr>store := s\<rparr>)"
  by (simp add: kad_inv_def)

lemma kad_inv_with_swarm:
  assumes "kad_inv sha k" "\<And>ps. hm_wf ps \<Longrightarrow> hm_wf (f ps)"
  shows "kad_inv sha (with_swarm f k)"
  using assms by (auto simp: kad_inv_def with_swarm_def)

lemma with_swarm_table [simp]: "kbuckets (with_swarm f k) = kbuckets k"
  by (simp add: with_swarm_def)

lemma evolves_with_swarm:
  assumes "evolves sha k k'" "\<And>ps. hm_wf ps \<Longrightarrow> hm_wf (f ps)"
  shows "evolves sha k (with_swarm f k')"
  using assms kad_inv_with_swarm by (auto simp: evolves_def keeps_permanent_def)

lemma evolves_routes:
  assumes "kad_inv sha k" "routes sha (kbuckets k) m t'"
    and "\<And>key info. table_map (kbuckets k) key = Some info \<Longrightarrow> permanent info \<Longrightarrow> \<exists>info'. m key = Some info' \<and> permanent info'"
  shows "evolves sha k (k\<lparr>kbuckets := t'\<rparr>)"
  using assms by (auto simp: evolves_def keeps_permanent_def routes_def kad_inv_def self_key_def)

lemma hm_wf_pin [simp]: "hm_wf ps \<Longrightarrow> hm_wf (pin p ps)" "hm_wf ps \<Longrightarrow> hm_wf (unpin p ps)"
  "hm_wf ps \<Longrightarrow> hm_wf (clear_addrs p ps)"
  by (auto simp: peerstore_modify_defs)

lemma bucket_nodes_map:
  assumes "table_inv t" "c \<in> set (bucket_nodes t key)"
  shows "table_map t (node_bytes c) = Some (node_value c)"
proof -
  obtain i where "home t key = Some i" "c \<in> set (nodes (buckets t ! i))"
    using assms(2) by (cases "home t key") (auto simp: bucket_nodes_def)
  then have "c \<in> set (all_nodes t)" using nodes_all_nodes [OF assms(1)] table_invD(2) [OF assms(1)] by blast
  then show ?thesis using table_map_nodes [OF assms(1)] by blast
qed

lemma try_add_peer_evolves:
  assumes "kad_inv sha k"
  obtains k' where "try_add_peer sha now now' p queried perm k = Some k'" "evolves sha k k'"
proof -
  let ?t = "kbuckets k" and ?K = "sha (to_bytes p)"
  have r: "routing_ok sha ?t" and inv: "table_inv ?t" using assms by (simp_all add: kad_inv_def routing_ok_def)
  consider (self) "?K = key_bytes (self_key ?t)" | (known) info where "table_map ?t ?K = Some info"
    | (room) "table_map ?t ?K = None" "?K \<noteq> key_bytes (self_key ?t)" "length (bucket_nodes ?t ?K) < K_VALUE"
    | (full) "table_map ?t ?K = None" "?K \<noteq> key_bytes (self_key ?t)" "length (bucket_nodes ?t ?K) = K_VALUE"
    using bucket_nodes_length [OF inv, of ?K] by (cases "table_map ?t ?K") force+
  then show thesis
  proof cases
    case self
    with that evolves_refl [OF assms] show thesis by (simp add: try_add_self)
  next
    case (known info)
    obtain t' where t': "try_add_peer sha now now' p queried perm k = Some (k\<lparr>kbuckets := t'\<rparr>)"
      "routes sha ?t ((table_map ?t)(?K \<mapsto> (if queried then set_aliveness (Some now') info else info))) t'"
      using try_add_known [OF r known] by blast
    have "evolves sha k (k\<lparr>kbuckets := t'\<rparr>)"
      by (rule evolves_routes [OF assms t'(2)]) (use known in \<open>auto simp: set_aliveness_def\<close>)
    with t'(1) that show thesis by blast
  next
    case room
    obtain t' where t': "try_add_peer sha now now' p queried perm k = Some (with_swarm (pin p) (k\<lparr>kbuckets := t'\<rparr>))"
      "routes sha ?t ((table_map ?t)(?K \<mapsto> PeerInfo_new now' queried perm)) t'"
      using try_add_room [OF r room] by blast
    have "evolves sha k (k\<lparr>kbuckets := t'\<rparr>)" by (rule evolves_routes [OF assms t'(2)]) (use room in auto)
    with t'(1) that show thesis by (blast intro: evolves_with_swarm hm_wf_pin)
  next
    case full
    show thesis
    proof (cases "eviction_candidate now (check_kad_peer_interval k) (bucket_nodes ?t ?K)")
      case None
      with try_add_full [OF r full, of now now' queried perm] that evolves_refl [OF assms] show thesis by simp
    next
      case (Some c)
      obtain t' where t': "try_add_peer sha now now' p queried perm k =
            Some (with_swarm (pin p) (with_swarm (unpin (preimage (node_key c))) (k\<lparr>kbuckets := t'\<rparr>)))"
        "routes sha ?t ((table_map ?t)(node_bytes c := None, ?K \<mapsto> PeerInfo_new now' queried perm)) t'"
        using try_add_full [OF r full, of now now' queried perm] Some by auto
      have c: "table_map ?t (node_bytes c) = Some (node_value c)" "\<not> permanent (node_value c)"
        using eviction_candidate_Some [OF Some] bucket_nodes_map [OF inv] by (auto simp: is_stale_def is_permanent_def)
      have "evolves sha k (k\<lparr>kbuckets := t'\<rparr>)" by (rule evolves_routes [OF assms t'(2)]) (use full(1) c in auto)
      with t'(1) that show thesis by (blast intro: evolves_with_swarm hm_wf_pin)
    qed
  qed
qed


section \<open>Every handler keeps the invariant\<close>

text \<open>A handler that does not panic, keeps the invariant and the permanent nodes.\<close>

definition safe :: "(bytes \<Rightarrow> U256) \<Rightarrow> Kademlia \<Rightarrow> outcome \<Rightarrow> bool" where
  "safe sha k r \<longleftrightarrow> (\<exists>k' outs. r = Some (k', outs) \<and> evolves sha k k')"

lemma safe_Some [simp]: "safe sha k (Some (k', outs)) \<longleftrightarrow> evolves sha k k'"
  by (simp add: safe_def)

lemma safe_quiet: "r = Some k' \<Longrightarrow> evolves sha k k' \<Longrightarrow> safe sha k (quiet r)"
  by simp

lemma start_query_safe:
  assumes "kad_inv sha k0" "kbuckets k = kbuckets k0" "kad_inv sha k"
  shows "safe sha k0 (start_query sha qt key cb k)"
proof -
  obtain q where "prepare_iterative_query sha qt key k = Some q"
    using assms(3) by (auto simp: prepare_iterative_query_def kad_inv_def Let_def)
  with assms show ?thesis by (auto simp: start_query_def spawn_iterative_def intro!: evolves_same_table)
qed

lemma add_node_evolves:
  assumes "kad_inv sha k"
  obtains k' where "add_node sha now now' p addrs k = Some k'" "evolves sha k k'"
proof -
  let ?k = "with_swarm (add_addrs now p addrs ADDRESS_TTL) k"
  have e: "evolves sha k ?k"
    using evolves_with_swarm [OF evolves_refl [OF assms]] add_addrs_wf by blast
  then have "kad_inv sha ?k" by (simp add: evolves_def)
  from try_add_peer_evolves [OF this] obtain k' where
    "try_add_peer sha now now' p False True ?k = Some k'" "evolves sha ?k k'" by blast
  with e that show thesis unfolding add_node_def by (blast intro: evolves_trans)
qed

lemma add_boot_nodes_evolves:
  "kad_inv sha k \<Longrightarrow> \<exists>k'. add_boot_nodes sha now now' boot k = Some k' \<and> evolves sha k k'"
proof (induction boot arbitrary: k)
  case Nil
  then show ?case by (simp add: evolves_refl)
next
  case (Cons b boot)
  obtain node addr where b: "b = (node, addr)" by (cases b)
  obtain k1 where k1: "add_node sha now now' node [addr] k = Some k1" "evolves sha k k1"
    using add_node_evolves [OF Cons.prems] by blast
  then have "kad_inv sha k1" by (simp add: evolves_def)
  from Cons.IH [OF this] k1 show ?case by (auto simp: b intro: evolves_trans)
qed

lemma put_store_inv:
  assumes "kad_inv sha k" "store_put (store k) r = (x, s)"
  shows "kad_inv sha (k\<lparr>store := s\<rparr>)"
proof -
  have "store_inv sha (store k)" using assms(1) by (simp add: kad_inv_def)
  from ms.put_inv [OF this, of r] show ?thesis by (intro kad_inv_store [OF assms(1)]) (simp add: assms(2))
qed

lemma add_provider_store_inv:
  assumes "kad_inv sha k" "add_provider sha (store k) r = (x, s)"
  shows "kad_inv sha (k\<lparr>store := s\<rparr>)"
proof -
  have "store_inv sha (store k)" using assms(1) by (simp add: kad_inv_def)
  from add_provider_ok(1) [OF this, of r] show ?thesis by (intro kad_inv_store [OF assms(1)]) (simp add: assms(2))
qed

lemma swarm_Some: "kad_inv sha k \<Longrightarrow> \<exists>ps. swarm k = Some ps \<and> hm_wf ps"
  by (simp add: kad_inv_def)

lemma get_closest_peers_safe:
  assumes "kad_inv sha k0" "kbuckets k = kbuckets k0" "kad_inv sha k"
  shows "safe sha k0 (get_closest_peers sha key cb k)"
  unfolding get_closest_peers_def using start_query_safe assms by blast

lemma put_record_safe: "kad_inv sha k \<Longrightarrow> safe sha k (put_record sha now key value reply k)"
  by (auto simp: put_record_def Let_def split: prod.splits sum.splits
      intro!: evolves_same_table get_closest_peers_safe intro: put_store_inv)

lemma start_providing_safe: "kad_inv sha k \<Longrightarrow> safe sha k (start_providing sha now key reply k)"
  by (auto simp: start_providing_def Let_def split: prod.splits sum.splits
      intro!: evolves_same_table get_closest_peers_safe intro: add_provider_store_inv)

lemma find_peer_safe: "kad_inv sha k \<Longrightarrow> safe sha k (find_peer sha p reply k)"
  by (auto simp: find_peer_def evolves_refl split: option.splits intro!: start_query_safe)

lemma find_providers_safe:
  assumes "kad_inv sha k"
  shows "safe sha k (find_providers sha key cnt reply k)"
proof -
  obtain ps where "provider_peers key None k = Some ps" using swarm_Some [OF assms] by (auto simp: provider_peers_def)
  with assms show ?thesis by (auto simp: find_providers_def evolves_refl intro!: start_query_safe)
qed

lemma get_record_safe: "kad_inv sha k \<Longrightarrow> safe sha k (get_record sha key reply k)"
  by (auto simp: get_record_def Let_def evolves_refl intro!: start_query_safe)

lemma bootstrap_safe: "kad_inv sha k \<Longrightarrow> safe sha k (bootstrap sha now now' boot reply k)"
  using add_boot_nodes_evolves [of sha k now now' boot] by (auto simp: bootstrap_def)

lemma stop_providing_evolves: "kad_inv sha k \<Longrightarrow> evolves sha k (stop_providing key k)"
  using remove_provider_ok by (auto simp: stop_providing_def kad_inv_def intro!: evolves_same_table)

lemma remove_record_evolves: "kad_inv sha k \<Longrightarrow> evolves sha k (remove_record key k)"
  using ms.remove_ok
  by (auto simp: remove_record_def kad_inv_def evolves_refl split: option.splits intro!: evolves_same_table)

lemma on_dump_total: "kad_inv sha k \<Longrightarrow> \<exists>r. on_dump d k = Some r"
  by (cases d) (auto simp: on_dump_def dump_kbuckets_def dump_messengers_def kad_inv_def)

lemma on_command_safe:
  assumes "kad_inv sha k" "\<And>p. cmd \<noteq> RemoveNode p"
  shows "safe sha k (on_command sha now now' cmd k)"
proof (cases cmd)
  case (AddNode p addrs)
  with add_node_evolves [OF assms(1)] show ?thesis by (auto simp: on_command_def) (metis option.simps(9) safe_Some)
next
  case (Dump d)
  with on_dump_total [OF assms(1), of d] show ?thesis by (auto simp: on_command_def evolves_refl [OF assms(1)])
next
  case (NotAddressPeer reply)
  with swarm_Some [OF assms(1)] show ?thesis
    by (auto simp: on_command_def get_peer_without_addr_def evolves_refl [OF assms(1)])
qed (use assms in \<open>simp_all add: on_command_def bootstrap_safe get_closest_peers_safe find_peer_safe find_providers_safe
  start_providing_safe stop_providing_evolves put_record_safe get_record_safe evolves_refl\<close>)


lemma count_rx_simps [simp]:
  "kad_inv sha (count_rx f k) = kad_inv sha k" "kbuckets (count_rx f k) = kbuckets k" "store (count_rx f k) = store k"
  "swarm (count_rx f k) = swarm k" "connected_peers (count_rx f k) = connected_peers k"
  "query_config (count_rx f k) = query_config k" "local_addrs (count_rx f k) = local_addrs k"
  by (simp_all add: count_rx_def)

lemmas kad_inv_count = count_rx_simps(1) [THEN iffD2]

lemma find_closest_total: "kad_inv sha k \<Longrightarrow> \<exists>ps. find_closest target source k = Some ps"
  by (auto simp: find_closest_def dest: swarm_Some)

lemma provider_peers_total: "kad_inv sha k \<Longrightarrow> \<exists>ps. provider_peers key source k = Some ps"
  by (auto simp: provider_peers_def dest: swarm_Some)

lemma handle_put_record_inv:
  assumes "kad_inv sha k" "handle_put_record r k = (x, k')"
  shows "kad_inv sha k'" "kbuckets k' = kbuckets k"
  using assms put_store_inv [OF assms(1)]
  by (auto simp: handle_put_record_def split: if_splits prod.splits sum.splits)

lemma handle_add_provider_ok:
  assumes "kad_inv sha k"
  obtains k' where "handle_add_provider sha now key prov k = Some k'" "kad_inv sha k'" "kbuckets k' = kbuckets k"
proof (cases "node_id prov = local_id k")
  case True
  with assms that show thesis by (simp add: handle_add_provider_def)
next
  case False
  obtain ps where ps: "swarm k = Some ps" "hm_wf ps" using swarm_Some [OF assms] by blast
  let ?r = "ProviderRecord_new now key (node_id prov) False"
  have "kad_inv sha (k\<lparr>store := snd (add_provider sha (store k) ?r)\<rparr>)"
    using add_provider_store_inv [OF assms] by (metis prod.collapse)
  then have "kad_inv sha (k\<lparr>swarm := Some (add_addrs now (node_id prov) (multiaddrs prov) PROVIDER_ADDR_TTL ps),
      store := snd (add_provider sha (store k) ?r)\<rparr>)"
    using add_addrs_wf [OF ps(2)] by (simp add: kad_inv_def)
  with that False ps show thesis by (simp add: handle_add_provider_def Let_def)
qed

lemma kad_response_safe:
  assumes "kad_inv sha k"
  shows "\<exists>x k'. kad_response sha now request source k = Some (x, k') \<and> kad_inv sha k' \<and> kbuckets k' = kbuckets k"
proof (cases request)
  case (FindNode key)
  obtain ps where "find_closest (key_bytes (Key_new sha key)) source
      (count_rx (\<lambda>m. m\<lparr>cnt_find_node := cnt_find_node m + 1\<rparr>) k) = Some ps"
    using find_closest_total [OF kad_inv_count [OF assms]] by blast
  with FindNode assms show ?thesis by (simp add: kad_response_def Let_def)
next
  case (GetProviders key)
  let ?k = "count_rx (\<lambda>m. m\<lparr>cnt_get_provider := cnt_get_provider m + 1\<rparr>) k"
  obtain ps where "find_closest (key_bytes (Key_new sha key)) source ?k = Some ps"
    using find_closest_total [OF kad_inv_count [OF assms]] by blast
  moreover obtain qs where "provider_peers key (Some source) ?k = Some qs"
    using provider_peers_total [OF kad_inv_count [OF assms]] by blast
  ultimately show ?thesis using GetProviders assms by (simp add: kad_response_def Let_def)
next
  case (GetValue key)
  obtain ps where "find_closest (key_bytes (Key_new sha key)) source
      (count_rx (\<lambda>m. m\<lparr>cnt_get_value := cnt_get_value m + 1\<rparr>) k) = Some ps"
    using find_closest_total [OF kad_inv_count [OF assms]] by blast
  with GetValue assms show ?thesis by (simp add: kad_response_def Let_def)
next
  case (AddProvider key prov)
  let ?k = "count_rx (\<lambda>m. m\<lparr>cnt_add_provider := cnt_add_provider m + 1\<rparr>) k"
  obtain k' where "handle_add_provider sha now key prov ?k = Some k'" "kad_inv sha k'" "kbuckets k' = kbuckets ?k"
    by (rule handle_add_provider_ok [OF kad_inv_count [OF assms]])
  with AddProvider assms show ?thesis by (simp add: kad_response_def Let_def)
next
  case (PutValue r)
  let ?k = "count_rx (\<lambda>m. m\<lparr>cnt_put_value := cnt_put_value m + 1\<rparr>) k"
  obtain x k' where "handle_put_record r ?k = (x, k')" by (rule prod.exhaust)
  with handle_put_record_inv [of sha ?k r x k'] PutValue assms show ?thesis
    by (cases x) (simp_all add: kad_response_def Let_def)
next
  case Ping
  with assms show ?thesis by (simp add: kad_response_def)
qed

lemma refresh_stage_safe: "kad_inv sha k \<Longrightarrow> safe sha k (handle_refresh_stage sha rand stage k)"
  by (auto simp: handle_refresh_stage_def Let_def evolves_refl split: RefreshStage.splits
      intro!: get_closest_peers_safe evolves_same_table)

lemma gc_timer_evolves: "kad_inv sha k \<Longrightarrow> evolves sha k (handle_gc_timer now k)"
  using ms.gc_ok ps.gc_ok by (auto simp: handle_gc_timer_def kad_inv_def intro!: evolves_same_table)

lemma peer_stopped_evolves:
  assumes "kad_inv sha k"
  obtains k' where "handle_peer_stopped sha p k = Some k'" "evolves sha k k'"
proof -
  have "routing_ok sha (kbuckets k)" using assms by (simp add: kad_inv_def)
  from try_remove_soft [OF this] obtain t' where t': "try_remove_peer sha p False k = Some (None, k\<lparr>kbuckets := t'\<rparr>)"
    "routes sha (kbuckets k) ((table_map (kbuckets k))(sha (to_bytes p) :=
        map_option (set_aliveness None) (table_map (kbuckets k) (sha (to_bytes p))))) t'" by blast
  have "evolves sha k (k\<lparr>kbuckets := t'\<rparr>)"
    by (rule evolves_routes [OF assms t'(2)]) (auto simp: set_aliveness_def)
  with t'(1) that show thesis by (simp add: handle_peer_stopped_def)
qed

lemma peer_disconnected_evolves: "kad_inv sha k \<Longrightarrow> evolves sha k (handle_peer_disconnected p k)"
  by (auto simp: handle_peer_disconnected_def kad_inv_def intro!: evolves_same_table)

lemma on_event_safe:
  assumes "kad_inv sha k"
  shows "safe sha k (on_event sha rand now now' event k)"
proof (cases event)
  case (PeerIdentified p)
  obtain ps where "swarm k = Some ps" using swarm_Some [OF assms] by blast
  moreover obtain k' where "try_add_peer sha now now' p False False k = Some k'" "evolves sha k k'"
    using try_add_peer_evolves [OF assms] .
  ultimately show ?thesis using PeerIdentified by (simp add: on_event_def handle_peer_identified_def evolves_refl [OF assms])
next
  case (KadPeerFound p queried)
  obtain k' where "try_add_peer sha now now' p queried False k = Some k'" "evolves sha k k'"
    using try_add_peer_evolves [OF assms] .
  with KadPeerFound show ?thesis by (simp add: on_event_def handle_peer_found_def)
next
  case (KadPeerStopped p)
  obtain k' where "handle_peer_stopped sha p k = Some k'" "evolves sha k k'" using peer_stopped_evolves [OF assms] .
  with KadPeerStopped show ?thesis by (simp add: on_event_def)
next
  case (KadRequest request source reply)
  obtain x k' where "kad_response sha now request source k = Some (x, k')" "kad_inv sha k'" "kbuckets k' = kbuckets k"
    using kad_response_safe [OF assms] by blast
  with KadRequest show ?thesis by (simp add: on_event_def handle_kad_request_def evolves_same_table)
next
  case RefreshTimer
  with swarm_Some [OF assms] show ?thesis by (auto simp: on_event_def handle_refresh_timer_def evolves_refl [OF assms])
next
  case (AddressChanged addrs)
  have "kad_inv sha (k\<lparr>local_addrs := addrs\<rparr>)" using assms by simp
  from refresh_stage_safe [OF this, of rand "Start None"] AddressChanged show ?thesis
    by (auto simp: on_event_def handle_address_changed_def safe_def evolves_def keeps_permanent_def)
qed (use assms in \<open>simp_all add: on_event_def refresh_stage_safe gc_timer_evolves peer_disconnected_evolves
  handle_peer_connected_def evolves_same_table\<close>)

lemma remove_node_ok:
  assumes "kad_inv sha k"
  obtains k' where "remove_node sha p k = Some k'" "kad_inv sha k'"
    "table_map (kbuckets k') = (table_map (kbuckets k))(sha (to_bytes p) := None)"
proof -
  let ?k = "with_swarm (clear_addrs p) k"
  have inv: "kad_inv sha ?k" using kad_inv_with_swarm [OF assms] by simp
  then have "routing_ok sha (kbuckets ?k)" by (simp add: kad_inv_def)
  from try_remove_forced [OF this, of p] obtain n k' t' where k': "try_remove_peer sha p True ?k = Some (n, k')"
    "k' = (if n = None then ?k else with_swarm (unpin p) (?k\<lparr>kbuckets := t'\<rparr>))" "kbuckets k' = t'"
    "routes sha (kbuckets ?k) ((table_map (kbuckets ?k))(sha (to_bytes p) := None)) t'" by blast
  have "kad_inv sha (?k\<lparr>kbuckets := t'\<rparr>)" using inv k'(4) by (auto simp: kad_inv_def routes_def self_key_def)
  then have "kad_inv sha k'" using k'(2) inv kad_inv_with_swarm by (auto split: if_splits)
  with k' that show thesis by (simp add: remove_node_def routes_def)
qed


section \<open>Answers to remote requests\<close>





text \<open>The store is changed by its own operations only.\<close>

lemma store_put_providers: "providers (snd (store_put s r)) key = providers s key"
  by (simp add: store_put_def providers_def Let_def split: option.splits)

lemma add_provider_records: "store_get (snd (add_provider sha s r)) key = store_get s key"
  by (simp add: add_provider_def store_get_def Let_def split: option.splits)

lemma add_provider_new_only:
  assumes "store_inv sha s" "x \<in> set (providers (snd (add_provider sha s r)) key)"
  shows "x \<in> set (providers s key) \<or> (key = prov_key r \<and> x = r)"
proof (cases "key = prov_key r")
  case True
  show ?thesis
  proof (cases "provider r \<in> provider ` set (providers s (prov_key r))")
    case False
    from assms(2) ps.add_new [OF assms(1) False] True show ?thesis by (auto dest!: in_set_takeD)
  next
    case known: True
    from assms(2) ps.add_known [OF assms(1) known] True show ?thesis by (auto split: if_splits)
  qed
next
  case False
  with assms(2) ps.add_other [OF assms(1) False] show ?thesis by simp
qed


section \<open>Properties\<close>

text \<open>
  The states of a started main loop. Between two handlers the other tasks may change what they share
  with the loop: the peer store, the cache of messengers, the statistics and the ledgers.
\<close>

inductive kad_reach :: "(bytes \<Rightarrow> U256) \<Rightarrow> Kademlia \<Rightarrow> bool" for sha where
  kad_start: "with_config sha p s config = Some k \<Longrightarrow> store_inv sha s \<Longrightarrow> query_config_ok (kc_query_config config)
    \<Longrightarrow> hm_wf ps \<Longrightarrow> kad_reach sha (start gc_timer refresh_timer ps k)"
| kad_event: "kad_reach sha k \<Longrightarrow> on_event sha rand now now' event k = Some (k', outs) \<Longrightarrow> kad_reach sha k'"
| kad_command: "kad_reach sha k \<Longrightarrow> on_command sha now now' cmd k = Some (k', outs) \<Longrightarrow> kad_reach sha k'"
| kad_env: "kad_reach sha k \<Longrightarrow> hm_wf ps \<Longrightarrow> messenger_inv mm \<Longrightarrow>
    kad_reach sha (k\<lparr>swarm := Some ps, messengers := Some mm, query_stats := qs, ledgers := ls, iter_qry_limiter := l\<rparr>)"

lemma start_inv:
  assumes "with_config sha p s config = Some k" "store_inv sha s" "query_config_ok (kc_query_config config)" "hm_wf ps"
  shows "kad_inv sha (start gc_timer refresh_timer ps k)"
  using assms routing_ok_new
  by (auto simp: with_config_def start_def kad_inv_def start_provider_gc_timer_def start_refresh_timer_def self_key_def Let_def
      split: if_splits option.splits)

lemma kad_reach_inv: "kad_reach sha k \<Longrightarrow> kad_inv sha k"
proof (induction rule: kad_reach.induct)
  case (kad_start p s config k ps gc_timer refresh_timer)
  then show ?case by (intro start_inv)
next
  case (kad_event k rand now now' event k' outs)
  with on_event_safe [OF kad_event.IH, of rand now now' event] show ?case by (simp add: evolves_def)
next
  case (kad_command k now now' cmd k' outs)
  show ?case
  proof (cases "\<exists>p. cmd = RemoveNode p")
    case True
    then obtain p where cmd: "cmd = RemoveNode p" by blast
    obtain k1 where "remove_node sha p k = Some k1" "kad_inv sha k1" using remove_node_ok [OF kad_command.IH] by blast
    with kad_command.hyps(2) cmd show ?thesis by (simp add: on_command_def)
  next
    case False
    with on_command_safe [OF kad_command.IH, of cmd now now'] kad_command.hyps(2) show ?thesis by (simp add: evolves_def)
  qed
next
  case (kad_env k ps mm qs ls l)
  then show ?case by (simp add: kad_inv_def)
qed


definition sample_started :: Kademlia where
  "sample_started = start None None [] sample_kad"

lemma sample_started_reach: "kad_reach sample_hash sample_started"
  unfolding sample_started_def
proof (rule kad_start)
  show "with_config sample_hash (PeerId [0]) (store_new sample_hash (PeerId [0])) KademliaConfig_default = Some sample_kad"
    by (simp add: sample_kad_def with_config_def KademliaConfig_default_def)
  show "store_inv sample_hash (store_new sample_hash (PeerId [0]))" by (simp add: store_new_def store_inv_new)
  show "query_config_ok (kc_query_config KademliaConfig_default)"
    by (simp add: query_config_ok_def KademliaConfig_default_def QueryConfig_default_def K_VALUE_def ALPHA_VALUE_def BETA_VALUE_def)
  show "hm_wf []" by simp
qed


text \<open>
  A permanent node stays in the routing table and stays permanent through every event and every
  command, except the command that removes this node.
\<close>

theorem permanent_nodes_stay:
  assumes "kad_reach sha k" "table_map (kbuckets k) key = Some info" "permanent info"
    and "on_event sha rand now now' event k = Some (k', outs)
      \<or> (on_command sha now now' cmd k = Some (k', outs) \<and> (\<forall>p. cmd = RemoveNode p \<longrightarrow> sha (to_bytes p) \<noteq> key))"
  shows "\<exists>info'. table_map (kbuckets k') key = Some info' \<and> permanent info'"
proof (cases "on_event sha rand now now' event k = Some (k', outs) \<or> (\<forall>p. cmd \<noteq> RemoveNode p)")
  case True
  note inv = kad_reach_inv [OF assms(1)]
  have "evolves sha k k'"
    using True assms(4) on_event_safe [OF inv, of rand now now' event] on_command_safe [OF inv, of cmd now now'] by auto
  with assms(2,3) show ?thesis by (auto simp: evolves_def keeps_permanent_def)
next
  case False
  then obtain p where p: "cmd = RemoveNode p" "sha (to_bytes p) \<noteq> key" "on_command sha now now' cmd k = Some (k', outs)"
    using assms(4) by blast
  obtain k1 where "remove_node sha p k = Some k1"
      "table_map (kbuckets k1) = (table_map (kbuckets k))(sha (to_bytes p) := None)"
    using remove_node_ok [OF kad_reach_inv [OF assms(1)]] by blast
  with p assms(2,3) show ?thesis by (auto simp: on_command_def)
qed

lemma sample_add_node:
  obtains k where "on_command sample_hash 1 2 (AddNode (PeerId [1]) [[4]]) sample_started = Some (k, [])"
    "table_map (kbuckets k) (sample_hash [1]) = Some (PeerInfo_new 2 False True)" "kad_reach sample_hash k"
proof -
  let ?k = "with_swarm (add_addrs 1 (PeerId [1]) [[4]] ADDRESS_TTL) sample_started"
  have t: "kbuckets sample_started = table_new (Key_from_PeerId sample_hash (PeerId [0]))"
    by (simp add: sample_started_def start_def start_provider_gc_timer_def start_refresh_timer_def Let_def split: option.split)
  have "\<exists>t'. try_add_peer sample_hash 1 2 (PeerId [1]) False True ?k = Some (with_swarm (pin (PeerId [1])) (?k\<lparr>kbuckets := t'\<rparr>))
      \<and> routes sample_hash (kbuckets ?k) ((table_map (kbuckets ?k))(sample_hash (to_bytes (PeerId [1])) \<mapsto> PeerInfo_new 2 False True)) t'"
    by (rule try_add_room) (simp_all add: t routing_ok_new table_map_new K_VALUE_def self_key_def sample_hash_def to_bytes_def)
  then obtain t' where t': "add_node sample_hash 1 2 (PeerId [1]) [[4]] sample_started
        = Some (with_swarm (pin (PeerId [1])) (?k\<lparr>kbuckets := t'\<rparr>))"
      "table_map t' (sample_hash [1]) = Some (PeerInfo_new 2 False True)"
    by (auto simp: add_node_def routes_def to_bytes_def)
  then have "on_command sample_hash 1 2 (AddNode (PeerId [1]) [[4]]) sample_started
      = Some (with_swarm (pin (PeerId [1])) (?k\<lparr>kbuckets := t'\<rparr>), [])" by (simp add: on_command_def)
  with t'(2) kad_command [OF sample_started_reach this] that show thesis by simp
qed

theorem permanent_nodes_stay_witness:
  "\<exists>k k' info. on_command sample_hash 1 2 (AddNode (PeerId [1]) [[4]]) sample_started = Some (k, [])
     \<and> on_event sample_hash (\<lambda>_ _. PeerId []) 3 4 (KadPeerStopped (PeerId [1])) k = Some (k', [])
     \<and> table_map (kbuckets k') (sample_hash [1]) = Some info \<and> permanent info"
proof -
  obtain k where k: "on_command sample_hash 1 2 (AddNode (PeerId [1]) [[4]]) sample_started = Some (k, [])"
    "table_map (kbuckets k) (sample_hash [1]) = Some (PeerInfo_new 2 False True)" "kad_reach sample_hash k"
    by (rule sample_add_node)
  obtain k' where k': "on_event sample_hash (\<lambda>_ _. PeerId []) 3 4 (KadPeerStopped (PeerId [1])) k = Some (k', [])"
    by (rule peer_stopped_evolves [OF kad_reach_inv [OF k(3)], of "PeerId [1]"]) (simp add: on_event_def)
  from permanent_nodes_stay [OF k(3,2) _ disjI1 [OF k']] k(1) k' show ?thesis by (auto simp: PeerInfo_new_def)
qed




text \<open>
  C18: What a request of a remote peer can change. The routing table never changes. A value record is stored
  under its own key, and only when it does not claim the local node as its publisher; a provider record is
  accepted only from the provider itself, so a remote peer can add no record but its own for a key; an
  announcement for another peer is refused. All other requests leave the store and the peer store as they are.
\<close>

theorem remote_request_effect:
  assumes "kad_reach sha k" "kad_response sha now request source k = Some (response, k')"
  shows "kbuckets k' = kbuckets k \<and>
    (case request of
       KadRequestMsg.PutValue r \<Rightarrow>
         swarm k' = swarm k \<and> (\<forall>key. providers (store k') key = providers (store k) key)
         \<and> (publisher r = Some (local_id k) \<longrightarrow> store k' = store k)
         \<and> (store k' = store k \<or> store_get (store k') = (store_get (store k))(rec_key r \<mapsto> r))
     | KadRequestMsg.AddProvider key prov \<Rightarrow>
         store_get (store k') = store_get (store k)
         \<and> (if node_id prov \<noteq> source
            then response = Inl (InvalidSource source) \<and> store k' = store k \<and> swarm k' = swarm k
            else \<forall>key' r. r \<in> set (providers (store k') key') \<longrightarrow>
              r \<in> set (providers (store k) key') \<or> (key' = key \<and> provider r = source))
     | _ \<Rightarrow> store k' = store k \<and> swarm k' = swarm k)"
proof -
  have inv: "kad_inv sha k" and st: "store_inv sha (store k)" using kad_reach_inv [OF assms(1)] by (simp_all add: kad_inv_def)
  have t: "kbuckets k' = kbuckets k" using kad_response_safe [OF inv, of now request source] assms(2) by auto
  show ?thesis
  proof (cases request)
    case (PutValue r)
    let ?s = "store_put (store k) r"
    have "store k' = (if publisher r = Some (local_id k) then store k else snd ?s)" "swarm k' = swarm k"
      using assms(2) PutValue
      by (auto simp: kad_response_def handle_put_record_def Let_def split: if_splits prod.splits sum.splits)
    moreover have "snd ?s = store k \<or> store_get (snd ?s) = (store_get (store k))(rec_key r \<mapsto> r)"
      using ms.put_ok [OF st, of r] ms.put_err [of "store k" r] by (cases ?s; cases "fst ?s") auto
    ultimately show ?thesis using PutValue t by (simp add: store_put_providers)
  next
    case (AddProvider key prov)
    let ?r = "ProviderRecord_new now key (node_id prov) False"
    show ?thesis
    proof (cases "node_id prov = source")
      case True
      then have "store k' = store k \<or> store k' = snd (add_provider sha (store k) ?r)"
        using assms(2) AddProvider
        by (auto simp: kad_response_def handle_add_provider_def Let_def split: if_splits option.splits)
      moreover have "x \<in> set (providers (store k) key') \<or> (key' = key \<and> provider x = source)"
        if "x \<in> set (providers (snd (add_provider sha (store k) ?r)) key')" for x key'
        using add_provider_new_only [OF st that] True by (auto simp: ProviderRecord_new_def)
      ultimately show ?thesis using AddProvider t True add_provider_records by (simp add: fun_eq_iff) metis
    next
      case False
      with assms(2) AddProvider t show ?thesis by (auto simp: kad_response_def)
    qed
  qed (use assms(2) t in \<open>auto simp: kad_response_def Let_def bind_eq_Some_conv\<close>)
qed


theorem remote_request_effect_witness:
  "\<exists>k'. kad_response sample_hash 7 (KadRequestMsg.AddProvider [9] sample_kad_peer) (PeerId [5]) sample_started
       = Some (Inl (InvalidSource (PeerId [5])), k')
     \<and> store k' = store sample_started \<and> swarm k' = swarm sample_started"
proof -
  obtain x k' where x: "kad_response sample_hash 7 (KadRequestMsg.AddProvider [9] sample_kad_peer) (PeerId [5]) sample_started
      = Some (x, k')"
    using kad_response_safe [OF kad_reach_inv [OF sample_started_reach]] by blast
  from remote_request_effect [OF sample_started_reach x] x show ?thesis by (simp add: sample_kad_peer_def)
qed

text \<open>
  A messenger, that is an open substream to a peer, is used at most \<open>max_reuse_count\<close> times
  (at least once): in every state of the cache, each messenger that a query holds has been put back fewer
  times than that, and so has each cached one, which is cached for the peer it is connected to.
\<close>

theorem messenger_reuse_bound:
  assumes "pool_step\<^sup>*\<^sup>* (MessengerManager_new c, []) (mm, lent)"
  shows "(\<forall>m \<in> set lent. km_reuse m = 0 \<or> km_reuse m < max_reuse_count c)
    \<and> (\<forall>p m. hm_get (mm_cache mm) p = Some m \<longrightarrow> km_peer m = p \<and> km_reuse m < max_reuse_count c)"
proof -
  have "pool_inv c (mm, lent)"
    using assms
  proof (induction rule: rtranclp_induct)
    case base
    then show ?case by (simp add: pool_inv_def) (simp add: MessengerManager_new_def)
  next
    case (step s s')
    then show ?case by (blast intro: pool_inv_step)
  qed
  then show ?thesis by (auto simp: pool_inv_def messenger_inv_def)
qed

theorem messenger_reuse_bound_witness:
  "km_reuse (KadMessenger_build (PeerId [1]) KademliaProtocolConfig_default) = 0
   \<or> km_reuse (KadMessenger_build (PeerId [1]) KademliaProtocolConfig_default)
       < max_reuse_count KademliaProtocolConfig_default"
proof -
  let ?mm = "MessengerManager_new KademliaProtocolConfig_default"
    and ?m = "KadMessenger_build (PeerId [1]) KademliaProtocolConfig_default"
  have "get_messenger (Inr ()) (PeerId [1]) ?mm = (Inr ?m, ?mm)"
    by (simp add: get_messenger_def MessengerManager_new_def Let_def)
  from pool_get [OF this, of "[]"] have "pool_step\<^sup>*\<^sup>* (?mm, []) (?mm, [?m])" by blast
  from messenger_reuse_bound [OF this] show ?thesis by simp
qed

end
