(* ===== verification/Kad_System.thy ===== *)
theory Kad_System
  imports Kad_Loop
begin

text \<open>
  The main loop together with the tasks it spawns and the channels between them. The state holds the
  queue of posted events, the running queries with their callbacks, the running health checks and random
  walks, and the answers that were sent. A step handles one event or one command, ends one task, or lets
  the outside post an event or change the shared data; a task ends with any result, at any time. The walk
  asks for its lookups by commands, which may come at any time anyway.

  Shown here: at most one refresh is in progress, and it can always be brought to its end; and no reply
  channel is lost or used twice.
\<close>

record KadSystem =
  sys_kad :: Kademlia
  sys_events :: "ProtocolEvent list"
  sys_queries :: "(IterativeQuery \<times> Callback) list"
  sys_fixed :: "(QueryType \<times> PeerId list \<times> Reply option) list"
  sys_checks :: "PeerId list list"
  sys_walks :: "(PeerId list \<times> Reply option) list"
  sys_answers :: "(Reply \<times> KadReply) list"

fun perform :: "KadOutput \<Rightarrow> KadSystem \<Rightarrow> KadSystem" where
  "perform (Answer reply v) s = s\<lparr>sys_answers := sys_answers s @ [(reply, v)]\<rparr>"
| "perform (Post event) s = s\<lparr>sys_events := sys_events s @ [event]\<rparr>"
| "perform (SpawnIterative q cb) s = s\<lparr>sys_queries := sys_queries s @ [(q, cb)]\<rparr>"
| "perform (SpawnFixed qt peers reply) s = s\<lparr>sys_fixed := sys_fixed s @ [(qt, peers, reply)]\<rparr>"
| "perform (SpawnHealthCheck peers) s = s\<lparr>sys_checks := sys_checks s @ [peers]\<rparr>"
| "perform (SpawnWalk peers reply) s = s\<lparr>sys_walks := sys_walks s @ [(peers, reply)]\<rparr>"

abbreviation performs :: "KadOutput list \<Rightarrow> KadSystem \<Rightarrow> KadSystem" where
  "performs outs s \<equiv> fold perform outs s"

text \<open>The reply channels that an event, a command, a callback and an effect carry.\<close>

abbreviation opt_replies :: "Reply option \<Rightarrow> Reply list" where
  "opt_replies r \<equiv> (case r of None \<Rightarrow> [] | Some tx \<Rightarrow> [tx])"

fun stage_replies :: "RefreshStage \<Rightarrow> Reply list" where
  "stage_replies (Start reply) = opt_replies reply"
| "stage_replies (SelfQueryDone reply) = opt_replies reply"
| "stage_replies RefreshStage.Completed = []"

fun event_replies :: "ProtocolEvent \<Rightarrow> Reply list" where
  "event_replies (Refresh stage) = stage_replies stage"
| "event_replies (KadRequest _ _ reply) = [reply]"
| "event_replies _ = []"

fun dump_replies :: "DumpCommand \<Rightarrow> Reply list" where
  "dump_replies (Storage reply) = [reply]"
| "dump_replies (Entries reply) = [reply]"
| "dump_replies (Statistics reply) = [reply]"
| "dump_replies (Ledgers _ reply) = [reply]"
| "dump_replies (Messengers reply) = [reply]"
| "dump_replies (Providers _ reply) = [reply]"

fun command_replies :: "ControlCommand \<Rightarrow> Reply list" where
  "command_replies (ControlCommand.Bootstrap _ reply) = opt_replies reply"
| "command_replies (Lookup _ reply) = [reply]"
| "command_replies (ControlCommand.FindPeer _ reply) = [reply]"
| "command_replies (FindProviders _ _ reply) = [reply]"
| "command_replies (Providing _ reply) = [reply]"
| "command_replies (Unprovide _) = []"
| "command_replies (ControlCommand.PutValue _ _ reply) = [reply]"
| "command_replies (ControlCommand.GetValue _ reply) = [reply]"
| "command_replies (Dump d) = dump_replies d"
| "command_replies (AddNode _ _) = []"
| "command_replies (RemoveNode _) = []"
| "command_replies (NotAddressPeer reply) = [reply]"
| "command_replies (ClosestByBucket _ reply) = [reply]"

fun callback_replies :: "Callback \<Rightarrow> Reply list" where
  "callback_replies (OnLookup reply) = [reply]"
| "callback_replies (OnFindPeer reply) = [reply]"
| "callback_replies (OnProviders reply) = [reply]"
| "callback_replies (OnRecord reply) = [reply]"
| "callback_replies (OnPut _ reply) = [reply]"
| "callback_replies (OnProviding _ _ reply) = [reply]"
| "callback_replies (OnRefresh reply) = opt_replies reply"

fun output_replies :: "KadOutput \<Rightarrow> Reply list" where
  "output_replies (Answer reply _) = [reply]"
| "output_replies (Post event) = event_replies event"
| "output_replies (SpawnIterative _ cb) = callback_replies cb"
| "output_replies (SpawnFixed _ _ reply) = opt_replies reply"
| "output_replies (SpawnHealthCheck _) = []"
| "output_replies (SpawnWalk _ reply) = opt_replies reply"

text \<open>The events that come from outside: the swarm, the protocol handler, the queries and the timers.\<close>

fun external_event :: "ProtocolEvent \<Rightarrow> bool" where
  "external_event (Refresh _) = False"
| "external_event _ = True"

text \<open>A step, with the reply channels it brings into the system.\<close>

inductive sys_step :: "(bytes \<Rightarrow> U256) \<Rightarrow> Reply list \<Rightarrow> KadSystem \<Rightarrow> KadSystem \<Rightarrow> bool" for sha where
  sys_event: "sys_events s = event # rest \<Longrightarrow> on_event sha rand now now' event (sys_kad s) = Some (k', outs)
    \<Longrightarrow> sys_step sha [] s (performs outs (s\<lparr>sys_kad := k', sys_events := rest\<rparr>))"
| sys_command: "on_command sha now now' cmd (sys_kad s) = Some (k', outs)
    \<Longrightarrow> sys_step sha (command_replies cmd) s (performs outs (s\<lparr>sys_kad := k'\<rparr>))"
| sys_query: "(q, cb) \<in> set (sys_queries s)
    \<Longrightarrow> sys_step sha [] s (performs (finish_query cb r) (s\<lparr>sys_queries := remove1 (q, cb) (sys_queries s)\<rparr>))"
| sys_fixed: "(qt, peers, reply) \<in> set (sys_fixed s)
    \<Longrightarrow> sys_step sha [] s (performs (finish_fixed reply r') (s\<lparr>sys_fixed := remove1 (qt, peers, reply) (sys_fixed s)\<rparr>))"
| sys_check: "peers \<in> set (sys_checks s)
    \<Longrightarrow> sys_step sha [] s (performs (map Post (health_check connect peers)) (s\<lparr>sys_checks := remove1 peers (sys_checks s)\<rparr>))"
| sys_walk: "(peers, reply) \<in> set (sys_walks s)
    \<Longrightarrow> sys_step sha [] s (performs (finish_walk reply) (s\<lparr>sys_walks := remove1 (peers, reply) (sys_walks s)\<rparr>))"
| sys_post: "external_event event
    \<Longrightarrow> sys_step sha (event_replies event) s (s\<lparr>sys_events := sys_events s @ [event]\<rparr>)"
| sys_env: "hm_wf ps \<Longrightarrow> messenger_inv mm
    \<Longrightarrow> sys_step sha [] s (s\<lparr>sys_kad := (sys_kad s)\<lparr>swarm := Some ps, messengers := Some mm, query_stats := qs,
          ledgers := ls, iter_qry_limiter := l\<rparr>\<rparr>)"

definition sys_init :: "Kademlia \<Rightarrow> KadSystem" where
  "sys_init k = \<lparr>sys_kad = k, sys_events = [], sys_queries = [], sys_fixed = [], sys_checks = [], sys_walks = [],
     sys_answers = []\<rparr>"

inductive sys_reach :: "(bytes \<Rightarrow> U256) \<Rightarrow> Reply list \<Rightarrow> KadSystem \<Rightarrow> bool" for sha where
  sys_start: "kad_inv sha k \<Longrightarrow> \<not> refreshing k \<Longrightarrow> sys_reach sha [] (sys_init k)"
| sys_reach_step: "sys_reach sha issued s \<Longrightarrow> sys_step sha new s s' \<Longrightarrow> sys_reach sha (issued @ new) s'"


section \<open>Reply channels\<close>

text \<open>The channels on which an answer is still to come.\<close>

definition owed :: "KadSystem \<Rightarrow> Reply multiset" where
  "owed s = mset (concat (map event_replies (sys_events s))) + mset (concat (map (callback_replies \<circ> snd) (sys_queries s)))
     + mset (concat (map (\<lambda>(_, _, r). opt_replies r) (sys_fixed s)))
     + mset (concat (map (opt_replies \<circ> snd) (sys_walks s)))"

definition answered :: "KadSystem \<Rightarrow> Reply multiset" where
  "answered s = mset (map fst (sys_answers s))"

lemma perform_replies:
  "owed (perform out s) + answered (perform out s) = owed s + answered s + mset (output_replies out)"
  by (cases out) (simp_all add: owed_def answered_def)

lemma performs_replies:
  "owed (performs outs s) + answered (performs outs s) = owed s + answered s + mset (concat (map output_replies outs))"
  by (induction outs arbitrary: s) (simp_all add: perform_replies)

text \<open>Every handler passes each channel it is given on exactly once.\<close>

lemma start_query_replies:
  "start_query sha qt key cb k = Some (k', outs) \<Longrightarrow> concat (map output_replies outs) = callback_replies cb"
  by (auto simp: start_query_def spawn_iterative_def)

lemma get_closest_peers_replies:
  "get_closest_peers sha key cb k = Some (k', outs) \<Longrightarrow> concat (map output_replies outs) = callback_replies cb"
  unfolding get_closest_peers_def by (rule start_query_replies)

lemmas query_replies = start_query_replies get_closest_peers_replies

lemma refresh_stage_replies:
  "handle_refresh_stage sha rand stage k = Some (k', outs) \<Longrightarrow> concat (map output_replies outs) = stage_replies stage"
  by (auto simp: handle_refresh_stage_def Let_def dest!: query_replies split: RefreshStage.splits if_splits option.splits)

lemma on_event_replies:
  assumes "on_event sha rand now now' event k = Some (k', outs)"
  shows "concat (map output_replies outs) = event_replies event"
  using assms
  by (cases event)
    (auto simp: on_event_def handle_address_changed_def handle_kad_request_def handle_refresh_timer_def
      dest!: refresh_stage_replies split: if_splits)

lemma on_dump_replies: "on_dump d k = Some (reply, v) \<Longrightarrow> dump_replies d = [reply]"
  by (cases d) (auto simp: on_dump_def)

lemma on_command_replies:
  assumes "on_command sha now now' cmd k = Some (k', outs)"
  shows "concat (map output_replies outs) = command_replies cmd"
  using assms
  by (cases cmd)
    (auto simp: on_command_def bootstrap_def find_peer_def find_providers_def start_providing_def put_record_def
      get_record_def Let_def bind_eq_Some_conv on_dump_replies dest!: query_replies
      split: option.splits if_splits prod.splits sum.splits)

lemma finish_query_replies: "concat (map output_replies (finish_query cb r)) = callback_replies cb"
  by (cases cb) (auto split: sum.splits option.splits)

lemma finish_fixed_replies: "concat (map output_replies (finish_fixed reply r)) = opt_replies reply"
  by (simp add: finish_fixed_def split: option.split)

lemma finish_walk_replies: "concat (map output_replies (finish_walk reply)) = opt_replies reply"
  by (simp add: finish_walk_def split: option.split)

lemma health_check_replies: "concat (map output_replies (map Post (health_check connect peers))) = []"
  by (auto simp: health_check_def)

lemma mset_concat_remove1:
  "x \<in> set xs \<Longrightarrow> mset (concat (map f (remove1 x xs))) + mset (f x) = mset (concat (map f xs))"
  by (induction xs) auto


lemma step_replies:
  assumes "sys_step sha new s s'"
  shows "owed s' + answered s' = owed s + answered s + mset new"
  using assms
proof (cases rule: sys_step.cases)
  case (sys_event event rest rand now now' k' outs)
  then show ?thesis using performs_replies [of outs] on_event_replies [OF sys_event(4)]
    by (simp add: owed_def answered_def)
next
  case (sys_command now now' cmd k' outs)
  then show ?thesis using performs_replies [of outs] on_command_replies [OF sys_command(3)]
    by (simp add: owed_def answered_def)
next
  case (sys_query q cb r)
  have "mset (concat (map (callback_replies \<circ> snd) (remove1 (q, cb) (sys_queries s)))) + mset (callback_replies cb)
      = mset (concat (map (callback_replies \<circ> snd) (sys_queries s)))"
    using mset_concat_remove1 [OF sys_query(3), of "callback_replies \<circ> snd"] by simp
  with sys_query(1,2) performs_replies [of "finish_query cb r"] finish_query_replies [of cb r] show ?thesis
    by (simp add: owed_def answered_def ac_simps)
next
  case (sys_fixed qt peers reply r')
  let ?f = "\<lambda>(_, _, r). opt_replies r"
  have "mset (concat (map ?f (remove1 (qt, peers, reply) (sys_fixed s)))) + mset (opt_replies reply)
      = mset (concat (map ?f (KadSystem.sys_fixed s)))"
    using mset_concat_remove1 [OF sys_fixed(3), of ?f] by simp
  with sys_fixed(1,2) performs_replies [of "finish_fixed reply r'"] finish_fixed_replies [of reply r'] show ?thesis
    by (simp add: owed_def answered_def ac_simps)
next
  case (sys_check peers connect)
  then show ?thesis using performs_replies [of "map Post (health_check connect peers)"] health_check_replies [of connect peers]
    by (simp add: owed_def answered_def)
next
  case (sys_walk peers reply)
  have "mset (concat (map (opt_replies \<circ> snd) (remove1 (peers, reply) (sys_walks s)))) + mset (opt_replies reply)
      = mset (concat (map (opt_replies \<circ> snd) (sys_walks s)))"
    using mset_concat_remove1 [OF sys_walk(3), of "opt_replies \<circ> snd"] by simp
  with sys_walk(1,2) performs_replies [of "finish_walk reply"] finish_walk_replies [of reply] show ?thesis
    by (simp add: owed_def answered_def ac_simps)
next
  case (sys_post event)
  then show ?thesis by (simp add: owed_def answered_def)
next
  case (sys_env ps mm qs ls l)
  then show ?thesis by (simp add: owed_def answered_def)
qed


section \<open>The refresh procedure\<close>

text \<open>
  A refresh in progress is in one place: its self-query, the event that reports the end of that query, its
  walk, or the event that reports the end of the walk.
\<close>

fun token_event :: "ProtocolEvent \<Rightarrow> bool" where
  "token_event (Refresh (SelfQueryDone _)) = True"
| "token_event (Refresh RefreshStage.Completed) = True"
| "token_event _ = False"

fun token_callback :: "Callback \<Rightarrow> bool" where
  "token_callback (OnRefresh _) = True"
| "token_callback _ = False"

fun output_tokens :: "KadOutput \<Rightarrow> nat" where
  "output_tokens (Post event) = of_bool (token_event event)"
| "output_tokens (SpawnIterative _ cb) = of_bool (token_callback cb)"
| "output_tokens (SpawnWalk _ _) = 1"
| "output_tokens _ = 0"

definition refresh_tokens :: "KadSystem \<Rightarrow> nat" where
  "refresh_tokens s = length (filter token_event (sys_events s)) + length (filter (token_callback \<circ> snd) (sys_queries s))
     + length (sys_walks s)"

lemma perform_frame [simp]: "sys_kad (perform out s) = sys_kad s"
  by (cases out) simp_all

lemma performs_frame [simp]: "sys_kad (performs outs s) = sys_kad s"
  by (induction outs arbitrary: s) simp_all

lemma perform_tokens: "refresh_tokens (perform out s) = refresh_tokens s + output_tokens out"
  by (cases out) (simp_all add: refresh_tokens_def)

lemma performs_tokens: "refresh_tokens (performs outs s) = refresh_tokens s + sum_list (map output_tokens outs)"
  by (induction outs arbitrary: s) (simp_all add: perform_tokens)

lemma with_swarm_refreshing [simp]: "refreshing (with_swarm f k) = refreshing k"
  by (simp add: with_swarm_def)

lemma try_add_peer_refreshing: "try_add_peer sha now now' p queried perm k = Some k' \<Longrightarrow> refreshing k' = refreshing k"
  by (auto simp: try_add_peer_def Let_def split: Entry.splits if_splits prod.splits bool.splits option.splits)

lemma try_remove_peer_refreshing: "try_remove_peer sha p forced k = Some (n, k') \<Longrightarrow> refreshing k' = refreshing k"
  by (auto simp: try_remove_peer_def split: Entry.splits if_splits)

lemma add_node_refreshing: "add_node sha now now' p addrs k = Some k' \<Longrightarrow> refreshing k' = refreshing k"
  by (auto simp: add_node_def dest!: try_add_peer_refreshing)

lemma add_boot_nodes_refreshing: "add_boot_nodes sha now now' boot k = Some k' \<Longrightarrow> refreshing k' = refreshing k"
  by (induction boot arbitrary: k) (auto simp: bind_eq_Some_conv dest!: add_node_refreshing)

lemma start_query_tokens:
  "start_query sha qt key cb k = Some (k', outs) \<Longrightarrow>
     refreshing k' = refreshing k \<and> sum_list (map output_tokens outs) = of_bool (token_callback cb)"
  by (auto simp: start_query_def spawn_iterative_def)

lemma on_command_tokens:
  assumes "on_command sha now now' cmd k = Some (k', outs)"
  shows "refreshing k' = refreshing k \<and> sum_list (map output_tokens outs) = 0"
  using assms
  by (cases cmd)
    (auto simp: on_command_def bootstrap_def find_peer_def find_providers_def start_providing_def put_record_def
      get_record_def remove_node_def stop_providing_def get_closest_peers_def Let_def bind_eq_Some_conv
      dest!: start_query_tokens add_boot_nodes_refreshing add_node_refreshing try_remove_peer_refreshing
      split: option.splits if_splits prod.splits sum.splits)

lemma refresh_stage_tokens:
  assumes "handle_refresh_stage sha rand stage k = Some (k', outs)" "token_event (Refresh stage) \<longrightarrow> refreshing k"
  shows "of_bool (refreshing k) + sum_list (map output_tokens outs) = of_bool (refreshing k') + of_bool (token_event (Refresh stage))"
  using assms
  by (auto simp: handle_refresh_stage_def get_closest_peers_def Let_def dest!: start_query_tokens
      split: RefreshStage.splits if_splits option.splits)

lemma kad_response_refreshing:
  "kad_response sha now request source k = Some (x, k') \<Longrightarrow> refreshing k' = refreshing k"
  by (auto simp: kad_response_def count_rx_def handle_put_record_def handle_add_provider_def Let_def bind_eq_Some_conv
      split: KadRequestMsg.splits if_splits prod.splits sum.splits option.splits)

lemma on_event_tokens:
  assumes "on_event sha rand now now' event k = Some (k', outs)" "token_event event \<longrightarrow> refreshing k"
  shows "of_bool (refreshing k) + sum_list (map output_tokens outs) = of_bool (refreshing k') + of_bool (token_event event)"
proof (cases event)
  case (Refresh stage)
  with assms refresh_stage_tokens show ?thesis by (simp add: on_event_def)
next
  case (AddressChanged addrs)
  with assms refresh_stage_tokens [of sha rand "Start None" "k\<lparr>local_addrs := addrs\<rparr>" k' outs] show ?thesis
    by (simp add: on_event_def handle_address_changed_def)
next
  case (PeerIdentified p)
  with assms show ?thesis
    by (auto simp: on_event_def handle_peer_identified_def dest!: try_add_peer_refreshing split: option.splits if_splits)
next
  case (KadRequest request source reply)
  with assms show ?thesis
    by (auto simp: on_event_def handle_kad_request_def dest!: kad_response_refreshing)
next
  case (KadPeerFound p queried)
  with assms show ?thesis by (auto simp: on_event_def handle_peer_found_def dest!: try_add_peer_refreshing)
next
  case (KadPeerStopped p)
  with assms show ?thesis by (auto simp: on_event_def handle_peer_stopped_def dest!: try_remove_peer_refreshing)
next
  case (PeerConnected p)
  with assms show ?thesis by (auto simp: on_event_def handle_peer_connected_def)
next
  case (PeerDisconnected p)
  with assms show ?thesis by (auto simp: on_event_def handle_peer_disconnected_def)
next
  case GCTimer
  with assms show ?thesis by (auto simp: on_event_def handle_gc_timer_def)
next
  case RefreshTimer
  with assms show ?thesis by (auto simp: on_event_def handle_refresh_timer_def split: if_splits)
qed

lemma finish_query_tokens: "sum_list (map output_tokens (finish_query cb r)) = of_bool (token_callback cb)"
  by (cases cb) (auto split: sum.splits option.splits)

lemma health_check_tokens: "sum_list (map output_tokens (map Post (health_check connect peers))) = 0"
  by (auto simp: health_check_def)

lemma filter_remove1: "x \<in> set xs \<Longrightarrow> length (filter P (remove1 x xs)) + of_bool (P x) = length (filter P xs)"
  by (induction xs) auto


definition sys_inv :: "(bytes \<Rightarrow> U256) \<Rightarrow> KadSystem \<Rightarrow> bool" where
  "sys_inv sha s \<longleftrightarrow> kad_inv sha (sys_kad s) \<and> refresh_tokens s = of_bool (refreshing (sys_kad s))"

lemma sys_inv_event:
  assumes "sys_inv sha s" "sys_events s = event # rest" "on_event sha rand now now' event (sys_kad s) = Some (k', outs)"
  shows "sys_inv sha (performs outs (s\<lparr>sys_kad := k', sys_events := rest\<rparr>))"
proof -
  have "token_event event \<longrightarrow> refreshing (sys_kad s)"
    using assms(1,2) by (cases "refreshing (sys_kad s)") (auto simp: sys_inv_def refresh_tokens_def)
  from on_event_tokens [OF assms(3) this] assms(1,2)
  have "refresh_tokens (performs outs (s\<lparr>sys_kad := k', sys_events := rest\<rparr>)) = of_bool (refreshing k')"
    unfolding performs_tokens by (cases "token_event event") (auto simp: sys_inv_def refresh_tokens_def)
  moreover have "kad_inv sha k'"
    using on_event_safe [of sha "sys_kad s" rand now now' event] assms(1,3) by (simp add: sys_inv_def evolves_def)
  ultimately show ?thesis by (simp add: sys_inv_def)
qed

lemma on_command_inv:
  assumes "kad_inv sha k" "on_command sha now now' cmd k = Some (k', outs)"
  shows "kad_inv sha k'"
proof (cases "\<exists>p. cmd = RemoveNode p")
  case True
  then obtain p where cmd: "cmd = RemoveNode p" by blast
  obtain k1 where "remove_node sha p k = Some k1" "kad_inv sha k1" using remove_node_ok [OF assms(1)] by blast
  with assms(2) cmd show ?thesis by (simp add: on_command_def)
next
  case False
  with on_command_safe [OF assms(1), of cmd now now'] assms(2) show ?thesis by (simp add: evolves_def)
qed

lemma sys_inv_step:
  assumes "sys_step sha new s s'" "sys_inv sha s"
  shows "sys_inv sha s'"
  using assms(1)
proof (cases rule: sys_step.cases)
  case (sys_event event rest rand now now' k' outs)
  with assms(2) show ?thesis using sys_inv_event by blast
next
  case (sys_command now now' cmd k' outs)
  have "refresh_tokens s' = refresh_tokens s" "refreshing k' = refreshing (sys_kad s)"
    using on_command_tokens [OF sys_command(3)] by (simp_all add: sys_command(2) performs_tokens) (simp add: refresh_tokens_def)
  moreover have "kad_inv sha k'" using on_command_inv [OF _ sys_command(3)] assms(2) by (simp add: sys_inv_def)
  ultimately show ?thesis using sys_command(2) assms(2) by (simp add: sys_inv_def)
next
  case (sys_query q cb r)
  have "refresh_tokens s' = refresh_tokens s"
    using filter_remove1 [OF sys_query(3), of "token_callback \<circ> snd"] finish_query_tokens [of cb r]
    unfolding sys_query(2) performs_tokens by (cases "token_callback cb") (simp_all add: refresh_tokens_def)
  with sys_query(2) assms(2) show ?thesis by (simp add: sys_inv_def)
next
  case (sys_fixed qt peers reply r')
  have "sum_list (map output_tokens (finish_fixed reply r')) = 0"
    by (cases reply) (simp_all add: finish_fixed_def)
  with sys_fixed assms(2) show ?thesis by (simp add: sys_inv_def performs_tokens) (simp add: refresh_tokens_def)
next
  case (sys_check peers connect)
  then show ?thesis using assms(2) health_check_tokens [of connect peers]
    by (simp add: sys_inv_def performs_tokens) (simp add: refresh_tokens_def)
next
  case (sys_walk peers reply)
  have "sum_list (map output_tokens (finish_walk reply)) = 1"
    by (cases reply) (simp_all add: finish_walk_def)
  moreover have "length (sys_walks s) = Suc (length (remove1 (peers, reply) (sys_walks s)))"
    using length_pos_if_in_set [OF sys_walk(3)] sys_walk(3) by (simp add: length_remove1)
  ultimately have "refresh_tokens s' = refresh_tokens s"
    by (simp add: sys_walk(2) performs_tokens) (simp add: refresh_tokens_def)
  with sys_walk(2) assms(2) show ?thesis by (simp add: sys_inv_def)
next
  case (sys_post event)
  then have "\<not> token_event event" by (cases event) simp_all
  with sys_post assms(2) show ?thesis by (simp add: sys_inv_def refresh_tokens_def)
next
  case (sys_env ps mm qs ls l)
  with assms(2) show ?thesis by (simp add: sys_inv_def refresh_tokens_def kad_inv_def)
qed

lemma sys_reach_inv: "sys_reach sha issued s \<Longrightarrow> sys_inv sha s"
proof (induction rule: sys_reach.induct)
  case (sys_start k)
  then show ?case by (simp add: sys_inv_def sys_init_def refresh_tokens_def)
next
  case (sys_reach_step issued s new s')
  then show ?case by (blast intro: sys_inv_step)
qed










section \<open>Properties\<close>

text \<open>
  C7: No reply channel is lost and none is used twice. At any time, the channels that requests and commands
  have brought in are exactly those that were answered and those on which the answer is still to come
  from a queued event or a running task, each as often as it was brought in.
\<close>

theorem replies_linear:
  assumes "sys_reach sha issued s"
  shows "mset issued = mset (map fst (sys_answers s)) + owed s"
  using assms
proof (induction rule: sys_reach.induct)
  case (sys_start k)
  then show ?case by (simp add: sys_init_def owed_def)
next
  case (sys_reach_step issued s new s')
  with step_replies [OF sys_reach_step.hyps(2)] show ?case by (simp add: answered_def add.commute)
qed

lemma sample_started_refreshing: "\<not> refreshing sample_started"
  by (simp add: sample_started_def start_def start_provider_gc_timer_def start_refresh_timer_def Let_def split: option.split)

lemma sample_sys_reach: "sys_reach sample_hash [] (sys_init sample_started)"
  by (rule sys_start [OF kad_reach_inv [OF sample_started_reach] sample_started_refreshing])

theorem replies_linear_witness:
  "\<exists>s. sys_reach sample_hash [7] s \<and> mset [7] = mset (map fst (sys_answers s)) + owed s"
proof -
  have "sys_step sample_hash [7] (sys_init sample_started)
      (sys_init sample_started\<lparr>sys_events := sys_events (sys_init sample_started) @ [KadRequest KadRequestMsg.Ping (PeerId [5]) 7]\<rparr>)"
    using sys_post [of "KadRequest KadRequestMsg.Ping (PeerId [5]) 7"] by simp
  from sys_reach_step [OF sample_sys_reach this] have "\<exists>s. sys_reach sample_hash [7] s" by auto
  then show ?thesis using replies_linear by blast
qed

lemma foldl_num_entries:
  "foldl (\<lambda>acc x. acc + bucket_num_entries (snd x)) a (enumerate n bs) = a + length (concat (map nodes bs))"
  by (induction bs arbitrary: a n) (simp_all add: bucket_num_entries_def)

lemma table_num_entries_nodes: "table_num_entries t = length (all_nodes t)"
  by (simp add: table_num_entries_def table_iter_def all_nodes_def foldl_num_entries)

lemma sample_refreshing: "\<exists>s. sys_reach sample_hash [] s \<and> refreshing (sys_kad s)"
proof -
  obtain k where k: "on_command sample_hash 1 2 (AddNode (PeerId [1]) [[4]]) sample_started = Some (k, [])"
    "table_map (kbuckets k) (sample_hash [1]) = Some (PeerInfo_new 2 False True)" "kad_reach sample_hash k"
    by (rule sample_add_node)
  have inv: "kad_inv sample_hash k" using kad_reach_inv [OF k(3)] .
  have r: "\<not> refreshing k" using on_command_tokens [OF k(1)] sample_started_refreshing by simp
  have "all_nodes (kbuckets k) \<noteq> []"
    using k(2) table_map_nodes [of "kbuckets k"] inv by (auto simp: kad_inv_def routing_ok_def)
  then have n: "table_num_entries (kbuckets k) \<noteq> 0" by (simp add: table_num_entries_nodes)
  let ?s0 = "sys_init k\<lparr>sys_events := [AddressChanged []]\<rparr>"
  have "sys_step sample_hash [] (sys_init k) ?s0" using sys_post [of "AddressChanged []" sample_hash "sys_init k"] by (simp add: sys_init_def)
  from sys_reach_step [OF sys_start [OF inv r] this] have s0: "sys_reach sample_hash [] ?s0" by simp
  have e: "sys_events ?s0 = [AddressChanged []]" by simp
  have "safe sample_hash k (on_event sample_hash (\<lambda>_ _. PeerId []) 3 4 (AddressChanged []) k)" by (rule on_event_safe [OF inv])
  then obtain k' outs where o: "on_event sample_hash (\<lambda>_ _. PeerId []) 3 4 (AddressChanged []) k = Some (k', outs)"
    by (auto simp: safe_def)
  then have "refreshing k'" using r n
    by (auto simp: on_event_def handle_address_changed_def handle_refresh_stage_def get_closest_peers_def Let_def
        dest!: start_query_tokens)
  moreover have "sys_step sample_hash [] ?s0 (performs outs (?s0\<lparr>sys_kad := k', sys_events := []\<rparr>))"
    using sys_event [OF e, of sample_hash "\<lambda>_ _. PeerId []" 3 4] o by (simp add: sys_init_def)
  from sys_reach_step [OF s0 this] have "sys_reach sample_hash [] (performs outs (?s0\<lparr>sys_kad := k', sys_events := []\<rparr>))" by simp
  ultimately show ?thesis by (intro exI [of _ "performs outs (?s0\<lparr>sys_kad := k', sys_events := []\<rparr>)"]) simp
qed

text \<open>
  C8: At most one refresh of the routing table is in progress. The flag \<open>refreshing\<close> is set exactly while one
  is, and then the refresh is in exactly one place: its self-query, its walk, or a queued event that
  moves it on; so no refresh is ever lost with the flag left set.
\<close>

theorem refresh_exclusive:
  assumes "sys_reach sha issued s"
  shows "length (filter token_event (sys_events s)) + length (filter (token_callback \<circ> snd) (sys_queries s))
      + length (sys_walks s) = (if refreshing (sys_kad s) then 1 else 0)"
  using sys_reach_inv [OF assms] by (simp add: sys_inv_def refresh_tokens_def of_bool_def)

theorem refresh_exclusive_witness:
  "\<exists>s. sys_reach sample_hash [] s \<and> refreshing (sys_kad s)
     \<and> length (filter token_event (sys_events s)) + length (filter (token_callback \<circ> snd) (sys_queries s))
        + length (sys_walks s) = 1"
  using sample_refreshing refresh_exclusive by fastforce



end
