(* ===== verification/Varint.thy ===== *)
theory Varint
  imports Prelude
begin

text \<open>
  The crate \<open>unsigned_varint\<close>, which the multistream negotiation and the multiaddresses call. It is not part
  of the sources, so it is a parameter of the definitions: the record \<open>Uvi\<close> of the functions the code
  calls. \<open>uvi_ok\<close> states the documented behaviour the properties rely on, and \<open>sample_uvi\<close>, the unsigned
  varints of the multiformats specification, shows that it can hold.
\<close>

record Uvi =
  u16_encode :: "u16 \<Rightarrow> bytes"
  u16_decode :: "bytes \<Rightarrow> string + u16 \<times> bytes"
  u32_encode :: "u32 \<Rightarrow> bytes"
  u32_decode :: "bytes \<Rightarrow> string + u32 \<times> bytes"
  usize_encode :: "usize \<Rightarrow> bytes"
  usize_decode :: "bytes \<Rightarrow> string + usize \<times> bytes"
  is_last :: "u8 \<Rightarrow> bool"

text \<open>
  Decoding undoes encoding and returns the rest of the input; a decoder reads a non-empty prefix of the
  input and its result does not depend on what follows.
\<close>

definition codec_ok :: "('n \<Rightarrow> bytes) \<Rightarrow> (bytes \<Rightarrow> string + 'n \<times> bytes) \<Rightarrow> bool" where
  "codec_ok enc dec \<longleftrightarrow>
     (\<forall>n rest. dec (enc n @ rest) = Inr (n, rest)) \<and>
     (\<forall>bs n rest. dec bs = Inr (n, rest) \<longrightarrow>
        (\<exists>pre. pre \<noteq> [] \<and> bs = pre @ rest \<and> (\<forall>rest'. dec (pre @ rest') = Inr (n, rest'))))"

text \<open>
  The last byte of an encoding is the one that \<open>is_last\<close> accepts, an encoding of a \<open>u16\<close> fits the buffer of
  three bytes, and a number below 128 is its own encoding.
\<close>

definition uvi_ok :: "Uvi \<Rightarrow> bool" where
  "uvi_ok u \<longleftrightarrow>
     codec_ok (u16_encode u) (u16_decode u) \<and> codec_ok (u32_encode u) (u32_decode u) \<and>
     codec_ok (usize_encode u) (usize_decode u) \<and>
     (\<forall>n. length (u16_encode u n) \<le> 3 \<and> is_last u (last (u16_encode u n)) \<and>
          (\<forall>b \<in> set (butlast (u16_encode u n)). \<not> is_last u b)) \<and>
     (\<forall>n < 128. usize_encode u n = [ucast n])"

lemma codec_decode: "codec_ok enc dec \<Longrightarrow> dec (enc n @ rest) = Inr (n, rest)"
  by (simp add: codec_ok_def)

lemma codec_decode_all: "codec_ok enc dec \<Longrightarrow> dec (enc n) = Inr (n, [])"
  using codec_decode [of enc dec n "[]"] by simp

lemma codec_prefix:
  assumes "codec_ok enc dec" "dec bs = Inr (n, rest)"
  obtains pre where "pre \<noteq> []" "bs = pre @ rest" "\<And>rest'. dec (pre @ rest') = Inr (n, rest')"
  using assms unfolding codec_ok_def by blast

lemma codec_enc_ne:
  assumes "codec_ok enc dec"
  shows "enc n \<noteq> []"
proof
  assume "enc n = []"
  then have "dec [] = Inr (n, [])" using codec_decode_all [OF assms, of n] by simp
  from codec_prefix [OF assms this] show False by simp
qed

lemma uvi_okD:
  assumes "uvi_ok u"
  shows "codec_ok (u16_encode u) (u16_decode u)" "codec_ok (u32_encode u) (u32_decode u)"
    "codec_ok (usize_encode u) (usize_decode u)" "n < 128 \<Longrightarrow> usize_encode u n = [ucast n]"
  using assms by (auto simp: uvi_ok_def)


section \<open>The varints of the multiformats specification\<close>

fun leb :: "nat \<Rightarrow> bytes" where
  "leb n = (if n < 128 then [of_nat n] else of_nat (128 + n mod 128) # leb (n div 128))"

fun unleb :: "bytes \<Rightarrow> (nat \<times> bytes) option" where
  "unleb [] = None"
| "unleb (b # bs) =
     (if b < 128 then Some (unat b, bs)
      else map_option (\<lambda>(m, rest). (unat b - 128 + 128 * m, rest)) (unleb bs))"

declare leb.simps [simp del]

abbreviation leb_decode :: "bytes \<Rightarrow> string + 'a::len word \<times> bytes" where
  "leb_decode bs \<equiv> (case unleb bs of Some (n, rest) \<Rightarrow> Inr (of_nat n, rest) | None \<Rightarrow> Inl ''insufficient'')"

definition sample_uvi :: Uvi where
  "sample_uvi =
     \<lparr>u16_encode = (\<lambda>n. leb (unat n)), u16_decode = leb_decode,
      u32_encode = (\<lambda>n. leb (unat n)), u32_decode = leb_decode,
      usize_encode = (\<lambda>n. leb (unat n)), usize_decode = leb_decode,
      is_last = (\<lambda>b. b < 128)\<rparr>"

lemma small_byte: "n < 256 \<Longrightarrow> unat (of_nat n :: u8) = n"
  by (simp add: unat_of_nat take_bit_nat_eq_self)

lemma unleb_leb: "unleb (leb n @ rest) = Some (n, rest)"
proof (induction n rule: leb.induct)
  case (1 n)
  show ?case
  proof (cases "n < 128")
    case True
    then show ?thesis by (subst leb.simps) (simp add: small_byte word_less_nat_alt)
  next
    case False
    have "unat (of_nat (128 + n mod 128) :: u8) = 128 + n mod 128" by (rule small_byte) simp
    with False 1 show ?thesis by (subst leb.simps) (simp add: word_less_nat_alt del: of_nat_add)
  qed
qed

lemma unleb_prefix:
  "unleb bs = Some (n, rest) \<Longrightarrow> \<exists>pre. pre \<noteq> [] \<and> bs = pre @ rest \<and> (\<forall>rest'. unleb (pre @ rest') = Some (n, rest'))"
proof (induction bs arbitrary: n)
  case (Cons b bs)
  show ?case
  proof (cases "b < 128")
    case True
    with Cons.prems show ?thesis by (intro exI [of _ "[b]"]) auto
  next
    case False
    with Cons.prems obtain m where m: "unleb bs = Some (m, rest)" "n = unat b - 128 + 128 * m" by auto
    from Cons.IH [OF m(1)] obtain pre where "bs = pre @ rest" "\<forall>rest'. unleb (pre @ rest') = Some (m, rest')" by blast
    with False m(2) show ?thesis by (intro exI [of _ "b # pre"]) auto
  qed
qed simp

lemma leb_last: "last (leb n) < 128 \<and> (\<forall>b \<in> set (butlast (leb n)). \<not> b < 128) \<and> leb n \<noteq> []"
proof (induction n rule: leb.induct)
  case (1 n)
  show ?case
  proof (cases "n < 128")
    case True
    then show ?thesis by (subst (1 2 3) leb.simps) (simp add: small_byte word_less_nat_alt)
  next
    case False
    have "unat (of_nat (128 + n mod 128) :: u8) = 128 + n mod 128" by (rule small_byte) simp
    with False 1 show ?thesis by (subst (1 2 3) leb.simps) (simp add: word_less_nat_alt del: of_nat_add)
  qed
qed

lemma leb_length: "n < 2 ^ 16 \<Longrightarrow> length (leb n) \<le> 3"
  by (subst leb.simps, simp, subst leb.simps, simp, subst leb.simps) auto

lemma leb_codec_ok: "codec_ok (\<lambda>n. leb (unat (n :: 'a::len word))) leb_decode"
proof -
  have "\<exists>pre. pre \<noteq> [] \<and> bs = pre @ rest \<and> (\<forall>rest'. leb_decode (pre @ rest') = (Inr (n, rest') :: string + 'a word \<times> bytes))"
    if "leb_decode bs = Inr (n, rest)" for bs rest and n :: "'a word"
    using that unleb_prefix [of bs _ rest] by (fastforce split: option.splits)
  then show ?thesis by (simp add: codec_ok_def unleb_leb)
qed

lemma sample_uvi_ok: "uvi_ok sample_uvi"
proof -
  have "unat (n :: u16) < 2 ^ 16" for n using unsigned_less [of n] by simp
  then have "length (leb (unat (n :: u16))) \<le> 3" for n by (rule leb_length)
  moreover have "leb (unat (n :: usize)) = [ucast n]" if "n < 128" for n
    using that by (subst leb.simps) (simp add: word_less_nat_alt of_nat_unat)
  ultimately show ?thesis using leb_last by (auto simp: uvi_ok_def sample_uvi_def leb_codec_ok)
qed

end
