(* ===== verification/Multistream.thy ===== *)
theory Multistream
  imports Varint
begin

text \<open>
  The negotiation of a protocol on a fresh connection, multistream-select 1.0
  (\<open>core/src/multistream\<close>: \<open>length_delimited.rs\<close>, \<open>protocol.rs\<close>, \<open>negotiator.rs\<close>, \<open>muxer.rs\<close>).

  A socket is the list of the bytes that were
  received and not yet read. A read that lacks bytes waits, \<open>Pending\<close>, unless the other side has closed
  the connection. The two asynchronous functions \<open>select_one\<close> and \<open>negotiate\<close> are state machines whose
  states are the points where they wait, and \<open>neg_step\<close> runs one of each on the two ends of a connection
  that can break at any time.
\<close>

section \<open>Errors\<close>

datatype MsIoError = InvalidData string | Other string | UnexpectedEof | ConnectionReset

datatype ProtocolError = IoError MsIoError | InvalidMessage | InvalidProtocol | TooManyProtocols

datatype NegotiationError = ProtocolError ProtocolError | Failed "string list"


section \<open>Length-delimited frames\<close>

definition MAX_LEN_BYTES :: u16 where
  "MAX_LEN_BYTES = 2"

definition MAX_FRAME_SIZE :: u16 where
  "MAX_FRAME_SIZE = push_bit (unat (MAX_LEN_BYTES * 8 - MAX_LEN_BYTES)) 1 - 1"

text \<open>What a read finds: it has to wait, it fails, or it returns a value and the bytes behind it.\<close>

datatype ('e, 'a) Read = Pending | Fail 'e | Ready 'a bytes

definition read_exact :: "nat \<Rightarrow> bool \<Rightarrow> bytes \<Rightarrow> (MsIoError, bytes) Read" where
  "read_exact n closed input =
     (if n \<le> length input then Ready (take n input) (drop n input)
      else if closed then Fail UnexpectedEof else Pending)"

text \<open>The loop of \<open>read_unsigned_varint\<close>; the first argument counts the bytes left in its buffer.\<close>

fun read_varint_bytes :: "nat \<Rightarrow> Uvi \<Rightarrow> bool \<Rightarrow> bytes \<Rightarrow> bytes \<Rightarrow> (MsIoError, u16) Read" where
  "read_varint_bytes 0 u closed b input = Fail (Other ''overflow'')"
| "read_varint_bytes (Suc i) u closed b input =
     (case read_exact 1 closed input of
        Pending \<Rightarrow> Pending
      | Fail e \<Rightarrow> Fail e
      | Ready x rest \<Rightarrow>
          if is_last u (hd x)
          then (case u16_decode u (b @ x) of Inl e \<Rightarrow> Fail (Other e) | Inr (n, _) \<Rightarrow> Ready n rest)
          else read_varint_bytes i u closed (b @ x) rest)"

definition read_unsigned_varint :: "Uvi \<Rightarrow> bool \<Rightarrow> bytes \<Rightarrow> (MsIoError, u16) Read" where
  "read_unsigned_varint u closed input = read_varint_bytes 3 u closed [] input"

definition recv_frame :: "Uvi \<Rightarrow> bool \<Rightarrow> bytes \<Rightarrow> (MsIoError, bytes) Read" where
  "recv_frame u closed input =
     (case read_unsigned_varint u closed input of
        Pending \<Rightarrow> Pending
      | Fail e \<Rightarrow> Fail e
      | Ready len rest \<Rightarrow>
          if len > MAX_FRAME_SIZE then Fail (InvalidData ''Maximum frame length exceeded'')
          else if len > 0 then read_exact (unat len) closed rest
          else Ready [] rest)"

definition send_frame :: "Uvi \<Rightarrow> bytes \<Rightarrow> MsIoError + bytes" where
  "send_frame u buf =
     (if length buf < 2 ^ 16 \<and> of_nat (length buf) \<le> MAX_FRAME_SIZE
      then Inr (u16_encode u (of_nat (length buf)) @ buf)
      else Inl (InvalidData ''Maximum frame size exceeded.''))"


section \<open>Messages\<close>

definition MAX_PROTOCOLS :: usize where
  "MAX_PROTOCOLS = 1000"

definition MAX_PROTOCOL_LEN :: nat where
  "MAX_PROTOCOL_LEN = 140"

definition ascii :: "string \<Rightarrow> bytes" where
  "ascii = map of_char"

definition MSG_MULTISTREAM_1_0 :: bytes where
  "MSG_MULTISTREAM_1_0 = ascii ''/multistream/1.0.0'' @ [10]"

definition MSG_PROTOCOL_NA :: bytes where
  "MSG_PROTOCOL_NA = ascii ''na'' @ [10]"

definition MSG_LS :: bytes where
  "MSG_LS = ascii ''ls'' @ [10]"

datatype Version = V1

definition Version_default :: Version where
  "Version_default = V1"

type_synonym Protocol = bytes

definition Protocol_try_from :: "bytes \<Rightarrow> ProtocolError + Protocol" where
  "Protocol_try_from value =
     (if take 1 value \<noteq> ascii ''/'' \<or> length value > MAX_PROTOCOL_LEN then Inl InvalidProtocol else Inr value)"

datatype MsMessage =
    Header Version
  | Protocol Protocol
  | ListProtocols
  | Protocols "Protocol list"
  | NotAvailable

fun ms_encode :: "Uvi \<Rightarrow> MsMessage \<Rightarrow> ProtocolError + bytes" where
  "ms_encode u (Header V1) = Inr MSG_MULTISTREAM_1_0"
| "ms_encode u (Protocol p) = Inr (p @ [10])"
| "ms_encode u ListProtocols = Inr MSG_LS"
| "ms_encode u (Protocols ps) =
     Inr (usize_encode u (of_nat (length ps)) @
          concat (map (\<lambda>p. usize_encode u (of_nat (length p + 1)) @ p @ [10]) ps))"
| "ms_encode u NotAvailable = Inr MSG_PROTOCOL_NA"

text \<open>The loop over the protocols of a \<open>Protocols\<close> message.\<close>

fun decode_protocols :: "nat \<Rightarrow> Uvi \<Rightarrow> bytes \<Rightarrow> ProtocolError + Protocol list" where
  "decode_protocols 0 u remaining = Inr []"
| "decode_protocols (Suc n) u remaining =
     (case usize_decode u remaining of
        Inl e \<Rightarrow> Inl (IoError (InvalidData e))
      | Inr (len, rem) \<Rightarrow>
          if len = 0 \<or> unat len > length rem \<or> rem ! (unat len - 1) \<noteq> 10 then Inl InvalidMessage
          else (case Protocol_try_from (take (unat len - 1) rem) of
              Inl e \<Rightarrow> Inl e
            | Inr p \<Rightarrow>
                (case decode_protocols n u (drop (unat len) rem) of
                   Inl e \<Rightarrow> Inl e
                 | Inr ps \<Rightarrow> Inr (p # ps))))"

definition ms_decode :: "Uvi \<Rightarrow> bytes \<Rightarrow> ProtocolError + MsMessage" where
  "ms_decode u msg =
     (if msg = MSG_MULTISTREAM_1_0 then Inr (Header V1)
      else if msg \<noteq> [] \<and> hd msg = of_char (CHR ''/'') \<and> last msg = 10 \<and> length msg \<le> MAX_PROTOCOL_LEN
      then (case Protocol_try_from (butlast msg) of Inl e \<Rightarrow> Inl e | Inr p \<Rightarrow> Inr (Protocol p))
      else if msg = MSG_PROTOCOL_NA then Inr NotAvailable
      else if msg = MSG_LS then Inr ListProtocols
      else (case usize_decode u msg of
          Inl e \<Rightarrow> Inl (IoError (InvalidData e))
        | Inr (num_protocols, remaining) \<Rightarrow>
            if num_protocols > MAX_PROTOCOLS then Inl TooManyProtocols
            else (case decode_protocols (unat num_protocols) u remaining of
                Inl e \<Rightarrow> Inl e
              | Inr ps \<Rightarrow> Inr (Protocols ps))))"

definition ms_recv_message :: "Uvi \<Rightarrow> bool \<Rightarrow> bytes \<Rightarrow> (ProtocolError, MsMessage) Read" where
  "ms_recv_message u closed input =
     (case recv_frame u closed input of
        Pending \<Rightarrow> Pending
      | Fail e \<Rightarrow> Fail (IoError e)
      | Ready msg rest \<Rightarrow> (case ms_decode u msg of Inl e \<Rightarrow> Fail e | Inr m \<Rightarrow> Ready m rest))"

definition ms_send_message :: "Uvi \<Rightarrow> MsMessage \<Rightarrow> ProtocolError + bytes" where
  "ms_send_message u msg =
     (case ms_encode u msg of
        Inl e \<Rightarrow> Inl e
      | Inr buf \<Rightarrow> (case send_frame u buf of Inl e \<Rightarrow> Inl (IoError e) | Inr out \<Rightarrow> Inr out))"


section \<open>The negotiator\<close>

text \<open>The type of the protocol names is a type variable, with its conversion to bytes as a parameter.\<close>

type_synonym 'p Negotiator = "('p \<times> Protocol) list"

definition new_with_protocols :: "('p \<Rightarrow> bytes) \<Rightarrow> 'p list \<Rightarrow> 'p Negotiator" where
  "new_with_protocols as_ref ps =
     List.map_filter (\<lambda>n. case Protocol_try_from (as_ref n) of Inr p \<Rightarrow> Some (n, p) | Inl _ \<Rightarrow> None) ps"

definition add_protocol :: "('p \<Rightarrow> bytes) \<Rightarrow> 'p \<Rightarrow> 'p Negotiator \<Rightarrow> ProtocolError + 'p Negotiator" where
  "add_protocol as_ref proto ps =
     (case Protocol_try_from (as_ref proto) of Inl e \<Rightarrow> Inl e | Inr p \<Rightarrow> Inr (ps @ [(proto, p)]))"

text \<open>
  The listener, \<open>negotiate\<close>. A step returns the new state, the bytes it writes and the bytes it leaves
  unread; it is \<open>None\<close> where the function waits or has returned.
\<close>

datatype 'p ListenState = ListenHeader | ListenLoop | ListenDone "NegotiationError + 'p"

abbreviation listen_error :: "ProtocolError \<Rightarrow> bytes \<Rightarrow> ('p ListenState \<times> bytes \<times> bytes) option" where
  "listen_error e input \<equiv> Some (ListenDone (Inl (ProtocolError e)), [], input)"

definition listen_find :: "'p Negotiator \<Rightarrow> Protocol \<Rightarrow> 'p option" where
  "listen_find protocols p = find_map (\<lambda>(name, proto). if p = proto then Some name else None) protocols"

fun listen_message :: "Uvi \<Rightarrow> 'p Negotiator \<Rightarrow> MsMessage \<Rightarrow> bytes \<Rightarrow> ('p ListenState \<times> bytes \<times> bytes) option" where
  "listen_message u protocols ListProtocols rest =
     (case ms_send_message u (Protocols (map snd protocols)) of
        Inl e \<Rightarrow> listen_error e rest
      | Inr out \<Rightarrow> Some (ListenLoop, out, rest))"
| "listen_message u protocols (Protocol p) rest =
     (let protocol = listen_find protocols p;
          message = (if protocol \<noteq> None then Protocol p else NotAvailable)
      in case ms_send_message u message of
           Inl e \<Rightarrow> listen_error e rest
         | Inr out \<Rightarrow>
             (case protocol of
                Some q \<Rightarrow> Some (ListenDone (Inr q), out, rest)
              | None \<Rightarrow> Some (ListenLoop, out, rest)))"
| "listen_message u protocols _ rest = listen_error InvalidMessage rest"

fun negotiate :: "Uvi \<Rightarrow> 'p Negotiator \<Rightarrow> 'p ListenState \<Rightarrow> bool \<Rightarrow> bytes \<Rightarrow> ('p ListenState \<times> bytes \<times> bytes) option" where
  "negotiate u protocols ListenHeader closed input =
     (case ms_recv_message u closed input of
        Pending \<Rightarrow> None
      | Fail e \<Rightarrow> listen_error e input
      | Ready msg rest \<Rightarrow>
          (case msg of
             Header version \<Rightarrow>
               (case ms_send_message u (Header version) of
                  Inl e \<Rightarrow> listen_error e rest
                | Inr out \<Rightarrow> Some (ListenLoop, out, rest))
           | _ \<Rightarrow> listen_error InvalidMessage rest))"
| "negotiate u protocols ListenLoop closed input =
     (case ms_recv_message u closed input of
        Pending \<Rightarrow> None
      | Fail e \<Rightarrow> listen_error e input
      | Ready msg rest \<Rightarrow> listen_message u protocols msg rest)"
| "negotiate u protocols (ListenDone r) closed input = None"

text \<open>The dialer, \<open>select_one\<close>, in the same form. \<open>DialProto\<close> holds the rejected names and the proposed protocol.\<close>

datatype 'p DialState =
    DialStart
  | DialHeader
  | DialProto "string list" "'p \<times> Protocol" "('p \<times> Protocol) list"
  | DialDone "NegotiationError + 'p"

abbreviation dial_error :: "ProtocolError \<Rightarrow> bytes \<Rightarrow> ('p DialState \<times> bytes \<times> bytes) option" where
  "dial_error e input \<equiv> Some (DialDone (Inl (ProtocolError e)), [], input)"

fun dial_propose :: "Uvi \<Rightarrow> string list \<Rightarrow> ('p \<times> Protocol) list \<Rightarrow> bytes \<Rightarrow> ('p DialState \<times> bytes \<times> bytes) option" where
  "dial_propose u cause [] rest = Some (DialDone (Inl (Failed cause)), [], rest)"
| "dial_propose u cause (proto # protos) rest =
     (case ms_send_message u (Protocol (snd proto)) of
        Inl e \<Rightarrow> dial_error e rest
      | Inr out \<Rightarrow> Some (DialProto cause proto protos, out, rest))"

fun select_one ::
    "Uvi \<Rightarrow> ('p \<Rightarrow> bytes) \<Rightarrow> ('p \<Rightarrow> string) \<Rightarrow> 'p Negotiator \<Rightarrow> 'p DialState \<Rightarrow> bool \<Rightarrow> bytes \<Rightarrow>
      ('p DialState \<times> bytes \<times> bytes) option" where
  "select_one u as_ref debug protocols DialStart closed input =
     (case ms_send_message u (Header Version_default) of
        Inl e \<Rightarrow> dial_error e input
      | Inr out \<Rightarrow> Some (DialHeader, out, input))"
| "select_one u as_ref debug protocols DialHeader closed input =
     (case ms_recv_message u closed input of
        Pending \<Rightarrow> None
      | Fail e \<Rightarrow> dial_error e input
      | Ready msg rest \<Rightarrow>
          if msg \<noteq> Header Version_default then dial_error InvalidMessage rest
          else dial_propose u [] protocols rest)"
| "select_one u as_ref debug protocols (DialProto cause proto protos) closed input =
     (case ms_recv_message u closed input of
        Pending \<Rightarrow> None
      | Fail e \<Rightarrow> dial_error e input
      | Ready msg rest \<Rightarrow>
          (case msg of
             Protocol p \<Rightarrow>
               if p = as_ref (fst proto) then Some (DialDone (Inr (fst proto)), [], rest)
               else dial_error InvalidMessage rest
           | NotAvailable \<Rightarrow> dial_propose u (cause @ [debug (fst proto)]) protos rest
           | _ \<Rightarrow> dial_error InvalidMessage rest))"
| "select_one u as_ref debug protocols (DialDone r) closed input = None"

text \<open>
  The protocol muxer keeps a handler for every protocol of its negotiator. \<open>add_handler\<close> panics on an
  invalid name, and so does the lookup of the handler of a negotiated protocol when there is none.
\<close>

record ('p, 'h) Muxer =
  negotiator :: "'p Negotiator"
  handlers :: "('p, 'h) hashmap"

definition Muxer_new :: "('p, 'h) Muxer" where
  "Muxer_new = \<lparr>negotiator = [], handlers = []\<rparr>"

definition add_handler :: "('p \<Rightarrow> bytes) \<Rightarrow> 'p \<Rightarrow> 'h \<Rightarrow> ('p, 'h) Muxer \<Rightarrow> ('h option \<times> ('p, 'h) Muxer) option" where
  "add_handler as_ref proto handler m =
     (case add_protocol as_ref proto (negotiator m) of
        Inl _ \<Rightarrow> None
      | Inr n \<Rightarrow> Some (hm_get (handlers m) proto, m\<lparr>negotiator := n, handlers := hm_insert proto handler (handlers m)\<rparr>))"

definition muxer_result :: "('p, 'h) Muxer \<Rightarrow> NegotiationError + 'p \<Rightarrow> (NegotiationError + 'h \<times> 'p) option" where
  "muxer_result m r =
     (case r of Inl e \<Rightarrow> Some (Inl e) | Inr proto \<Rightarrow> map_option (\<lambda>h. Inr (h, proto)) (hm_get (handlers m) proto))"


section \<open>The two ends of a connection\<close>

text \<open>
  \<open>to_listener\<close> and \<open>to_dialer\<close> are the bytes on their way. \<open>dialer_sent\<close> and \<open>listener_sent\<close> collect what
  the applications write once their side has returned from the negotiation. A side that returned an
  error drops its socket, which the other side notices when it has read everything. A connection that
  is cut fails a pending operation of either side with any error; that also covers bytes that get lost.
\<close>

record ('p, 'q) Connection =
  dialer :: "'p DialState"
  listener :: "'q ListenState"
  to_listener :: bytes
  to_dialer :: bytes
  dialer_sent :: bytes
  listener_sent :: bytes
  cut :: bool

definition dial_closed :: "'p DialState \<Rightarrow> bool" where
  "dial_closed d = (case d of DialDone (Inl _) \<Rightarrow> True | _ \<Rightarrow> False)"

definition listen_closed :: "'p ListenState \<Rightarrow> bool" where
  "listen_closed l = (case l of ListenDone (Inl _) \<Rightarrow> True | _ \<Rightarrow> False)"

definition connection_new :: "('p, 'q) Connection" where
  "connection_new =
     \<lparr>dialer = DialStart, listener = ListenHeader, to_listener = [], to_dialer = [], dialer_sent = [], listener_sent = [],
      cut = False\<rparr>"

datatype Actor = Dials | Listens | Cuts | DialFails MsIoError | ListenFails MsIoError | DialWrites bytes | ListenWrites bytes

inductive neg_step ::
    "Uvi \<Rightarrow> ('p \<Rightarrow> bytes) \<Rightarrow> ('p \<Rightarrow> string) \<Rightarrow> 'p Negotiator \<Rightarrow> 'q Negotiator \<Rightarrow> Actor \<Rightarrow>
      ('p, 'q) Connection \<Rightarrow> ('p, 'q) Connection \<Rightarrow> bool"
  for u as_ref debug ps qs where
  dials:
    "select_one u as_ref debug ps (dialer c) (listen_closed (listener c)) (to_dialer c) = Some (d, out, rest) \<Longrightarrow>
     neg_step u as_ref debug ps qs Dials c (c\<lparr>dialer := d, to_listener := to_listener c @ out, to_dialer := rest\<rparr>)"
| listens:
    "negotiate u qs (listener c) (dial_closed (dialer c)) (to_listener c) = Some (l, out, rest) \<Longrightarrow>
     neg_step u as_ref debug ps qs Listens c (c\<lparr>listener := l, to_dialer := to_dialer c @ out, to_listener := rest\<rparr>)"
| cuts: "neg_step u as_ref debug ps qs Cuts c (c\<lparr>cut := True\<rparr>)"
| dial_fails:
    "cut c \<Longrightarrow> \<forall>r. dialer c \<noteq> DialDone r \<Longrightarrow>
     neg_step u as_ref debug ps qs (DialFails e) c (c\<lparr>dialer := DialDone (Inl (ProtocolError (IoError e)))\<rparr>)"
| listen_fails:
    "cut c \<Longrightarrow> \<forall>r. listener c \<noteq> ListenDone r \<Longrightarrow>
     neg_step u as_ref debug ps qs (ListenFails e) c (c\<lparr>listener := ListenDone (Inl (ProtocolError (IoError e)))\<rparr>)"
| dial_writes:
    "dialer c = DialDone (Inr p) \<Longrightarrow>
     neg_step u as_ref debug ps qs (DialWrites xs) c
       (c\<lparr>to_listener := to_listener c @ xs, dialer_sent := dialer_sent c @ xs\<rparr>)"
| listen_writes:
    "listener c = ListenDone (Inr q) \<Longrightarrow>
     neg_step u as_ref debug ps qs (ListenWrites xs) c
       (c\<lparr>to_dialer := to_dialer c @ xs, listener_sent := listener_sent c @ xs\<rparr>)"

inductive_cases neg_stepE: "neg_step u as_ref debug ps qs a c c'"

inductive neg_run ::
    "Uvi \<Rightarrow> ('p \<Rightarrow> bytes) \<Rightarrow> ('p \<Rightarrow> string) \<Rightarrow> 'p Negotiator \<Rightarrow> 'q Negotiator \<Rightarrow> Actor list \<Rightarrow>
      ('p, 'q) Connection \<Rightarrow> ('p, 'q) Connection \<Rightarrow> bool"
  for u as_ref debug ps qs where
  run_nil: "neg_run u as_ref debug ps qs [] c c"
| run_snoc: "neg_run u as_ref debug ps qs acts c c' \<Longrightarrow> neg_step u as_ref debug ps qs a c' c'' \<Longrightarrow>
    neg_run u as_ref debug ps qs (acts @ [a]) c c''"


section \<open>Frames and messages round trip\<close>

lemma read_varint_bytes_encode:
  assumes "uvi_ok u" "b @ bs = u16_encode u n" "bs \<noteq> []" "length bs \<le> i"
  shows "read_varint_bytes i u closed b (bs @ rest) = Ready n rest"
  using assms(2-)
proof (induction bs arbitrary: b i)
  case (Cons x bs)
  obtain j where i: "i = Suc j" using Cons.prems by (cases i) auto
  have enc: "u16_decode u (u16_encode u n) = Inr (n, [])" "is_last u (last (u16_encode u n))"
    "\<forall>c \<in> set (butlast (u16_encode u n)). \<not> is_last u c"
    using assms(1) codec_decode_all by (auto simp: uvi_ok_def)
  show ?case
  proof (cases "bs = []")
    case True
    with Cons.prems have "last (u16_encode u n) = x" by (metis last_snoc)
    with enc True Cons.prems i show ?thesis by (simp add: read_exact_def)
  next
    case False
    then have "butlast (b @ x # bs) = b @ x # butlast bs" by (simp add: butlast_append)
    with Cons.prems(1) enc(3) have "\<not> is_last u x" by (metis in_set_conv_decomp)
    then show ?thesis using Cons.IH [of "b @ [x]" j] Cons.prems i False by (simp add: read_exact_def)
  qed
qed simp

lemma MAX_FRAME_SIZE_eq [simp]: "MAX_FRAME_SIZE = 16383"
  by (simp add: MAX_FRAME_SIZE_def MAX_LEN_BYTES_def)

lemma recv_send_frame:
  assumes "uvi_ok u" "send_frame u buf = Inr out"
  shows "recv_frame u closed (out @ rest) = Ready buf rest"
proof -
  let ?n = "of_nat (length buf) :: u16"
  have len: "length buf < 2 ^ 16" "?n \<le> 16383" and out: "out = u16_encode u ?n @ buf"
    using assms(2) by (auto simp: send_frame_def split: if_splits)
  have n: "unat ?n = length buf" using len(1) by (simp add: unat_of_nat take_bit_nat_eq_self)
  have "length (u16_encode u ?n) \<le> 3" "u16_encode u ?n \<noteq> []"
    using assms(1) codec_enc_ne [OF uvi_okD(1)] by (auto simp: uvi_ok_def)
  then have "read_unsigned_varint u closed (u16_encode u ?n @ buf @ rest) = Ready ?n (buf @ rest)"
    unfolding read_unsigned_varint_def using read_varint_bytes_encode [OF assms(1), of "[]"] by simp
  moreover have "\<not> ?n > 0 \<Longrightarrow> buf = []" using n by (auto simp: word_gt_0)
  ultimately show ?thesis using len n by (auto simp: recv_frame_def out read_exact_def)
qed

lemma recv_frame_empty [simp]:
  "recv_frame u True [] = Fail UnexpectedEof" "recv_frame u False [] = Pending"
  by (simp_all add: recv_frame_def read_unsigned_varint_def read_exact_def eval_nat_numeral)

text \<open>
  The messages that survive the wire. A name of exactly 140 bytes is a valid \<open>Protocol\<close>, but with the
  line feed behind it the message is longer than \<open>decode\<close> allows; and the name of the
  multistream protocol itself reads as a header.
\<close>

abbreviation name_ok :: "Protocol \<Rightarrow> bool" where
  "name_ok p \<equiv> Protocol_try_from p = Inr p \<and> length p < MAX_PROTOCOL_LEN \<and> p \<noteq> ascii ''/multistream/1.0.0''"

fun message_ok :: "MsMessage \<Rightarrow> bool" where
  "message_ok (Protocol p) = name_ok p"
| "message_ok (Protocols ps) = (length ps \<le> unat MAX_PROTOCOLS \<and> list_all (\<lambda>p. Protocol_try_from p = Inr p) ps)"
| "message_ok _ = True"

lemmas ms_consts =
  MSG_MULTISTREAM_1_0_def MSG_PROTOCOL_NA_def MSG_LS_def MAX_PROTOCOL_LEN_def MAX_PROTOCOLS_def ascii_def

lemma Protocol_try_from_iff:
  "Protocol_try_from v = Inr p \<longleftrightarrow> p = v \<and> v \<noteq> [] \<and> hd v = 47 \<and> length v \<le> 140"
  by (cases v) (auto simp: Protocol_try_from_def ms_consts)

lemma decode_protocols_encode:
  assumes "uvi_ok u" "list_all (\<lambda>p. Protocol_try_from p = Inr p) ps"
  shows "decode_protocols (length ps) u (concat (map (\<lambda>p. usize_encode u (of_nat (length p + 1)) @ p @ [10]) ps)) = Inr ps"
  using assms(2)
proof (induction ps)
  case (Cons p ps)
  let ?rest = "concat (map (\<lambda>p. usize_encode u (of_nat (length p + 1)) @ p @ [10]) ps)"
  let ?n = "of_nat (length p + 1) :: usize"
  have p: "Protocol_try_from p = Inr p" "length p \<le> 140" using Cons.prems by (auto simp: Protocol_try_from_iff)
  then have n: "unat ?n = length p + 1" by (subst unat_of_nat) (simp add: take_bit_nat_eq_self)
  then have "?n \<noteq> 0" by (metis add_is_0 one_neq_zero unat_0)
  moreover have "usize_decode u (usize_encode u ?n @ p @ 10 # ?rest) = Inr (?n, p @ 10 # ?rest)"
    by (rule codec_decode [OF uvi_okD(3) [OF assms(1)]])
  ultimately show ?case using Cons n p(1) by (simp add: nth_append)
qed simp

lemma ms_encode_length:
  assumes "uvi_ok u" "list_all (\<lambda>p. Protocol_try_from p = Inr p) ps"
  shows "3 * length ps \<le> length (concat (map (\<lambda>p. usize_encode u (of_nat (length p + 1)) @ p @ [10]) ps))"
  using assms(2)
proof (induction ps)
  case (Cons p ps)
  have "usize_encode u (1 + of_nat (length p)) \<noteq> []" by (rule codec_enc_ne [OF uvi_okD(3) [OF assms(1)]])
  then obtain b bs where "usize_encode u (1 + of_nat (length p)) = b # bs" by (auto simp: neq_Nil_conv)
  moreover obtain c cs where "p = c # cs" using Cons.prems by (cases p) (auto simp: Protocol_try_from_iff)
  ultimately show ?case using Cons by simp
qed simp

text \<open>A list of protocols that starts with a byte \<open>c\<close> below 128 has \<open>c\<close> elements.\<close>

lemma Protocols_first_byte:
  assumes "uvi_ok u" "list_all (\<lambda>p. Protocol_try_from p = Inr p) ps" "length ps \<le> 1000"
    and "ms_encode u (Protocols ps) = Inr (c # msg)" "c < 128"
  shows "3 * unat c \<le> length msg"
proof -
  let ?body = "concat (map (\<lambda>p. usize_encode u (of_nat (length p + 1)) @ p @ [10]) ps)"
  have enc: "usize_encode u (of_nat (length ps)) @ ?body = c # msg" using assms(4) by simp
  have dec: "usize_decode u (usize_encode u (of_nat (length ps)) @ ?body) = Inr (of_nat (length ps), ?body)"
    by (rule codec_decode [OF uvi_okD(3) [OF assms(1)]])
  have "(ucast c :: usize) < 128" using assms(5) by (simp add: word_less_nat_alt unsigned_ucast_eq take_bit_nat_eq_self)
  moreover have "ucast (ucast c :: usize) = c" by transfer simp
  ultimately have "usize_encode u (ucast c) = [c]" using uvi_okD(4) [OF assms(1)] by simp
  then have "usize_decode u (c # msg) = Inr (ucast c, msg)"
    using codec_decode [OF uvi_okD(3) [OF assms(1)], of "ucast c" msg] by simp
  with dec have "of_nat (length ps) = (ucast c :: usize)" "msg = ?body" unfolding enc by auto
  moreover have "unat (of_nat (length ps) :: usize) = length ps"
    using assms(3) by (subst unat_of_nat) (simp add: take_bit_nat_eq_self)
  moreover have "unat (ucast c :: usize) = unat c"
    using assms(5) by (simp add: word_less_nat_alt unsigned_ucast_eq take_bit_nat_eq_self)
  ultimately have "length ps = unat c" by simp
  then show ?thesis using ms_encode_length [OF assms(1,2)] \<open>msg = ?body\<close> by simp
qed

lemma ms_decode_encode:
  assumes "uvi_ok u" "message_ok m" "ms_encode u m = Inr buf"
  shows "ms_decode u buf = Inr m"
proof (cases m)
  case (Header v)
  with assms(3) show ?thesis by (cases v) (auto simp: ms_decode_def)
next
  case (Protocol p)
  then have p: "Protocol_try_from p = Inr p" "length p < 140" "p \<noteq> ascii ''/multistream/1.0.0''" and buf: "buf = p @ [10]"
    using assms by (simp_all add: MAX_PROTOCOL_LEN_def)
  moreover have "p \<noteq> [] \<and> hd p = 47" using p(1) by (simp add: Protocol_try_from_iff)
  ultimately show ?thesis using Protocol by (simp add: ms_decode_def ms_consts)
next
  case ListProtocols
  with assms(3) show ?thesis by (auto simp: ms_decode_def ms_consts)
next
  case (Protocols ps)
  have ok: "list_all (\<lambda>p. Protocol_try_from p = Inr p) ps" "length ps \<le> 1000"
    using assms(2) Protocols by (auto simp: ms_consts)
  have buf: "buf = usize_encode u (of_nat (length ps)) @ concat (map (\<lambda>p. usize_encode u (of_nat (length p + 1)) @ p @ [10]) ps)"
    using assms(3) Protocols by simp
  have n: "unat (of_nat (length ps) :: usize) = length ps"
    using ok(2) by (subst unat_of_nat) (simp add: take_bit_nat_eq_self)
  have "length buf > 3 * unat c" if "hd buf = c" "c < 128" "buf \<noteq> []" for c
    using Protocols_first_byte [OF assms(1) ok, of c "tl buf"] assms(3) Protocols that by (cases buf) auto
  from this [of 47] this [of 110] this [of 108]
  have "buf \<noteq> MSG_MULTISTREAM_1_0" "\<not> (buf \<noteq> [] \<and> hd buf = 47 \<and> length buf \<le> 140)"
    "buf \<noteq> MSG_PROTOCOL_NA" "buf \<noteq> MSG_LS"
    by (auto simp: ms_consts)
  moreover have "usize_decode u buf = Inr (of_nat (length ps), concat (map (\<lambda>p. usize_encode u (of_nat (length p + 1)) @ p @ [10]) ps))"
    unfolding buf by (rule codec_decode [OF uvi_okD(3) [OF assms(1)]])
  moreover have "\<not> (of_nat (length ps) :: usize) > MAX_PROTOCOLS"
    using ok(2) n by (simp add: word_less_nat_alt ms_consts)
  ultimately show ?thesis
    using decode_protocols_encode [OF assms(1) ok(1)] n Protocols by (auto simp: ms_decode_def ms_consts)
next
  case NotAvailable
  with assms(3) show ?thesis by (auto simp: ms_decode_def ms_consts)
qed

lemma recv_send_message:
  assumes "uvi_ok u" "message_ok m" "ms_send_message u m = Inr out"
  shows "ms_recv_message u closed (out @ rest) = Ready m rest"
proof -
  obtain buf where "ms_encode u m = Inr buf" "send_frame u buf = Inr out"
    using assms(3) by (auto simp: ms_send_message_def split: sum.splits)
  then show ?thesis
    using recv_send_frame [OF assms(1)] ms_decode_encode [OF assms(1,2)] by (simp add: ms_recv_message_def)
qed

lemma recv_message_empty [simp]:
  "ms_recv_message u True [] = Fail (IoError UnexpectedEof)" "ms_recv_message u False [] = Pending"
  by (simp_all add: ms_recv_message_def)


section \<open>The course of a negotiation\<close>

definition frame :: "Uvi \<Rightarrow> MsMessage \<Rightarrow> bytes" where
  "frame u m = (case ms_send_message u m of Inr out \<Rightarrow> out | Inl _ \<Rightarrow> [])"

lemma send_message_short:
  assumes "ms_encode u m = Inr buf" "length buf \<le> 141"
  shows "ms_send_message u m = Inr (frame u m)"
proof -
  have "(of_nat (length buf) :: u16) \<le> 16383"
    using assms(2) by (simp add: word_le_nat_alt unat_of_nat take_bit_nat_eq_self)
  then show ?thesis using assms by (simp add: frame_def ms_send_message_def send_frame_def)
qed

lemma send_message_frame [simp]:
  "ms_send_message u (Header V1) = Inr (frame u (Header V1))"
  "ms_send_message u NotAvailable = Inr (frame u NotAvailable)"
  "name_ok p \<Longrightarrow> ms_send_message u (Protocol p) = Inr (frame u (Protocol p))"
  by (rule send_message_short, simp, simp add: ms_consts)+

lemma recv_message_frame [simp]:
  assumes "uvi_ok u"
  shows "ms_recv_message u closed (frame u (Header V1) @ rest) = Ready (Header V1) rest"
    "ms_recv_message u closed (frame u NotAvailable @ rest) = Ready NotAvailable rest"
    "name_ok p \<Longrightarrow> ms_recv_message u closed (frame u (Protocol p) @ rest) = Ready (Protocol p) rest"
  by (rule recv_send_message [OF assms], simp, simp)+

lemmas recv_message_frame_all [simp] = recv_message_frame [where rest = "[]", simplified]

lemma listen_find_None_iff: "listen_find qs p = None \<longleftrightarrow> p \<notin> snd ` set qs"
  by (force simp: listen_find_def find_map_None_iff split: if_splits)

text \<open>The phases of a negotiation, with the index of the protocol it is about.\<close>

datatype Phase =
    Opening | HeaderSent | HeaderBack | Proposed nat | Rejected nat | Confirmed nat | Agreed nat | GaveUp

fun rank :: "nat \<Rightarrow> Phase \<Rightarrow> nat" where
  "rank n Opening = 0"
| "rank n HeaderSent = 1"
| "rank n HeaderBack = 2"
| "rank n (Proposed k) = 2 * k + 3"
| "rank n (Rejected k) = 2 * k + 4"
| "rank n (Confirmed k) = 2 * k + 4"
| "rank n (Agreed k) = 2 * k + 5"
| "rank n GaveUp = 2 * n + 3"

definition refused :: "'p Negotiator \<Rightarrow> 'q Negotiator \<Rightarrow> nat \<Rightarrow> bool" where
  "refused ps qs k \<longleftrightarrow> (\<forall>j < k. listen_find qs (snd (ps ! j)) = None)"

definition dial_at :: "('p \<Rightarrow> string) \<Rightarrow> 'p Negotiator \<Rightarrow> nat \<Rightarrow> 'p DialState" where
  "dial_at debug ps k = DialProto (map (debug \<circ> fst) (take k ps)) (ps ! k) (drop (Suc k) ps)"

definition dial_failed :: "('p, 'q) Connection \<Rightarrow> bool" where
  "dial_failed c \<longleftrightarrow> (\<exists>e. dialer c = DialDone (Inl (ProtocolError e)))"

definition listen_failed :: "('p, 'q) Connection \<Rightarrow> bool" where
  "listen_failed c \<longleftrightarrow> (\<exists>e. listener c = ListenDone (Inl (ProtocolError e)))"

definition ends :: "'p DialState \<Rightarrow> 'q ListenState \<Rightarrow> ('p, 'q) Connection \<Rightarrow> bool" where
  "ends d l c \<longleftrightarrow> (dialer c = d \<or> dial_failed c) \<and> (listener c = l \<or> listen_failed c)"

definition chans :: "bytes \<Rightarrow> bytes \<Rightarrow> ('p, 'q) Connection \<Rightarrow> bool" where
  "chans xs ys c \<longleftrightarrow> to_listener c = xs \<and> to_dialer c = ys"

fun in_phase ::
    "Uvi \<Rightarrow> ('p \<Rightarrow> string) \<Rightarrow> 'p Negotiator \<Rightarrow> 'q Negotiator \<Rightarrow> Phase \<Rightarrow> ('p, 'q) Connection \<Rightarrow> bool" where
  "in_phase u debug ps qs Opening c \<longleftrightarrow>
     ends DialStart ListenHeader c \<and> chans [] [] c \<and> dialer_sent c = [] \<and> listener_sent c = []"
| "in_phase u debug ps qs HeaderSent c \<longleftrightarrow>
     ends DialHeader ListenHeader c \<and> chans (frame u (Header V1)) [] c \<and> dialer_sent c = [] \<and> listener_sent c = []"
| "in_phase u debug ps qs HeaderBack c \<longleftrightarrow>
     ends DialHeader ListenLoop c \<and> chans [] (frame u (Header V1)) c \<and> dialer_sent c = [] \<and> listener_sent c = []"
| "in_phase u debug ps qs (Proposed k) c \<longleftrightarrow>
     k < length ps \<and> refused ps qs k \<and> ends (dial_at debug ps k) ListenLoop c \<and>
     chans (frame u (Protocol (snd (ps ! k)))) [] c \<and> dialer_sent c = [] \<and> listener_sent c = []"
| "in_phase u debug ps qs (Rejected k) c \<longleftrightarrow>
     k < length ps \<and> refused ps qs (Suc k) \<and> ends (dial_at debug ps k) ListenLoop c \<and>
     chans [] (frame u NotAvailable) c \<and> dialer_sent c = [] \<and> listener_sent c = []"
| "in_phase u debug ps qs (Confirmed k) c \<longleftrightarrow>
     k < length ps \<and> refused ps qs k \<and> listen_find qs (snd (ps ! k)) \<noteq> None \<and>
     (dialer c = dial_at debug ps k \<or> dial_failed c) \<and>
     listener c = ListenDone (Inr (the (listen_find qs (snd (ps ! k))))) \<and>
     chans [] (frame u (Protocol (snd (ps ! k))) @ listener_sent c) c \<and> dialer_sent c = []"
| "in_phase u debug ps qs (Agreed k) c \<longleftrightarrow>
     k < length ps \<and> refused ps qs k \<and> listen_find qs (snd (ps ! k)) \<noteq> None \<and>
     dialer c = DialDone (Inr (fst (ps ! k))) \<and>
     listener c = ListenDone (Inr (the (listen_find qs (snd (ps ! k))))) \<and>
     chans (dialer_sent c) (listener_sent c) c"
| "in_phase u debug ps qs GaveUp c \<longleftrightarrow>
     refused ps qs (length ps) \<and> dialer c = DialDone (Inl (Failed (map (debug \<circ> fst) ps))) \<and>
     (listener c = ListenLoop \<or> listen_failed c) \<and> chans [] [] c \<and> dialer_sent c = [] \<and> listener_sent c = []"

text \<open>What holds as long as the connection was not cut.\<close>

definition sound :: "Phase \<Rightarrow> ('p, 'q) Connection \<Rightarrow> bool" where
  "sound ph c \<longleftrightarrow>
     cut c \<or> \<not> dial_failed c \<and>
       (listen_failed c \<longrightarrow> ph = GaveUp \<and> listener c = ListenDone (Inl (ProtocolError (IoError UnexpectedEof))))"

definition negotiator_ok :: "('p \<Rightarrow> bytes) \<Rightarrow> 'p Negotiator \<Rightarrow> bool" where
  "negotiator_ok as_ref ps \<longleftrightarrow> list_all (\<lambda>(n, p). p = as_ref n \<and> name_ok p) ps"

lemma negotiator_ok_nth:
  assumes "negotiator_ok as_ref ps" "k < length ps"
  shows "snd (ps ! k) = as_ref (fst (ps ! k))" "name_ok (snd (ps ! k))"
  using assms by (auto simp: negotiator_ok_def list_all_length split: prod.splits) (metis prod.collapse)+

lemmas phase_defs = ends_def chans_def sound_def dial_failed_def listen_failed_def

definition fails :: "('p, 'q) Connection \<Rightarrow> nat" where
  "fails c = of_bool (dial_failed c) + of_bool (listen_failed c)"

lemma dial_propose_at:
  assumes "negotiator_ok as_ref ps"
  shows "dial_propose u (map (debug \<circ> fst) (take k ps)) (drop k ps) rest =
    (if k < length ps then Some (dial_at debug ps k, frame u (Protocol (snd (ps ! k))), rest)
     else Some (DialDone (Inl (Failed (map (debug \<circ> fst) ps))), [], rest))"
proof (cases "k < length ps")
  case True
  then have "drop k ps = ps ! k # drop (Suc k) ps" by (rule Cons_nth_drop_Suc [symmetric])
  with True negotiator_ok_nth [OF assms True] show ?thesis by (simp add: dial_at_def)
qed simp

lemma refused_Suc: "refused ps qs (Suc k) \<longleftrightarrow> refused ps qs k \<and> listen_find qs (snd (ps ! k)) = None"
  by (auto simp: refused_def less_Suc_eq)

lemma dial_at_waits [simp]: "dial_at debug ps k \<noteq> DialDone r" "DialDone r \<noteq> dial_at debug ps k"
  by (simp_all add: dial_at_def)

lemma refused_0 [simp]: "refused ps qs 0"
  by (simp add: refused_def)

definition after_proposal :: "'p Negotiator \<Rightarrow> nat \<Rightarrow> Phase" where
  "after_proposal ps k = (if k < length ps then Proposed k else GaveUp)"

text \<open>A step of the dialer moves to a later phase, or fails because the listener is gone.\<close>

lemma dial_phase:
  assumes ok: "uvi_ok u" "negotiator_ok as_ref ps" and ph: "in_phase u debug ps qs ph c" "sound ph c"
    and st: "select_one u as_ref debug ps (dialer c) (listen_closed (listener c)) (to_dialer c) = Some (d, out, rest)"
    and c': "c' = c\<lparr>dialer := d, to_listener := to_listener c @ out, to_dialer := rest\<rparr>"
  shows "(\<exists>ph'. in_phase u debug ps qs ph' c' \<and> sound ph' c' \<and> rank (length ps) ph < rank (length ps) ph' \<and> fails c' = fails c) \<or>
    in_phase u debug ps qs ph c' \<and> sound ph c' \<and> fails c' = Suc (fails c)"
proof -
  have nf: "\<not> dial_failed c" using st by (auto simp: dial_failed_def)
  show ?thesis
  proof (cases ph)
    case Opening
    with ph st nf show ?thesis
      by (auto simp: c' phase_defs fails_def Version_default_def intro!: exI [of _ HeaderSent])
  next
    case HeaderSent
    with ph st nf show ?thesis
      by (auto simp: c' phase_defs fails_def listen_closed_def split: ListenState.splits sum.splits)
  next
    case HeaderBack
    with ph st nf ok dial_propose_at [OF ok(2), of u debug 0] show ?thesis
      by (auto simp: c' phase_defs fails_def Version_default_def after_proposal_def split: if_splits
          intro!: exI [of _ "after_proposal ps 0"])
  next
    case (Proposed k)
    with ph st nf show ?thesis
      by (auto simp: c' phase_defs fails_def listen_closed_def dial_at_def split: ListenState.splits sum.splits)
  next
    case (Rejected k)
    with ph have k: "k < length ps" by simp
    then have "take (Suc k) ps = take k ps @ [ps ! k]" by (rule take_Suc_conv_app_nth)
    moreover have "refused ps qs (length ps)" if "\<not> Suc k < length ps"
    proof -
      have "length ps = Suc k" using that k by simp
      with ph(1) Rejected show ?thesis by simp
    qed
    ultimately show ?thesis
      using dial_propose_at [OF ok(2), of u debug "Suc k"] Rejected k ph st nf ok
      by (auto simp: c' phase_defs fails_def after_proposal_def dial_at_def split: if_splits
          intro!: exI [of _ "after_proposal ps (Suc k)"])
  next
    case (Confirmed k)
    with ph have k: "k < length ps" by simp
    with negotiator_ok_nth [OF ok(2) k] Confirmed ph st nf ok show ?thesis
      by (auto simp: c' phase_defs fails_def dial_at_def intro!: exI [of _ "Agreed k"])
  qed (use ph st in \<open>auto simp: phase_defs\<close>)
qed

lemma listen_phase:
  assumes ok: "uvi_ok u" "negotiator_ok as_ref ps" and ph: "in_phase u debug ps qs ph c" "sound ph c"
    and st: "negotiate u qs (listener c) (dial_closed (dialer c)) (to_listener c) = Some (l, out, rest)"
    and c': "c' = c\<lparr>listener := l, to_dialer := to_dialer c @ out, to_listener := rest\<rparr>"
  shows "(\<exists>ph'. in_phase u debug ps qs ph' c' \<and> sound ph' c' \<and> rank (length ps) ph < rank (length ps) ph' \<and> fails c' = fails c) \<or>
    in_phase u debug ps qs ph c' \<and> sound ph c' \<and> fails c' = Suc (fails c)"
proof -
  have nf: "\<not> listen_failed c" using st by (auto simp: listen_failed_def)
  show ?thesis
  proof (cases ph)
    case HeaderSent
    with ph st nf ok show ?thesis by (auto simp: c' phase_defs fails_def intro!: exI [of _ HeaderBack])
  next
    case (Proposed k)
    with ph have k: "k < length ps" by simp
    show ?thesis
    proof (cases "listen_find qs (snd (ps ! k))")
      case None
      with negotiator_ok_nth [OF ok(2) k] Proposed ph st nf ok show ?thesis
        by (auto simp: c' phase_defs fails_def refused_Suc intro!: exI [of _ "Rejected k"])
    next
      case (Some q)
      with negotiator_ok_nth [OF ok(2) k] Proposed ph st nf ok show ?thesis
        by (auto simp: c' phase_defs fails_def refused_Suc intro!: exI [of _ "Confirmed k"])
    qed
  qed (use ph st nf in \<open>auto simp: c' phase_defs fails_def dial_closed_def split: DialState.splits sum.splits\<close>)
qed

definition is_move :: "Actor \<Rightarrow> bool" where
  "is_move a \<longleftrightarrow> a = Dials \<or> a = Listens"

lemma neg_step_phase:
  assumes "uvi_ok u" "negotiator_ok as_ref ps" "neg_step u as_ref debug ps qs a c c'"
    and "in_phase u debug ps qs ph c" "sound ph c"
  shows "\<exists>ph'. in_phase u debug ps qs ph' c' \<and> sound ph' c' \<and>
    of_bool (is_move a) + rank (length ps) ph + fails c \<le> rank (length ps) ph' + fails c'"
  using assms(3)
proof (cases rule: neg_step.cases)
  case dials
  from dial_phase [OF assms(1,2,4,5) dials(3) dials(2)] show ?thesis by (auto simp: dials(1) is_move_def)
next
  case listens
  from listen_phase [OF assms(1,2,4,5) listens(3) listens(2)] show ?thesis by (auto simp: listens(1) is_move_def)
qed (use assms(4,5) in \<open>intro exI [of _ ph], cases ph; auto simp: phase_defs fails_def is_move_def\<close>)+

lemma neg_run_phase:
  fixes ps :: "'p Negotiator" and qs :: "'q Negotiator"
  assumes "uvi_ok u" "negotiator_ok as_ref ps" "neg_run u as_ref debug ps qs acts connection_new c"
  shows "\<exists>ph. in_phase u debug ps qs ph c \<and> sound ph c \<and> length (filter is_move acts) \<le> rank (length ps) ph + fails c"
  using assms(3)
proof (induction acts "connection_new :: ('p, 'q) Connection" c rule: neg_run.induct)
  case run_nil
  show ?case by (rule exI [of _ Opening]) (simp add: phase_defs connection_new_def)
next
  case (run_snoc acts c a c')
  then obtain ph where ph: "in_phase u debug ps qs ph c" "sound ph c"
    "length (filter is_move acts) \<le> rank (length ps) ph + fails c" by blast
  with neg_step_phase [OF assms(1,2) run_snoc(3) ph(1,2)] show ?case by force
qed


section \<open>Executable runs\<close>

text \<open>The moves of a run, executed.\<close>

fun neg_move ::
    "Uvi \<Rightarrow> ('p \<Rightarrow> bytes) \<Rightarrow> ('p \<Rightarrow> string) \<Rightarrow> 'p Negotiator \<Rightarrow> 'q Negotiator \<Rightarrow> Actor \<Rightarrow>
      ('p, 'q) Connection \<Rightarrow> ('p, 'q) Connection option" where
  "neg_move u as_ref debug ps qs Dials c =
     map_option (\<lambda>(d, out, rest). c\<lparr>dialer := d, to_listener := to_listener c @ out, to_dialer := rest\<rparr>)
       (select_one u as_ref debug ps (dialer c) (listen_closed (listener c)) (to_dialer c))"
| "neg_move u as_ref debug ps qs Listens c =
     map_option (\<lambda>(l, out, rest). c\<lparr>listener := l, to_dialer := to_dialer c @ out, to_listener := rest\<rparr>)
       (negotiate u qs (listener c) (dial_closed (dialer c)) (to_listener c))"
| "neg_move u as_ref debug ps qs _ c = None"

fun neg_moves ::
    "Uvi \<Rightarrow> ('p \<Rightarrow> bytes) \<Rightarrow> ('p \<Rightarrow> string) \<Rightarrow> 'p Negotiator \<Rightarrow> 'q Negotiator \<Rightarrow> Actor list \<Rightarrow>
      ('p, 'q) Connection \<Rightarrow> ('p, 'q) Connection option" where
  "neg_moves u as_ref debug ps qs [] c = Some c"
| "neg_moves u as_ref debug ps qs (a # acts) c =
     Option.bind (neg_move u as_ref debug ps qs a c) (neg_moves u as_ref debug ps qs acts)"

lemma neg_move_step: "neg_move u as_ref debug ps qs a c = Some c' \<Longrightarrow> neg_step u as_ref debug ps qs a c c'"
  by (cases a) (auto intro: dials listens)

lemma neg_run_Cons:
  "neg_run u as_ref debug ps qs acts c' c'' \<Longrightarrow> neg_step u as_ref debug ps qs a c c' \<Longrightarrow>
   neg_run u as_ref debug ps qs (a # acts) c c''"
proof (induction acts c' c'' rule: neg_run.induct)
  case (run_nil c')
  then show ?case using run_snoc [OF neg_run.run_nil] by fastforce
next
  case (run_snoc acts c' d b e)
  then show ?case using neg_run.run_snoc [of u as_ref debug ps qs "a # acts" c d b e] by simp
qed

lemma neg_moves_run: "neg_moves u as_ref debug ps qs acts c = Some c' \<Longrightarrow> neg_run u as_ref debug ps qs acts c c'"
  by (induction acts arbitrary: c)
    (auto simp: bind_eq_Some_conv intro: neg_run.run_nil neg_run_Cons neg_move_step)

definition sample_names :: "bytes list" where
  "sample_names = [ascii ''/a'', ascii ''a'', ascii ''/b'']"

definition sample_moves :: "Actor list" where
  "sample_moves = [Dials, Listens, Dials, Listens, Dials, Listens, Dials]"


lemma sample_name_ok: "name_ok (ascii ''/a'')" "name_ok (ascii ''/b'')"
  by (simp_all add: Protocol_try_from_def ms_consts)

lemma sample_negotiators:
  "new_with_protocols id sample_names = [(ascii ''/a'', ascii ''/a''), (ascii ''/b'', ascii ''/b'')]"
  "new_with_protocols id [ascii ''/b''] = [(ascii ''/b'', ascii ''/b'')]"
  by (simp_all add: new_with_protocols_def map_filter_simps sample_names_def Protocol_try_from_def ms_consts)

lemma sample_run:
  "\<exists>c. neg_moves sample_uvi id (\<lambda>_. ''proto'') (new_with_protocols id sample_names)
     (new_with_protocols id [ascii ''/b'']) sample_moves connection_new = Some c \<and>
   dialer c = DialDone (Inr (ascii ''/b'')) \<and> listener c = ListenDone (Inr (ascii ''/b'')) \<and> \<not> cut c"
proof -
  have ne: "ascii ''/a'' \<noteq> ascii ''/b''" by (simp add: ascii_def)
  note recv_message_frame [OF sample_uvi_ok, simp] recv_message_frame_all [OF sample_uvi_ok, simp]
  show ?thesis
    using sample_name_ok ne
    by (simp add: sample_moves_def sample_negotiators connection_new_def Version_default_def listen_find_def)
qed


section \<open>Properties\<close>

text \<open>The first name of the dialer that is a valid protocol and that the listener offers.\<close>

definition first_common :: "('p \<Rightarrow> bytes) \<Rightarrow> ('q \<Rightarrow> bytes) \<Rightarrow> 'p list \<Rightarrow> 'q list \<Rightarrow> 'p option" where
  "first_common as_ref as_ref' names names' =
     List.find (\<lambda>n. Protocol_try_from (as_ref n) = Inr (as_ref n) \<and> list_ex (\<lambda>m. as_ref' m = as_ref n) names') names"

abbreviation valid_names :: "('p \<Rightarrow> bytes) \<Rightarrow> 'p list \<Rightarrow> 'p list" where
  "valid_names as_ref names \<equiv> filter (\<lambda>n. Protocol_try_from (as_ref n) = Inr (as_ref n)) names"

definition readable :: "('p \<Rightarrow> bytes) \<Rightarrow> 'p \<Rightarrow> bool" where
  "readable as_ref n \<longleftrightarrow> length (as_ref n) \<noteq> MAX_PROTOCOL_LEN \<and> as_ref n \<noteq> ascii ''/multistream/1.0.0''"

lemma new_with_protocols_eq: "new_with_protocols as_ref names = map (\<lambda>n. (n, as_ref n)) (valid_names as_ref names)"
  by (induction names) (auto simp: new_with_protocols_def map_filter_simps Protocol_try_from_def)

lemma negotiator_ok_new: "list_all (readable as_ref) names \<Longrightarrow> negotiator_ok as_ref (new_with_protocols as_ref names)"
  by (auto simp: new_with_protocols_eq negotiator_ok_def readable_def list_all_iff Protocol_try_from_iff MAX_PROTOCOL_LEN_def)

lemma listen_find_new:
  "listen_find (new_with_protocols as_ref names) p = List.find (\<lambda>n. as_ref n = p \<and> Protocol_try_from p = Inr p) names"
  by (induction names) (auto simp: listen_find_def new_with_protocols_eq)

lemma listen_find_new_None:
  assumes "Protocol_try_from p = Inr p"
  shows "listen_find (new_with_protocols as_ref names) p = None \<longleftrightarrow> \<not> list_ex (\<lambda>n. as_ref n = p) names"
  using assms by (auto simp: listen_find_new find_None_iff list_ex_iff)

lemma first_common_find:
  "first_common as_ref as_ref' names names' =
     List.find (\<lambda>n. listen_find (new_with_protocols as_ref' names') (as_ref n) \<noteq> None) (valid_names as_ref names)"
  by (induction names) (auto simp: first_common_def listen_find_new_None simp del: not_None_eq)

lemma first_common_Some:
  assumes "k < length (new_with_protocols as_ref names)"
    and "refused (new_with_protocols as_ref names) (new_with_protocols as_ref' names') k"
    and "listen_find (new_with_protocols as_ref' names') (snd (new_with_protocols as_ref names ! k)) \<noteq> None"
  shows "first_common as_ref as_ref' names names' = Some (fst (new_with_protocols as_ref names ! k))"
  unfolding first_common_find find_Some_iff using assms
  by (intro exI [of _ k]) (auto simp: new_with_protocols_eq refused_def)

lemma first_common_None:
  assumes "refused (new_with_protocols as_ref names) (new_with_protocols as_ref' names') (length (new_with_protocols as_ref names))"
  shows "first_common as_ref as_ref' names names' = None"
proof -
  have "listen_find (new_with_protocols as_ref' names') (as_ref n) = None" if "n \<in> set (valid_names as_ref names)" for n
    using assms that by (auto simp: new_with_protocols_eq refused_def in_set_conv_nth simp del: set_filter)
  then show ?thesis unfolding first_common_find find_None_iff by auto
qed

lemma listen_find_as_ref:
  assumes "listen_find (new_with_protocols as_ref names) p = Some q"
  shows "q \<in> set names \<and> as_ref q = p"
  using assms by (auto simp: listen_find_new find_Some_iff)

text \<open>
  C21: Agreement. The two sides of a connection negotiate with the protocol names they were given, the
  connection may be cut at any time and either application may write as soon as its side has returned. When the
  dialer returns a protocol, it is the first of its names that the listener offers, the listener has
  returned the same name, and each side still has to read exactly what the other application wrote: the
  negotiation consumed its own bytes and no more. When the listener returns a protocol, it is that same one.
  The dialer reports that no protocol was agreed only when there is none, and lists all its valid names.
\<close>

theorem negotiation_agreement:
  assumes "uvi_ok u" "list_all (readable as_ref) names"
    and "neg_run u as_ref debug (new_with_protocols as_ref names) (new_with_protocols as_ref' names') acts connection_new c"
  shows "(\<forall>p. dialer c = DialDone (Inr p) \<longrightarrow>
      first_common as_ref as_ref' names names' = Some p \<and>
      (\<exists>q. listener c = ListenDone (Inr q) \<and> as_ref' q = as_ref p) \<and>
      to_dialer c = listener_sent c \<and> to_listener c = dialer_sent c) \<and>
    (\<forall>q. listener c = ListenDone (Inr q) \<longrightarrow>
      q \<in> set names' \<and> (\<exists>p. first_common as_ref as_ref' names names' = Some p \<and> as_ref' q = as_ref p)) \<and>
    (\<forall>cause. dialer c = DialDone (Inl (Failed cause)) \<longrightarrow>
      first_common as_ref as_ref' names names' = None \<and> cause = map debug (valid_names as_ref names))"
proof -
  let ?ps = "new_with_protocols as_ref names" and ?qs = "new_with_protocols as_ref' names'"
  note ok = negotiator_ok_new [OF assms(2)]
  obtain ph where ph: "in_phase u debug ?ps ?qs ph c" using neg_run_phase [OF assms(1) ok assms(3)] by blast
  have found: "first_common as_ref as_ref' names names' = Some (fst (?ps ! k)) \<and>
      the (listen_find ?qs (snd (?ps ! k))) \<in> set names' \<and>
      as_ref' (the (listen_find ?qs (snd (?ps ! k)))) = as_ref (fst (?ps ! k))"
    if "k < length ?ps" "refused ?ps ?qs k" "listen_find ?qs (snd (?ps ! k)) \<noteq> None" for k
    using first_common_Some [OF that] listen_find_as_ref [of as_ref' names' "snd (?ps ! k)"] that(3)
      negotiator_ok_nth [OF ok that(1)] by auto
  have names: "map (debug \<circ> fst) ?ps = map debug (valid_names as_ref names)" by (simp add: new_with_protocols_eq)
  show ?thesis
  proof (cases ph)
    case (Confirmed k)
    with ph found [of k] show ?thesis by (auto simp: phase_defs)
  next
    case (Agreed k)
    with ph found [of k] show ?thesis by (auto simp: phase_defs)
  next
    case GaveUp
    with ph first_common_None names show ?thesis by (auto simp: phase_defs)
  qed (use ph in \<open>auto simp: phase_defs\<close>)
qed

theorem negotiation_agreement_witness:
  "\<exists>c. neg_run sample_uvi id (\<lambda>_. ''proto'') (new_with_protocols id sample_names) (new_with_protocols id [ascii ''/b''])
       sample_moves connection_new c \<and>
     dialer c = DialDone (Inr (ascii ''/b'')) \<and> first_common id id sample_names [ascii ''/b''] = Some (ascii ''/b'') \<and>
     (\<exists>q. listener c = ListenDone (Inr q) \<and> id q = id (ascii ''/b'')) \<and> to_dialer c = listener_sent c"
proof -
  obtain c where c: "neg_moves sample_uvi id (\<lambda>_. ''proto'') (new_with_protocols id sample_names)
      (new_with_protocols id [ascii ''/b'']) sample_moves connection_new = Some c" "dialer c = DialDone (Inr (ascii ''/b''))"
    using sample_run by blast
  have "list_all (readable id) sample_names" by (simp add: sample_names_def readable_def ms_consts)
  from negotiation_agreement [OF sample_uvi_ok this neg_moves_run [OF c(1)]] c neg_moves_run [OF c(1)] show ?thesis by blast
qed

lemma rank_bound:
  assumes "in_phase u debug ps qs ph c"
  shows "rank (length ps) ph + fails c \<le> 2 * length ps + 5"
  using assms by (cases ph) (auto simp: fails_def phase_defs)

text \<open>When neither side can go on, both have returned.\<close>

lemma stuck_phase:
  assumes "uvi_ok u" "negotiator_ok as_ref ps" "in_phase u debug ps qs ph c" "sound ph c"
    and "\<nexists>c'. neg_step u as_ref debug ps qs Dials c c'" "\<nexists>c'. neg_step u as_ref debug ps qs Listens c c'"
  shows "(\<exists>k. ph = Agreed k) \<or> ph = GaveUp \<and> listen_failed c \<or>
    cut c \<and> (\<exists>r. dialer c = DialDone r) \<and> (\<exists>r. listener c = ListenDone r)"
proof -
  have d: "select_one u as_ref debug ps (dialer c) (listen_closed (listener c)) (to_dialer c) = None"
    using assms(5) dials [of u as_ref debug ps c] by (metis not_None_eq prod_cases3)
  have l: "negotiate u qs (listener c) (dial_closed (dialer c)) (to_listener c) = None"
    using assms(6) listens [of u qs c] by (metis not_None_eq prod_cases3)
  note facts = d l assms(1,3,4)
  show ?thesis
  proof (cases ph)
    case (Proposed k)
    with assms(3) have "name_ok (snd (ps ! k))" using negotiator_ok_nth [OF assms(2)] by simp
    with Proposed facts show ?thesis
      by (cases "listen_find qs (snd (ps ! k))")
        (auto simp: phase_defs dial_closed_def listen_closed_def dial_at_def Let_def)
  next
    case (Rejected k)
    with dial_propose_at [OF assms(2), of u debug "Suc k"] facts show ?thesis
      by (auto simp: phase_defs dial_closed_def listen_closed_def dial_at_def take_Suc_conv_app_nth split: if_splits)
  next
    case (Confirmed k)
    with assms(3) have "name_ok (snd (ps ! k))" "snd (ps ! k) = as_ref (fst (ps ! k))"
      using negotiator_ok_nth [OF assms(2)] by simp_all
    with Confirmed facts show ?thesis by (auto simp: phase_defs dial_at_def)
  next
    case HeaderBack
    with dial_propose_at [OF assms(2), of u debug 0] facts show ?thesis
      by (auto simp: phase_defs dial_closed_def listen_closed_def Version_default_def split: if_splits)
  qed (use facts in \<open>auto simp: phase_defs dial_closed_def listen_closed_def Version_default_def\<close>)
qed

text \<open>
  C22: The negotiation comes to an end. In every run the two sides together take at most two steps for each name of
  the dialer and five more; and when neither of them can take a step, both have returned. If the
  connection was not cut, they then have the first common protocol, or the dialer reports that all
  its names were rejected and the listener that the connection was closed.
\<close>

theorem negotiation_completes:
  assumes "uvi_ok u" "list_all (readable as_ref) names"
    and "ps = new_with_protocols as_ref names" "qs = new_with_protocols as_ref' names'"
    and "neg_run u as_ref debug ps qs acts connection_new c"
  shows "length (filter is_move acts) \<le> 2 * length names + 5 \<and>
    ((\<nexists>c'. neg_step u as_ref debug ps qs Dials c c') \<and> (\<nexists>c'. neg_step u as_ref debug ps qs Listens c c') \<longrightarrow>
      (\<exists>r s. dialer c = DialDone r \<and> listener c = ListenDone s \<and>
        (\<not> cut c \<longrightarrow>
          (case first_common as_ref as_ref' names names' of
             Some p \<Rightarrow> r = Inr p \<and> (\<exists>q. s = Inr q \<and> as_ref' q = as_ref p)
           | None \<Rightarrow> r = Inl (Failed (map debug (valid_names as_ref names))) \<and>
               s = Inl (ProtocolError (IoError UnexpectedEof))))))"
proof -
  note ok = negotiator_ok_new [OF assms(2), folded assms(3)]
  obtain ph where ph: "in_phase u debug ps qs ph c" "sound ph c"
    and moves: "length (filter is_move acts) \<le> rank (length ps) ph + fails c"
    using neg_run_phase [OF assms(1) ok assms(5)] by blast
  have "length ps \<le> length names" by (simp add: assms(3) new_with_protocols_eq)
  with moves rank_bound [OF ph(1)] have "length (filter is_move acts) \<le> 2 * length names + 5" by linarith
  moreover
  { assume stuck: "\<nexists>c'. neg_step u as_ref debug ps qs Dials c c'" "\<nexists>c'. neg_step u as_ref debug ps qs Listens c c'"
    from stuck_phase [OF assms(1) ok ph stuck]
    consider k where "ph = Agreed k" | "ph = GaveUp" "listen_failed c"
      | "cut c" "\<exists>r. dialer c = DialDone r" "\<exists>r. listener c = ListenDone r" by blast
    then have "\<exists>r s. dialer c = DialDone r \<and> listener c = ListenDone s \<and> (\<not> cut c \<longrightarrow>
      (case first_common as_ref as_ref' names names' of
         Some p \<Rightarrow> r = Inr p \<and> (\<exists>q. s = Inr q \<and> as_ref' q = as_ref p)
       | None \<Rightarrow> r = Inl (Failed (map debug (valid_names as_ref names))) \<and> s = Inl (ProtocolError (IoError UnexpectedEof))))"
    proof cases
      case 1
      with ph(1) have k: "k < length ps" "refused ps qs k" "listen_find qs (snd (ps ! k)) \<noteq> None"
        and c: "dialer c = DialDone (Inr (fst (ps ! k)))" "listener c = ListenDone (Inr (the (listen_find qs (snd (ps ! k)))))"
        by auto
      have "first_common as_ref as_ref' names names' = Some (fst (ps ! k))"
        using first_common_Some k unfolding assms(3,4) by blast
      moreover have "as_ref' (the (listen_find qs (snd (ps ! k)))) = as_ref (fst (ps ! k))"
        using listen_find_as_ref [of as_ref' names' "snd (ps ! k)"] k(3) negotiator_ok_nth [OF ok k(1)]
        unfolding assms(4) by auto
      ultimately show ?thesis using c by simp
    next
      case 2
      with ph have "refused ps qs (length ps)" by simp
      then have "first_common as_ref as_ref' names names' = None" unfolding assms(3,4) by (rule first_common_None)
      moreover have "map (debug \<circ> fst) ps = map debug (valid_names as_ref names)"
        by (simp add: assms(3) new_with_protocols_eq)
      ultimately show ?thesis using 2 ph by (auto simp: sound_def listen_failed_def)
    qed auto }
  ultimately show ?thesis by blast
qed

theorem negotiation_completes_witness:
  "length (filter is_move sample_moves) \<le> 2 * length sample_names + 5 \<and>
   (\<exists>c r s. neg_run sample_uvi id (\<lambda>_. ''proto'') (new_with_protocols id sample_names) (new_with_protocols id [ascii ''/b''])
       sample_moves connection_new c \<and> dialer c = DialDone r \<and> listener c = ListenDone s \<and> r = Inr (ascii ''/b''))"
proof -
  let ?ps = "new_with_protocols id sample_names" and ?qs = "new_with_protocols id [ascii ''/b'']"
  obtain c where c: "neg_moves sample_uvi id (\<lambda>_. ''proto'') ?ps ?qs sample_moves connection_new = Some c"
    "dialer c = DialDone (Inr (ascii ''/b''))" "listener c = ListenDone (Inr (ascii ''/b''))" "\<not> cut c"
    using sample_run by blast
  have r: "list_all (readable id) sample_names" by (simp add: sample_names_def readable_def ms_consts)
  have f: "first_common id id sample_names [ascii ''/b''] = Some (ascii ''/b'')"
    by (simp add: first_common_def sample_names_def Protocol_try_from_def ms_consts)
  have "\<nexists>c'. neg_step sample_uvi id (\<lambda>_. ''proto'') ?ps ?qs Dials c c'"
    "\<nexists>c'. neg_step sample_uvi id (\<lambda>_. ''proto'') ?ps ?qs Listens c c'"
    using c by (auto elim!: neg_stepE)
  with negotiation_completes [OF sample_uvi_ok r refl refl neg_moves_run [OF c(1)]] c f neg_moves_run [OF c(1)]
  show ?thesis by auto
qed

text \<open>
  Framing and messages round trip. What \<open>ms_send_message\<close> writes is read back by \<open>ms_recv_message\<close> as the
  same message, whatever bytes follow, and those bytes are left unread; this includes the lists of up to 1000
  protocols, whose encoding has no mark of its own.
\<close>

theorem ms_message_roundtrip:
  assumes "uvi_ok u" "message_ok m" "ms_send_message u m = Inr out"
  shows "ms_recv_message u closed (out @ rest) = Ready m rest"
  using assms by (rule recv_send_message)

theorem ms_message_roundtrip_witness:
  "\<exists>out. ms_send_message sample_uvi (Protocols [ascii ''/a'', ascii ''/b'']) = Inr out \<and>
     ms_recv_message sample_uvi False (out @ [1, 2]) = Ready (Protocols [ascii ''/a'', ascii ''/b'']) [1, 2]"
proof -
  let ?m = "Protocols [ascii ''/a'', ascii ''/b'']"
  have "message_ok ?m" by (simp add: Protocol_try_from_def ms_consts)
  moreover obtain out where "ms_send_message sample_uvi ?m = Inr out"
    by (simp add: ms_send_message_def send_frame_def sample_uvi_def leb.simps ms_consts)
  ultimately show ?thesis using ms_message_roundtrip [OF sample_uvi_ok] by blast
qed

text \<open>A valid name of the greatest length is not read as a protocol.\<close>

lemma longest_name_unreadable:
  assumes "Protocol_try_from p = Inr p" "length p = MAX_PROTOCOL_LEN" "ms_encode u (Protocol p) = Inr buf"
  shows "ms_decode u buf \<noteq> Inr (Protocol q)"
proof -
  have "\<not> length buf \<le> MAX_PROTOCOL_LEN" using assms by auto
  then show ?thesis by (auto simp: ms_decode_def split: sum.splits)
qed

text \<open>The protocols of a muxer all have a handler, so the lookup after a negotiation does not panic.\<close>

definition muxer_inv :: "('p \<Rightarrow> bytes) \<Rightarrow> ('p, 'h) Muxer \<Rightarrow> bool" where
  "muxer_inv as_ref m \<longleftrightarrow>
     hm_wf (handlers m) \<and> fst ` set (negotiator m) = fst ` set (handlers m) \<and>
     list_all (\<lambda>(n, p). p = as_ref n \<and> Protocol_try_from p = Inr p) (negotiator m)"

lemma muxer_new_inv: "muxer_inv as_ref Muxer_new"
  by (simp add: muxer_inv_def Muxer_new_def)

lemma add_handler_inv:
  assumes "muxer_inv as_ref m" "add_handler as_ref proto h m = Some (old, m')"
  shows "muxer_inv as_ref m'"
proof -
  have "Protocol_try_from (as_ref proto) = Inr (as_ref proto)"
    and "m' = m\<lparr>negotiator := negotiator m @ [(proto, as_ref proto)], handlers := hm_insert proto h (handlers m)\<rparr>"
    using assms(2) by (auto simp: add_handler_def add_protocol_def Protocol_try_from_iff split: sum.splits)
  then show ?thesis using assms(1) by (simp add: muxer_inv_def AList.dom_update)
qed

lemma muxer_result_total:
  assumes "muxer_inv as_ref m" "p \<in> fst ` set (negotiator m)"
  shows "muxer_result m (Inr p) \<noteq> None"
  using assms by (auto simp: muxer_inv_def muxer_result_def map_of_eq_None_iff)

end
