(* ===== verification/Multi_Addr.thy ===== *)
theory Multi_Addr
  imports Varint Peer_Id
begin

text \<open>
  Multiaddresses in their binary form (\<open>multiaddr/src/protocol.rs\<close>, \<open>lib.rs\<close>, \<open>onion_addr.rs\<close>). An address is
  a byte vector that is a sequence of encoded protocols. A \<open>str\<close> is the list of its UTF-8 bytes; the arrays of
  an onion address are byte lists whose length is part of \<open>protocol_ok\<close>, the invariant that the Rust types
  express. The crate \<open>multihash\<close> enters as \<open>mh_parse\<close>, as in \<open>Peer_Id\<close>, and the varint crate as \<open>Uvi\<close>.

  The loops over an address end when the address is empty. They are partial functions: \<open>None\<close> is a panic of
  an \<open>expect\<close>, or a loop that never ends.
\<close>

section \<open>Protocols\<close>

definition DCCP :: u32 where "DCCP = 33"
definition DNS :: u32 where "DNS = 53"
definition DNS4 :: u32 where "DNS4 = 54"
definition DNS6 :: u32 where "DNS6 = 55"
definition DNSADDR :: u32 where "DNSADDR = 56"
definition HTTP :: u32 where "HTTP = 480"
definition HTTPS :: u32 where "HTTPS = 443"
definition IP4 :: u32 where "IP4 = 4"
definition IP6 :: u32 where "IP6 = 41"
definition P2P_WEBRTC_DIRECT :: u32 where "P2P_WEBRTC_DIRECT = 276"
definition P2P_WEBRTC_STAR :: u32 where "P2P_WEBRTC_STAR = 275"
definition P2P_WEBSOCKET_STAR :: u32 where "P2P_WEBSOCKET_STAR = 479"
definition MEMORY :: u32 where "MEMORY = 777"
definition ONION :: u32 where "ONION = 444"
definition ONION3 :: u32 where "ONION3 = 445"
definition P2P :: u32 where "P2P = 421"
definition P2P_CIRCUIT :: u32 where "P2P_CIRCUIT = 290"
definition QUIC :: u32 where "QUIC = 460"
definition SCTP :: u32 where "SCTP = 132"
definition TCP :: u32 where "TCP = 6"
definition UDP :: u32 where "UDP = 273"
definition UDT :: u32 where "UDT = 301"
definition UNIX :: u32 where "UNIX = 400"
definition UTP :: u32 where "UTP = 302"
definition WS :: u32 where "WS = 477"
definition WS_WITH_PATH :: u32 where "WS_WITH_PATH = 4770"
definition WSS :: u32 where "WSS = 478"
definition WSS_WITH_PATH :: u32 where "WSS_WITH_PATH = 4780"

lemmas protocol_codes =
  DCCP_def DNS_def DNS4_def DNS6_def DNSADDR_def HTTP_def HTTPS_def IP4_def IP6_def P2P_WEBRTC_DIRECT_def
  P2P_WEBRTC_STAR_def P2P_WEBSOCKET_STAR_def MEMORY_def ONION_def ONION3_def P2P_def P2P_CIRCUIT_def QUIC_def
  SCTP_def TCP_def UDP_def UDT_def UNIX_def UTP_def WS_def WS_WITH_PATH_def WSS_def WSS_WITH_PATH_def

datatype MaError =
    DataLessThanLen
  | InvalidMultiaddr
  | InvalidProtocolString
  | InvalidUvar string
  | ParsingError string
  | UnknownProtocolId u32
  | UnknownProtocolString string

datatype Ipv4Addr = Ipv4Addr u8 u8 u8 u8

datatype Ipv6Addr = Ipv6Addr u16 u16 u16 u16 u16 u16 u16 u16

type_synonym str = bytes

datatype MaProtocol =
    Dccp u16
  | Dns str
  | Dns4 str
  | Dns6 str
  | Dnsaddr str
  | Http
  | Https
  | Ip4 Ipv4Addr
  | Ip6 Ipv6Addr
  | P2pWebRtcDirect
  | P2pWebRtcStar
  | P2pWebSocketStar
  | Memory u64
  | Onion bytes u16
  | Onion3 bytes u16
  | P2p Multihash
  | P2pCircuit
  | Quic
  | Sctp u16
  | Tcp u16
  | Udp u16
  | Udt
  | Unix str
  | Utp
  | Ws str
  | Wss str

text \<open>\<open>str::from_utf8\<close>: the well-formed byte sequences of the Unicode standard.\<close>

definition utf8_cont :: "u8 \<Rightarrow> bool" where
  "utf8_cont b \<longleftrightarrow> 0x80 \<le> b \<and> b \<le> 0xBF"

fun utf8_valid :: "bytes \<Rightarrow> bool" where
  "utf8_valid [] = True"
| "utf8_valid [a] = (a < 0x80)"
| "utf8_valid [a, b] =
     (if a < 0x80 then utf8_valid [b] else 0xC2 \<le> a \<and> a \<le> 0xDF \<and> utf8_cont b)"
| "utf8_valid [a, b, c] =
     (if a < 0x80 then utf8_valid [b, c]
      else if 0xC2 \<le> a \<and> a \<le> 0xDF then utf8_cont b \<and> utf8_valid [c]
      else (a = 0xE0 \<and> 0xA0 \<le> b \<and> b \<le> 0xBF \<or> a = 0xED \<and> 0x80 \<le> b \<and> b \<le> 0x9F \<or>
            (0xE1 \<le> a \<and> a \<le> 0xEC \<or> 0xEE \<le> a \<and> a \<le> 0xEF) \<and> utf8_cont b) \<and> utf8_cont c)"
| "utf8_valid (a # b # c # d # rest) =
     (if a < 0x80 then utf8_valid (b # c # d # rest)
      else if 0xC2 \<le> a \<and> a \<le> 0xDF then utf8_cont b \<and> utf8_valid (c # d # rest)
      else if 0xE0 \<le> a \<and> a \<le> 0xEF
      then (a = 0xE0 \<and> 0xA0 \<le> b \<and> b \<le> 0xBF \<or> a = 0xED \<and> 0x80 \<le> b \<and> b \<le> 0x9F \<or>
            (0xE1 \<le> a \<and> a \<le> 0xEC \<or> 0xEE \<le> a \<and> a \<le> 0xEF) \<and> utf8_cont b) \<and> utf8_cont c \<and> utf8_valid (d # rest)
      else (a = 0xF0 \<and> 0x90 \<le> b \<and> b \<le> 0xBF \<or> a = 0xF4 \<and> 0x80 \<le> b \<and> b \<le> 0x8F \<or>
            0xF1 \<le> a \<and> a \<le> 0xF3 \<and> utf8_cont b) \<and> utf8_cont c \<and> utf8_cont d \<and> utf8_valid rest)"

definition slash :: str where
  "slash = [0x2F]"

fun get_enum_arm :: "(u32 \<times> MaProtocol) list \<Rightarrow> u32 \<Rightarrow> MaError + MaProtocol" where
  "get_enum_arm [] k = Inl (UnknownProtocolId k)"
| "get_enum_arm ((c, p) # arms) k = (if k = c then Inr p else get_enum_arm arms k)"

definition get_enum :: "u32 \<Rightarrow> MaError + MaProtocol" where
  "get_enum k =
     get_enum_arm
       [(IP4, Ip4 (Ipv4Addr 127 0 0 1)), (IP6, Ip6 (Ipv6Addr 0 0 0 0 0 0xffff 0xc00a 0x2ff)), (MEMORY, Memory 0),
        (ONION, Onion (replicate 10 0) 0), (ONION3, Onion3 (replicate 35 0) 0), (TCP, Tcp 0), (UDP, Udp 0),
        (SCTP, Sctp 0), (UDT, Udt), (UTP, Utp), (UNIX, Unix []), (QUIC, Quic), (DCCP, Dccp 0), (DNS, Dns []),
        (DNS4, Dns4 []), (DNS6, Dns6 []), (DNSADDR, Dnsaddr []), (WS, Ws slash), (WSS, Wss slash), (HTTP, Http),
        (HTTPS, Https), (P2P_CIRCUIT, P2pCircuit), (P2P_WEBRTC_DIRECT, P2pWebRtcDirect),
        (P2P_WEBRTC_STAR, P2pWebRtcStar), (P2P_WEBSOCKET_STAR, P2pWebSocketStar)] k"

fun protocol_get_key :: "MaProtocol \<Rightarrow> MaError + u32" where
  "protocol_get_key (Ip4 _) = Inr IP4"
| "protocol_get_key (Ip6 _) = Inr IP6"
| "protocol_get_key (Memory _) = Inr MEMORY"
| "protocol_get_key (Onion _ _) = Inr ONION"
| "protocol_get_key (Onion3 _ _) = Inr ONION3"
| "protocol_get_key (Tcp _) = Inr TCP"
| "protocol_get_key (Udp _) = Inr UDP"
| "protocol_get_key (Sctp _) = Inr SCTP"
| "protocol_get_key Udt = Inr UDT"
| "protocol_get_key Utp = Inr UTP"
| "protocol_get_key (Unix _) = Inr UNIX"
| "protocol_get_key Quic = Inr QUIC"
| "protocol_get_key (Dccp _) = Inr DCCP"
| "protocol_get_key (Dns _) = Inr DNS"
| "protocol_get_key (Dns4 _) = Inr DNS4"
| "protocol_get_key (Dns6 _) = Inr DNS6"
| "protocol_get_key (Dnsaddr _) = Inr DNSADDR"
| "protocol_get_key (Ws _) = Inr WS"
| "protocol_get_key (Wss _) = Inr WSS"
| "protocol_get_key Http = Inr HTTP"
| "protocol_get_key Https = Inr HTTPS"
| "protocol_get_key P2pCircuit = Inr P2P_CIRCUIT"
| "protocol_get_key P2pWebRtcDirect = Inr P2P_WEBRTC_DIRECT"
| "protocol_get_key P2pWebRtcStar = Inr P2P_WEBRTC_STAR"
| "protocol_get_key P2pWebSocketStar = Inr P2P_WEBSOCKET_STAR"
| "protocol_get_key (P2p _) = Inl InvalidProtocolString"


section \<open>Reading and writing a protocol\<close>

definition split_at :: "nat \<Rightarrow> bytes \<Rightarrow> MaError + bytes \<times> bytes" where
  "split_at n input = (if length input < n then Inl DataLessThanLen else Inr (take n input, drop n input))"

text \<open>\<open>decode::u32(input)?\<close> and \<open>decode::usize(input)?\<close>.\<close>

definition uvar :: "(bytes \<Rightarrow> string + 'n \<times> bytes) \<Rightarrow> bytes \<Rightarrow> MaError + 'n \<times> bytes" where
  "uvar dec input = (case dec input of Inl e \<Rightarrow> Inl (InvalidUvar e) | Inr r \<Rightarrow> Inr r)"

text \<open>The arms that read a port, and those that read a length and a string.\<close>

definition read_port :: "(u16 \<Rightarrow> MaProtocol) \<Rightarrow> bytes \<Rightarrow> MaError + MaProtocol \<times> bytes" where
  "read_port proto input = and_then (split_at 2 input) (\<lambda>(data, rest). Inr (proto (be_word data), rest))"

definition read_data :: "Uvi \<Rightarrow> bytes \<Rightarrow> MaError + bytes \<times> bytes" where
  "read_data u input = and_then (uvar (usize_decode u) input) (\<lambda>(n, input). split_at (unat n) input)"

definition read_str :: "Uvi \<Rightarrow> (str \<Rightarrow> MaProtocol) \<Rightarrow> bytes \<Rightarrow> MaError + MaProtocol \<times> bytes" where
  "read_str u proto input =
     and_then (read_data u input)
       (\<lambda>(data, rest). if utf8_valid data then Inr (proto data, rest) else Inl (ParsingError ''utf8''))"

definition read_ip4 :: "bytes \<Rightarrow> MaError + MaProtocol \<times> bytes" where
  "read_ip4 input =
     and_then (split_at 4 input)
       (\<lambda>(data, rest). Inr (Ip4 (Ipv4Addr (data ! 0) (data ! 1) (data ! 2) (data ! 3)), rest))"

definition read_ip6 :: "bytes \<Rightarrow> MaError + MaProtocol \<times> bytes" where
  "read_ip6 input =
     and_then (split_at 16 input)
       (\<lambda>(data, rest).
          let seg = (\<lambda>i. be_word [data ! (2 * i), data ! (2 * i + 1)] :: u16)
          in Inr (Ip6 (Ipv6Addr (seg 0) (seg 1) (seg 2) (seg 3) (seg 4) (seg 5) (seg 6) (seg 7)), rest))"

definition read_onion :: "nat \<Rightarrow> (bytes \<Rightarrow> u16 \<Rightarrow> MaProtocol) \<Rightarrow> bytes \<Rightarrow> MaError + MaProtocol \<times> bytes" where
  "read_onion n proto input =
     and_then (split_at (n + 2) input) (\<lambda>(data, rest). Inr (proto (take n data) (be_word (drop n data)), rest))"

definition read_p2p :: "Uvi \<Rightarrow> (bytes \<Rightarrow> (nat \<times> bytes) option) \<Rightarrow> bytes \<Rightarrow> MaError + MaProtocol \<times> bytes" where
  "read_p2p u mh_parse input =
     and_then (read_data u input)
       (\<lambda>(data, rest). case mh_parse data of None \<Rightarrow> Inl (ParsingError ''multihash'') | Some _ \<Rightarrow> Inr (P2p data, rest))"

definition read_memory :: "bytes \<Rightarrow> MaError + MaProtocol \<times> bytes" where
  "read_memory input = and_then (split_at 8 input) (\<lambda>(data, rest). Inr (Memory (be_word data), rest))"

definition read_body :: "Uvi \<Rightarrow> (bytes \<Rightarrow> (nat \<times> bytes) option) \<Rightarrow> u32 \<Rightarrow> bytes \<Rightarrow> MaError + MaProtocol \<times> bytes" where
  "read_body u mh_parse k input =
     (if k = DCCP then read_port Dccp input
      else if k = DNS then read_str u Dns input
      else if k = DNS4 then read_str u Dns4 input
      else if k = DNS6 then read_str u Dns6 input
      else if k = DNSADDR then read_str u Dnsaddr input
      else if k = HTTP then Inr (Http, input)
      else if k = HTTPS then Inr (Https, input)
      else if k = IP4 then read_ip4 input
      else if k = IP6 then read_ip6 input
      else if k = P2P_WEBRTC_DIRECT then Inr (P2pWebRtcDirect, input)
      else if k = P2P_WEBRTC_STAR then Inr (P2pWebRtcStar, input)
      else if k = P2P_WEBSOCKET_STAR then Inr (P2pWebSocketStar, input)
      else if k = MEMORY then read_memory input
      else if k = ONION then read_onion 10 Onion input
      else if k = ONION3 then read_onion 35 Onion3 input
      else if k = P2P then read_p2p u mh_parse input
      else if k = P2P_CIRCUIT then Inr (P2pCircuit, input)
      else if k = QUIC then Inr (Quic, input)
      else if k = SCTP then read_port Sctp input
      else if k = TCP then read_port Tcp input
      else if k = UDP then read_port Udp input
      else if k = UDT then Inr (Udt, input)
      else if k = UNIX then read_str u Unix input
      else if k = UTP then Inr (Utp, input)
      else if k = WS then Inr (Ws slash, input)
      else if k = WS_WITH_PATH then read_str u Ws input
      else if k = WSS then Inr (Wss slash, input)
      else if k = WSS_WITH_PATH then read_str u Wss input
      else Inl (UnknownProtocolId k))"

definition protocol_from_bytes ::
    "Uvi \<Rightarrow> (bytes \<Rightarrow> (nat \<times> bytes) option) \<Rightarrow> bytes \<Rightarrow> MaError + MaProtocol \<times> bytes" where
  "protocol_from_bytes u mh_parse input =
     and_then (uvar (u32_decode u) input) (\<lambda>(k, input). read_body u mh_parse k input)"

definition write_u16 :: "u16 \<Rightarrow> bytes" where
  "write_u16 n = be_bytes 2 n"

definition write_str :: "Uvi \<Rightarrow> bytes \<Rightarrow> bytes" where
  "write_str u s = usize_encode u (of_nat (length s)) @ s"

fun write_bytes :: "Uvi \<Rightarrow> MaProtocol \<Rightarrow> bytes" where
  "write_bytes u (Ip4 (Ipv4Addr a b c d)) = u32_encode u IP4 @ [a, b, c, d]"
| "write_bytes u (Ip6 (Ipv6Addr a b c d e f g h)) =
     u32_encode u IP6 @ concat (map write_u16 [a, b, c, d, e, f, g, h])"
| "write_bytes u (Tcp port) = u32_encode u TCP @ write_u16 port"
| "write_bytes u (Udp port) = u32_encode u UDP @ write_u16 port"
| "write_bytes u (Dccp port) = u32_encode u DCCP @ write_u16 port"
| "write_bytes u (Sctp port) = u32_encode u SCTP @ write_u16 port"
| "write_bytes u (Dns s) = u32_encode u DNS @ write_str u s"
| "write_bytes u (Dns4 s) = u32_encode u DNS4 @ write_str u s"
| "write_bytes u (Dns6 s) = u32_encode u DNS6 @ write_str u s"
| "write_bytes u (Dnsaddr s) = u32_encode u DNSADDR @ write_str u s"
| "write_bytes u (Unix s) = u32_encode u UNIX @ write_str u s"
| "write_bytes u (P2p m) = u32_encode u P2P @ write_str u m"
| "write_bytes u (Onion a port) = u32_encode u ONION @ a @ write_u16 port"
| "write_bytes u (Onion3 a port) = u32_encode u ONION3 @ a @ write_u16 port"
| "write_bytes u Quic = u32_encode u QUIC"
| "write_bytes u Utp = u32_encode u UTP"
| "write_bytes u Udt = u32_encode u UDT"
| "write_bytes u Http = u32_encode u HTTP"
| "write_bytes u Https = u32_encode u HTTPS"
| "write_bytes u (Ws s) =
     (if s = slash then u32_encode u WS else u32_encode u WS_WITH_PATH @ write_str u s)"
| "write_bytes u (Wss s) =
     (if s = slash then u32_encode u WSS else u32_encode u WSS_WITH_PATH @ write_str u s)"
| "write_bytes u P2pWebSocketStar = u32_encode u P2P_WEBSOCKET_STAR"
| "write_bytes u P2pWebRtcStar = u32_encode u P2P_WEBRTC_STAR"
| "write_bytes u P2pWebRtcDirect = u32_encode u P2P_WEBRTC_DIRECT"
| "write_bytes u P2pCircuit = u32_encode u P2P_CIRCUIT"
| "write_bytes u (Memory port) = u32_encode u MEMORY @ be_bytes 8 port"


section \<open>Addresses\<close>

type_synonym Multiaddr = bytes

definition ma_empty :: Multiaddr where
  "ma_empty = []"

definition push :: "Uvi \<Rightarrow> MaProtocol \<Rightarrow> Multiaddr \<Rightarrow> Multiaddr" where
  "push u p a = a @ write_bytes u p"

partial_function (option) pop_loop ::
    "Uvi \<Rightarrow> (bytes \<Rightarrow> (nat \<times> bytes) option) \<Rightarrow> bytes \<Rightarrow> (MaProtocol \<times> bytes) option" where
  "pop_loop u mh_parse sl =
     (case protocol_from_bytes u mh_parse sl of
        Inl _ \<Rightarrow> None
      | Inr r \<Rightarrow> if snd r = [] then Some (fst r, sl) else pop_loop u mh_parse (snd r))"

definition pop ::
    "Uvi \<Rightarrow> (bytes \<Rightarrow> (nat \<times> bytes) option) \<Rightarrow> Multiaddr \<Rightarrow> (MaProtocol option \<times> Multiaddr) option" where
  "pop u mh_parse a =
     (if a = [] then Some (None, a)
      else map_option (\<lambda>(p, sl). (Some p, take (length a - length sl) a)) (pop_loop u mh_parse a))"

text \<open>The components that \<open>iter\<close> yields.\<close>

partial_function (option) ma_iter ::
    "Uvi \<Rightarrow> (bytes \<Rightarrow> (nat \<times> bytes) option) \<Rightarrow> bytes \<Rightarrow> MaProtocol list option" where
  "ma_iter u mh_parse sl =
     (if sl = [] then Some []
      else (case protocol_from_bytes u mh_parse sl of
          Inl _ \<Rightarrow> None
        | Inr r \<Rightarrow> Option.bind (ma_iter u mh_parse (snd r)) (\<lambda>ps. Some (fst r # ps))))"

definition ma_from_iter :: "Uvi \<Rightarrow> MaProtocol list \<Rightarrow> Multiaddr" where
  "ma_from_iter u ps = concat (map (write_bytes u) ps)"

partial_function (option) check_protocols ::
    "Uvi \<Rightarrow> (bytes \<Rightarrow> (nat \<times> bytes) option) \<Rightarrow> bytes \<Rightarrow> (MaError + unit) option" where
  "check_protocols u mh_parse sl =
     (if sl = [] then Some (Inr ())
      else (case protocol_from_bytes u mh_parse sl of
          Inl e \<Rightarrow> Some (Inl e)
        | Inr r \<Rightarrow> check_protocols u mh_parse (snd r)))"

definition ma_try_from :: "Uvi \<Rightarrow> (bytes \<Rightarrow> (nat \<times> bytes) option) \<Rightarrow> bytes \<Rightarrow> (MaError + Multiaddr) option" where
  "ma_try_from u mh_parse v = map_option (map_sum id (\<lambda>_. v)) (check_protocols u mh_parse v)"

partial_function (option) replace_loop ::
    "Uvi \<Rightarrow> (bytes \<Rightarrow> (nat \<times> bytes) option) \<Rightarrow> nat \<Rightarrow> (MaProtocol \<Rightarrow> MaProtocol option) \<Rightarrow> nat \<Rightarrow> bool \<Rightarrow> Multiaddr \<Rightarrow> bytes \<Rightarrow>
      Multiaddr option option" where
  "replace_loop u mh_parse at f i replaced address sl =
     (if sl = [] then Some (if replaced then Some address else None)
      else (case protocol_from_bytes u mh_parse sl of
          Inl _ \<Rightarrow> None
        | Inr r \<Rightarrow>
            if i = at
            then (case f (fst r) of
                Some q \<Rightarrow> replace_loop u mh_parse at f (Suc i) True (push u q address) (snd r)
              | None \<Rightarrow> Some None)
            else replace_loop u mh_parse at f (Suc i) replaced (push u (fst r) address) (snd r)))"

definition ma_replace ::
    "Uvi \<Rightarrow> (bytes \<Rightarrow> (nat \<times> bytes) option) \<Rightarrow> nat \<Rightarrow> (MaProtocol \<Rightarrow> MaProtocol option) \<Rightarrow> Multiaddr \<Rightarrow> Multiaddr option option" where
  "ma_replace u mh_parse at f a = replace_loop u mh_parse at f 0 False ma_empty a"

fun ip4_is_loopback :: "Ipv4Addr \<Rightarrow> bool" where
  "ip4_is_loopback (Ipv4Addr a b c d) = (a = 127)"

fun ip4_is_private :: "Ipv4Addr \<Rightarrow> bool" where
  "ip4_is_private (Ipv4Addr a b c d) = (a = 10 \<or> a = 172 \<and> 16 \<le> b \<and> b \<le> 31 \<or> a = 192 \<and> b = 168)"

fun ip4_is_link_local :: "Ipv4Addr \<Rightarrow> bool" where
  "ip4_is_link_local (Ipv4Addr a b c d) = (a = 169 \<and> b = 254)"

definition ip6_is_loopback :: "Ipv6Addr \<Rightarrow> bool" where
  "ip6_is_loopback a = (a = Ipv6Addr 0 0 0 0 0 0 0 1)"

fun loopback_component :: "MaProtocol \<Rightarrow> bool \<Rightarrow> bool" where
  "loopback_component (Ip4 a) _ = ip4_is_loopback a"
| "loopback_component (Ip6 a) _ = ip6_is_loopback a"
| "loopback_component _ b = b"

definition is_loopback_addr :: "Uvi \<Rightarrow> (bytes \<Rightarrow> (nat \<times> bytes) option) \<Rightarrow> Multiaddr \<Rightarrow> bool option" where
  "is_loopback_addr u mh_parse a = map_option (\<lambda>ps. fold loopback_component ps False) (ma_iter u mh_parse a)"

fun private_component :: "MaProtocol \<Rightarrow> bool \<Rightarrow> bool" where
  "private_component (Ip4 a) _ = (ip4_is_private a \<or> ip4_is_loopback a \<or> ip4_is_link_local a)"
| "private_component (Ip6 a) _ = ip6_is_loopback a"
| "private_component _ b = b"

definition is_private_addr :: "Uvi \<Rightarrow> (bytes \<Rightarrow> (nat \<times> bytes) option) \<Rightarrow> Multiaddr \<Rightarrow> bool option" where
  "is_private_addr u mh_parse a = map_option (\<lambda>ps. fold private_component ps False) (ma_iter u mh_parse a)"

definition is_ipv6_addr :: "Uvi \<Rightarrow> (bytes \<Rightarrow> (nat \<times> bytes) option) \<Rightarrow> Multiaddr \<Rightarrow> bool option" where
  "is_ipv6_addr u mh_parse a =
     map_option (list_ex (\<lambda>p. case p of Ip6 _ \<Rightarrow> True | _ \<Rightarrow> False)) (ma_iter u mh_parse a)"

definition should_consume_fd :: "Uvi \<Rightarrow> (bytes \<Rightarrow> (nat \<times> bytes) option) \<Rightarrow> Multiaddr \<Rightarrow> bool option" where
  "should_consume_fd u mh_parse a =
     map_option (list_ex (\<lambda>p. case protocol_get_key p of Inr k \<Rightarrow> k = UNIX \<or> k = TCP | Inl _ \<Rightarrow> False)) (ma_iter u mh_parse a)"


section \<open>Readers\<close>

text \<open>A reader takes a prefix of the input, and its result does not depend on the rest.\<close>

definition reader :: "(bytes \<Rightarrow> MaError + 'a \<times> bytes) \<Rightarrow> bool" where
  "reader r \<longleftrightarrow> (\<forall>bs x rest. r bs = Inr (x, rest) \<longrightarrow> (\<exists>pre. bs = pre @ rest \<and> (\<forall>rest'. r (pre @ rest') = Inr (x, rest'))))"

lemma readerE:
  assumes "reader r" "r bs = Inr (x, rest)"
  obtains pre where "bs = pre @ rest" "\<And>rest'. r (pre @ rest') = Inr (x, rest')"
  using assms unfolding reader_def by blast

lemma reader_return [intro]: "reader (\<lambda>input. Inr (x, input))"
  by (auto simp: reader_def)

lemma reader_fail [intro]: "reader (\<lambda>input. Inl e)"
  by (auto simp: reader_def)

lemma reader_split_at [intro]: "reader (split_at n)"
proof -
  have "split_at n bs = Inr (x, rest) \<Longrightarrow> bs = x @ rest \<and> (\<forall>rest'. split_at n (x @ rest') = Inr (x, rest'))" for bs x rest
    by (auto simp: split_at_def split: if_splits)
  then show ?thesis unfolding reader_def by blast
qed

lemma reader_uvar [intro]:
  assumes "codec_ok enc dec"
  shows "reader (uvar dec)"
  unfolding reader_def
proof (intro allI impI)
  fix bs x rest
  assume "uvar dec bs = Inr (x, rest)"
  then have d: "dec bs = Inr (x, rest)" by (auto simp: uvar_def split: sum.splits)
  obtain pre where "bs = pre @ rest" "\<And>rest'. dec (pre @ rest') = Inr (x, rest')"
    using codec_prefix [OF assms d] by blast
  then show "\<exists>pre. bs = pre @ rest \<and> (\<forall>rest'. uvar dec (pre @ rest') = Inr (x, rest'))" by (auto simp: uvar_def)
qed

lemma reader_then [intro]:
  assumes "reader r" "\<And>x. reader (f x)"
  shows "reader (\<lambda>input. and_then (r input) (\<lambda>(x, input). f x input))"
  unfolding reader_def
proof (intro allI impI)
  fix bs y rest
  assume "and_then (r bs) (\<lambda>(x, input). f x input) = Inr (y, rest)"
  then obtain x mid where x: "r bs = Inr (x, mid)" "f x mid = Inr (y, rest)" by (auto simp: and_then_Inr_iff)
  obtain p where p: "bs = p @ mid" "\<And>rest'. r (p @ rest') = Inr (x, rest')" using readerE [OF assms(1) x(1)] by blast
  obtain q where q: "mid = q @ rest" "\<And>rest'. f x (q @ rest') = Inr (y, rest')" using readerE [OF assms(2) x(2)] by blast
  have "r (p @ q @ rest') = Inr (x, q @ rest')" for rest' by (rule p(2))
  then show "\<exists>pre. bs = pre @ rest \<and> (\<forall>rest'. and_then (r (pre @ rest')) (\<lambda>(x, input). f x input) = Inr (y, rest'))"
    using p q by (intro exI [of _ "p @ q"]) simp
qed

lemma reader_if: "reader r \<Longrightarrow> reader s \<Longrightarrow> reader (\<lambda>input. if b then r input else s input)"
  by (cases b) auto

lemma reader_option: "reader r \<Longrightarrow> (\<And>x. reader (s x)) \<Longrightarrow> reader (\<lambda>input. case b of None \<Rightarrow> r input | Some x \<Rightarrow> s x input)"
  by (cases b) auto

lemma reader_data [intro]: "uvi_ok u \<Longrightarrow> reader (read_data u)"
  unfolding read_data_def using uvi_okD(3) by blast

lemma reader_str: "uvi_ok u \<Longrightarrow> reader (read_str u proto)"
  unfolding read_str_def by (rule reader_then) (auto intro: reader_if)

lemma reader_port: "reader (read_port proto)"
  unfolding read_port_def by (rule reader_then) auto

lemma reader_ip4: "reader read_ip4"
  unfolding read_ip4_def by (rule reader_then) auto

lemma reader_ip6: "reader read_ip6"
  unfolding read_ip6_def Let_def by (rule reader_then) auto

lemma reader_onion: "reader (read_onion n proto)"
  unfolding read_onion_def by (rule reader_then) auto

lemma reader_memory: "reader read_memory"
  unfolding read_memory_def by (rule reader_then) auto

lemma reader_p2p: "uvi_ok u \<Longrightarrow> reader (read_p2p u mh_parse)"
  unfolding read_p2p_def by (rule reader_then) (auto intro: reader_option)

lemma reader_body: "uvi_ok u \<Longrightarrow> reader (read_body u mh_parse k)"
  unfolding read_body_def
  by (intro reader_if reader_str reader_port reader_ip4 reader_ip6 reader_onion reader_memory reader_p2p reader_return
      reader_fail)

lemma protocol_from_bytes_prefix:
  assumes "uvi_ok u" "protocol_from_bytes u mh_parse bs = Inr (p, rest)"
  obtains pre where "pre \<noteq> []" "bs = pre @ rest" "\<And>rest'. protocol_from_bytes u mh_parse (pre @ rest') = Inr (p, rest')"
proof -
  obtain k mid where k: "u32_decode u bs = Inr (k, mid)" "read_body u mh_parse k mid = Inr (p, rest)"
    using assms(2) by (auto simp: protocol_from_bytes_def and_then_Inr_iff uvar_def split: sum.splits)
  obtain a where a: "a \<noteq> []" "bs = a @ mid" "\<And>rest'. u32_decode u (a @ rest') = Inr (k, rest')"
    using codec_prefix [OF uvi_okD(2) [OF assms(1)] k(1)] by blast
  obtain b where b: "mid = b @ rest" "\<And>rest'. read_body u mh_parse k (b @ rest') = Inr (p, rest')"
    using readerE [OF reader_body [OF assms(1)] k(2)] by blast
  have "protocol_from_bytes u mh_parse ((a @ b) @ rest') = Inr (p, rest')" for rest'
    using a(3) [of "b @ rest'"] b(2) by (simp add: protocol_from_bytes_def uvar_def)
  then show ?thesis using that [of "a @ b"] a(1,2) b(1) by simp
qed


section \<open>Round trip of a protocol\<close>

text \<open>The invariant of the Rust types: strings are UTF-8, the arrays have their length, a multihash is valid.\<close>

fun protocol_ok :: "(bytes \<Rightarrow> (nat \<times> bytes) option) \<Rightarrow> MaProtocol \<Rightarrow> bool" where
  "protocol_ok mh_parse (Dns s) = (utf8_valid s \<and> length s < 2 ^ 64)"
| "protocol_ok mh_parse (Dns4 s) = (utf8_valid s \<and> length s < 2 ^ 64)"
| "protocol_ok mh_parse (Dns6 s) = (utf8_valid s \<and> length s < 2 ^ 64)"
| "protocol_ok mh_parse (Dnsaddr s) = (utf8_valid s \<and> length s < 2 ^ 64)"
| "protocol_ok mh_parse (Unix s) = (utf8_valid s \<and> length s < 2 ^ 64)"
| "protocol_ok mh_parse (Ws s) = (utf8_valid s \<and> length s < 2 ^ 64)"
| "protocol_ok mh_parse (Wss s) = (utf8_valid s \<and> length s < 2 ^ 64)"
| "protocol_ok mh_parse (P2p m) = (mh_parse m \<noteq> None \<and> length m < 2 ^ 64)"
| "protocol_ok mh_parse (Onion a _) = (length a = 10)"
| "protocol_ok mh_parse (Onion3 a _) = (length a = 35)"
| "protocol_ok mh_parse _ = True"

lemma split_at_append [simp]: "length xs = n \<Longrightarrow> split_at n (xs @ rest) = Inr (xs, rest)"
  by (simp add: split_at_def)

lemma read_data_write:
  assumes "uvi_ok u" "length s < 2 ^ 64"
  shows "read_data u (write_str u s @ rest) = Inr (s, rest)"
proof -
  have "unat (of_nat (length s) :: usize) = length s" using assms(2) by (simp add: unat_of_nat take_bit_nat_eq_self)
  then show ?thesis
    using codec_decode [OF uvi_okD(3) [OF assms(1)]] by (simp add: read_data_def write_str_def uvar_def)
qed

lemma read_str_write:
  "uvi_ok u \<Longrightarrow> length s < 2 ^ 64 \<Longrightarrow> utf8_valid s \<Longrightarrow> read_str u proto (write_str u s @ rest) = Inr (proto s, rest)"
  by (simp add: read_str_def read_data_write)

lemma read_p2p_write:
  "uvi_ok u \<Longrightarrow> length s < 2 ^ 64 \<Longrightarrow> mh_parse s \<noteq> None \<Longrightarrow> read_p2p u mh_parse (write_str u s @ rest) = Inr (P2p s, rest)"
  by (auto simp: read_p2p_def read_data_write)

lemma read_port_write: "read_port proto (write_u16 port @ rest) = Inr (proto port, rest)"
  by (simp add: read_port_def write_u16_def be_word_bytes)

lemma read_memory_write: "read_memory (be_bytes 8 m @ rest) = Inr (Memory m, rest)"
  by (simp add: read_memory_def be_word_bytes)

lemma read_onion_write: "length a = n \<Longrightarrow> read_onion n onion (a @ write_u16 port @ rest) = Inr (onion a port, rest)"
  using split_at_append [of "a @ write_u16 port" "n + 2" rest] by (simp add: read_onion_def write_u16_def be_word_bytes)

lemma write_u16_pair: "\<exists>a b. write_u16 w = [a, b] \<and> be_word [a, b] = w"
proof -
  have "length (write_u16 w) = 2" by (simp add: write_u16_def)
  then obtain a b where ab: "write_u16 w = [a, b]" by (auto simp: length_Suc_conv eval_nat_numeral)
  have "be_word (write_u16 w) = w" unfolding write_u16_def by (rule be_word_bytes) simp
  with ab show ?thesis by auto
qed

lemma read_ip6_write:
  "read_ip6 (concat (map write_u16 [a, b, c, d, e, f, g, h]) @ rest) = Inr (Ip6 (Ipv6Addr a b c d e f g h), rest)"
proof -
  note pair = write_u16_pair
  obtain a1 a2 b1 b2 c1 c2 d1 d2 where p:
    "write_u16 a = [a1, a2]" "be_word [a1, a2] = a" "write_u16 b = [b1, b2]" "be_word [b1, b2] = b"
    "write_u16 c = [c1, c2]" "be_word [c1, c2] = c" "write_u16 d = [d1, d2]" "be_word [d1, d2] = d"
    using pair [of a] pair [of b] pair [of c] pair [of d] by blast
  obtain e1 e2 f1 f2 g1 g2 h1 h2 where q:
    "write_u16 e = [e1, e2]" "be_word [e1, e2] = e" "write_u16 f = [f1, f2]" "be_word [f1, f2] = f"
    "write_u16 g = [g1, g2]" "be_word [g1, g2] = g" "write_u16 h = [h1, h2]" "be_word [h1, h2] = h"
    using pair [of e] pair [of f] pair [of g] pair [of h] by blast
  show ?thesis using p q by (simp add: read_ip6_def split_at_def)
qed

lemma read_ip4_write: "read_ip4 (a # b # c # d # rest) = Inr (Ip4 (Ipv4Addr a b c d), rest)"
  by (simp add: read_ip4_def split_at_def)

lemmas read_writes =
  read_str_write read_p2p_write read_port_write read_memory_write read_onion_write read_ip4_write

lemma protocol_roundtrip:
  assumes "uvi_ok u" "protocol_ok mh_parse p"
  shows "protocol_from_bytes u mh_parse (write_bytes u p @ rest) = Inr (p, rest)"
proof -
  have dec: "uvar (u32_decode u) (u32_encode u k @ r) = Inr (k, r)" for k r
    using codec_decode [OF uvi_okD(2) [OF assms(1)]] by (simp add: uvar_def)
  show ?thesis
    using assms(2)
  proof (cases p)
    case (Ip4 a)
    then show ?thesis
      by (cases a) (simp add: protocol_from_bytes_def dec read_body_def protocol_codes read_ip4_write)
  next
    case (Ip6 a)
    obtain s where s: "a = Ipv6Addr (s 0) (s 1) (s 2) (s 3) (s 4) (s 5) (s 6) (s (7::nat))"
      by (cases a) (rule that [of "\<lambda>i. [x1, x2, x3, x4, x5, x6, x7, x8] ! i" for x1 x2 x3 x4 x5 x6 x7 x8], simp)
    have "protocol_from_bytes u mh_parse (write_bytes u p @ rest) =
        read_ip6 (concat (map write_u16 [s 0, s 1, s 2, s 3, s 4, s 5, s 6, s 7]) @ rest)"
      by (simp add: Ip6 s protocol_from_bytes_def dec read_body_def protocol_codes)
    then show ?thesis by (simp only: read_ip6_write Ip6 s)
  qed (simp_all add: protocol_from_bytes_def dec read_body_def protocol_codes read_writes assms(1))
qed


section \<open>Valid addresses\<close>

text \<open>
  \<open>addr u mh_parse a ps\<close>: the address \<open>a\<close> is a sequence of pieces, each of which reads as one of the protocols
  \<open>ps\<close> whatever follows it.
\<close>

inductive addr :: "Uvi \<Rightarrow> (bytes \<Rightarrow> (nat \<times> bytes) option) \<Rightarrow> Multiaddr \<Rightarrow> MaProtocol list \<Rightarrow> bool" for u mh_parse where
  addr_Nil: "addr u mh_parse [] []"
| addr_Cons:
    "c \<noteq> [] \<Longrightarrow> (\<And>rest. protocol_from_bytes u mh_parse (c @ rest) = Inr (p, rest)) \<Longrightarrow> protocol_ok mh_parse p \<Longrightarrow>
     addr u mh_parse a ps \<Longrightarrow> addr u mh_parse (c @ a) (p # ps)"

inductive_cases addr_NilE: "addr u mh_parse a []"
inductive_cases addr_ConsE: "addr u mh_parse a (p # ps)"

lemma addr_append: "addr u mh_parse a ps \<Longrightarrow> addr u mh_parse b qs \<Longrightarrow> addr u mh_parse (a @ b) (ps @ qs)"
  by (induction rule: addr.induct) (auto intro: addr.intros)

lemma write_bytes_ne: "uvi_ok u \<Longrightarrow> write_bytes u p \<noteq> []"
  using codec_enc_ne [OF uvi_okD(2), of u] by (cases "(u, p)" rule: write_bytes.cases) auto

lemma addr_write: "uvi_ok u \<Longrightarrow> protocol_ok mh_parse p \<Longrightarrow> addr u mh_parse (write_bytes u p) [p]"
  using addr_Cons [OF write_bytes_ne protocol_roundtrip _ addr_Nil, of u mh_parse p] by simp

lemma addr_push:
  "uvi_ok u \<Longrightarrow> addr u mh_parse a ps \<Longrightarrow> protocol_ok mh_parse p \<Longrightarrow> addr u mh_parse (push u p a) (ps @ [p])"
  by (simp add: push_def addr_append addr_write)

lemma addr_from_iter:
  "uvi_ok u \<Longrightarrow> list_all (protocol_ok mh_parse) ps \<Longrightarrow> addr u mh_parse (ma_from_iter u ps) ps"
proof (induction ps)
  case (Cons p ps)
  then show ?case using addr_append [OF addr_write, of u mh_parse p] by (simp add: ma_from_iter_def)
qed (simp add: ma_from_iter_def addr_Nil)

lemma addr_protocol_ok: "addr u mh_parse a ps \<Longrightarrow> list_all (protocol_ok mh_parse) ps"
  by (induction rule: addr.induct) auto

lemma addr_Nil_iff: "addr u mh_parse a ps \<Longrightarrow> a = [] \<longleftrightarrow> ps = []"
  by (induction rule: addr.induct) auto

lemma addr_iter: "addr u mh_parse a ps \<Longrightarrow> ma_iter u mh_parse a = Some ps"
proof (induction rule: addr.induct)
  case addr_Nil
  then show ?case by (simp add: ma_iter.simps)
next
  case (addr_Cons c p a ps)
  then show ?case by (subst ma_iter.simps) simp
qed

lemma addr_check: "addr u mh_parse a ps \<Longrightarrow> check_protocols u mh_parse a = Some (Inr ())"
proof (induction rule: addr.induct)
  case addr_Nil
  then show ?case by (simp add: check_protocols.simps)
next
  case (addr_Cons c p a ps)
  then show ?case by (subst check_protocols.simps) simp
qed

lemma addr_pop_loop:
  assumes "addr u mh_parse a ps" "ps \<noteq> []"
  shows "\<exists>b c. a = b @ c \<and> addr u mh_parse b (butlast ps) \<and> pop_loop u mh_parse a = Some (last ps, c)"
  using assms
proof (induction rule: addr.induct)
  case (addr_Cons c p a ps)
  show ?case
  proof (cases "ps = []")
    case True
    with addr_Cons.hyps(4) have "a = []" using addr_Nil_iff by blast
    with True addr_Cons.hyps(2) [of "[]"] show ?thesis
      by (intro exI [of _ "[]"] exI [of _ c]) (simp add: pop_loop.simps addr_Nil)
  next
    case False
    with addr_Cons obtain b d where bd: "a = b @ d" "addr u mh_parse b (butlast ps)" "pop_loop u mh_parse a = Some (last ps, d)"
      by blast
    from False addr_Cons.hyps(4) have "a \<noteq> []" using addr_Nil_iff by blast
    then have "pop_loop u mh_parse (c @ a) = pop_loop u mh_parse a"
      using addr_Cons.hyps(2) [of a] by (subst pop_loop.simps) simp
    with bd False addr.addr_Cons [OF addr_Cons.hyps(1-3) bd(2)] show ?thesis
      by (intro exI [of _ "c @ b"] exI [of _ d]) simp
  qed
qed simp

lemma addr_pop:
  assumes "addr u mh_parse a ps"
  shows "if ps = [] then pop u mh_parse a = Some (None, a)
    else \<exists>b. pop u mh_parse a = Some (Some (last ps), b) \<and> addr u mh_parse b (butlast ps)"
proof (cases "ps = []")
  case True
  with addr_Nil_iff [OF assms] show ?thesis by (simp add: pop_def)
next
  case False
  from addr_pop_loop [OF assms False] obtain b c where
    "a = b @ c" "addr u mh_parse b (butlast ps)" "pop_loop u mh_parse a = Some (last ps, c)" by blast
  with addr_Nil_iff [OF assms] False show ?thesis by (auto simp: pop_def)
qed

text \<open>The protocols that are read satisfy the invariant of their type.\<close>

lemma split_at_lengths: "split_at n bs = Inr (x, rest) \<Longrightarrow> length x = n \<and> length bs = n + length rest"
  by (auto simp: split_at_def split: if_splits)

lemma read_data_length:
  assumes "read_data u bs = Inr (x, rest)"
  shows "length x < 2 ^ 64"
proof -
  obtain n mid where "split_at (unat (n :: usize)) mid = Inr (x, rest)"
    using assms by (auto simp: read_data_def and_then_Inr_iff)
  then have "length x = unat n" using split_at_lengths by blast
  then show ?thesis using unsigned_less [of n] by simp
qed

lemma read_body_ok: "read_body u mh_parse k bs = Inr (p, rest) \<Longrightarrow> protocol_ok mh_parse p"
  by (auto simp: read_body_def read_port_def read_str_def read_ip4_def read_ip6_def read_onion_def read_p2p_def
      read_memory_def and_then_Inr_iff slash_def Let_def
      split: if_splits option.splits dest: split_at_lengths read_data_length)

lemma protocol_from_bytes_ok: "protocol_from_bytes u mh_parse bs = Inr (p, rest) \<Longrightarrow> protocol_ok mh_parse p"
  by (auto simp: protocol_from_bytes_def and_then_Inr_iff dest: read_body_ok)

lemma check_protocols_cases:
  assumes "uvi_ok u"
  shows "(\<exists>ps. addr u mh_parse a ps) \<or> (\<exists>e. check_protocols u mh_parse a = Some (Inl e))"
proof (induction a rule: length_induct)
  case (1 a)
  show ?case
  proof (cases "a = []")
    case True
    then show ?thesis using addr_Nil by blast
  next
    case False
    show ?thesis
    proof (cases "protocol_from_bytes u mh_parse a")
      case (Inl e)
      with False show ?thesis by (subst check_protocols.simps) simp
    next
      case (Inr r)
      obtain p rest where "r = (p, rest)" by (cases r)
      with Inr have p: "protocol_from_bytes u mh_parse a = Inr (p, rest)" by simp
      obtain c where c: "c \<noteq> []" "a = c @ rest" "\<And>rest'. protocol_from_bytes u mh_parse (c @ rest') = Inr (p, rest')"
        using protocol_from_bytes_prefix [OF assms p] by blast
      then have "(\<exists>ps. addr u mh_parse rest ps) \<or> (\<exists>e. check_protocols u mh_parse rest = Some (Inl e))" using 1 by simp
      then show ?thesis
      proof
        assume "\<exists>ps. addr u mh_parse rest ps"
        then show ?thesis using addr_Cons [OF c(1,3) protocol_from_bytes_ok [OF p]] c(2) by blast
      next
        assume "\<exists>e. check_protocols u mh_parse rest = Some (Inl e)"
        then show ?thesis using False p by (subst check_protocols.simps) simp
      qed
    qed
  qed
qed

lemma try_from_cases:
  assumes "uvi_ok u"
  shows "(\<exists>ps. addr u mh_parse a ps \<and> ma_try_from u mh_parse a = Some (Inr a)) \<or> (\<exists>e. ma_try_from u mh_parse a = Some (Inl e))"
  using check_protocols_cases [OF assms, of mh_parse a] addr_check [of u mh_parse a] unfolding ma_try_from_def by fastforce

text \<open>The replacement of a component, on the lists of components.\<close>

definition replaced_components ::
    "nat \<Rightarrow> (MaProtocol \<Rightarrow> MaProtocol option) \<Rightarrow> MaProtocol list \<Rightarrow> MaProtocol list option" where
  "replaced_components at f ps = (if at < length ps then map_option (\<lambda>q. ps[at := q]) (f (ps ! at)) else None)"

lemma replace_loop_after:
  assumes "addr u mh_parse a ps" "at < i"
  shows "replace_loop u mh_parse at f i r b a = Some (if r then Some (b @ ma_from_iter u ps) else None)"
  using assms
proof (induction arbitrary: i b rule: addr.induct)
  case addr_Nil
  then show ?case by (simp add: replace_loop.simps ma_from_iter_def)
next
  case (addr_Cons c p a ps)
  then show ?case by (subst replace_loop.simps) (simp add: push_def ma_from_iter_def)
qed

lemma replace_loop_components:
  assumes "addr u mh_parse a ps"
  shows "replace_loop u mh_parse (i + at) f i False b a = Some (map_option (\<lambda>qs. b @ ma_from_iter u qs) (replaced_components at f ps))"
  using assms
proof (induction arbitrary: i at b rule: addr.induct)
  case addr_Nil
  then show ?case by (simp add: replace_loop.simps replaced_components_def)
next
  case (addr_Cons c p a ps)
  show ?case
  proof (cases at)
    case 0
    with addr_Cons replace_loop_after [OF addr_Cons.hyps(4), of i "Suc i"] show ?thesis
      by (subst replace_loop.simps) (auto simp: replaced_components_def push_def ma_from_iter_def split: option.splits)
  next
    case (Suc k)
    with addr_Cons.hyps addr_Cons.IH [of "Suc i" k "push u p b"] show ?thesis
      by (subst replace_loop.simps)
        (auto simp: replaced_components_def push_def ma_from_iter_def option.map_comp comp_def split: option.splits)
  qed
qed

lemma ma_replace_components:
  "addr u mh_parse a ps \<Longrightarrow> ma_replace u mh_parse at f a = Some (map_option (ma_from_iter u) (replaced_components at f ps))"
  using replace_loop_components [of u mh_parse a ps 0 at f ma_empty] by (simp add: ma_replace_def ma_empty_def)

lemma pop_loop_skip:
  assumes "addr u mh_parse a ps" "b \<noteq> []"
  shows "pop_loop u mh_parse (a @ b) = pop_loop u mh_parse b"
  using assms
proof (induction rule: addr.induct)
  case (addr_Cons c p a ps)
  then show ?case by (subst pop_loop.simps) simp
qed simp

lemma pop_push:
  assumes "uvi_ok u" "addr u mh_parse a ps" "protocol_ok mh_parse p"
  shows "pop u mh_parse (push u p a) = Some (Some p, a)"
proof -
  have "pop_loop u mh_parse (write_bytes u p) = Some (p, write_bytes u p)"
    using protocol_roundtrip [OF assms(1,3), of "[]"] by (subst pop_loop.simps) simp
  with pop_loop_skip [OF assms(2) write_bytes_ne [OF assms(1)], of p] write_bytes_ne [OF assms(1), of p] show ?thesis
    by (simp add: pop_def push_def)
qed


section \<open>Properties\<close>

text \<open>The addresses a program can build with the public operations of the type.\<close>

inductive ma_value :: "Uvi \<Rightarrow> (bytes \<Rightarrow> (nat \<times> bytes) option) \<Rightarrow> Multiaddr \<Rightarrow> bool" for u mh_parse where
  value_empty: "ma_value u mh_parse ma_empty"
| value_push: "ma_value u mh_parse a \<Longrightarrow> protocol_ok mh_parse p \<Longrightarrow> ma_value u mh_parse (push u p a)"
| value_pop: "ma_value u mh_parse a \<Longrightarrow> pop u mh_parse a = Some (p, b) \<Longrightarrow> ma_value u mh_parse b"
| value_from_iter: "list_all (protocol_ok mh_parse) ps \<Longrightarrow> ma_value u mh_parse (ma_from_iter u ps)"
| value_try_from: "ma_try_from u mh_parse v = Some (Inr a) \<Longrightarrow> ma_value u mh_parse a"
| value_replace:
    "ma_value u mh_parse a \<Longrightarrow> (\<And>p q. f p = Some q \<Longrightarrow> protocol_ok mh_parse q) \<Longrightarrow>
     ma_replace u mh_parse at f a = Some (Some b) \<Longrightarrow> ma_value u mh_parse b"

lemma replaced_components_ok:
  assumes "replaced_components at f ps = Some qs" "list_all (protocol_ok mh_parse) ps"
    and "\<And>p q. f p = Some q \<Longrightarrow> protocol_ok mh_parse q"
  shows "list_all (protocol_ok mh_parse) qs"
  using assms by (auto simp: replaced_components_def list_all_iff set_update_memI dest!: set_update_subset_insert [THEN subsetD]
      split: if_splits)

lemma ma_value_addr:
  assumes "uvi_ok u" "ma_value u mh_parse a"
  shows "\<exists>ps. addr u mh_parse a ps"
  using assms(2)
proof (induction rule: ma_value.induct)
  case value_empty
  show ?case unfolding ma_empty_def using addr_Nil by blast
next
  case (value_push a p)
  then show ?case using addr_push [OF assms(1)] by blast
next
  case (value_pop a p b)
  then obtain ps where "addr u mh_parse a ps" by blast
  with addr_pop [OF this] value_pop.hyps(2) show ?case by (auto split: if_splits)
next
  case (value_from_iter ps)
  then show ?case using addr_from_iter [OF assms(1)] by blast
next
  case (value_try_from v a)
  with try_from_cases [OF assms(1), of mh_parse v] show ?case by auto
next
  case (value_replace a f at b)
  then obtain ps where ps: "addr u mh_parse a ps" by blast
  with value_replace.hyps(3) obtain qs where "replaced_components at f ps = Some qs" "b = ma_from_iter u qs"
    by (auto simp: ma_replace_components)
  with value_replace.hyps(2) addr_protocol_ok [OF ps] show ?case
    using replaced_components_ok addr_from_iter [OF assms(1)] by blast
qed

text \<open>
  C23: Type soundness of \<open>Multiaddr\<close>. Every address that can be built, also one that was parsed from bytes a
  peer sent and then cut and extended, consists of well-formed protocols, is accepted by \<open>try_from\<close> unchanged, and
  none of the operations on it panics or fails to end; \<open>try_from\<close> itself ends on every input.
\<close>

theorem multiaddr_sound:
  assumes "uvi_ok u" "ma_value u mh_parse a"
  shows "(\<exists>ps. ma_iter u mh_parse a = Some ps \<and> list_all (protocol_ok mh_parse) ps) \<and>
    ma_try_from u mh_parse a = Some (Inr a) \<and> pop u mh_parse a \<noteq> None \<and> (\<forall>at f. ma_replace u mh_parse at f a \<noteq> None) \<and>
    is_loopback_addr u mh_parse a \<noteq> None \<and> is_private_addr u mh_parse a \<noteq> None \<and>
    is_ipv6_addr u mh_parse a \<noteq> None \<and> should_consume_fd u mh_parse a \<noteq> None \<and> (\<forall>v. ma_try_from u mh_parse v \<noteq> None)"
proof -
  obtain ps where ps: "addr u mh_parse a ps" using ma_value_addr [OF assms] by blast
  have "ma_try_from u mh_parse a = Some (Inr a)" using addr_check [OF ps] by (simp add: ma_try_from_def)
  moreover have "pop u mh_parse a \<noteq> None" using addr_pop [OF ps] by (auto split: if_splits)
  moreover have "ma_try_from u mh_parse v \<noteq> None" for v
    using try_from_cases [OF assms(1), of mh_parse v] by auto
  ultimately show ?thesis
    using addr_iter [OF ps] addr_protocol_ok [OF ps] ma_replace_components [OF ps]
    by (simp add: is_loopback_addr_def is_private_addr_def is_ipv6_addr_def should_consume_fd_def)
qed

definition sample_multihash :: "bytes \<Rightarrow> (nat \<times> bytes) option" where
  "sample_multihash b = (if length b = 34 then Some (0x12, drop 2 b) else None)"

definition sample_protocols :: "MaProtocol list" where
  "sample_protocols = [Ip4 (Ipv4Addr 127 0 0 1), Tcp 4001, Ws [0x2F, 0x61], P2p (replicate 34 1)]"

lemma sample_value: "ma_value sample_uvi sample_multihash (ma_from_iter sample_uvi sample_protocols)"
  by (rule value_from_iter) (simp add: sample_protocols_def sample_multihash_def)

theorem multiaddr_sound_witness:
  "pop sample_uvi sample_multihash (ma_from_iter sample_uvi sample_protocols) \<noteq> None \<and>
   ma_try_from sample_uvi sample_multihash (ma_from_iter sample_uvi sample_protocols) =
     Some (Inr (ma_from_iter sample_uvi sample_protocols))"
  using multiaddr_sound [OF sample_uvi_ok sample_value] by blast

text \<open>
  C30: The operations on an address are those on the list of its protocols: writing protocols and reading them
  back returns them, \<open>push\<close> appends a protocol and \<open>pop\<close> takes it off again, \<open>pop\<close> removes the last protocol, and
  \<open>replace\<close> changes the protocol at the given position and no other.
\<close>

theorem multiaddr_components:
  assumes "uvi_ok u" "ma_value u mh_parse a" "ma_iter u mh_parse a = Some ps"
    and "list_all (protocol_ok mh_parse) (p # qs)"
    and "\<And>p q. f p = Some q \<Longrightarrow> protocol_ok mh_parse q"
  shows "ma_iter u mh_parse (ma_from_iter u qs) = Some qs \<and>
    ma_iter u mh_parse (push u p a) = Some (ps @ [p]) \<and> pop u mh_parse (push u p a) = Some (Some p, a) \<and>
    (case pop u mh_parse a of
       Some (Some q, b) \<Rightarrow> ps \<noteq> [] \<and> q = last ps \<and> ma_iter u mh_parse b = Some (butlast ps)
     | Some (None, b) \<Rightarrow> ps = [] \<and> b = a
     | None \<Rightarrow> False) \<and>
    (case ma_replace u mh_parse at f a of
       Some (Some b) \<Rightarrow> at < length ps \<and> (\<exists>q. f (ps ! at) = Some q \<and> ma_iter u mh_parse b = Some (ps[at := q]))
     | Some None \<Rightarrow> length ps \<le> at \<or> f (ps ! at) = None
     | None \<Rightarrow> False)"
proof -
  obtain ps' where "addr u mh_parse a ps'" using ma_value_addr [OF assms(1,2)] by blast
  with addr_iter assms(3) have ps: "addr u mh_parse a ps" by fastforce
  have "ma_iter u mh_parse (ma_from_iter u qs) = Some qs"
    using addr_iter [OF addr_from_iter [OF assms(1)]] assms(4) by simp
  moreover have "ma_iter u mh_parse (push u p a) = Some (ps @ [p])" "pop u mh_parse (push u p a) = Some (Some p, a)"
    using addr_iter [OF addr_push [OF assms(1) ps]] pop_push [OF assms(1) ps] assms(4) by simp_all
  moreover have "case pop u mh_parse a of
       Some (Some q, b) \<Rightarrow> ps \<noteq> [] \<and> q = last ps \<and> ma_iter u mh_parse b = Some (butlast ps)
     | Some (None, b) \<Rightarrow> ps = [] \<and> b = a
     | None \<Rightarrow> False"
    using addr_pop [OF ps] addr_iter by (auto split: if_splits)
  moreover have "case ma_replace u mh_parse at f a of
       Some (Some b) \<Rightarrow> at < length ps \<and> (\<exists>q. f (ps ! at) = Some q \<and> ma_iter u mh_parse b = Some (ps[at := q]))
     | Some None \<Rightarrow> length ps \<le> at \<or> f (ps ! at) = None
     | None \<Rightarrow> False"
  proof (cases "replaced_components at f ps")
    case None
    then show ?thesis by (auto simp: ma_replace_components [OF ps] replaced_components_def split: if_splits)
  next
    case (Some rs)
    then have "ma_iter u mh_parse (ma_from_iter u rs) = Some rs"
      using addr_iter [OF addr_from_iter [OF assms(1)]] replaced_components_ok addr_protocol_ok [OF ps] assms(5) by blast
    with Some show ?thesis by (auto simp: ma_replace_components [OF ps] replaced_components_def split: if_splits)
  qed
  ultimately show ?thesis by blast
qed

theorem multiaddr_components_witness:
  "pop sample_uvi sample_multihash (push sample_uvi Quic (ma_from_iter sample_uvi sample_protocols)) =
     Some (Some Quic, ma_from_iter sample_uvi sample_protocols) \<and>
   ma_iter sample_uvi sample_multihash (push sample_uvi Quic (ma_from_iter sample_uvi sample_protocols)) =
     Some (sample_protocols @ [Quic])"
proof -
  have "list_all (protocol_ok sample_multihash) sample_protocols"
    by (simp add: sample_protocols_def sample_multihash_def)
  then have "ma_iter sample_uvi sample_multihash (ma_from_iter sample_uvi sample_protocols) = Some sample_protocols"
    by (rule addr_iter [OF addr_from_iter [OF sample_uvi_ok]])
  moreover have "list_all (protocol_ok sample_multihash) [Quic]" by simp
  ultimately show ?thesis
    using multiaddr_components [OF sample_uvi_ok sample_value, of sample_protocols Quic "[]" "\<lambda>_. None"] by auto
qed

end
