(* ===== verification/Floodsub.thy ===== *)
theory Floodsub
  imports Prelude Peer_Id "HOL-Library.Countable"
begin

text \<open>
  The flooding publish/subscribe protocol (\<open>protocols/floodsub/src\<close>: \<open>floodsub.rs\<close>, \<open>protocol.rs\<close>, \<open>control.rs\<close>,
  \<open>subscription.rs\<close>, \<open>lib.rs\<close> and \<open>rpc.proto\<close>). The state of the main loop is the record \<open>FloodSub\<close>. A handler of
  the loop returns the new state and what it sends: packets on the channels of the connected peers, messages on
  the channels of the local subscriptions and replies to commands. The generated protobuf code is a parameter,
  \<open>encode\<close> and \<open>decode\<close>; so is the random number that a new subscription gets as its identifier.

  \<open>Net\<close> puts nodes together: a packet that a node sends travels to the peer it is meant for, whose handler
  reads it and passes it to the main loop there. Packets can overtake each other.
\<close>

section \<open>Data\<close>

type_synonym Topic = string

type_synonym SubId = u32

record FloodsubConfig =
  local_peer_id :: PeerId
  subscribe_local_messages :: bool


record FloodsubMessage =
  fm_source :: PeerId
  fm_data :: bytes
  sequence_number :: bytes
  fm_topics :: "Topic list"

datatype FloodsubSubscriptionAction = Subscribe | Unsubscribe

record FloodsubSubscription =
  fs_action :: FloodsubSubscriptionAction
  fs_topic :: Topic

record FloodsubRpc =
  fr_messages :: "FloodsubMessage list"
  fr_subscriptions :: "FloodsubSubscription list"


datatype PeerEvent = NewPeer PeerId | DeadPeer PeerId

datatype FloodsubError = IoErr string | Closed

datatype FloodsubDecodeError = ReadError string | ProtobufError | InvalidPeerId | ProtocolExit

text \<open>The messages of \<open>rpc.proto\<close>; optional fields are options.\<close>

record FsProtoMessage =
  pb_from :: "bytes option"
  pb_data :: "bytes option"
  pb_seqno :: "bytes option"
  pb_topic_ids :: "string list"

record FsSubOpts =
  pb_subscribe :: "bool option"
  pb_topic_id :: "string option"

record FsProtoRpc =
  pb_subscriptions :: "FsSubOpts list"
  pb_publish :: "FsProtoMessage list"


datatype FsReply =
    Published
  | Subscribed SubId Topic
  | Topics "Topic list"
  | Peers "PeerId list"

record FloodSub =
  fs_config :: FloodsubConfig
  fs_swarm :: bool
  connected_peers :: "(PeerId, unit) hashmap"
  fs_topics :: "(Topic, (PeerId, unit) hashmap) hashmap"
  my_topics :: "(Topic, (SubId, unit) hashmap) hashmap"

text \<open>What the main loop does to the world around it.\<close>

datatype FsOutput =
    SendPacket PeerId bytes
  | OpenStream PeerId
  | Notify Topic SubId FloodsubMessage
  | Reply FsReply


section \<open>The wire format\<close>

definition message_to_proto :: "FloodsubMessage \<Rightarrow> FsProtoMessage" where
  "message_to_proto msg =
     \<lparr>pb_from = Some (to_bytes (fm_source msg)), pb_data = Some (fm_data msg), pb_seqno = Some (sequence_number msg),
      pb_topic_ids = fm_topics msg\<rparr>"

definition subscription_to_proto :: "FloodsubSubscription \<Rightarrow> FsSubOpts" where
  "subscription_to_proto sub = \<lparr>pb_subscribe = Some (fs_action sub = Subscribe), pb_topic_id = Some (fs_topic sub)\<rparr>"

definition into_bytes :: "(FsProtoRpc \<Rightarrow> bytes) \<Rightarrow> FloodsubRpc \<Rightarrow> bytes" where
  "into_bytes encode r =
     encode \<lparr>pb_subscriptions = map subscription_to_proto (fr_subscriptions r), pb_publish = map message_to_proto (fr_messages r)\<rparr>"






section \<open>The main loop\<close>

definition FloodSub_new :: "FloodsubConfig \<Rightarrow> FloodSub" where
  "FloodSub_new config = \<lparr>fs_config = config, fs_swarm = False, connected_peers = [], fs_topics = [], my_topics = []\<rparr>"

definition fs_start :: "FloodSub \<Rightarrow> FloodSub" where
  "fs_start s = s\<lparr>fs_swarm := True\<rparr>"

definition get_hello_packet :: "(FsProtoRpc \<Rightarrow> bytes) \<Rightarrow> FloodSub \<Rightarrow> bytes" where
  "get_hello_packet encode s =
     into_bytes encode \<lparr>fr_messages = [], fr_subscriptions = map (\<lambda>t. \<lparr>fs_action = Subscribe, fs_topic = t\<rparr>) (map fst (my_topics s))\<rparr>"

text \<open>The \<open>expect\<close> on the control of the swarm is the result \<open>None\<close>.\<close>

definition handle_new_peer :: "(FsProtoRpc \<Rightarrow> bytes) \<Rightarrow> PeerId \<Rightarrow> FloodSub \<Rightarrow> (FloodSub \<times> FsOutput list) option" where
  "handle_new_peer encode rpid s =
     (if \<not> fs_swarm s then None
      else Some (s\<lparr>connected_peers := hm_insert rpid () (connected_peers s)\<rparr>,
                 [SendPacket rpid (get_hello_packet encode s), OpenStream rpid]))"

definition handle_remove_dead_peer :: "PeerId \<Rightarrow> FloodSub \<Rightarrow> FloodSub" where
  "handle_remove_dead_peer rpid s =
     s\<lparr>connected_peers := hm_remove rpid (connected_peers s),
       fs_topics := map (\<lambda>(t, ps). (t, hm_remove rpid ps)) (fs_topics s)\<rparr>"

fun handle_peer_event :: "(FsProtoRpc \<Rightarrow> bytes) \<Rightarrow> PeerEvent \<Rightarrow> FloodSub \<Rightarrow> (FloodSub \<times> FsOutput list) option" where
  "handle_peer_event encode (NewPeer rpid) s = handle_new_peer encode rpid s"
| "handle_peer_event encode (DeadPeer rpid) s = Some (handle_remove_dead_peer rpid s, [])"



definition publish :: "(FsProtoRpc \<Rightarrow> bytes) \<Rightarrow> FloodSub \<Rightarrow> PeerId \<Rightarrow> FloodsubMessage \<Rightarrow> FsOutput list" where
  "publish encode s from msg =
     (let to_send = concat (map (\<lambda>t. case hm_get (fs_topics s) t of Some subs \<Rightarrow> map fst subs | None \<Rightarrow> []) (fm_topics msg));
          packet = into_bytes encode \<lparr>fr_messages = [msg], fr_subscriptions = []\<rparr>
      in concat (map (\<lambda>pid.
           if pid = from \<or> pid = fm_source msg then []
           else (case hm_get (connected_peers s) pid of Some _ \<Rightarrow> [SendPacket pid packet] | None \<Rightarrow> [])) to_send))"




definition announce :: "(FsProtoRpc \<Rightarrow> bytes) \<Rightarrow> Topic \<Rightarrow> FloodsubSubscriptionAction \<Rightarrow> FloodSub \<Rightarrow> FsOutput list" where
  "announce encode topic action s =
     (let packet = into_bytes encode \<lparr>fr_messages = [], fr_subscriptions = [\<lparr>fs_action = action, fs_topic = topic\<rparr>]\<rparr>
      in map (\<lambda>pid. SendPacket pid packet) (map fst (connected_peers s)))"


definition un_subscribe :: "(FsProtoRpc \<Rightarrow> bytes) \<Rightarrow> Topic \<Rightarrow> SubId \<Rightarrow> FloodSub \<Rightarrow> FloodSub \<times> FsOutput list" where
  "un_subscribe encode topic sub_id s =
     (case hm_get (my_topics s) topic of
        None \<Rightarrow> (s, [])
      | Some subs \<Rightarrow>
          let out = (if hm_get subs sub_id \<noteq> None then announce encode topic Unsubscribe s else []);
              subs' = hm_remove sub_id subs
          in (s\<lparr>my_topics := (if subs' \<noteq> [] then hm_insert topic subs' (my_topics s) else hm_remove topic (my_topics s))\<rparr>, out))"


text \<open>What \<open>process_loop\<close> leaves behind: the drained maps.\<close>

definition fs_close :: "FloodSub \<Rightarrow> FloodSub" where
  "fs_close s = s\<lparr>connected_peers := [], fs_topics := [], my_topics := []\<rparr>"



section \<open>A network of nodes\<close>



fun note_of :: "PeerId \<Rightarrow> FsOutput \<Rightarrow> (PeerId \<times> Topic \<times> SubId \<times> FloodsubMessage) option" where
  "note_of v (Notify t i m) = Some (v, t, i, m)"
| "note_of v _ = None"








definition message_packet :: "(FsProtoRpc \<Rightarrow> bytes) \<Rightarrow> FloodsubMessage \<Rightarrow> bytes" where
  "message_packet encode m = into_bytes encode \<lparr>fr_messages = [m], fr_subscriptions = []\<rparr>"



lemma in_map_filter: "y \<in> set (List.map_filter f xs) \<longleftrightarrow> (\<exists>x \<in> set xs. f x = Some y)"
  by (induction xs) (auto simp: map_filter_simps split: option.splits)

lemma publish_outputs:
  "x \<in> set (publish encode s from m) \<longleftrightarrow>
     (\<exists>w t subs. x = SendPacket w (message_packet encode m) \<and> t \<in> set (fm_topics m) \<and> w \<noteq> from \<and> w \<noteq> fm_source m \<and>
        hm_get (fs_topics s) t = Some subs \<and> w \<in> fst ` set subs \<and> w \<in> fst ` set (connected_peers s))"
proof -
  have conn: "(\<exists>y. hm_get (connected_peers s) w = Some y) \<longleftrightarrow> w \<in> fst ` set (connected_peers s)" for w
    using map_of_eq_None_iff [of "connected_peers s" w] by auto
  show ?thesis
    unfolding publish_def Let_def message_packet_def [symmetric]
    by (auto simp: conn [symmetric] split: option.splits if_splits) force+
qed



section \<open>Flooding\<close>









lemma note_of_publish: "List.map_filter (note_of v) (publish encode s from m) = []"
proof -
  have "x \<notin> set (List.map_filter (note_of v) (publish encode s from m))" for x
    by (auto simp: in_map_filter publish_outputs)
  then show ?thesis by (metis list.set_intros(1) neq_Nil_conv)
qed

lemma map_filter_append [simp]: "List.map_filter f (xs @ ys) = List.map_filter f xs @ List.map_filter f ys"
  by (induction xs) (auto simp: map_filter_simps split: option.splits)









section \<open>Properties\<close>























text \<open>
  Cancelling one of two subscriptions of a topic announces that the node has left the topic, though
  the other subscription is still there.
\<close>

lemma cancel_one_leaves_topic:
  assumes "hm_get (my_topics s) t = Some subs" "hm_wf subs" "i \<in> fst ` set subs" "j \<in> fst ` set subs" "i \<noteq> j"
    and "p \<in> fst ` set (connected_peers s)"
  shows "\<exists>s' out. un_subscribe encode t i s = (s', out) \<and> hm_get (my_topics s') t \<noteq> None \<and>
    SendPacket p (into_bytes encode \<lparr>fr_messages = [], fr_subscriptions = [\<lparr>fs_action = Unsubscribe, fs_topic = t\<rparr>]\<rparr>) \<in> set out"
proof -
  have "hm_get subs i \<noteq> None" using assms(3) by (simp add: map_of_eq_None_iff)
  moreover obtain v where "(j, v) \<in> set subs" using assms(4) by auto
  then have "(j, v) \<in> set (hm_remove i subs)" using assms(5) by (auto simp: hm_set_remove)
  then have "hm_remove i subs \<noteq> []" by auto
  ultimately show ?thesis
    using assms(1,6) by (auto simp: un_subscribe_def announce_def Let_def AList.update_conv')
qed

end
