(* ===== verification/Collections.thy ===== *)
theory Collections
  imports Prelude "HOL-Library.Monad_Syntax"
begin

text \<open>
  More of the Rust standard library, for the components of gossipsub: in-place updates of a \<open>HashMap\<close>, sets
  (a \<open>HashSet\<close> is a list without duplicates, a \<open>BTreeSet\<close> a strictly sorted list), additions to an
  \<open>Instant\<close> that can panic, loops whose body can panic, and shuffles.

  An operation that can panic returns an \<open>option\<close>, with \<open>None\<close> for the panic. \<open>ok P m\<close> says that \<open>m\<close> does
  not panic and that its result satisfies \<open>P\<close>.
\<close>

section \<open>Panics\<close>

definition ok :: "('a \<Rightarrow> bool) \<Rightarrow> 'a option \<Rightarrow> bool" where
  "ok P m \<longleftrightarrow> (case m of None \<Rightarrow> False | Some x \<Rightarrow> P x)"

fun foldM :: "('a \<Rightarrow> 's \<Rightarrow> 's option) \<Rightarrow> 'a list \<Rightarrow> 's \<Rightarrow> 's option" where
  "foldM f [] s = Some s"
| "foldM f (x # xs) s = Option.bind (f x s) (foldM f xs)"

lemma ok_simps [simp]: "ok P (Some x) = P x" "ok P None = False"
  by (simp_all add: ok_def)

lemma ok_iff: "ok P m \<longleftrightarrow> (\<exists>x. m = Some x \<and> P x)"
  by (cases m) simp_all

lemma okE: "ok P m \<Longrightarrow> (\<And>x. m = Some x \<Longrightarrow> P x \<Longrightarrow> thesis) \<Longrightarrow> thesis"
  by (auto simp: ok_iff)

lemma ok_bind [simp]: "ok P (Option.bind m f) = ok (\<lambda>x. ok P (f x)) m"
  by (cases m) simp_all

lemma bind_SomeE: "Option.bind m f = Some y \<Longrightarrow> (\<And>x. m = Some x \<Longrightarrow> f x = Some y \<Longrightarrow> thesis) \<Longrightarrow> thesis"
  by (cases m) simp_all

lemma ok_mono: "ok P m \<Longrightarrow> (\<And>x. P x \<Longrightarrow> Q x) \<Longrightarrow> ok Q m"
  by (auto simp: ok_iff)

lemma ok_conj: "ok P m \<Longrightarrow> ok Q m \<Longrightarrow> ok (\<lambda>x. P x \<and> Q x) m"
  by (auto simp: ok_iff)

lemma ok_map_option [simp]: "ok P (map_option f m) = ok (P \<circ> f) m"
  by (cases m) simp_all

lemma ok_foldM:
  assumes "P s" "\<And>x s. x \<in> set xs \<Longrightarrow> P s \<Longrightarrow> ok P (f x s)"
  shows "ok P (foldM f xs s)"
  using assms
proof (induction xs arbitrary: s)
  case (Cons x xs)
  have "ok P (f x s)" using Cons.prems by simp
  then have "ok (\<lambda>t. ok P (foldM f xs t)) (f x s)" by (rule ok_mono) (simp add: Cons.IH Cons.prems)
  then show ?case by simp
qed simp

lemma foldM_Some_inv:
  assumes "foldM f xs s = Some s'" "P s" "\<And>x s s'. x \<in> set xs \<Longrightarrow> P s \<Longrightarrow> f x s = Some s' \<Longrightarrow> P s'"
  shows "P s'"
  using assms
proof (induction xs arbitrary: s)
  case (Cons x xs)
  from Cons.prems(1) obtain t where "f x s = Some t" "foldM f xs t = Some s'" by (auto simp: Option.bind_eq_Some_conv)
  with Cons.IH [of t] Cons.prems show ?case by auto
qed simp

lemma foldM_append: "foldM f (xs @ ys) s = Option.bind (foldM f xs s) (foldM f ys)"
proof (induction xs arbitrary: s)
  case (Cons x xs)
  then show ?case by (cases "f x s") simp_all
qed simp


section \<open>Instants\<close>

text \<open>
  \<open>Instant + Duration\<close> panics when the sum is not representable; on Linux an \<open>Instant\<close> has a signed
  64-bit number of seconds. Subtraction below the origin is representable there.
\<close>

definition INSTANT_LIMIT :: nat where
  "INSTANT_LIMIT = 2 ^ 63 * 1000000000"

definition secs :: "nat \<Rightarrow> Duration" where
  "secs n = n * 1000000000"

definition instant_fits :: "Instant \<Rightarrow> Duration \<Rightarrow> bool" where
  "instant_fits now d \<longleftrightarrow> now + d < INSTANT_LIMIT"


section \<open>Hash maps\<close>

text \<open>\<open>get_mut\<close> with an assignment through the reference, and \<open>entry(..).or_insert_with(..)\<close>.\<close>

definition hm_modify :: "'k \<Rightarrow> ('v \<Rightarrow> 'v) \<Rightarrow> ('k, 'v) hashmap \<Rightarrow> ('k, 'v) hashmap" where
  "hm_modify k f m = (case hm_get m k of None \<Rightarrow> m | Some v \<Rightarrow> hm_insert k (f v) m)"

definition hm_get_or :: "'v \<Rightarrow> ('k, 'v) hashmap \<Rightarrow> 'k \<Rightarrow> 'v" where
  "hm_get_or d m k = (case hm_get m k of None \<Rightarrow> d | Some v \<Rightarrow> v)"

definition hm_or_insert :: "'k \<Rightarrow> 'v \<Rightarrow> ('k, 'v) hashmap \<Rightarrow> ('k, 'v) hashmap" where
  "hm_or_insert k v m = (if hm_get m k = None then hm_insert k v m else m)"

abbreviation hm_keys :: "('k, 'v) hashmap \<Rightarrow> 'k list" where
  "hm_keys m \<equiv> map fst m"

abbreviation hm_contains :: "('k, 'v) hashmap \<Rightarrow> 'k \<Rightarrow> bool" where
  "hm_contains m k \<equiv> hm_get m k \<noteq> None"

lemma hm_get_modify [hashmap_simps]:
  "hm_get (hm_modify k f m) k' = (if k' = k then map_option f (hm_get m k) else hm_get m k')"
  by (auto simp: hm_modify_def AList.update_conv' split: option.splits)

lemma hm_get_or_insert [hashmap_simps]:
  "hm_get (hm_or_insert k v m) k' = (if k' = k \<and> hm_get m k = None then Some v else hm_get m k')"
  by (auto simp: hm_or_insert_def AList.update_conv')

lemma hm_wf_modify [simp, intro]: "hm_wf m \<Longrightarrow> hm_wf (hm_modify k f m)"
  by (auto simp: hm_modify_def split: option.splits)

lemma hm_wf_or_insert [simp, intro]: "hm_wf m \<Longrightarrow> hm_wf (hm_or_insert k v m)"
  by (auto simp: hm_or_insert_def)

lemma hm_contains_iff: "hm_contains m k \<longleftrightarrow> k \<in> set (hm_keys m)"
  by (simp add: map_of_eq_None_iff)


section \<open>Sets\<close>

abbreviation hs_insert :: "'a \<Rightarrow> 'a list \<Rightarrow> 'a list" where
  "hs_insert \<equiv> List.insert"

abbreviation hs_remove :: "'a \<Rightarrow> 'a list \<Rightarrow> 'a list" where
  "hs_remove \<equiv> removeAll"

abbreviation hs_extend :: "'a list \<Rightarrow> 'a list \<Rightarrow> 'a list" where
  "hs_extend ys xs \<equiv> fold List.insert ys xs"

abbreviation bset_wf :: "'a::linorder list \<Rightarrow> bool" where
  "bset_wf xs \<equiv> sorted xs \<and> distinct xs"

definition bset_insert :: "'a::linorder \<Rightarrow> 'a list \<Rightarrow> 'a list" where
  "bset_insert x xs = (if x \<in> set xs then xs else insort x xs)"

definition bset_extend :: "'a::linorder list \<Rightarrow> 'a list \<Rightarrow> 'a list" where
  "bset_extend ys xs = fold bset_insert ys xs"

abbreviation bset_remove :: "'a \<Rightarrow> 'a list \<Rightarrow> 'a list" where
  "bset_remove \<equiv> removeAll"

lemma set_hs_extend [simp]: "set (hs_extend ys xs) = set ys \<union> set xs"
  by (induction ys arbitrary: xs) auto

lemma distinct_hs_extend [simp]: "distinct xs \<Longrightarrow> distinct (hs_extend ys xs)"
  by (induction ys arbitrary: xs) simp_all

lemma set_bset_insert [simp]: "set (bset_insert x xs) = insert x (set xs)"
  by (auto simp: bset_insert_def set_insort_key)

lemma bset_wf_insert [simp]: "bset_wf xs \<Longrightarrow> bset_wf (bset_insert x xs)"
  by (auto simp: bset_insert_def sorted_insort distinct_insort)

lemma length_bset_insert [simp]: "length (bset_insert x xs) = (if x \<in> set xs then length xs else Suc (length xs))"
  by (simp add: bset_insert_def)

lemma set_bset_extend [simp]: "set (bset_extend ys xs) = set ys \<union> set xs"
  unfolding bset_extend_def by (induction ys arbitrary: xs) auto

lemma bset_wf_extend [simp]: "bset_wf xs \<Longrightarrow> bset_wf (bset_extend ys xs)"
  unfolding bset_extend_def
proof (induction ys arbitrary: xs)
  case (Cons y ys)
  have "bset_wf (bset_insert y xs)" using Cons.prems by (rule bset_wf_insert)
  then show ?case using Cons.IH [of "bset_insert y xs"] by simp
qed simp

lemma bset_wf_remove [simp]: "bset_wf xs \<Longrightarrow> bset_wf (bset_remove x xs)"
  by (simp add: removeAll_filter_not_eq sorted_filter [of id, simplified] distinct_filter)

lemma bset_length: "bset_wf xs \<Longrightarrow> length xs = card (set xs)"
  by (simp add: distinct_card)

lemma length_bset_extend_le: "length (bset_extend ys xs) \<le> length xs + length ys"
  unfolding bset_extend_def
proof (induction ys arbitrary: xs)
  case (Cons y ys)
  show ?case using Cons [of "bset_insert y xs"] by (simp split: if_splits)
qed simp


section \<open>Shuffles\<close>

text \<open>
  What the random generator of the crate \<open>rand\<close> yields is a parameter: \<open>R k n\<close> is the rearrangement that the
  \<open>k\<close>-th shuffle applies to a slice of \<open>n\<close> elements. \<open>rng_ok\<close> is what the crate documents: a shuffle
  permutes the slice.
\<close>

type_synonym Rng = "nat \<Rightarrow> nat \<Rightarrow> nat list"

definition rng_ok :: "Rng \<Rightarrow> bool" where
  "rng_ok R \<longleftrightarrow> (\<forall>k n. mset (R k n) = mset [0..<n])"

definition shuffle :: "Rng \<Rightarrow> nat \<Rightarrow> 'a list \<Rightarrow> 'a list" where
  "shuffle R k xs = map (nth xs) (R k (length xs))"

lemma mset_shuffle [simp]: "rng_ok R \<Longrightarrow> mset (shuffle R k xs) = mset xs"
proof -
  assume "rng_ok R"
  then have "mset (shuffle R k xs) = image_mset (nth xs) (mset [0..<length xs])"
    unfolding shuffle_def mset_map rng_ok_def by simp
  also have "\<dots> = mset (map (nth xs) [0..<length xs])" by (simp only: mset_map)
  finally show ?thesis by (simp only: map_nth)
qed

lemma set_shuffle [simp]: "rng_ok R \<Longrightarrow> set (shuffle R k xs) = set xs"
  by (metis mset_shuffle set_mset_mset)

lemma length_shuffle [simp]: "rng_ok R \<Longrightarrow> length (shuffle R k xs) = length xs"
  by (metis mset_shuffle size_mset)

lemma distinct_shuffle [simp]: "rng_ok R \<Longrightarrow> distinct (shuffle R k xs) = distinct xs"
  by (metis mset_shuffle mset_eq_imp_distinct_iff)

lemma rng_ok_id [simp]: "rng_ok (\<lambda>k n. [0..<n])"
  by (simp add: rng_ok_def)

end
