(* ===== verification/Float64.thy ===== *)
theory Float64
  imports Complex_Main Collections
begin

text \<open>
  The floating-point arithmetic the scores of gossipsub use. The operations of \<open>f64\<close> are a parameter of the
  model, a record over a type \<open>'f\<close> of floating-point numbers: no theorem depends on how they
  round. \<open>f_lit n d\<close> is the number nearest to \<open>n / d\<close>, which is what a decimal literal and a cast from an
  integer denote; \<open>f_trunc\<close> is the saturating cast \<open>as usize\<close>. The comparisons \<open>\<le>\<close>, \<open>>\<close> and \<open>\<ge>\<close> are those
  of IEEE 754, derived from \<open><\<close> and \<open>=\<close>, so that a NaN compares false.
\<close>

record 'f F64 =
  f_lit :: "int \<Rightarrow> int \<Rightarrow> 'f"
  f_add :: "'f \<Rightarrow> 'f \<Rightarrow> 'f"
  f_sub :: "'f \<Rightarrow> 'f \<Rightarrow> 'f"
  f_mul :: "'f \<Rightarrow> 'f \<Rightarrow> 'f"
  f_div :: "'f \<Rightarrow> 'f \<Rightarrow> 'f"
  f_powf :: "'f \<Rightarrow> 'f \<Rightarrow> 'f"
  f_lt :: "'f \<Rightarrow> 'f \<Rightarrow> bool"
  f_eq :: "'f \<Rightarrow> 'f \<Rightarrow> bool"
  f_trunc :: "'f \<Rightarrow> nat"

definition f_le :: "'f F64 \<Rightarrow> 'f \<Rightarrow> 'f \<Rightarrow> bool" where
  "f_le F x y \<longleftrightarrow> f_lt F x y \<or> f_eq F x y"

abbreviation f_zero :: "'f F64 \<Rightarrow> 'f" where
  "f_zero F \<equiv> f_lit F 0 1"

abbreviation f_one :: "'f F64 \<Rightarrow> 'f" where
  "f_one F \<equiv> f_lit F 1 1"

abbreviation f_of_nat :: "'f F64 \<Rightarrow> nat \<Rightarrow> 'f" where
  "f_of_nat F n \<equiv> f_lit F (int n) 1"

text \<open>\<open>Duration::as_secs_f64\<close>.\<close>

definition as_secs_f64 :: "'f F64 \<Rightarrow> Duration \<Rightarrow> 'f" where
  "as_secs_f64 F d =
     f_add F (f_of_nat F (d div 1000000000)) (f_div F (f_of_nat F (d mod 1000000000)) (f_of_nat F 1000000000))"

text \<open>
  \<open>sort_by\<close> with \<open>partial_cmp(..).unwrap_or(Equal)\<close> on a key: a stable sort.
\<close>

fun f_insort :: "'f F64 \<Rightarrow> ('a \<Rightarrow> 'f) \<Rightarrow> 'a \<Rightarrow> 'a list \<Rightarrow> 'a list" where
  "f_insort F key x [] = [x]"
| "f_insort F key x (y # ys) = (if f_lt F (key y) (key x) then y # f_insort F key x ys else x # y # ys)"

definition f_sort_by :: "'f F64 \<Rightarrow> ('a \<Rightarrow> 'f) \<Rightarrow> 'a list \<Rightarrow> 'a list" where
  "f_sort_by F key xs = foldr (f_insort F key) xs []"

lemma mset_f_insort [simp]: "mset (f_insort F key x ys) = add_mset x (mset ys)"
  by (induction ys) auto

lemma mset_f_sort_by [simp]: "mset (f_sort_by F key xs) = mset xs"
  unfolding f_sort_by_def by (induction xs) auto

lemma set_f_sort_by [simp]: "set (f_sort_by F key xs) = set xs"
  by (metis mset_f_sort_by set_mset_mset)

lemma length_f_sort_by [simp]: "length (f_sort_by F key xs) = length xs"
  by (metis mset_f_sort_by size_mset)

lemma distinct_f_sort_by [simp]: "distinct (f_sort_by F key xs) = distinct xs"
  by (metis mset_f_sort_by mset_eq_imp_distinct_iff)

text \<open>An instance: exact arithmetic on rational numbers, with a power for integral exponents only.\<close>

definition rat_f64 :: "rat F64" where
  "rat_f64 = \<lparr>f_lit = Fract, f_add = (+), f_sub = (-), f_mul = (*), f_div = (/),
    f_powf = (\<lambda>x y. x ^ nat \<lfloor>y\<rfloor>), f_lt = (<), f_eq = (=), f_trunc = (\<lambda>x. nat \<lfloor>x\<rfloor>)\<rparr>"

lemma rat_f64_simps [simp]:
  "f_lit rat_f64 n d = Fract n d" "f_add rat_f64 x y = x + y" "f_sub rat_f64 x y = x - y"
  "f_mul rat_f64 x y = x * y" "f_div rat_f64 x y = x / y" "f_lt rat_f64 x y = (x < y)"
  "f_eq rat_f64 x y = (x = y)" "f_trunc rat_f64 x = nat \<lfloor>x\<rfloor>" "f_le rat_f64 x y = (x \<le> y)"
  by (auto simp: rat_f64_def f_le_def)

lemma Fract_of_int [simp]: "Fract n 1 = of_int n"
  by (simp add: of_int_rat)

end
