(* ===== verification/Gossip_Types.thy ===== *)
theory Gossip_Types
  imports Prelude Peer_Id
begin

text \<open>
  The data of gossipsub (\<open>protocols/gossipsub/src/types.rs\<close>, \<open>topic.rs\<close>, \<open>error.rs\<close>): topics,
  messages, subscriptions, control actions, the RPC that carries them, and the errors.
\<close>

type_synonym TopicHash = string
type_synonym MessageId = bytes

definition IdentityHash_hash :: "string \<Rightarrow> TopicHash" where
  "IdentityHash_hash topic = topic"

datatype MessageAcceptance = Accept | Reject | Ignore

datatype PeerKind = Gossipsubv1_1 | GossipsubKind | Floodsub | NotSupported

record RawGossipsubMessage =
  gm_source :: "PeerId option"
  gm_data :: bytes
  gm_sequence_number :: "u64 option"
  gm_topic :: TopicHash
  gm_signature :: "bytes option"
  gm_key :: "bytes option"
  gm_validated :: bool

record GossipsubMessage =
  msg_source :: "PeerId option"
  msg_data :: bytes
  msg_sequence_number :: "u64 option"
  msg_topic :: TopicHash

datatype GossipsubSubscriptionAction = Subscribe | Unsubscribe

record GossipsubSubscription =
  sub_action :: GossipsubSubscriptionAction
  sub_topic_hash :: TopicHash

text \<open>\<open>PeerInfo\<close> has an optional peer identity only. The backoff of a \<open>Prune\<close> is in seconds.\<close>

datatype GossipsubControlAction =
    IHave TopicHash "MessageId list"
  | IWant "MessageId list"
  | Graft TopicHash
  | Prune TopicHash "PeerId option list" "u64 option"

record GossipsubRpc =
  rpc_messages :: "RawGossipsubMessage list"
  rpc_subscriptions :: "GossipsubSubscription list"
  rpc_control_msgs :: "GossipsubControlAction list"

datatype PublishError = Duplicate | SigningError string | InsufficientPeers | MessageTooLarge | TransformFailed string

datatype SubscriptionError = SubscriptionPublishError PublishError | NotAllowed | SubscriptionExist

datatype ValidationError =
    InvalidSignature
  | EmptySequenceNumber
  | InvalidSequenceNumber
  | InvalidPeerId
  | SignaturePresent
  | SequenceNumberPresent
  | MessageSourcePresent
  | DataTransformFailed

datatype RejectReason =
    ValidationError ValidationError
  | SelfOrigin
  | BlackListedPeer
  | BlackListedSource
  | ValidationIgnored
  | ValidationFailed

end
