(* ===== verification/Gossip_Config.thy ===== *)
theory Gossip_Config
  imports Float64 Gossip_Types
begin

text \<open>
  The configuration of gossipsub (\<open>protocols/gossipsub/src/config.rs\<close>): its fields, the builder with its
  defaults, setters and final validation, and the check of the signing policy against
  the validation mode (\<open>validate_config\<close> in \<open>gossipsub.rs\<close>). The setters of the builder are one datatype of
  calls. Sizes and counts are natural numbers; durations are nanoseconds.
\<close>

datatype ValidationMode = Strict | Permissive | AnonymousMode | NoValidation

type_synonym FastMessageId = bytes
type_synonym ProtocolId = "string \<times> nat"

fun peer_kind_code :: "PeerKind \<Rightarrow> nat" where
  "peer_kind_code Gossipsubv1_1 = 11"
| "peer_kind_code GossipsubKind = 10"
| "peer_kind_code Floodsub = 0"
| "peer_kind_code NotSupported = 1001"

definition peer_kind_of_code :: "nat \<Rightarrow> PeerKind" where
  "peer_kind_of_code n =
     (if n = 11 then Gossipsubv1_1 else if n = 10 then GossipsubKind else if n = 0 then Floodsub else NotSupported)"

record 'f GossipsubConfig =
  gc_protocol_ids :: "ProtocolId list"
  gc_peer_id :: PeerId
  gc_history_length :: nat
  gc_history_gossip :: nat
  gc_mesh_n :: nat
  gc_mesh_n_low :: nat
  gc_mesh_n_high :: nat
  gc_retain_scores :: nat
  gc_gossip_lazy :: nat
  gc_gossip_factor :: 'f
  gc_heartbeat_initial_delay :: Duration
  gc_heartbeat_interval :: Duration
  gc_fanout_ttl :: Duration
  gc_check_explicit_peers_ticks :: nat
  gc_max_transmit_size :: nat
  gc_duplicate_cache_time :: Duration
  gc_validate_messages :: bool
  gc_validation_mode :: ValidationMode
  gc_message_id_fn :: "GossipsubMessage \<Rightarrow> MessageId"
  gc_fast_message_id_fn :: "(RawGossipsubMessage \<Rightarrow> FastMessageId) option"
  gc_allow_self_origin :: bool
  gc_do_px :: bool
  gc_prune_peers :: nat
  gc_prune_backoff :: Duration
  gc_backoff_slack :: nat
  gc_flood_publish :: bool
  gc_graft_flood_threshold :: Duration
  gc_mesh_outbound_min :: nat
  gc_opportunistic_graft_ticks :: nat
  gc_opportunistic_graft_peers :: nat
  gc_gossip_retransimission :: u32
  gc_max_messages_per_rpc :: "nat option"
  gc_max_ihave_length :: nat
  gc_max_ihave_messages :: nat
  gc_iwant_followup_time :: Duration
  gc_support_floodsub :: bool
  gc_published_message_ids_cache_time :: Duration

definition fast_message_id :: "'f GossipsubConfig \<Rightarrow> RawGossipsubMessage \<Rightarrow> FastMessageId option" where
  "fast_message_id c m = map_option (\<lambda>f. f m) (gc_fast_message_id_fn c)"

text \<open>
  The default message identifier: the base-58 form of the source (of the identity of the bytes 0, 1, 0 when
  there is none) followed by the decimal form of the sequence number. \<open>to_base58\<close> (of the
  crate \<open>bs58\<close>) and the decimal printer are parameters.
\<close>

definition default_message_id :: "(PeerId \<Rightarrow> bytes) \<Rightarrow> (u64 \<Rightarrow> bytes) \<Rightarrow> GossipsubMessage \<Rightarrow> MessageId" where
  "default_message_id to_base58 to_string m =
     (case msg_source m of Some p \<Rightarrow> to_base58 p | None \<Rightarrow> to_base58 (PeerId [0, 1, 0]))
     @ to_string (case msg_sequence_number m of Some n \<Rightarrow> n | None \<Rightarrow> 0)"

definition GossipsubConfigBuilder_new ::
    "'f F64 \<Rightarrow> (GossipsubMessage \<Rightarrow> MessageId) \<Rightarrow> PeerId \<Rightarrow> 'f GossipsubConfig" where
  "GossipsubConfigBuilder_new F id_fn peer_id =
     \<lparr>gc_protocol_ids =
        [(''/meshsub/1.1.0'', peer_kind_code Gossipsubv1_1), (''/meshsub/1.0.0'', peer_kind_code GossipsubKind)],
      gc_peer_id = peer_id, gc_history_length = 5, gc_history_gossip = 3,
      gc_mesh_n = 6, gc_mesh_n_low = 5, gc_mesh_n_high = 12, gc_retain_scores = 4, gc_gossip_lazy = 6,
      gc_gossip_factor = f_lit F 25 100,
      gc_heartbeat_initial_delay = secs 5, gc_heartbeat_interval = secs 1, gc_fanout_ttl = secs 60,
      gc_check_explicit_peers_ticks = 300, gc_max_transmit_size = 65535, gc_duplicate_cache_time = secs 60,
      gc_validate_messages = False, gc_validation_mode = Strict, gc_message_id_fn = id_fn,
      gc_fast_message_id_fn = None, gc_allow_self_origin = False, gc_do_px = False, gc_prune_peers = 0,
      gc_prune_backoff = secs 60, gc_backoff_slack = 1, gc_flood_publish = True,
      gc_graft_flood_threshold = secs 10, gc_mesh_outbound_min = 2, gc_opportunistic_graft_ticks = 60,
      gc_opportunistic_graft_peers = 2, gc_gossip_retransimission = 3, gc_max_messages_per_rpc = None,
      gc_max_ihave_length = 5000, gc_max_ihave_messages = 10, gc_iwant_followup_time = secs 3,
      gc_support_floodsub = False, gc_published_message_ids_cache_time = secs 10\<rparr>"

datatype 'f BuilderCall =
    SetHistoryLength nat | SetHistoryGossip nat | SetMeshN nat | SetMeshNLow nat | SetMeshNHigh nat
  | SetRetainScores nat | SetGossipLazy nat | SetGossipFactor 'f | SetHeartbeatInitialDelay Duration
  | SetHeartbeatInterval Duration | SetCheckExplicitPeersTicks nat | SetFanoutTtl Duration
  | SetMaxTransmitSize nat | SetDuplicateCacheTime Duration | SetValidateMessages
  | SetValidationMode ValidationMode | SetMessageIdFn "GossipsubMessage \<Rightarrow> MessageId"
  | SetFastMessageIdFn "RawGossipsubMessage \<Rightarrow> FastMessageId" | SetDoPx | SetPrunePeers nat
  | SetPruneBackoff Duration | SetBackoffSlack nat | SetFloodPublish bool | SetGraftFloodThreshold Duration
  | SetMeshOutboundMin nat | SetOpportunisticGraftTicks nat | SetGossipRetransimission u32
  | SetOpportunisticGraftPeers nat | SetMaxMessagesPerRpc "nat option" | SetMaxIhaveLength nat
  | SetMaxIhaveMessages nat | SetAllowSelfOrigin bool | SetIwantFollowupTime Duration | SetSupportFloodsub
  | SetPublishedMessageIdsCacheTime Duration

fun builder_call :: "'f BuilderCall \<Rightarrow> 'f GossipsubConfig \<Rightarrow> 'f GossipsubConfig" where
  "builder_call (SetHistoryLength n) c = c\<lparr>gc_history_length := n\<rparr>"
| "builder_call (SetHistoryGossip n) c = c\<lparr>gc_history_gossip := n\<rparr>"
| "builder_call (SetMeshN n) c = c\<lparr>gc_mesh_n := n\<rparr>"
| "builder_call (SetMeshNLow n) c = c\<lparr>gc_mesh_n_low := n\<rparr>"
| "builder_call (SetMeshNHigh n) c = c\<lparr>gc_mesh_n_high := n\<rparr>"
| "builder_call (SetRetainScores n) c = c\<lparr>gc_retain_scores := n\<rparr>"
| "builder_call (SetGossipLazy n) c = c\<lparr>gc_gossip_lazy := n\<rparr>"
| "builder_call (SetGossipFactor x) c = c\<lparr>gc_gossip_factor := x\<rparr>"
| "builder_call (SetHeartbeatInitialDelay d) c = c\<lparr>gc_heartbeat_initial_delay := d\<rparr>"
| "builder_call (SetHeartbeatInterval d) c = c\<lparr>gc_heartbeat_interval := d\<rparr>"
| "builder_call (SetCheckExplicitPeersTicks n) c = c\<lparr>gc_check_explicit_peers_ticks := n\<rparr>"
| "builder_call (SetFanoutTtl d) c = c\<lparr>gc_fanout_ttl := d\<rparr>"
| "builder_call (SetMaxTransmitSize n) c = c\<lparr>gc_max_transmit_size := n\<rparr>"
| "builder_call (SetDuplicateCacheTime d) c = c\<lparr>gc_duplicate_cache_time := d\<rparr>"
| "builder_call SetValidateMessages c = c\<lparr>gc_validate_messages := True\<rparr>"
| "builder_call (SetValidationMode m) c = c\<lparr>gc_validation_mode := m\<rparr>"
| "builder_call (SetMessageIdFn f) c = c\<lparr>gc_message_id_fn := f\<rparr>"
| "builder_call (SetFastMessageIdFn f) c = c\<lparr>gc_fast_message_id_fn := Some f\<rparr>"
| "builder_call SetDoPx c = c\<lparr>gc_do_px := True\<rparr>"
| "builder_call (SetPrunePeers n) c = c\<lparr>gc_prune_peers := n\<rparr>"
| "builder_call (SetPruneBackoff d) c = c\<lparr>gc_prune_backoff := d\<rparr>"
| "builder_call (SetBackoffSlack n) c = c\<lparr>gc_backoff_slack := n\<rparr>"
| "builder_call (SetFloodPublish b) c = c\<lparr>gc_flood_publish := b\<rparr>"
| "builder_call (SetGraftFloodThreshold d) c = c\<lparr>gc_graft_flood_threshold := d\<rparr>"
| "builder_call (SetMeshOutboundMin n) c = c\<lparr>gc_mesh_outbound_min := n\<rparr>"
| "builder_call (SetOpportunisticGraftTicks n) c = c\<lparr>gc_opportunistic_graft_ticks := n\<rparr>"
| "builder_call (SetGossipRetransimission n) c = c\<lparr>gc_gossip_retransimission := n\<rparr>"
| "builder_call (SetOpportunisticGraftPeers n) c = c\<lparr>gc_opportunistic_graft_peers := n\<rparr>"
| "builder_call (SetMaxMessagesPerRpc n) c = c\<lparr>gc_max_messages_per_rpc := n\<rparr>"
| "builder_call (SetMaxIhaveLength n) c = c\<lparr>gc_max_ihave_length := n\<rparr>"
| "builder_call (SetMaxIhaveMessages n) c = c\<lparr>gc_max_ihave_messages := n\<rparr>"
| "builder_call (SetAllowSelfOrigin b) c = c\<lparr>gc_allow_self_origin := b\<rparr>"
| "builder_call (SetIwantFollowupTime d) c = c\<lparr>gc_iwant_followup_time := d\<rparr>"
| "builder_call SetSupportFloodsub c =
     c\<lparr>gc_support_floodsub := True,
       gc_protocol_ids := gc_protocol_ids c @ [(''/floodsub/1.0.0'', peer_kind_code Floodsub)]\<rparr>"
| "builder_call (SetPublishedMessageIdsCacheTime d) c = c\<lparr>gc_published_message_ids_cache_time := d\<rparr>"

datatype ConfigError = TransmitSizeTooSmall | HistoryTooShort | MeshInequality | OutboundMinTooLarge

definition config_build :: "'f GossipsubConfig \<Rightarrow> ConfigError + 'f GossipsubConfig" where
  "config_build c =
     (if gc_max_transmit_size c < 100 then Inl TransmitSizeTooSmall
      else if gc_history_length c < gc_history_gossip c then Inl HistoryTooShort
      else if \<not> (gc_mesh_outbound_min c < gc_mesh_n_low c \<and> gc_mesh_n_low c \<le> gc_mesh_n c \<and> gc_mesh_n c \<le> gc_mesh_n_high c)
        then Inl MeshInequality
      else if gc_mesh_outbound_min c * 2 > gc_mesh_n c then Inl OutboundMinTooLarge
      else Inr c)"

text \<open>The errors of \<open>validate_config\<close>; a key pair is its public key and its signing function.\<close>

record Keypair =
  kp_public :: bytes
  kp_sign :: "bytes \<Rightarrow> string + bytes"

datatype MessageAuthenticity = Signed Keypair | Author PeerId | RandomAuthor | AnonymousAuthor

fun is_signing :: "MessageAuthenticity \<Rightarrow> bool" where
  "is_signing (Signed _) = True"
| "is_signing _ = False"

fun is_anonymous :: "MessageAuthenticity \<Rightarrow> bool" where
  "is_anonymous AnonymousAuthor = True"
| "is_anonymous _ = False"

definition validate_config :: "MessageAuthenticity \<Rightarrow> ValidationMode \<Rightarrow> string + unit" where
  "validate_config authenticity mode =
     (case mode of
        AnonymousMode \<Rightarrow>
          if is_signing authenticity then Inl ''Cannot enable message signing with an Anonymous validation mode''
          else if \<not> is_anonymous authenticity then Inl ''Published messages contain an author''
          else Inr ()
      | Strict \<Rightarrow>
          if \<not> is_signing authenticity then Inl ''Messages will be published unsigned'' else Inr ()
      | _ \<Rightarrow> Inr ())"


section \<open>What the builder guarantees\<close>

definition config_valid :: "'f GossipsubConfig \<Rightarrow> bool" where
  "config_valid c \<longleftrightarrow>
     100 \<le> gc_max_transmit_size c \<and> gc_history_gossip c \<le> gc_history_length c
     \<and> gc_mesh_outbound_min c < gc_mesh_n_low c \<and> gc_mesh_n_low c \<le> gc_mesh_n c \<and> gc_mesh_n c \<le> gc_mesh_n_high c
     \<and> gc_mesh_outbound_min c * 2 \<le> gc_mesh_n c"

lemma config_build_ok: "config_build c = Inr c' \<longleftrightarrow> c' = c \<and> config_valid c"
  by (auto simp: config_build_def config_valid_def split: if_splits)

lemma default_config_valid: "config_valid (GossipsubConfigBuilder_new F id_fn peer)"
  by (simp add: config_valid_def GossipsubConfigBuilder_new_def)

lemma peer_kind_roundtrip: "peer_kind_of_code (peer_kind_code k) = k"
  by (cases k) (simp_all add: peer_kind_of_code_def)

end
