(* ===== verification/Framing.thy ===== *)
theory Framing
  imports Prelude
begin

text \<open>
  The length-prefixed messages of the traits \<open>ReadEx\<close> and \<open>WriteEx\<close> (\<open>core/src/util/mod.rs\<close>), which the handlers of
  Kademlia, floodsub, gossipsub and identify and the security handshakes use. A stream is the bytes that have
  arrived and not been read, and whether the remote has closed it; a read that finds too few bytes waits if the
  stream is open. The varints of the crate \<open>unsigned_varint\<close> are parameters, with \<open>varint_ok\<close> the documented behaviour.
\<close>

datatype VarintError = Insufficient | Overflow

datatype 'a IoRead = IoPending | IoErr string | IoPanic | IoOk 'a bytes

definition read_exact2 :: "nat \<Rightarrow> bool \<Rightarrow> bytes \<Rightarrow> bytes IoRead" where
  "read_exact2 n closed input =
     (if n \<le> length input then IoOk (take n input) (drop n input)
      else if closed then IoErr ''UnexpectedEof'' else IoPending)"

definition read_fixed_u32 :: "bool \<Rightarrow> bytes \<Rightarrow> u32 IoRead" where
  "read_fixed_u32 closed input =
     (case read_exact2 4 closed input of
        IoOk b rest \<Rightarrow> IoOk (be_word b) rest
      | IoPending \<Rightarrow> IoPending | IoErr e \<Rightarrow> IoErr e | IoPanic \<Rightarrow> IoPanic)"

text \<open>The loop of \<open>read_varint\<close>; \<open>i\<close> counts the bytes left in its buffer of ten, beyond which the index panics.\<close>

fun read_varint_loop ::
    "nat \<Rightarrow> (bytes \<Rightarrow> VarintError + usize \<times> bytes) \<Rightarrow> bool \<Rightarrow> bytes \<Rightarrow> bytes \<Rightarrow> usize IoRead" where
  "read_varint_loop 0 dec closed buffer input = IoPanic"
| "read_varint_loop (Suc i) dec closed buffer [] =
     (if closed then (if buffer = [] then IoOk 0 [] else IoErr ''UnexpectedEof'') else IoPending)"
| "read_varint_loop (Suc i) dec closed buffer (b # rest) =
     (case dec (buffer @ [b]) of
        Inr (len, _) \<Rightarrow> IoOk len rest
      | Inl Overflow \<Rightarrow> IoErr ''overflow in variable-length integer''
      | Inl Insufficient \<Rightarrow> read_varint_loop i dec closed (buffer @ [b]) rest)"

definition read_varint :: "(bytes \<Rightarrow> VarintError + usize \<times> bytes) \<Rightarrow> bool \<Rightarrow> bytes \<Rightarrow> usize IoRead" where
  "read_varint dec closed input = read_varint_loop 10 dec closed [] input"

definition read_body :: "nat \<Rightarrow> nat \<Rightarrow> bool \<Rightarrow> bytes \<Rightarrow> bytes IoRead" where
  "read_body max_size len closed rest =
     (if len > max_size then IoErr ''Received data size over maximum frame length'' else read_exact2 len closed rest)"

definition read_one_fixed :: "nat \<Rightarrow> bool \<Rightarrow> bytes \<Rightarrow> bytes IoRead" where
  "read_one_fixed max_size closed input =
     (case read_fixed_u32 closed input of
        IoOk len rest \<Rightarrow> read_body max_size (unat len) closed rest
      | IoPending \<Rightarrow> IoPending | IoErr e \<Rightarrow> IoErr e | IoPanic \<Rightarrow> IoPanic)"

definition read_one :: "(bytes \<Rightarrow> VarintError + usize \<times> bytes) \<Rightarrow> nat \<Rightarrow> bool \<Rightarrow> bytes \<Rightarrow> bytes IoRead" where
  "read_one dec max_size closed input =
     (case read_varint dec closed input of
        IoOk len rest \<Rightarrow> read_body max_size (unat len) closed rest
      | IoPending \<Rightarrow> IoPending | IoErr e \<Rightarrow> IoErr e | IoPanic \<Rightarrow> IoPanic)"

text \<open>What the writers put on the stream; the cast to \<open>u32\<close> keeps the lower 32 bits of the length.\<close>

definition write_varint :: "(usize \<Rightarrow> bytes) \<Rightarrow> nat \<Rightarrow> bytes" where
  "write_varint enc len = enc (of_nat len)"

definition write_fixed_u32 :: "nat \<Rightarrow> bytes" where
  "write_fixed_u32 len = be_bytes 4 (of_nat len :: u32)"

definition write_one_fixed :: "bytes \<Rightarrow> bytes" where
  "write_one_fixed buf = write_fixed_u32 (length buf) @ buf"

definition write_one :: "(usize \<Rightarrow> bytes) \<Rightarrow> bytes \<Rightarrow> bytes" where
  "write_one enc buf = write_varint enc (length buf) @ buf"


section \<open>Messages arrive as they were sent\<close>

text \<open>
  The varints: an encoding has one to ten bytes, decodes to the number, and a part of it is insufficient.
\<close>

definition varint_ok :: "(usize \<Rightarrow> bytes) \<Rightarrow> (bytes \<Rightarrow> VarintError + usize \<times> bytes) \<Rightarrow> bool" where
  "varint_ok enc dec \<longleftrightarrow>
     (\<forall>n. enc n \<noteq> [] \<and> length (enc n) \<le> 10 \<and> dec (enc n) = Inr (n, [])
        \<and> (\<forall>k < length (enc n). dec (take k (enc n)) = Inl Insufficient))"

lemma read_varint_loop_enc:
  assumes "varint_ok enc dec" "k < length (enc n)" "length (enc n) \<le> k + i"
  shows "read_varint_loop i dec closed (take k (enc n)) (drop k (enc n) @ rest) = IoOk n rest"
  using assms(2,3)
proof (induction i arbitrary: k)
  case (Suc i)
  let ?b = "enc n ! k"
  have split: "drop k (enc n) = ?b # drop (Suc k) (enc n)" using Suc.prems(1) by (rule Cons_nth_drop_Suc [symmetric])
  have snoc: "take k (enc n) @ [?b] = take (Suc k) (enc n)" using Suc.prems(1) by (rule take_Suc_conv_app_nth [symmetric])
  show ?case
  proof (cases "Suc k < length (enc n)")
    case True
    then have "dec (take (Suc k) (enc n)) = Inl Insufficient" using assms(1) by (simp add: varint_ok_def)
    with Suc.IH [OF True] Suc.prems show ?thesis by (simp add: split snoc)
  next
    case False
    with Suc.prems(1) have "take (Suc k) (enc n) = enc n" "drop (Suc k) (enc n) = []" by simp_all
    with assms(1) show ?thesis by (simp add: split snoc varint_ok_def)
  qed
qed simp

lemma read_one_write_one:
  assumes "varint_ok enc dec" "length m \<le> max_size" "length m < 2 ^ 64"
  shows "read_one dec max_size closed (write_one enc m @ rest) = IoOk m rest"
proof -
  let ?n = "of_nat (length m) :: usize"
  have "0 < length (enc ?n)" "length (enc ?n) \<le> 10" using assms(1) by (simp_all add: varint_ok_def)
  from read_varint_loop_enc [OF assms(1), of 0 ?n 10 closed "m @ rest"] this
  have "read_varint dec closed (enc ?n @ m @ rest) = IoOk ?n (m @ rest)" by (simp add: read_varint_def)
  moreover have "unat ?n = length m" using assms(3) by (simp add: unsigned_of_nat take_bit_nat_eq_self)
  ultimately show ?thesis using assms(2)
    by (simp add: read_one_def write_one_def write_varint_def read_body_def read_exact2_def)
qed

lemma read_one_fixed_write_one_fixed:
  assumes "length m \<le> max_size" "length m < 2 ^ 32"
  shows "read_one_fixed max_size closed (write_one_fixed m @ rest) = IoOk m rest"
proof -
  let ?n = "of_nat (length m) :: u32"
  have "read_fixed_u32 closed (write_one_fixed m @ rest) = IoOk (be_word (be_bytes 4 ?n)) (m @ rest)"
    by (simp add: read_fixed_u32_def read_exact2_def write_one_fixed_def write_fixed_u32_def)
  moreover have "be_word (be_bytes 4 ?n) = ?n" by (rule be_word_bytes) simp
  moreover have "unat ?n = length m" using assms(2) by (simp add: unsigned_of_nat take_bit_nat_eq_self)
  ultimately show ?thesis using assms(1) by (simp add: read_one_fixed_def read_body_def read_exact2_def)
qed

lemma read_one_eof: "read_one dec max_size True [] = IoOk [] []"
proof -
  have "read_varint dec True [] = IoOk 0 []" by (simp add: read_varint_def numeral_eq_Suc)
  then show ?thesis by (simp add: read_one_def read_body_def read_exact2_def)
qed

text \<open>A sequence of messages, written one after the other to a stream that is then closed, and read back.\<close>

fun read_all :: "nat \<Rightarrow> (bytes \<Rightarrow> VarintError + usize \<times> bytes) \<Rightarrow> nat \<Rightarrow> bool \<Rightarrow> bytes \<Rightarrow> bytes list \<times> bytes IoRead" where
  "read_all 0 dec max_size closed input = ([], read_one dec max_size closed input)"
| "read_all (Suc n) dec max_size closed input =
     (case read_one dec max_size closed input of
        IoOk m rest \<Rightarrow> (case read_all n dec max_size closed rest of (ms, r) \<Rightarrow> (m # ms, r))
      | r \<Rightarrow> ([], r))"

text \<open>
  the messages that are written to a stream are read from it, one by one and in order, up to the limit on their
  size. At the end of a closed stream the reader does not report the end: it returns an empty
  message, again and again.\<close>

theorem framing_roundtrip:
  assumes "varint_ok enc dec" "\<forall>m \<in> set ms. length m \<le> max_size" "max_size < 2 ^ 64"
  shows "read_all (length ms + k) dec max_size True (concat (map (write_one enc) ms)) = (ms @ replicate k [], IoOk [] [])"
proof -
  have eof: "read_all k dec max_size True [] = (replicate k [], IoOk [] [])"
    by (induction k) (simp_all add: read_one_eof)
  show ?thesis
    using assms(2)
  proof (induction ms)
    case (Cons m ms)
    then have m: "length m \<le> max_size" by simp
    from le_less_trans [OF this assms(3)] read_one_write_one [OF assms(1) m] Cons show ?case by simp
  qed (simp add: eof)
qed

text \<open>One-byte varints for the lengths below 128, and two bytes of escape and eight of content for the others.\<close>

definition sample_varint_enc :: "usize \<Rightarrow> bytes" where
  "sample_varint_enc n = (if n < 128 then [ucast n] else [128, 128] @ be_bytes 8 n)"

definition sample_varint_dec :: "bytes \<Rightarrow> VarintError + usize \<times> bytes" where
  "sample_varint_dec bs =
     (case bs of
        [] \<Rightarrow> Inl Insufficient
      | b # rest \<Rightarrow>
          if b < 128 then Inr (ucast b, rest)
          else if length bs < 10 then Inl Insufficient else Inr (be_word (take 8 (drop 2 bs)), drop 10 bs))"

lemma ucast_small: "n < (128 :: usize) \<Longrightarrow> ucast (ucast n :: u8) = n \<and> (ucast n :: u8) < 128"
proof -
  assume "n < (128 :: usize)"
  then have n: "unat n < 128" by (simp add: word_less_nat_alt)
  then have "unat (ucast n :: u8) = unat n" by (simp add: unsigned_ucast_eq unsigned_take_bit_eq take_bit_nat_eq_self)
  with n show ?thesis by (simp add: word_less_nat_alt word_unat_eq_iff unsigned_ucast_eq unsigned_take_bit_eq take_bit_nat_eq_self)
qed

lemma sample_varint_ok: "varint_ok sample_varint_enc sample_varint_dec"
proof -
  have "be_word (be_bytes 8 n) = n" for n :: usize by (rule be_word_bytes) simp
  then have "sample_varint_dec (sample_varint_enc n) = Inr (n, [])" for n
    using ucast_small [of n] by (auto simp: sample_varint_enc_def sample_varint_dec_def)
  moreover have "sample_varint_dec (take k (sample_varint_enc n)) = Inl Insufficient"
    if "k < length (sample_varint_enc n)" for k n
    using that by (cases k) (auto simp: sample_varint_enc_def sample_varint_dec_def split: if_splits list.splits nat.splits)
  ultimately show ?thesis by (auto simp: varint_ok_def sample_varint_enc_def)
qed

theorem framing_roundtrip_witness:
  "read_all (length [[1, 2], [3 :: u8]] + 2) sample_varint_dec 10 True (concat (map (write_one sample_varint_enc) [[1, 2], [3]]))
    = ([[1, 2], [3]] @ replicate 2 [], IoOk [] [])"
  by (rule framing_roundtrip [OF sample_varint_ok]) simp_all

end
