(* ===== verification/Gossip_Wire.thy ===== *)
theory Gossip_Wire
  imports Gossip_Config Framing
begin

text \<open>
  What gossipsub puts on the wire and takes from it: the protobuf messages (\<open>protocols/gossipsub/src/rpc.proto\<close>), the
  conversion of an RPC (\<open>types.rs\<close>), the signing of published messages and their fragmentation
  (\<open>build_raw_message\<close> and \<open>fragment_message\<close> in \<open>gossipsub.rs\<close>), and the validation of received ones
  (\<open>protocol.rs\<close>).

  Parameters: \<open>Crypto\<close> has the multihash functions of \<open>Peer_Id\<close>, the decoder and the signature check of public keys
  and the encoder of the crate \<open>prost\<close> for a message; \<open>Prost\<close> has the lengths that \<open>encoded_len\<close>
  returns. A public key is its protobuf encoding.
\<close>

section \<open>Protobuf messages\<close>

record WireMessage =
  wm_from :: "bytes option"
  wm_data :: "bytes option"
  wm_seqno :: "bytes option"
  wm_topic :: string
  wm_signature :: "bytes option"
  wm_key :: "bytes option"

record SubOpts =
  so_subscribe :: "bool option"
  so_topic_id :: "string option"

record ControlIHave =
  wi_topic_id :: "string option"
  wi_message_ids :: "bytes list"

record ControlIWant =
  ww_message_ids :: "bytes list"

record ControlGraft =
  wg_topic_id :: "string option"

record WirePeerInfo =
  wp_peer_id :: "bytes option"
  wp_signed_peer_record :: "bytes option"

record ControlPrune =
  wn_topic_id :: "string option"
  wn_peers :: "WirePeerInfo list"
  wn_backoff :: "u64 option"

record ControlMessage =
  wc_ihave :: "ControlIHave list"
  wc_iwant :: "ControlIWant list"
  wc_graft :: "ControlGraft list"
  wc_prune :: "ControlPrune list"

record WireRpc =
  wr_subscriptions :: "SubOpts list"
  wr_publish :: "WireMessage list"
  wr_control :: "ControlMessage option"

definition message_into_protobuf :: "RawGossipsubMessage \<Rightarrow> WireMessage" where
  "message_into_protobuf m =
     \<lparr>wm_from = map_option to_bytes (gm_source m), wm_data = Some (gm_data m),
      wm_seqno = map_option (be_bytes 8) (gm_sequence_number m), wm_topic = gm_topic m,
      wm_signature = gm_signature m, wm_key = gm_key m\<rparr>"

definition sub_into_protobuf :: "GossipsubSubscription \<Rightarrow> SubOpts" where
  "sub_into_protobuf s = \<lparr>so_subscribe = Some (sub_action s = Subscribe), so_topic_id = Some (sub_topic_hash s)\<rparr>"

definition empty_control :: ControlMessage where
  "empty_control = \<lparr>wc_ihave = [], wc_iwant = [], wc_graft = [], wc_prune = []\<rparr>"

fun push_control :: "GossipsubControlAction \<Rightarrow> ControlMessage \<Rightarrow> ControlMessage" where
  "push_control (IHave topic ids) c = c\<lparr>wc_ihave := wc_ihave c @ [\<lparr>wi_topic_id = Some topic, wi_message_ids = ids\<rparr>]\<rparr>"
| "push_control (IWant ids) c = c\<lparr>wc_iwant := wc_iwant c @ [\<lparr>ww_message_ids = ids\<rparr>]\<rparr>"
| "push_control (Graft topic) c = c\<lparr>wc_graft := wc_graft c @ [\<lparr>wg_topic_id = Some topic\<rparr>]\<rparr>"
| "push_control (Prune topic peers backoff) c =
     c\<lparr>wc_prune := wc_prune c @ [\<lparr>wn_topic_id = Some topic,
         wn_peers = map (\<lambda>p. \<lparr>wp_peer_id = map_option to_bytes p, wp_signed_peer_record = None\<rparr>) peers,
         wn_backoff = backoff\<rparr>]\<rparr>"

definition into_protobuf :: "GossipsubRpc \<Rightarrow> WireRpc" where
  "into_protobuf rpc =
     \<lparr>wr_subscriptions = map sub_into_protobuf (rpc_subscriptions rpc),
      wr_publish = map message_into_protobuf (rpc_messages rpc),
      wr_control = (if rpc_control_msgs rpc = [] then None else Some (fold push_control (rpc_control_msgs rpc) empty_control))\<rparr>"


section \<open>Signing\<close>

record Crypto =
  cr_mh_parse :: "bytes \<Rightarrow> (nat \<times> bytes) option"
  cr_mh_digest :: "Code \<Rightarrow> bytes \<Rightarrow> Multihash"
  cr_pk_decode :: "bytes \<Rightarrow> bytes option"
  cr_verify :: "bytes \<Rightarrow> bytes \<Rightarrow> bytes \<Rightarrow> bool"
  cr_encode :: "WireMessage \<Rightarrow> bytes"

definition SIGNING_PREFIX :: bytes where
  "SIGNING_PREFIX = map (of_nat \<circ> of_char) ''libp2p-pubsub:''"

datatype PublishConfig = PcSigning Keypair PeerId "bytes option" | PcAuthor PeerId | PcRandomAuthor | PcAnonymous

fun get_own_id :: "PublishConfig \<Rightarrow> PeerId option" where
  "get_own_id (PcSigning _ author _) = Some author"
| "get_own_id (PcAuthor author) = Some author"
| "get_own_id _ = None"

fun PublishConfig_from :: "Crypto \<Rightarrow> MessageAuthenticity \<Rightarrow> PublishConfig" where
  "PublishConfig_from C (Signed keypair) =
     (let key_enc = kp_public keypair;
          key = (if length key_enc \<le> 42 then None else Some key_enc)
      in PcSigning keypair (from_public_key (cr_mh_digest C) key_enc) key)"
| "PublishConfig_from C (Author peer) = PcAuthor peer"
| "PublishConfig_from C RandomAuthor = PcRandomAuthor"
| "PublishConfig_from C AnonymousAuthor = PcAnonymous"

text \<open>\<open>seqno\<close> and \<open>random_peer\<close> are what the random generator returns.\<close>

definition build_raw_message ::
    "Crypto \<Rightarrow> PublishConfig \<Rightarrow> u64 \<Rightarrow> PeerId \<Rightarrow> TopicHash \<Rightarrow> bytes \<Rightarrow> PublishError + RawGossipsubMessage" where
  "build_raw_message C pc seqno random_peer topic data =
     (case pc of
        PcSigning keypair author inline_key \<Rightarrow>
          (let message = \<lparr>wm_from = Some (to_bytes author), wm_data = Some data, wm_seqno = Some (be_bytes 8 seqno),
                          wm_topic = topic, wm_signature = None, wm_key = None\<rparr>
           in case kp_sign keypair (SIGNING_PREFIX @ cr_encode C message) of
                Inl e \<Rightarrow> Inl (SigningError e)
              | Inr signature \<Rightarrow>
                  Inr \<lparr>gm_source = Some author, gm_data = data, gm_sequence_number = Some seqno, gm_topic = topic,
                       gm_signature = Some signature, gm_key = inline_key, gm_validated = True\<rparr>)
      | PcAuthor peer \<Rightarrow>
          Inr \<lparr>gm_source = Some peer, gm_data = data, gm_sequence_number = Some seqno, gm_topic = topic,
               gm_signature = None, gm_key = None, gm_validated = True\<rparr>
      | PcRandomAuthor \<Rightarrow>
          Inr \<lparr>gm_source = Some random_peer, gm_data = data, gm_sequence_number = Some seqno, gm_topic = topic,
               gm_signature = None, gm_key = None, gm_validated = True\<rparr>
      | PcAnonymous \<Rightarrow>
          Inr \<lparr>gm_source = None, gm_data = data, gm_sequence_number = None, gm_topic = topic,
               gm_signature = None, gm_key = None, gm_validated = True\<rparr>)"


section \<open>Validation\<close>

text \<open>The bytes of a multihash start with its code and length, so that the slice from the third byte on is in range.\<close>

definition verify_signature :: "Crypto \<Rightarrow> WireMessage \<Rightarrow> bool" where
  "verify_signature C m =
     (case wm_from m of
        None \<Rightarrow> False
      | Some from \<Rightarrow>
          (case from_bytes (cr_mh_parse C) from of
             Inl _ \<Rightarrow> False
           | Inr source \<Rightarrow>
               (case wm_signature m of
                  None \<Rightarrow> False
                | Some signature \<Rightarrow>
                    (case (case map_option (cr_pk_decode C) (wm_key m) of
                             Some (Some key) \<Rightarrow> Some key
                           | _ \<Rightarrow> cr_pk_decode C (drop 2 (to_bytes source))) of
                       None \<Rightarrow> False
                     | Some public_key \<Rightarrow>
                         if source \<noteq> from_public_key (cr_mh_digest C) public_key then False
                         else cr_verify C public_key
                           (SIGNING_PREFIX @ cr_encode C (m\<lparr>wm_signature := None, wm_key := None\<rparr>)) signature))))"

definition unwrap_or_default :: "'a list option \<Rightarrow> 'a list" where
  "unwrap_or_default x = (case x of None \<Rightarrow> [] | Some v \<Rightarrow> v)"

text \<open>A message that fails the validation, with the fields the handler keeps of it.\<close>

definition invalid_message :: "WireMessage \<Rightarrow> u64 option \<Rightarrow> bytes option \<Rightarrow> RawGossipsubMessage" where
  "invalid_message m seqno signature =
     \<lparr>gm_source = None, gm_data = unwrap_or_default (wm_data m), gm_sequence_number = seqno, gm_topic = wm_topic m,
      gm_signature = signature, gm_key = wm_key m, gm_validated = False\<rparr>"

text \<open>The fields to verify (signature, sequence number, source), or the error of the anonymous mode.\<close>

definition validation_plan :: "ValidationMode \<Rightarrow> WireMessage \<Rightarrow> ValidationError + bool \<times> bool \<times> bool" where
  "validation_plan mode m =
     (case mode of
        Strict \<Rightarrow> Inr (True, True, True)
      | Permissive \<Rightarrow> Inr (wm_signature m \<noteq> None, wm_seqno m \<noteq> None, wm_from m \<noteq> None)
      | AnonymousMode \<Rightarrow>
          if wm_signature m \<noteq> None then Inl SignaturePresent
          else if wm_seqno m \<noteq> None then Inl SequenceNumberPresent
          else if wm_from m \<noteq> None then Inl MessageSourcePresent
          else Inr (False, False, False)
      | NoValidation \<Rightarrow> Inr (False, False, False))"

definition read_seqno :: "bool \<Rightarrow> WireMessage \<Rightarrow> ValidationError + u64 option" where
  "read_seqno verify_sequence_no m =
     (if verify_sequence_no then
        (case wm_seqno m of
           Some seq_no \<Rightarrow>
             if seq_no = [] then Inr None
             else if length seq_no \<noteq> 8 then Inl InvalidSequenceNumber
             else Inr (Some (be_word seq_no))
         | None \<Rightarrow> Inl EmptySequenceNumber)
      else Inr None)"

definition read_source :: "Crypto \<Rightarrow> bool \<Rightarrow> WireMessage \<Rightarrow> ValidationError + PeerId option" where
  "read_source C verify_source m =
     (if verify_source then
        (case wm_from m of
           Some bytes \<Rightarrow>
             if bytes \<noteq> [] then
               (case from_bytes (cr_mh_parse C) bytes of Inr peer \<Rightarrow> Inr (Some peer) | Inl _ \<Rightarrow> Inl InvalidPeerId)
             else Inr None
         | None \<Rightarrow> Inr None)
      else Inr None)"

definition receive_message ::
    "Crypto \<Rightarrow> ValidationMode \<Rightarrow> WireMessage \<Rightarrow> (RawGossipsubMessage \<times> ValidationError) + RawGossipsubMessage" where
  "receive_message C mode m =
     (case validation_plan mode m of
        Inl e \<Rightarrow> Inl (invalid_message m None None, e)
      | Inr (check_signature, check_seqno, check_source) \<Rightarrow>
          if check_signature \<and> \<not> verify_signature C m then Inl (invalid_message m None None, InvalidSignature)
          else
            (case read_seqno check_seqno m of
               Inl e \<Rightarrow> Inl (invalid_message m None (wm_signature m), e)
             | Inr seqno \<Rightarrow>
                 (case read_source C check_source m of
                    Inl e \<Rightarrow> Inl (invalid_message m seqno (wm_signature m), e)
                  | Inr source \<Rightarrow>
                      Inr \<lparr>gm_source = source, gm_data = unwrap_or_default (wm_data m), gm_sequence_number = seqno,
                           gm_topic = wm_topic m, gm_signature = wm_signature m, gm_key = wm_key m,
                           gm_validated = False\<rparr>)))"

definition receive_control :: "Crypto \<Rightarrow> ControlMessage \<Rightarrow> GossipsubControlAction list" where
  "receive_control C c =
     map (\<lambda>i. IHave (unwrap_or_default (wi_topic_id i)) (wi_message_ids i)) (wc_ihave c)
     @ map (\<lambda>w. IWant (ww_message_ids w)) (wc_iwant c)
     @ map (\<lambda>g. Graft (unwrap_or_default (wg_topic_id g))) (wc_graft c)
     @ map (\<lambda>p. Prune (unwrap_or_default (wn_topic_id p))
         (List.map_filter (\<lambda>info. Option.bind (wp_peer_id info) (\<lambda>b.
            case from_bytes (cr_mh_parse C) b of Inr peer \<Rightarrow> Some (Some peer) | Inl _ \<Rightarrow> None)) (wn_peers p))
         (wn_backoff p)) (wc_prune c)"

definition receive_sub :: "SubOpts \<Rightarrow> GossipsubSubscription" where
  "receive_sub s =
     \<lparr>sub_action = (if so_subscribe s = Some True then Subscribe else Unsubscribe),
      sub_topic_hash = unwrap_or_default (so_topic_id s)\<rparr>"

text \<open>The body of the loop of \<open>handle\<close>, after the packet is decoded: the event it sends to the router.\<close>

definition receive_rpc ::
    "Crypto \<Rightarrow> ValidationMode \<Rightarrow> WireRpc \<Rightarrow> GossipsubRpc \<times> (RawGossipsubMessage \<times> ValidationError) list" where
  "receive_rpc C mode rpc =
     (let received = map (receive_message C mode) (wr_publish rpc)
      in (\<lparr>rpc_messages = List.map_filter (\<lambda>r. case r of Inr m \<Rightarrow> Some m | Inl _ \<Rightarrow> None) received,
           rpc_subscriptions = map receive_sub (wr_subscriptions rpc),
           rpc_control_msgs = (case wr_control rpc of None \<Rightarrow> [] | Some c \<Rightarrow> receive_control C c)\<rparr>,
          List.map_filter (\<lambda>r. case r of Inl e \<Rightarrow> Some e | Inr _ \<Rightarrow> None) received))"

text \<open>
  The first \<open>n\<close> rounds of the loop of \<open>handle\<close>: the events sent to the router, and whether the loop goes on, waits for the
  stream, or has returned with an error. \<open>rpc_decode\<close> is the decoder of \<open>prost\<close>.
\<close>

datatype HandlerState = Reading bytes | WaitingForStream | Returned

fun handler_loop ::
    "nat \<Rightarrow> Crypto \<Rightarrow> ValidationMode \<Rightarrow> (bytes \<Rightarrow> VarintError + usize \<times> bytes) \<Rightarrow> (bytes \<Rightarrow> WireRpc option) \<Rightarrow> nat \<Rightarrow> bool \<Rightarrow> bytes \<Rightarrow>
      (GossipsubRpc \<times> (RawGossipsubMessage \<times> ValidationError) list) list \<times> HandlerState" where
  "handler_loop 0 C mode dec rpc_decode max_size shut input = ([], Reading input)"
| "handler_loop (Suc n) C mode dec rpc_decode max_size shut input =
     (case read_one dec max_size shut input of
        IoOk packet rest \<Rightarrow>
          (case rpc_decode packet of
             None \<Rightarrow> ([], Returned)
           | Some rpc \<Rightarrow>
               (case handler_loop n C mode dec rpc_decode max_size shut rest of
                  (events, st) \<Rightarrow> (receive_rpc C mode rpc # events, st)))
      | IoPending \<Rightarrow> ([], WaitingForStream)
      | IoErr _ \<Rightarrow> ([], Returned)
      | IoPanic \<Rightarrow> ([], Returned))"


section \<open>Fragmentation\<close>

record Prost =
  len_rpc :: "WireRpc \<Rightarrow> nat"
  len_message :: "WireMessage \<Rightarrow> nat"
  len_sub :: "SubOpts \<Rightarrow> nat"
  len_control :: "ControlMessage \<Rightarrow> nat"
  len_ihave :: "ControlIHave \<Rightarrow> nat"
  len_iwant :: "ControlIWant \<Rightarrow> nat"
  len_graft :: "ControlGraft \<Rightarrow> nat"
  len_prune :: "ControlPrune \<Rightarrow> nat"

definition new_rpc :: WireRpc where
  "new_rpc = \<lparr>wr_subscriptions = [], wr_publish = [], wr_control = None\<rparr>"

definition with_last :: "('a \<Rightarrow> 'a) \<Rightarrow> 'a list \<Rightarrow> 'a list" where
  "with_last f xs = butlast xs @ [f (last xs)]"

text \<open>The macro \<open>create_or_add_rpc\<close>.\<close>

definition create_or_add_rpc :: "Prost \<Rightarrow> 'f F64 \<Rightarrow> nat \<Rightarrow> nat \<Rightarrow> WireRpc list \<Rightarrow> WireRpc list" where
  "create_or_add_rpc P F limit object_size rpcs =
     (if len_rpc P (last rpcs) + f_trunc F (f_mul F (f_of_nat F object_size) (f_lit F 105 100)) > limit \<and> last rpcs \<noteq> new_rpc
      then rpcs @ [new_rpc] else rpcs)"

text \<open>The macro \<open>add_item\<close>, over the items of one kind.\<close>

fun add_items ::
    "Prost \<Rightarrow> 'f F64 \<Rightarrow> nat \<Rightarrow> ('i \<Rightarrow> nat) \<Rightarrow> ('i \<Rightarrow> WireRpc \<Rightarrow> WireRpc) \<Rightarrow> 'i list \<Rightarrow> WireRpc list \<Rightarrow>
      PublishError + WireRpc list" where
  "add_items P F limit len push [] rpcs = Inr rpcs"
| "add_items P F limit len push (x # xs) rpcs =
     (if len x + 2 > limit then Inl MessageTooLarge
      else add_items P F limit len push xs (with_last (push x) (create_or_add_rpc P F limit (len x) rpcs)))"

definition push_message :: "WireMessage \<Rightarrow> WireRpc \<Rightarrow> WireRpc" where
  "push_message m r = r\<lparr>wr_publish := wr_publish r @ [m]\<rparr>"

definition push_sub :: "SubOpts \<Rightarrow> WireRpc \<Rightarrow> WireRpc" where
  "push_sub s r = r\<lparr>wr_subscriptions := wr_subscriptions r @ [s]\<rparr>"

definition get_or_insert_control :: "(ControlMessage \<Rightarrow> ControlMessage) \<Rightarrow> WireRpc \<Rightarrow> WireRpc" where
  "get_or_insert_control f r =
     r\<lparr>wr_control := Some (f (case wr_control r of None \<Rightarrow> empty_control | Some c \<Rightarrow> c))\<rparr>"

text \<open>The control messages of one kind, which are not checked one by one.\<close>

definition add_controls ::
    "Prost \<Rightarrow> 'f F64 \<Rightarrow> nat \<Rightarrow> ('i \<Rightarrow> nat) \<Rightarrow> ('i \<Rightarrow> ControlMessage \<Rightarrow> ControlMessage) \<Rightarrow> 'i list \<Rightarrow> WireRpc list \<Rightarrow> WireRpc list" where
  "add_controls P F limit len push xs rpcs =
     fold (\<lambda>x rpcs. with_last (get_or_insert_control (push x)) (create_or_add_rpc P F limit (len x) rpcs)) xs rpcs"

definition fragment_control :: "Prost \<Rightarrow> 'f F64 \<Rightarrow> nat \<Rightarrow> ControlMessage option \<Rightarrow> WireRpc list \<Rightarrow> WireRpc list" where
  "fragment_control P F limit control rpcs =
     (case control of
        None \<Rightarrow> rpcs
      | Some c \<Rightarrow>
          if len_control P c + 2 > limit then
            (let rpcs = add_controls P F limit (len_ihave P) (\<lambda>x c. c\<lparr>wc_ihave := wc_ihave c @ [x]\<rparr>) (wc_ihave c) rpcs;
                 rpcs = add_controls P F limit (len_iwant P) (\<lambda>x c. c\<lparr>wc_iwant := wc_iwant c @ [x]\<rparr>) (wc_iwant c) rpcs;
                 rpcs = add_controls P F limit (len_graft P) (\<lambda>x c. c\<lparr>wc_graft := wc_graft c @ [x]\<rparr>) (wc_graft c) rpcs
             in add_controls P F limit (len_prune P) (\<lambda>x c. c\<lparr>wc_prune := wc_prune c @ [x]\<rparr>) (wc_prune c) rpcs)
          else with_last (\<lambda>r. r\<lparr>wr_control := Some c\<rparr>) (create_or_add_rpc P F limit (len_control P c) rpcs))"

definition fragment_message :: "Prost \<Rightarrow> 'f F64 \<Rightarrow> nat \<Rightarrow> WireRpc \<Rightarrow> PublishError + WireRpc list" where
  "fragment_message P F limit rpc =
     (if len_rpc P rpc < limit then Inr [rpc]
      else
        and_then (add_items P F limit (len_message P) push_message (wr_publish rpc) [new_rpc]) (\<lambda>rpcs.
        and_then (add_items P F limit (len_sub P) push_sub (wr_subscriptions rpc) rpcs) (\<lambda>rpcs.
        Inr (fragment_control P F limit (wr_control rpc) rpcs))))"


section \<open>Nothing is lost by fragmentation\<close>

text \<open>
  A part of an RPC is a function that takes a list from it and takes none from an empty one; the parts of the
  fragments, one after the other, are the part of the whole.
\<close>

abbreviation parts :: "(WireRpc \<Rightarrow> 'a list) \<Rightarrow> WireRpc list \<Rightarrow> 'a list" where
  "parts g rpcs \<equiv> concat (map g rpcs)"

definition control_part :: "(ControlMessage \<Rightarrow> 'a list) \<Rightarrow> WireRpc \<Rightarrow> 'a list" where
  "control_part g r = (case wr_control r of None \<Rightarrow> [] | Some c \<Rightarrow> g c)"

lemma concat_map_Nil [simp]: "concat (map (\<lambda>_. []) xs) = []"
  by (induction xs) simp_all

lemma with_last_nonempty [simp]: "with_last f xs \<noteq> []"
  by (simp add: with_last_def)

lemma create_or_add_nonempty [simp]: "rpcs \<noteq> [] \<Longrightarrow> create_or_add_rpc P F limit n rpcs \<noteq> []"
  by (simp add: create_or_add_rpc_def)

lemma parts_create [simp]: "g new_rpc = [] \<Longrightarrow> parts g (create_or_add_rpc P F limit n rpcs) = parts g rpcs"
  by (simp add: create_or_add_rpc_def)

lemma parts_with_last:
  assumes "rpcs \<noteq> []" "g (f (last rpcs)) = g (last rpcs) @ ys"
  shows "parts g (with_last f rpcs) = parts g rpcs @ ys"
  using assms by (cases rpcs rule: rev_cases) (simp_all add: with_last_def)

lemma add_items_parts:
  assumes "rpcs \<noteq> []" "g new_rpc = []" "\<And>x r. g (push x r) = g r @ h x" "add_items P F limit len push xs rpcs = Inr rpcs'"
  shows "rpcs' \<noteq> [] \<and> parts g rpcs' = parts g rpcs @ concat (map h xs)"
  using assms(1,4)
proof (induction xs arbitrary: rpcs)
  case (Cons x xs)
  let ?r = "with_last (push x) (create_or_add_rpc P F limit (len x) rpcs)"
  from Cons.prems have "add_items P F limit len push xs ?r = Inr rpcs'" by (simp split: if_splits)
  moreover have "parts g ?r = parts g rpcs @ h x"
    using parts_with_last [of "create_or_add_rpc P F limit (len x) rpcs" g "push x" "h x"] Cons.prems(1) assms(2,3) by simp
  ultimately show ?case using Cons.IH [of ?r] by simp
qed simp

lemma add_controls_parts:
  assumes "rpcs \<noteq> []" "g new_rpc = []" "\<And>x r. g (get_or_insert_control (push x) r) = g r @ h x"
  shows "add_controls P F limit len push xs rpcs \<noteq> []
    \<and> parts g (add_controls P F limit len push xs rpcs) = parts g rpcs @ concat (map h xs)"
  using assms(1) unfolding add_controls_def
proof (induction xs arbitrary: rpcs)
  case (Cons x xs)
  let ?r = "with_last (get_or_insert_control (push x)) (create_or_add_rpc P F limit (len x) rpcs)"
  have "parts g ?r = parts g rpcs @ h x"
    using parts_with_last [of "create_or_add_rpc P F limit (len x) rpcs" g "get_or_insert_control (push x)" "h x"]
      Cons.prems assms(2,3) by simp
  with Cons.IH [of ?r] show ?case by simp
qed simp

text \<open>The parts of an RPC that the items of one kind do not touch, and those they extend.\<close>

lemma push_parts [simp]:
  "wr_publish (push_message m r) = wr_publish r @ [m]" "wr_subscriptions (push_message m r) = wr_subscriptions r"
  "wr_control (push_message m r) = wr_control r" "wr_publish (push_sub x r) = wr_publish r"
  "wr_subscriptions (push_sub x r) = wr_subscriptions r @ [x]" "wr_control (push_sub x r) = wr_control r"
  "wr_publish (get_or_insert_control f r) = wr_publish r"
  "wr_subscriptions (get_or_insert_control f r) = wr_subscriptions r"
  "wr_publish new_rpc = []" "wr_subscriptions new_rpc = []" "wr_control new_rpc = None"
  by (simp_all add: push_message_def push_sub_def get_or_insert_control_def new_rpc_def)

lemma control_part_push [simp]:
  "control_part g new_rpc = []" "control_part g (push_message m r) = control_part g r"
  "control_part g (push_sub x r) = control_part g r"
  "control_part g (r\<lparr>wr_control := Some c\<rparr>) = g c"
  by (simp_all add: control_part_def)

lemma control_part_insert [simp]:
  assumes "g empty_control = []"
  shows "control_part g (get_or_insert_control f r) = g (f (case wr_control r of None \<Rightarrow> empty_control | Some c \<Rightarrow> c))"
    "g (case wr_control r of None \<Rightarrow> empty_control | Some c \<Rightarrow> c) = control_part g r"
  using assms by (simp_all add: control_part_def get_or_insert_control_def split: option.split)

lemma empty_control_simps [simp]:
  "wc_ihave empty_control = []" "wc_iwant empty_control = []" "wc_graft empty_control = []" "wc_prune empty_control = []"
  by (simp_all add: empty_control_def)

lemma parts_empty_iff: "parts (control_part (\<lambda>c. [c])) rpcs = [] \<longleftrightarrow> (\<forall>r \<in> set rpcs. wr_control r = None)"
  by (auto simp: control_part_def split: option.splits)

lemma create_or_add_last: "rpcs \<noteq> [] \<Longrightarrow> last (create_or_add_rpc P F limit n rpcs) \<in> set rpcs \<union> {new_rpc}"
  by (simp add: create_or_add_rpc_def)

text \<open>Control messages do not touch the other parts.\<close>

lemma add_controls_frame:
  assumes "rpcs \<noteq> []" "g new_rpc = []" "\<And>f r. g (get_or_insert_control f r) = g r"
  shows "add_controls P F limit len push xs rpcs \<noteq> [] \<and> parts g (add_controls P F limit len push xs rpcs) = parts g rpcs"
  using add_controls_parts [where g = g and h = "\<lambda>_. []" and push = push and P = P and F = F and limit = limit
      and len = len and xs = xs and rpcs = rpcs] assms by simp

lemma add_controls_control_parts:
  assumes "rpcs \<noteq> []" "g empty_control = []" "\<And>x c. g (push x c) = g c @ h x"
  shows "add_controls P F limit len push xs rpcs \<noteq> [] \<and>
    parts (control_part g) (add_controls P F limit len push xs rpcs) = parts (control_part g) rpcs @ concat (map h xs)"
  by (rule add_controls_parts) (simp_all add: assms)

lemma fragment_control_frame:
  assumes "rpcs \<noteq> []" "g new_rpc = []" "\<And>f r. g (get_or_insert_control f r) = g r" "\<And>r c. g (r\<lparr>wr_control := c\<rparr>) = g r"
  shows "parts g (fragment_control P F limit control rpcs) = parts g rpcs"
proof -
  have "parts g (with_last (\<lambda>r. r\<lparr>wr_control := Some c\<rparr>) (create_or_add_rpc P F limit n rpcs)) = parts g rpcs" for c n
    using parts_with_last [of "create_or_add_rpc P F limit n rpcs" g "\<lambda>r. r\<lparr>wr_control := Some c\<rparr>" "[]"] assms by simp
  then show ?thesis using assms(1) by (simp add: fragment_control_def Let_def add_controls_frame [OF _ assms(2,3)] split: option.split)
qed

text \<open>A part of the control messages that the four kinds of items extend by \<open>h1\<close> to \<open>h4\<close>.\<close>

lemma fragment_control_parts:
  assumes "rpcs \<noteq> []" "\<forall>r \<in> set rpcs. wr_control r = None" "g empty_control = []"
    and push: "\<And>x c. g (c\<lparr>wc_ihave := wc_ihave c @ [x]\<rparr>) = g c @ h1 x" "\<And>x c. g (c\<lparr>wc_iwant := wc_iwant c @ [x]\<rparr>) = g c @ h2 x"
      "\<And>x c. g (c\<lparr>wc_graft := wc_graft c @ [x]\<rparr>) = g c @ h3 x" "\<And>x c. g (c\<lparr>wc_prune := wc_prune c @ [x]\<rparr>) = g c @ h4 x"
    and whole: "\<And>c. concat (map h1 (wc_ihave c)) @ concat (map h2 (wc_iwant c)) @ concat (map h3 (wc_graft c))
      @ concat (map h4 (wc_prune c)) = g c"
  shows "parts (control_part g) (fragment_control P F limit (wr_control rpc) rpcs) = control_part g rpc"
proof (cases "wr_control rpc")
  case None
  moreover have "parts (control_part g) rpcs = []" using assms(2) by (simp add: control_part_def)
  ultimately show ?thesis by (simp add: fragment_control_def control_part_def [of g rpc])
next
  case (Some c)
  have none: "parts (control_part g) rpcs = []" using assms(2) by (simp add: control_part_def)
  have l: "wr_control (last (create_or_add_rpc P F limit n rpcs)) = None" for n
    using create_or_add_last [OF assms(1), of P F limit n] assms(2) by auto
  have "parts (control_part g) (with_last (\<lambda>r. r\<lparr>wr_control := Some c\<rparr>) (create_or_add_rpc P F limit n rpcs)) = g c" for n
    using parts_with_last [of "create_or_add_rpc P F limit n rpcs" "control_part g" "\<lambda>r. r\<lparr>wr_control := Some c\<rparr>" "g c"]
      assms(1) l [of n] none by (simp add: control_part_def [of g "last _"])
  then show ?thesis
    using assms(1) none whole [of c]
    by (simp add: Some fragment_control_def control_part_def [of g rpc] Let_def
      add_controls_control_parts [where g = g and h = h1, OF _ assms(3) push(1)]
      add_controls_control_parts [where g = g and h = h2, OF _ assms(3) push(2)]
      add_controls_control_parts [where g = g and h = h3, OF _ assms(3) push(3)]
      add_controls_control_parts [where g = g and h = h4, OF _ assms(3) push(4)])
qed

lemma fragmented_parts:
  assumes "fragment_message P F limit rpc = Inr rpcs" "\<not> len_rpc P rpc < limit"
    and "g new_rpc = []" "\<And>x r. g (push_message x r) = g r @ h1 x" "\<And>x r. g (push_sub x r) = g r @ h2 x"
  obtains rpcs' where "rpcs = fragment_control P F limit (wr_control rpc) rpcs'" "rpcs' \<noteq> []" "\<forall>r \<in> set rpcs'. wr_control r = None"
    "parts g rpcs' = concat (map h1 (wr_publish rpc)) @ concat (map h2 (wr_subscriptions rpc))"
proof -
  from assms(1,2) obtain r1 r2 where r: "add_items P F limit (len_message P) push_message (wr_publish rpc) [new_rpc] = Inr r1"
    "add_items P F limit (len_sub P) push_sub (wr_subscriptions rpc) r1 = Inr r2"
    "rpcs = fragment_control P F limit (wr_control rpc) r2"
    by (auto simp: fragment_message_def and_then_Inr_iff)
  have c1: "r1 \<noteq> [] \<and> parts (control_part (\<lambda>c. [c])) r1 = parts (control_part (\<lambda>c. [c])) [new_rpc] @ concat (map (\<lambda>_. []) (wr_publish rpc))"
    by (rule add_items_parts [OF _ _ _ r(1)]) simp_all
  have c2: "r2 \<noteq> [] \<and> parts (control_part (\<lambda>c. [c])) r2 = parts (control_part (\<lambda>c. [c])) r1 @ concat (map (\<lambda>_. []) (wr_subscriptions rpc))"
    by (rule add_items_parts [OF _ _ _ r(2)]) (simp_all add: c1)
  have g1: "r1 \<noteq> [] \<and> parts g r1 = parts g [new_rpc] @ concat (map h1 (wr_publish rpc))"
    by (rule add_items_parts [OF _ _ _ r(1)]) (simp_all add: assms)
  have g2: "r2 \<noteq> [] \<and> parts g r2 = parts g r1 @ concat (map h2 (wr_subscriptions rpc))"
    by (rule add_items_parts [OF _ _ _ r(2)]) (simp_all add: assms c1)
  have "\<forall>r \<in> set r2. wr_control r = None"
    unfolding parts_empty_iff [symmetric] using c1 c2 by simp
  with that [OF r(3)] g1 g2 assms(3) show thesis by simp
qed

text \<open>
  C37: an RPC that is sent in fragments arrives completely: the messages of the fragments, one after the other, are the
  messages of the RPC in their order, and so are the subscriptions and each kind of control
  message, whatever the lengths of the encodings are.\<close>

theorem fragment_lossless:
  assumes "fragment_message P F limit rpc = Inr rpcs"
  shows "concat (map wr_publish rpcs) = wr_publish rpc \<and> concat (map wr_subscriptions rpcs) = wr_subscriptions rpc
    \<and> concat (map (control_part wc_ihave) rpcs) = control_part wc_ihave rpc
    \<and> concat (map (control_part wc_iwant) rpcs) = control_part wc_iwant rpc
    \<and> concat (map (control_part wc_graft) rpcs) = control_part wc_graft rpc
    \<and> concat (map (control_part wc_prune) rpcs) = control_part wc_prune rpc"
proof (cases "len_rpc P rpc < limit")
  case True
  with assms have "rpcs = [rpc]" by (simp add: fragment_message_def)
  then show ?thesis by simp
next
  case False
  obtain r1 where r1: "rpcs = fragment_control P F limit (wr_control rpc) r1" "r1 \<noteq> []" "\<forall>r \<in> set r1. wr_control r = None"
    "parts wr_publish r1 = concat (map (\<lambda>x. [x]) (wr_publish rpc)) @ concat (map (\<lambda>_. []) (wr_subscriptions rpc))"
    by (rule fragmented_parts [OF assms False, of wr_publish "\<lambda>x. [x]" "\<lambda>_. []"]) simp_all
  obtain r2 where r2: "rpcs = fragment_control P F limit (wr_control rpc) r2" "r2 \<noteq> []"
    "parts wr_subscriptions r2 = concat (map (\<lambda>_. []) (wr_publish rpc)) @ concat (map (\<lambda>x. [x]) (wr_subscriptions rpc))"
    by (rule fragmented_parts [OF assms False, of wr_subscriptions "\<lambda>_. []" "\<lambda>x. [x]"]) simp_all
  have "parts wr_publish rpcs = wr_publish rpc"
    using fragment_control_frame [OF r1(2), of wr_publish P F limit "wr_control rpc"] r1(1,4) by simp
  moreover have "parts wr_subscriptions rpcs = wr_subscriptions rpc"
    using fragment_control_frame [OF r2(2), of wr_subscriptions P F limit "wr_control rpc"] r2(1,3) by simp
  moreover have "parts (control_part wc_ihave) rpcs = control_part wc_ihave rpc" unfolding r1(1)
    by (rule fragment_control_parts [OF r1(2,3), of _ "\<lambda>x. [x]" "\<lambda>_. []" "\<lambda>_. []" "\<lambda>_. []"]) simp_all
  moreover have "parts (control_part wc_iwant) rpcs = control_part wc_iwant rpc" unfolding r1(1)
    by (rule fragment_control_parts [OF r1(2,3), of _ "\<lambda>_. []" "\<lambda>x. [x]" "\<lambda>_. []" "\<lambda>_. []"]) simp_all
  moreover have "parts (control_part wc_graft) rpcs = control_part wc_graft rpc" unfolding r1(1)
    by (rule fragment_control_parts [OF r1(2,3), of _ "\<lambda>_. []" "\<lambda>_. []" "\<lambda>x. [x]" "\<lambda>_. []"]) simp_all
  moreover have "parts (control_part wc_prune) rpcs = control_part wc_prune rpc" unfolding r1(1)
    by (rule fragment_control_parts [OF r1(2,3), of _ "\<lambda>_. []" "\<lambda>_. []" "\<lambda>_. []" "\<lambda>x. [x]"]) simp_all
  ultimately show ?thesis by blast
qed


section \<open>The limit on the size\<close>

text \<open>The lengths of the protobuf encoding: every field of these messages has a tag of one byte.\<close>

definition varint_len :: "nat \<Rightarrow> nat" where
  "varint_len n = 1 + length (takeWhile (\<lambda>k. 128 ^ k \<le> n) [1..<10])"

definition pb_field :: "nat \<Rightarrow> nat" where
  "pb_field n = 1 + varint_len n + n"

definition pb_opt :: "('a \<Rightarrow> nat) \<Rightarrow> 'a option \<Rightarrow> nat" where
  "pb_opt len x = (case x of None \<Rightarrow> 0 | Some v \<Rightarrow> pb_field (len v))"

definition pb_rep :: "('a \<Rightarrow> nat) \<Rightarrow> 'a list \<Rightarrow> nat" where
  "pb_rep len xs = sum_list (map (pb_field \<circ> len) xs)"

definition pb_sub :: "SubOpts \<Rightarrow> nat" where
  "pb_sub s = (case so_subscribe s of None \<Rightarrow> 0 | Some _ \<Rightarrow> 2) + pb_opt length (so_topic_id s)"

definition pb_message :: "WireMessage \<Rightarrow> nat" where
  "pb_message m = pb_opt length (wm_from m) + pb_opt length (wm_data m) + pb_opt length (wm_seqno m)
     + pb_field (length (wm_topic m)) + pb_opt length (wm_signature m) + pb_opt length (wm_key m)"

definition pb_ihave :: "ControlIHave \<Rightarrow> nat" where
  "pb_ihave i = pb_opt length (wi_topic_id i) + pb_rep length (wi_message_ids i)"

definition pb_iwant :: "ControlIWant \<Rightarrow> nat" where
  "pb_iwant w = pb_rep length (ww_message_ids w)"

definition pb_graft :: "ControlGraft \<Rightarrow> nat" where
  "pb_graft g = pb_opt length (wg_topic_id g)"

definition pb_prune :: "ControlPrune \<Rightarrow> nat" where
  "pb_prune p = pb_opt length (wn_topic_id p)
     + pb_rep (\<lambda>i. pb_opt length (wp_peer_id i) + pb_opt length (wp_signed_peer_record i)) (wn_peers p)
     + (case wn_backoff p of None \<Rightarrow> 0 | Some b \<Rightarrow> 1 + varint_len (unat b))"

definition pb_control :: "ControlMessage \<Rightarrow> nat" where
  "pb_control c = pb_rep pb_ihave (wc_ihave c) + pb_rep pb_iwant (wc_iwant c) + pb_rep pb_graft (wc_graft c)
     + pb_rep pb_prune (wc_prune c)"

definition protobuf_lengths :: Prost where
  "protobuf_lengths =
     \<lparr>len_rpc = (\<lambda>r. pb_rep pb_sub (wr_subscriptions r) + pb_rep pb_message (wr_publish r) + pb_opt pb_control (wr_control r)),
      len_message = pb_message, len_sub = pb_sub, len_control = pb_control, len_ihave = pb_ihave, len_iwant = pb_iwant,
      len_graft = pb_graft, len_prune = pb_prune\<rparr>"

definition sub_of_size :: "nat \<Rightarrow> SubOpts" where
  "sub_of_size n = \<lparr>so_subscribe = Some True, so_topic_id = Some (replicate n CHR ''x'')\<rparr>"

lemma varint_len_small [simp]: "n < 128 \<Longrightarrow> varint_len n = 1"
  by (simp add: varint_len_def takeWhile_eq_Nil_iff upt_conv_Cons)

lemma pb_sub_of_size [simp]: "n < 100 \<Longrightarrow> pb_sub (sub_of_size n) = n + 4"
  by (simp add: pb_sub_def sub_of_size_def pb_opt_def pb_field_def)

theorem fragment_lossless_witness:
  "concat (map wr_subscriptions [\<lparr>wr_subscriptions = [sub_of_size 70], wr_publish = [], wr_control = None\<rparr>,
     \<lparr>wr_subscriptions = [sub_of_size 40], wr_publish = [], wr_control = None\<rparr>]) = [sub_of_size 70, sub_of_size 40]"
  using fragment_lossless [of protobuf_lengths rat_f64 100
    "\<lparr>wr_subscriptions = [sub_of_size 70, sub_of_size 40], wr_publish = [], wr_control = None\<rparr>"
    "[\<lparr>wr_subscriptions = [sub_of_size 70], wr_publish = [], wr_control = None\<rparr>,
      \<lparr>wr_subscriptions = [sub_of_size 40], wr_publish = [], wr_control = None\<rparr>]"]
  by (simp add: fragment_message_def protobuf_lengths_def pb_rep_def pb_opt_def pb_field_def create_or_add_rpc_def
    with_last_def push_sub_def new_rpc_def fragment_control_def)

lemma margin_23: "\<lfloor>23 * Fract 105 100\<rfloor> = (24 :: int)"
  by (rule floor_unique) (simp_all add: Fract_of_int_quotient)

text \<open>
  the fragments can exceed the limit they are made for. The margin of five percent of an item is less than the
  tag and length that precede a short item: with a limit of 100 bytes, two subscriptions with topics of 70 and 19
  characters are sent as one fragment of 101 bytes.\<close>

theorem fragment_exceeds_limit:
  "fragment_message protobuf_lengths rat_f64 100
     \<lparr>wr_subscriptions = [sub_of_size 70, sub_of_size 19], wr_publish = [], wr_control = None\<rparr>
   = Inr [\<lparr>wr_subscriptions = [sub_of_size 70, sub_of_size 19], wr_publish = [], wr_control = None\<rparr>]
   \<and> len_rpc protobuf_lengths \<lparr>wr_subscriptions = [sub_of_size 70, sub_of_size 19], wr_publish = [], wr_control = None\<rparr> = 101"
  by (simp add: fragment_message_def protobuf_lengths_def pb_rep_def pb_opt_def pb_field_def create_or_add_rpc_def
    with_last_def push_sub_def new_rpc_def fragment_control_def margin_23)


section \<open>A published message is accepted\<close>

text \<open>
  The multihash format: an identity multihash is the code 0, the length and the data; both kinds of digest parse back; nothing
  is parsed from no bytes. A key pair has a public key that decodes to itself and verifies its signatures.
\<close>

definition crypto_ok :: "Crypto \<Rightarrow> bool" where
  "crypto_ok C \<longleftrightarrow>
     cr_mh_parse C [] = None
     \<and> (\<forall>d. length d \<le> MAX_INLINE_KEY_LENGTH \<longrightarrow>
          cr_mh_digest C Identity d = [0, of_nat (length d)] @ d \<and> cr_mh_parse C (cr_mh_digest C Identity d) = Some (0, d))
     \<and> (\<forall>d. \<exists>h. cr_mh_parse C (cr_mh_digest C Sha2_256 d) = Some (0x12, h))"

definition keypair_ok :: "Crypto \<Rightarrow> Keypair \<Rightarrow> bool" where
  "keypair_ok C kp \<longleftrightarrow>
     cr_pk_decode C (kp_public kp) = Some (kp_public kp)
     \<and> (\<forall>m s. kp_sign kp m = Inr s \<longrightarrow> cr_verify C (kp_public kp) m s)"

fun authenticity_ok :: "Crypto \<Rightarrow> PeerId \<Rightarrow> MessageAuthenticity \<Rightarrow> bool" where
  "authenticity_ok C random_peer (Signed kp) = keypair_ok C kp"
| "authenticity_ok C random_peer (Author p) = peer_id_ok (cr_mh_parse C) p"
| "authenticity_ok C random_peer RandomAuthor = peer_id_ok (cr_mh_parse C) random_peer"
| "authenticity_ok C random_peer AnonymousAuthor = True"

lemma author_ok: "crypto_ok C \<Longrightarrow> peer_id_ok (cr_mh_parse C) (from_public_key (cr_mh_digest C) key)"
  by (cases "length key \<le> MAX_INLINE_KEY_LENGTH")
    (auto simp: crypto_ok_def peer_id_ok_def from_public_key_def from_bytes_def from_multihash_def to_bytes_def
      code_try_from_def dest: spec [of _ key])

lemma peer_id_ok_ne: "crypto_ok C \<Longrightarrow> peer_id_ok (cr_mh_parse C) p \<Longrightarrow> to_bytes p \<noteq> []"
  by (auto simp: crypto_ok_def peer_id_ok_def from_bytes_def)

lemma signed_verifies:
  assumes "crypto_ok C" "keypair_ok C kp" "author = from_public_key (cr_mh_digest C) (kp_public kp)"
    and "key = (if length (kp_public kp) \<le> 42 then None else Some (kp_public kp))"
    and "kp_sign kp (SIGNING_PREFIX @ cr_encode C m0) = Inr s"
    and "m0 = \<lparr>wm_from = Some (to_bytes author), wm_data = d, wm_seqno = q, wm_topic = t, wm_signature = None, wm_key = None\<rparr>"
  shows "verify_signature C \<lparr>wm_from = Some (to_bytes author), wm_data = d, wm_seqno = q, wm_topic = t, wm_signature = Some s, wm_key = key\<rparr>"
proof -
  have a: "from_bytes (cr_mh_parse C) (to_bytes author) = Inr author"
    using author_ok [OF assms(1), of "kp_public kp"] by (simp add: assms(3) peer_id_ok_def)
  have "drop 2 (to_bytes author) = kp_public kp" if "length (kp_public kp) \<le> 42"
    using that assms(1) by (simp add: assms(3) crypto_ok_def from_public_key_def to_bytes_def MAX_INLINE_KEY_LENGTH_def)
  with a assms(2,5) show ?thesis
    by (auto simp: verify_signature_def assms(3,4,6) keypair_ok_def)
qed

lemma receive_published:
  assumes "crypto_ok C" "gm_source raw = None \<or> (\<exists>p. gm_source raw = Some p \<and> peer_id_ok (cr_mh_parse C) p)"
    and "validation_plan mode (message_into_protobuf raw) = Inr (sig, gm_sequence_number raw \<noteq> None, gm_source raw \<noteq> None)"
    and "sig \<longrightarrow> verify_signature C (message_into_protobuf raw)"
  shows "receive_message C mode (message_into_protobuf raw) = Inr (raw\<lparr>gm_validated := False\<rparr>)"
proof -
  have "be_bytes 8 n \<noteq> []" for n :: u64 by (metis length_be_bytes list.size(3) numeral_eq_Suc Zero_neq_Suc)
  moreover have "be_word (be_bytes 8 n) = n" for n :: u64 by (rule be_word_bytes) simp
  ultimately have "read_seqno (gm_sequence_number raw \<noteq> None) (message_into_protobuf raw) = Inr (gm_sequence_number raw)"
    by (auto simp: read_seqno_def message_into_protobuf_def split: option.split)
  moreover have "read_source C (gm_source raw \<noteq> None) (message_into_protobuf raw) = Inr (gm_source raw)"
    using assms(2) peer_id_ok_ne [OF assms(1)]
    by (auto simp: read_source_def message_into_protobuf_def peer_id_ok_def split: option.split)
  ultimately show ?thesis
    using assms(3,4) by (auto simp: receive_message_def message_into_protobuf_def unwrap_or_default_def)
qed

lemma published_source_ok:
  assumes "crypto_ok C" "authenticity_ok C random_peer authenticity"
    and "build_raw_message C (PublishConfig_from C authenticity) seqno random_peer topic data = Inr raw"
  shows "gm_source raw = None \<or> (\<exists>p. gm_source raw = Some p \<and> peer_id_ok (cr_mh_parse C) p)"
  using assms author_ok [OF assms(1)]
  by (cases authenticity) (auto simp: build_raw_message_def Let_def split: sum.splits)

lemma published_verifies:
  assumes "crypto_ok C" "authenticity_ok C random_peer authenticity" "gm_signature raw \<noteq> None"
    and "build_raw_message C (PublishConfig_from C authenticity) seqno random_peer topic data = Inr raw"
  shows "verify_signature C (message_into_protobuf raw)"
proof (cases authenticity)
  case (Signed kp)
  let ?m = "\<lparr>wm_from = Some (to_bytes (from_public_key (cr_mh_digest C) (kp_public kp))), wm_data = Some data,
    wm_seqno = Some (be_bytes 8 seqno), wm_topic = topic, wm_signature = None, wm_key = None\<rparr>"
  from assms(4) Signed obtain s where s: "kp_sign kp (SIGNING_PREFIX @ cr_encode C ?m) = Inr s"
    and raw: "raw = \<lparr>gm_source = Some (from_public_key (cr_mh_digest C) (kp_public kp)), gm_data = data, gm_sequence_number = Some seqno,
       gm_topic = topic, gm_signature = Some s, gm_key = (if length (kp_public kp) \<le> 42 then None else Some (kp_public kp)),
       gm_validated = True\<rparr>"
    by (auto simp: build_raw_message_def Let_def split: sum.splits)
  from signed_verifies [OF assms(1) _ refl refl s refl] assms(2) Signed show ?thesis
    by (simp add: raw message_into_protobuf_def)
qed (use assms(3,4) in \<open>auto simp: build_raw_message_def\<close>)

lemma published_plan:
  assumes "validate_config authenticity mode = Inr ()" "mode \<noteq> NoValidation"
    and "build_raw_message C (PublishConfig_from C authenticity) seqno random_peer topic data = Inr raw"
  shows "validation_plan mode (message_into_protobuf raw) =
    Inr (gm_signature raw \<noteq> None, gm_sequence_number raw \<noteq> None, gm_source raw \<noteq> None)"
  using assms by (cases mode; cases authenticity)
    (auto simp: validate_config_def build_raw_message_def validation_plan_def message_into_protobuf_def Let_def split: sum.splits)

text \<open>
  a configuration that \<open>validate_config\<close> accepts does not produce messages that a peer with the same validation mode
  rejects: what \<open>build_raw_message\<close> builds, signed or not, is received as a valid message with the same
  content. A peer that does not validate drops the source and the sequence number.\<close>

theorem published_accepted:
  assumes "crypto_ok C" "authenticity_ok C random_peer authenticity" "validate_config authenticity mode = Inr ()"
    and "build_raw_message C (PublishConfig_from C authenticity) seqno random_peer topic data = Inr raw"
  shows "receive_message C mode (message_into_protobuf raw) =
    Inr (if mode = NoValidation then raw\<lparr>gm_source := None, gm_sequence_number := None, gm_validated := False\<rparr>
         else raw\<lparr>gm_validated := False\<rparr>)"
proof (cases "mode = NoValidation")
  case True
  then show ?thesis
    by (simp add: receive_message_def validation_plan_def read_seqno_def read_source_def message_into_protobuf_def unwrap_or_default_def)
next
  case False
  note plan = published_plan [OF assms(3) False assms(4)]
  have "gm_signature raw \<noteq> None \<longrightarrow> verify_signature C (message_into_protobuf raw)"
    using published_verifies [OF assms(1,2) _ assms(4)] by blast
  from receive_published [OF assms(1) published_source_ok [OF assms(1,2,4)] plan this] False show ?thesis by simp
qed

text \<open>Sample functions: the multihash format with a fixed tag for the second digest, and signatures that repeat key and message.\<close>

definition sample_crypto :: Crypto where
  "sample_crypto =
     \<lparr>cr_mh_parse = (\<lambda>b. case b of c # l # d \<Rightarrow> Some (unat c, d) | _ \<Rightarrow> None),
      cr_mh_digest = (\<lambda>alg d. case alg of Identity \<Rightarrow> [0, of_nat (length d)] @ d | Sha2_256 \<Rightarrow> [0x12, 32] @ d),
      cr_pk_decode = Some, cr_verify = (\<lambda>key m s. s = key @ m), cr_encode = (\<lambda>m. unwrap_or_default (wm_data m))\<rparr>"

definition sample_keypair :: Keypair where
  "sample_keypair = \<lparr>kp_public = [9, 9], kp_sign = (\<lambda>m. Inr ([9, 9] @ m))\<rparr>"

lemma sample_crypto_ok: "crypto_ok sample_crypto" "keypair_ok sample_crypto sample_keypair"
  by (simp_all add: crypto_ok_def keypair_ok_def sample_crypto_def sample_keypair_def)

lemma sample_published:
  "build_raw_message sample_crypto (PublishConfig_from sample_crypto (Signed sample_keypair)) 7 (PeerId []) ''t'' [5] =
    Inr \<lparr>gm_source = Some (PeerId [0, 2, 9, 9]), gm_data = [5], gm_sequence_number = Some 7, gm_topic = ''t'',
      gm_signature = Some ([9, 9] @ SIGNING_PREFIX @ [5]), gm_key = None, gm_validated = True\<rparr>"
  by (simp add: build_raw_message_def sample_crypto_def sample_keypair_def from_public_key_def MAX_INLINE_KEY_LENGTH_def
    unwrap_or_default_def Let_def)

theorem published_accepted_witness:
  "receive_message sample_crypto Strict (message_into_protobuf
     \<lparr>gm_source = Some (PeerId [0, 2, 9, 9]), gm_data = [5], gm_sequence_number = Some 7, gm_topic = ''t'',
      gm_signature = Some ([9, 9] @ SIGNING_PREFIX @ [5]), gm_key = None, gm_validated = True\<rparr>)
   = Inr \<lparr>gm_source = Some (PeerId [0, 2, 9, 9]), gm_data = [5], gm_sequence_number = Some 7, gm_topic = ''t'',
      gm_signature = Some ([9, 9] @ SIGNING_PREFIX @ [5]), gm_key = None, gm_validated = False\<rparr>"
  using published_accepted [OF sample_crypto_ok(1) _ _ sample_published, of Strict] sample_crypto_ok(2)
  by (simp add: validate_config_def)


section \<open>The end of the stream\<close>

text \<open>
  the handler of an incoming stream does not stop when the remote closes the stream: at the end of the stream every
  round of its loop reads an empty packet, which decodes to an RPC without content, and sends one more event to the
  router.\<close>

theorem handler_spins_at_end:
  assumes "rpc_decode [] = Some new_rpc"
  shows "handler_loop n C mode dec rpc_decode max_size True []
    = (replicate n (\<lparr>rpc_messages = [], rpc_subscriptions = [], rpc_control_msgs = []\<rparr>, []), Reading [])"
  using assms by (induction n) (simp_all add: read_one_eof receive_rpc_def)

theorem handler_spins_at_end_witness:
  "handler_loop 1000 sample_crypto Strict sample_varint_dec (\<lambda>_. Some new_rpc) 65535 True []
    = (replicate 1000 (\<lparr>rpc_messages = [], rpc_subscriptions = [], rpc_control_msgs = []\<rparr>, []), Reading [])"
  by (rule handler_spins_at_end) simp

end
