(* ===== verification/Gossip_Filter.thy ===== *)
theory Gossip_Filter
  imports Collections Gossip_Types
begin

text \<open>
  The filters for incoming subscriptions (\<open>protocols/gossipsub/src/subscription_filter.rs\<close>). The implementations
  of the trait \<open>TopicSubscriptionFilter\<close> are the constructors of a datatype; a callback and a compiled
  regular expression are predicates on topics. A set of references to subscriptions is a list.
\<close>

datatype SubscriptionFilter =
    AllowAll
  | Whitelist "TopicHash list"
  | MaxCount SubscriptionFilter nat nat
  | Combined SubscriptionFilter SubscriptionFilter
  | Callback "TopicHash \<Rightarrow> bool"
  | RegexFilter "TopicHash \<Rightarrow> bool"

fun can_subscribe :: "SubscriptionFilter \<Rightarrow> TopicHash \<Rightarrow> bool" where
  "can_subscribe AllowAll topic = True"
| "can_subscribe (Whitelist topics) topic = (topic \<in> set topics)"
| "can_subscribe (MaxCount f _ _) topic = can_subscribe f topic"
| "can_subscribe (Combined f g) topic = (can_subscribe f topic \<and> can_subscribe g topic)"
| "can_subscribe (Callback p) topic = p topic"
| "can_subscribe (RegexFilter p) topic = p topic"

definition allow_incoming_subscription :: "SubscriptionFilter \<Rightarrow> GossipsubSubscription \<Rightarrow> bool" where
  "allow_incoming_subscription f s = can_subscribe f (sub_topic_hash s)"

text \<open>The default of the trait keeps the subscriptions that are allowed; only the combination overrides it.\<close>

fun filter_incoming_subscription_set ::
    "SubscriptionFilter \<Rightarrow> GossipsubSubscription list \<Rightarrow> TopicHash list \<Rightarrow> string + GossipsubSubscription list" where
  "filter_incoming_subscription_set (Combined f g) subs current =
     and_then (filter_incoming_subscription_set f subs current) (\<lambda>subs. filter_incoming_subscription_set g subs current)"
| "filter_incoming_subscription_set f subs current = Inr (filter (allow_incoming_subscription f) subs)"

definition dedup_subscription ::
    "GossipsubSubscription \<Rightarrow> (TopicHash, GossipsubSubscription) hashmap \<Rightarrow> (TopicHash, GossipsubSubscription) hashmap" where
  "dedup_subscription s m =
     (case hm_get m (sub_topic_hash s) of
        Some t \<Rightarrow> if sub_action t \<noteq> sub_action s then hm_remove (sub_topic_hash s) m else m
      | None \<Rightarrow> hm_insert (sub_topic_hash s) s m)"

definition dedup_subscriptions :: "GossipsubSubscription list \<Rightarrow> GossipsubSubscription list" where
  "dedup_subscriptions subs = hm_values (fold dedup_subscription subs [])"

definition newly_subscribed :: "TopicHash list \<Rightarrow> GossipsubSubscription \<Rightarrow> bool" where
  "newly_subscribed current s \<longleftrightarrow> sub_action s = Subscribe \<and> sub_topic_hash s \<notin> set current"

definition newly_unsubscribed :: "TopicHash list \<Rightarrow> GossipsubSubscription \<Rightarrow> bool" where
  "newly_unsubscribed current s \<longleftrightarrow> sub_action s = Unsubscribe \<and> sub_topic_hash s \<in> set current"

text \<open>The default deduplicates and filters the resulting set; only the bound on the counts overrides it.\<close>

fun filter_incoming_subscriptions ::
    "SubscriptionFilter \<Rightarrow> GossipsubSubscription list \<Rightarrow> TopicHash list \<Rightarrow> string + GossipsubSubscription list" where
  "filter_incoming_subscriptions (MaxCount f max_subscribed_topics max_subscriptions_per_request) subs current =
     (if length subs > max_subscriptions_per_request then Inl ''too many subscriptions per request''
      else
        and_then (filter_incoming_subscriptions f subs current) (\<lambda>result.
          let new_subscribed = length (filter (newly_subscribed current) result);
              unsubscribed = length (filter (newly_unsubscribed current) result)
          in if new_subscribed + length current > max_subscribed_topics + unsubscribed
             then Inl ''too many subscribed topics'' else Inr result))"
| "filter_incoming_subscriptions f subs current = filter_incoming_subscription_set f (dedup_subscriptions subs) current"


section \<open>What the filters let through\<close>

lemma filter_set_eq [simp]:
  "filter_incoming_subscription_set f subs current = Inr (filter (allow_incoming_subscription f) subs)"
  by (induction f subs current rule: filter_incoming_subscription_set.induct)
    (auto simp: allow_incoming_subscription_def conj_commute intro!: filter_cong)

definition dedup_inv :: "GossipsubSubscription set \<Rightarrow> (TopicHash, GossipsubSubscription) hashmap \<Rightarrow> bool" where
  "dedup_inv S m \<longleftrightarrow> hm_wf m \<and> (\<forall>(topic, s) \<in> set m. sub_topic_hash s = topic \<and> s \<in> S)"

lemma dedup_subscription_inv: "dedup_inv S m \<Longrightarrow> s \<in> S \<Longrightarrow> dedup_inv S (dedup_subscription s m)"
  by (auto simp: dedup_inv_def dedup_subscription_def hm_set_remove hm_set_insert split: option.splits)

lemma dedup_fold_inv: "dedup_inv S m \<Longrightarrow> set subs \<subseteq> S \<Longrightarrow> dedup_inv S (fold dedup_subscription subs m)"
  by (induction subs arbitrary: m) (simp_all add: dedup_subscription_inv)

lemma dedup_subscriptions_props:
  "distinct (map sub_topic_hash (dedup_subscriptions subs))" "set (dedup_subscriptions subs) \<subseteq> set subs"
proof -
  have inv: "dedup_inv (set subs) (fold dedup_subscription subs [])"
    by (rule dedup_fold_inv) (simp_all add: dedup_inv_def)
  then have "map sub_topic_hash (dedup_subscriptions subs) = map fst (fold dedup_subscription subs [])"
    unfolding dedup_subscriptions_def dedup_inv_def by (auto simp: case_prod_beta)
  with inv show "distinct (map sub_topic_hash (dedup_subscriptions subs))" unfolding dedup_inv_def by simp
  from inv show "set (dedup_subscriptions subs) \<subseteq> set subs"
    unfolding dedup_subscriptions_def dedup_inv_def by auto
qed

lemma dedup_allowed:
  assumes "r = filter (allow_incoming_subscription f) (dedup_subscriptions subs)"
  shows "distinct (map sub_topic_hash r) \<and> set r \<subseteq> set subs \<and> (\<forall>s \<in> set r. can_subscribe f (sub_topic_hash s))"
  using dedup_subscriptions_props [of subs] unfolding assms
  by (auto intro: distinct_map_filter simp: allow_incoming_subscription_def)

lemma filter_incoming_props:
  "filter_incoming_subscriptions f subs current = Inr r \<Longrightarrow>
    distinct (map sub_topic_hash r) \<and> set r \<subseteq> set subs \<and> (\<forall>s \<in> set r. can_subscribe f (sub_topic_hash s))"
proof (induction f subs current arbitrary: r rule: filter_incoming_subscriptions.induct)
  case (1 f m n subs current)
  from "1.prems" have "filter_incoming_subscriptions f subs current = Inr r" "\<not> n < length subs"
    by (auto simp: and_then_Inr_iff Let_def split: if_splits)
  from "1.IH" [OF this(2) this(1)] show ?case by simp
qed (rule dedup_allowed, simp)+


section \<open>The bound on the subscribed topics\<close>

text \<open>What the router does with the subscriptions that pass: the topics of the peer afterwards.\<close>

definition apply_subscription :: "GossipsubSubscription \<Rightarrow> TopicHash list \<Rightarrow> TopicHash list" where
  "apply_subscription s current =
     (case sub_action s of Subscribe \<Rightarrow> hs_insert (sub_topic_hash s) current
      | Unsubscribe \<Rightarrow> hs_remove (sub_topic_hash s) current)"

lemma apply_length:
  assumes "distinct current" "distinct (map sub_topic_hash r)"
  shows "distinct (fold apply_subscription r current) \<and>
    length (fold apply_subscription r current) + length (filter (newly_unsubscribed current) r)
      = length current + length (filter (newly_subscribed current) r)"
  using assms
proof (induction r arbitrary: current)
  case (Cons s r)
  let ?c = "apply_subscription s current"
  have d: "distinct ?c" using Cons.prems(1)
    by (simp add: apply_subscription_def distinct_removeAll split: GossipsubSubscriptionAction.split)
  have "newly_unsubscribed ?c u = newly_unsubscribed current u \<and> newly_subscribed ?c u = newly_subscribed current u"
    if "u \<in> set r" for u
  proof -
    have "sub_topic_hash u \<noteq> sub_topic_hash s" using Cons.prems(2) that by (metis distinct.simps(2) image_eqI list.simps(9) set_map)
    then show ?thesis by (auto simp: newly_unsubscribed_def newly_subscribed_def apply_subscription_def
      split: GossipsubSubscriptionAction.splits)
  qed
  then have "filter (newly_unsubscribed ?c) r = filter (newly_unsubscribed current) r"
    "filter (newly_subscribed ?c) r = filter (newly_subscribed current) r" by (auto intro: filter_cong)
  moreover have "length ?c + (if newly_unsubscribed current s then 1 else 0)
      = length current + (if newly_subscribed current s then 1 else 0)"
    using Cons.prems(1) length_pos_if_in_set [of "sub_topic_hash s" current]
    by (auto simp: apply_subscription_def newly_unsubscribed_def newly_subscribed_def distinct_remove1_removeAll [symmetric]
      length_remove1 split: GossipsubSubscriptionAction.split)
  ultimately show ?case using Cons.IH [OF d] Cons.prems(2) by auto
qed simp

text \<open>
  a filter with a bound on the topics keeps a peer within the bound: once the subscriptions it lets through are
  applied, the peer has at most that many topics. The subscriptions are among those of the request,
  one per topic, and allowed by the inner filter.\<close>

theorem max_count_respected:
  assumes "distinct current" "filter_incoming_subscriptions (MaxCount f max_topics max_request) subs current = Inr r"
  shows "length (fold apply_subscription r current) \<le> max_topics \<and> length subs \<le> max_request
    \<and> distinct (map sub_topic_hash r) \<and> set r \<subseteq> set subs \<and> (\<forall>s \<in> set r. can_subscribe f (sub_topic_hash s))"
proof -
  from assms(2) have "length subs \<le> max_request"
    "length (filter (newly_subscribed current) r) + length current \<le> max_topics + length (filter (newly_unsubscribed current) r)"
    by (auto simp: and_then_Inr_iff Let_def split: if_splits)
  moreover note filter_incoming_props [OF assms(2)]
  ultimately show ?thesis using apply_length [OF assms(1), of r] by auto
qed

theorem max_count_respected_witness:
  "length (fold apply_subscription [\<lparr>sub_action = Subscribe, sub_topic_hash = ''b''\<rparr>, \<lparr>sub_action = Unsubscribe, sub_topic_hash = ''a''\<rparr>] [''a'']) \<le> 1"
  using max_count_respected [of "[''a'']" AllowAll 1 2
    "[\<lparr>sub_action = Subscribe, sub_topic_hash = ''b''\<rparr>, \<lparr>sub_action = Unsubscribe, sub_topic_hash = ''a''\<rparr>]"
    "[\<lparr>sub_action = Subscribe, sub_topic_hash = ''b''\<rparr>, \<lparr>sub_action = Unsubscribe, sub_topic_hash = ''a''\<rparr>]"]
  by (simp add: dedup_subscriptions_def dedup_subscription_def allow_incoming_subscription_def newly_subscribed_def
    newly_unsubscribed_def)

text \<open>
  a bound inside a combination of filters has no effect: the combination lets through what the two filters allow
  topic by topic, however many subscriptions there are.\<close>

theorem combined_drops_max_count:
  "filter_incoming_subscriptions (Combined (MaxCount f max_topics max_request) g) subs current
    = Inr (filter (\<lambda>s. can_subscribe f (sub_topic_hash s) \<and> can_subscribe g (sub_topic_hash s)) (dedup_subscriptions subs))"
  by (simp add: allow_incoming_subscription_def [abs_def])

end
