(* ===== verification/Time_Cache.thy ===== *)
theory Time_Cache
  imports Prelude
begin

text \<open>
  The cache of recently seen keys (\<open>protocols/gossipsub/src/time_cache.rs\<close>): a map from keys to values with
  their times of expiry, and a queue of the keys in the order of these times, from which
  expired keys are dropped. A reading of the clock is an argument.
\<close>

record ('k, 'v) TimeCache =
  tc_map :: "('k, 'v \<times> Instant) hashmap"
  tc_list :: "('k \<times> Instant) list"
  tc_ttl :: Duration

definition TimeCache_new :: "Duration \<Rightarrow> ('k, 'v) TimeCache" where
  "TimeCache_new ttl = \<lparr>tc_map = [], tc_list = [], tc_ttl = ttl\<rparr>"

fun expire :: "Instant \<Rightarrow> ('k, 'v \<times> Instant) hashmap \<Rightarrow> ('k \<times> Instant) list \<Rightarrow> ('k, 'v \<times> Instant) hashmap \<times> ('k \<times> Instant) list" where
  "expire now m [] = (m, [])"
| "expire now m ((key, expires) # rest) =
     (if expires > now then (m, (key, expires) # rest)
      else
        expire now
          (case hm_get m key of
             Some (_, e) \<Rightarrow> if e \<le> now then hm_remove key m else m
           | None \<Rightarrow> m) rest)"

definition remove_expired_keys :: "Instant \<Rightarrow> ('k, 'v) TimeCache \<Rightarrow> ('k, 'v) TimeCache" where
  "remove_expired_keys now c =
     (case expire now (tc_map c) (tc_list c) of (m, l) \<Rightarrow> c\<lparr>tc_map := m, tc_list := l\<rparr>)"

text \<open>\<open>entry\<close>: an occupied entry is its value, with the expiration that an update would set.\<close>

datatype 'v CacheSlot = Occupied 'v Instant | Vacant Instant

definition cache_entry :: "Instant \<Rightarrow> 'k \<Rightarrow> ('k, 'v) TimeCache \<Rightarrow> 'v CacheSlot \<times> ('k, 'v) TimeCache" where
  "cache_entry now key c =
     (let c = remove_expired_keys now c
      in (case hm_get (tc_map c) key of
            Some (v, _) \<Rightarrow> Occupied v (now + tc_ttl c)
          | None \<Rightarrow> Vacant (now + tc_ttl c), c))"

text \<open>\<open>VacantEntry::insert\<close> and the two insertions of \<open>OccupiedEntry\<close>.\<close>

definition vacant_insert :: "'k \<Rightarrow> Instant \<Rightarrow> 'v \<Rightarrow> ('k, 'v) TimeCache \<Rightarrow> ('k, 'v) TimeCache" where
  "vacant_insert key expiration value c =
     c\<lparr>tc_list := tc_list c @ [(key, expiration)], tc_map := hm_insert key (value, expiration) (tc_map c)\<rparr>"

definition insert_without_updating_expiration :: "'k \<Rightarrow> 'v \<Rightarrow> ('k, 'v) TimeCache \<Rightarrow> ('k, 'v) TimeCache" where
  "insert_without_updating_expiration key value c =
     c\<lparr>tc_map := (case hm_get (tc_map c) key of
        Some (_, e) \<Rightarrow> hm_insert key (value, e) (tc_map c) | None \<Rightarrow> tc_map c)\<rparr>"

definition insert_and_update_expiration :: "'k \<Rightarrow> Instant \<Rightarrow> 'v \<Rightarrow> ('k, 'v) TimeCache \<Rightarrow> ('k, 'v) TimeCache" where
  "insert_and_update_expiration key expiration value c =
     c\<lparr>tc_list := tc_list c @ [(key, expiration)], tc_map := hm_insert key (value, expiration) (tc_map c)\<rparr>"

definition entry_or_insert_with :: "Instant \<Rightarrow> 'k \<Rightarrow> 'v \<Rightarrow> ('k, 'v) TimeCache \<Rightarrow> 'v \<times> ('k, 'v) TimeCache" where
  "entry_or_insert_with now key dflt c =
     (case cache_entry now key c of
        (Occupied v _, c) \<Rightarrow> (v, c)
      | (Vacant expiration, c) \<Rightarrow> (dflt, vacant_insert key expiration dflt c))"

definition cache_clear :: "('k, 'v) TimeCache \<Rightarrow> ('k, 'v) TimeCache" where
  "cache_clear c = c\<lparr>tc_map := [], tc_list := []\<rparr>"

definition contains_key :: "'k \<Rightarrow> ('k, 'v) TimeCache \<Rightarrow> bool" where
  "contains_key key c \<longleftrightarrow> hm_get (tc_map c) key \<noteq> None"

definition cache_get :: "'k \<Rightarrow> ('k, 'v) TimeCache \<Rightarrow> 'v option" where
  "cache_get key c = map_option fst (hm_get (tc_map c) key)"

text \<open>\<open>DuplicateCache\<close>.\<close>

type_synonym 'k DuplicateCache = "('k, unit) TimeCache"

definition DuplicateCache_new :: "Duration \<Rightarrow> 'k DuplicateCache" where
  "DuplicateCache_new ttl = TimeCache_new ttl"

definition dup_insert :: "Instant \<Rightarrow> 'k \<Rightarrow> 'k DuplicateCache \<Rightarrow> bool \<times> 'k DuplicateCache" where
  "dup_insert now key c =
     (case cache_entry now key c of
        (Vacant expiration, c) \<Rightarrow> (True, vacant_insert key expiration () c)
      | (Occupied _ _, c) \<Rightarrow> (False, c))"

definition dup_contains :: "'k \<Rightarrow> 'k DuplicateCache \<Rightarrow> bool" where
  "dup_contains key c = contains_key key c"


section \<open>The contract of a duplicate filter\<close>

text \<open>
  A filter that is asked about keys at non-decreasing times. \<open>seen t c k\<close> says that \<open>k\<close> counts as seen at
  time \<open>t\<close>; \<open>inv t c\<close> that \<open>c\<close> was last used at \<open>t\<close> or before.
\<close>

locale duplicate_filter =
  fixes ttl :: Duration
    and inv :: "Instant \<Rightarrow> 'c \<Rightarrow> bool"
    and seen :: "Instant \<Rightarrow> 'c \<Rightarrow> 'k \<Rightarrow> bool"
    and ins :: "Instant \<Rightarrow> 'k \<Rightarrow> 'c \<Rightarrow> bool \<times> 'c"
  assumes ins_new: "inv now c \<Longrightarrow> now \<le> t \<Longrightarrow> fst (ins t k c) \<longleftrightarrow> \<not> seen t c k"
    and ins_inv: "inv now c \<Longrightarrow> now \<le> t \<Longrightarrow> inv t (snd (ins t k c))"
    and ins_seen: "inv now c \<Longrightarrow> now \<le> t \<Longrightarrow> t \<le> t' \<Longrightarrow>
      seen t' (snd (ins t k c)) k' \<longleftrightarrow> (if k' = k \<and> \<not> seen t c k then t' < t + ttl else seen t' c k')"
begin

primrec run :: "(Instant \<times> 'k) list \<Rightarrow> 'c \<Rightarrow> bool list \<times> 'c" where
  "run [] c = ([], c)"
| "run (x # xs) c =
     (case ins (fst x) (snd x) c of (b, c) \<Rightarrow> (case run xs c of (bs, c) \<Rightarrow> (b # bs, c)))"

lemma run_append:
  "run (xs @ ys) c = (case run xs c of (bs, c) \<Rightarrow> (case run ys c of (bs', c) \<Rightarrow> (bs @ bs', c)))"
  by (induction xs arbitrary: c) (auto split: prod.splits)

lemma length_run: "length (fst (run xs c)) = length xs"
  by (induction xs arbitrary: c) (simp_all add: case_prod_unfold)

text \<open>A key is seen exactly for the time to live after an insertion that was new.\<close>

lemma run_seen:
  assumes "inv t0 c" "\<forall>k t. \<not> seen t c k" "sorted (map fst xs)" "\<forall>x \<in> set xs. t0 \<le> fst x"
    and "t = (if xs = [] then t0 else fst (last xs))"
  shows "inv t (snd (run xs c))
    \<and> (\<forall>t' \<ge> t. \<forall>k. seen t' (snd (run xs c)) k \<longleftrightarrow>
        (\<exists>j < length xs. fst (run xs c) ! j \<and> snd (xs ! j) = k \<and> t' < fst (xs ! j) + ttl))
    \<and> (\<forall>i < length xs. fst (run xs c) ! i \<longleftrightarrow>
        \<not> (\<exists>j < i. fst (run xs c) ! j \<and> snd (xs ! j) = snd (xs ! i) \<and> fst (xs ! i) < fst (xs ! j) + ttl))"
  using assms(3-5)
proof (induction xs arbitrary: t rule: rev_induct)
  case Nil
  with assms(1,2) show ?case by simp
next
  case (snoc x xs)
  obtain bs c1 where r: "run xs c = (bs, c1)" by (cases "run xs c")
  obtain b c2 where i: "ins (fst x) (snd x) c1 = (b, c2)" by (cases "ins (fst x) (snd x) c1")
  have len: "length bs = length xs" using length_run [of xs c] r by simp
  have run: "run (xs @ [x]) c = (bs @ [b], c2)" using r i by (simp add: run_append)
  define t1 where "t1 = (if xs = [] then t0 else fst (last xs))"
  have t: "t = fst x" "t1 \<le> t" using snoc.prems last_in_set [of xs] by (auto simp: sorted_append t1_def)
  have "sorted (map fst xs)" "\<forall>y \<in> set xs. t0 \<le> fst y" using snoc.prems by (auto simp: sorted_append)
  from snoc.IH [OF this t1_def] r have inv1: "inv t1 c1"
    and s: "\<And>t' k. t1 \<le> t' \<Longrightarrow> seen t' c1 k \<longleftrightarrow> (\<exists>j < length xs. bs ! j \<and> snd (xs ! j) = k \<and> t' < fst (xs ! j) + ttl)"
    and a: "\<And>i. i < length xs \<Longrightarrow> bs ! i \<longleftrightarrow> \<not> (\<exists>j < i. bs ! j \<and> snd (xs ! j) = snd (xs ! i) \<and> fst (xs ! i) < fst (xs ! j) + ttl)"
    by auto
  have b: "b \<longleftrightarrow> \<not> seen t c1 (snd x)" using ins_new [OF inv1 t(2), of "snd x"] i t(1) by simp
  have s2: "seen t' c2 k \<longleftrightarrow> (if k = snd x \<and> b then t' < t + ttl else seen t' c1 k)" if "t \<le> t'" for t' k
    using ins_seen [OF inv1 t(2) that, of "snd x" k] i t(1) b by simp
  have "inv t c2" using ins_inv [OF inv1 t(2), of "snd x"] i t(1) by simp
  moreover have "seen t' c2 k \<longleftrightarrow> (\<exists>j < Suc (length xs). (bs @ [b]) ! j \<and> snd ((xs @ [x]) ! j) = k \<and> t' < fst ((xs @ [x]) ! j) + ttl)"
    if "t \<le> t'" for t' k
  proof -
    have "seen t' c1 k \<longleftrightarrow> (\<exists>j < length xs. bs ! j \<and> snd (xs ! j) = k \<and> t' < fst (xs ! j) + ttl)"
      using s that t(2) by simp
    moreover have "\<not> seen t' c1 k" if "k = snd x" "b"
      using s [of t k] s [of t' k] b that \<open>t \<le> t'\<close> t(2) by (auto dest: le_less_trans)
    ultimately show ?thesis using s2 [OF that] len t(1) by (auto simp: nth_append less_Suc_eq)
  qed
  moreover have "(bs @ [b]) ! i \<longleftrightarrow> \<not> (\<exists>j < i. (bs @ [b]) ! j \<and> snd ((xs @ [x]) ! j) = snd ((xs @ [x]) ! i)
      \<and> fst ((xs @ [x]) ! i) < fst ((xs @ [x]) ! j) + ttl)" if "i < Suc (length xs)" for i
    using a [of i] that len b s [OF t(2), of "snd x"] t(1) by (cases "i = length xs") (auto simp: nth_append)
  ultimately show ?case using run by simp
qed

end

section \<open>The time cache is a duplicate filter\<close>

definition cache_inv :: "Instant \<Rightarrow> ('k, 'v) TimeCache \<Rightarrow> bool" where
  "cache_inv now c \<longleftrightarrow>
     hm_wf (tc_map c) \<and> sorted (map snd (tc_list c)) \<and> (\<forall>(k, v, e) \<in> set (tc_map c). (k, e) \<in> set (tc_list c))
     \<and> (\<forall>(k, e) \<in> set (tc_list c). e \<le> now + tc_ttl c)"

definition cache_seen :: "Instant \<Rightarrow> ('k, 'v) TimeCache \<Rightarrow> 'k \<Rightarrow> bool" where
  "cache_seen now c k \<longleftrightarrow> (\<exists>v e. hm_get (tc_map c) k = Some (v, e) \<and> now < e)"

lemma expire_list: "sorted (map snd l) \<Longrightarrow> snd (expire now m l) = filter (\<lambda>x. now < snd x) l"
proof (induction now m l rule: expire.induct)
  case (2 now m key expires rest)
  show ?case
  proof (cases "expires > now")
    case True
    then have "\<forall>x \<in> set rest. now < snd x" using "2.prems" by force
    with True show ?thesis by simp
  next
    case False
    with 2 show ?thesis by simp
  qed
qed simp

lemma expire_map:
  assumes "hm_wf m"
  shows "hm_wf (fst (expire now m l))
    \<and> (sorted (map snd l) \<longrightarrow> hm_get (fst (expire now m l)) k =
        (case hm_get m k of
           Some (v, e) \<Rightarrow> if e \<le> now \<and> (\<exists>e' \<le> now. (k, e') \<in> set l) then None else Some (v, e)
         | None \<Rightarrow> None))"
  using assms
proof (induction now m l rule: expire.induct)
  case (1 now m)
  then show ?case by (simp split: option.splits)
next
  case (2 now m key expires rest)
  show ?case
  proof (cases "expires > now")
    case True
    have "(k, e') \<notin> set ((key, expires) # rest)" if "sorted (map snd ((key, expires) # rest))" "e' \<le> now" for e'
      using that True by force
    with True "2.prems" show ?thesis by (auto split: option.splits)
  next
    case False
    let ?m = "case hm_get m key of Some (_, e) \<Rightarrow> if e \<le> now then hm_remove key m else m | None \<Rightarrow> m"
    have wf: "hm_wf ?m" using "2.prems" by (auto split: option.splits)
    have get: "hm_get ?m k = (case hm_get m k of Some (v, e) \<Rightarrow> if k = key \<and> e \<le> now then None else Some (v, e) | None \<Rightarrow> None)"
      by (auto simp: hashmap_simps split: option.splits)
    show ?thesis using "2.IH" [OF False wf] False
      by (auto simp: get not_less split: option.splits if_splits)
  qed
qed

text \<open>After \<open>remove_expired_keys\<close> the map holds exactly the live keys, and the queue their times.\<close>

lemma remove_expired_seen:
  assumes "cache_inv now c" "now \<le> t" "c' = remove_expired_keys t c"
  shows "cache_inv t c'" "tc_ttl c' = tc_ttl c"
    "hm_get (tc_map c') k = (case hm_get (tc_map c) k of Some (v, e) \<Rightarrow> if t < e then Some (v, e) else None | None \<Rightarrow> None)"
proof -
  obtain m l where e: "expire t (tc_map c) (tc_list c) = (m, l)" by (cases "expire t (tc_map c) (tc_list c)")
  have wf: "hm_wf (tc_map c)" "sorted (map snd (tc_list c))" using assms(1) by (simp_all add: cache_inv_def)
  have l: "l = filter (\<lambda>x. t < snd x) (tc_list c)" using expire_list [OF wf(2), of t "tc_map c"] e by simp
  have m: "hm_wf m" "hm_get m k = (case hm_get (tc_map c) k of Some (v, e) \<Rightarrow> if t < e then Some (v, e) else None | None \<Rightarrow> None)" for k
  proof -
    show "hm_wf m" using expire_map [OF wf(1), of t "tc_list c"] e by simp
    have "(k, e) \<in> set (tc_list c)" if "hm_get (tc_map c) k = Some (v, e)" for v e
      using assms(1) map_of_SomeD [OF that] by (auto simp: cache_inv_def)
    then show "hm_get m k = (case hm_get (tc_map c) k of Some (v, e) \<Rightarrow> if t < e then Some (v, e) else None | None \<Rightarrow> None)"
      using expire_map [OF wf(1), of t "tc_list c" k] e wf(2) by (auto split: option.splits)
  qed
  have c': "c' = c\<lparr>tc_map := m, tc_list := l\<rparr>" by (simp add: assms(3) remove_expired_keys_def e)
  show "tc_ttl c' = tc_ttl c" by (simp add: c')
  show "hm_get (tc_map c') k = (case hm_get (tc_map c) k of Some (v, e) \<Rightarrow> if t < e then Some (v, e) else None | None \<Rightarrow> None)"
    using m(2) by (simp add: c')
  have "(k, e) \<in> set l" if "(k, v, e) \<in> set m" for k v e
  proof -
    have "hm_get m k = Some (v, e)" using that m(1) by simp
    then have "hm_get (tc_map c) k = Some (v, e)" "t < e" using m(2) [of k] by (auto split: option.splits if_splits)
    then show ?thesis using assms(1) map_of_SomeD by (fastforce simp: cache_inv_def l)
  qed
  moreover have "e \<le> t + tc_ttl c" if "(k, e) \<in> set l" for k e
    using that assms(1,2) by (fastforce simp: cache_inv_def l)
  ultimately show "cache_inv t c'" using m(1) wf(2) by (auto simp: cache_inv_def c' l sorted_filter)
qed

lemma vacant_insert_inv:
  assumes "cache_inv now c" "hm_get (tc_map c) k = None"
  shows "cache_inv now (vacant_insert k (now + tc_ttl c) v c)"
proof -
  have "sorted (map snd (tc_list c @ [(k, now + tc_ttl c)]))"
    using assms(1) by (auto simp: cache_inv_def sorted_append)
  then show ?thesis using assms by (auto simp: cache_inv_def vacant_insert_def hm_set_insert)
qed

lemma dup_insert_eq:
  assumes "cache_inv now c" "now \<le> t" "c' = remove_expired_keys t c"
  shows "dup_insert t k c = (if cache_seen t c k then (False, c') else (True, vacant_insert k (t + tc_ttl c) () c'))"
proof -
  note r = remove_expired_seen [OF assms]
  have "hm_get (tc_map c') k \<noteq> None \<longleftrightarrow> cache_seen t c k"
    by (auto simp: r(3) cache_seen_def split: option.splits if_splits)
  then show ?thesis
    by (auto simp: dup_insert_def cache_entry_def r(2) Let_def assms(3) [symmetric] split: option.splits)
qed

interpretation dup: duplicate_filter ttl "\<lambda>t c. cache_inv t c \<and> tc_ttl c = ttl" cache_seen dup_insert for ttl
proof
  fix now t :: Instant and c :: "'k DuplicateCache" and k :: 'k
  assume inv: "cache_inv now c \<and> tc_ttl c = ttl" and t: "now \<le> t"
  let ?c = "remove_expired_keys t c"
  note r = remove_expired_seen [OF conjunct1 [OF inv] t refl] and d = dup_insert_eq [OF conjunct1 [OF inv] t refl, of k]
  show "fst (dup_insert t k c) \<longleftrightarrow> \<not> cache_seen t c k" by (simp add: d)
  have "hm_get (tc_map ?c) k = None" if "\<not> cache_seen t c k"
    using that by (auto simp: r(3) cache_seen_def split: option.splits)
  from vacant_insert_inv [OF r(1) this, of "()"] show "cache_inv t (snd (dup_insert t k c)) \<and> tc_ttl (snd (dup_insert t k c)) = ttl"
    using inv r(1,2) by (simp add: d) (simp add: vacant_insert_def)
  fix t' :: Instant and k' :: 'k
  assume t': "t \<le> t'"
  have "cache_seen t' ?c k' \<longleftrightarrow> cache_seen t' c k'"
    using t' by (auto simp: cache_seen_def r(3) split: option.splits if_splits)
  moreover have "cache_seen t' (vacant_insert k (t + ttl) () ?c) k' \<longleftrightarrow> (if k' = k then t' < t + ttl else cache_seen t' ?c k')"
    by (simp add: cache_seen_def vacant_insert_def hashmap_simps)
  ultimately show "cache_seen t' (snd (dup_insert t k c)) k' \<longleftrightarrow>
      (if k' = k \<and> \<not> cache_seen t c k then t' < t + ttl else cache_seen t' c k')"
    using inv by (auto simp: d)
qed


section \<open>Properties\<close>

text \<open>The results of insertions at given times, in order.\<close>

fun dup_run :: "(Instant \<times> 'k) list \<Rightarrow> 'k DuplicateCache \<Rightarrow> bool list" where
  "dup_run [] c = []"
| "dup_run ((now, key) # xs) c = (case dup_insert now key c of (b, c) \<Rightarrow> b # dup_run xs c)"

lemma dup_run_eq: "dup_run xs c = fst (dup.run xs c)"
proof (induction xs arbitrary: c)
  case (Cons x xs)
  then show ?case by (cases x) (simp add: case_prod_unfold)
qed simp

text \<open>
  C33: The duplicate cache is exact. For insertions at non-decreasing times, an insertion returns true exactly
  when no earlier insertion of the same key returned true less than the time to live ago; so no key is
  reported as new twice within the time to live, and none is suppressed for longer.
\<close>

theorem duplicate_cache_exact:
  assumes "sorted (map fst xs)" "i < length xs"
  shows "dup_run xs (DuplicateCache_new ttl) ! i \<longleftrightarrow>
    \<not> (\<exists>j < i. dup_run xs (DuplicateCache_new ttl) ! j \<and> snd (xs ! j) = snd (xs ! i) \<and> fst (xs ! i) < fst (xs ! j) + ttl)"
proof -
  have "cache_inv 0 (DuplicateCache_new ttl) \<and> tc_ttl (DuplicateCache_new ttl) = ttl"
    "\<forall>k t. \<not> cache_seen t (DuplicateCache_new ttl) k"
    by (simp_all add: cache_inv_def cache_seen_def DuplicateCache_new_def TimeCache_new_def)
  from dup.run_seen [OF this assms(1) _ refl] assms(2) show ?thesis by (simp add: dup_run_eq)
qed

theorem duplicate_cache_exact_witness:
  "\<not> dup_run [(0, 5), (9, 5 :: nat), (10, 5)] (DuplicateCache_new 10) ! 1"
proof -
  let ?xs = "[(0, 5), (9, 5 :: nat), (10, 5)]"
  have "dup_run ?xs (DuplicateCache_new 10) ! 0"
    by (simp add: dup_insert_def cache_entry_def remove_expired_keys_def DuplicateCache_new_def TimeCache_new_def case_prod_unfold)
  with duplicate_cache_exact [of ?xs 1 10] show ?thesis by auto
qed

end
