(* ===== verification/Peer_Score.thy ===== *)
theory Peer_Score
  imports Float64 Time_Cache Gossip_Types
begin

text \<open>
  The scores of gossipsub peers (\<open>protocols/gossipsub/src/peer_score.rs\<close>, \<open>peer_score/params.rs\<close>): the parameters
  and their validation, the statistics per peer and topic, the records of deliveries, and the
  score computed from them. The arithmetic is the parameter \<open>F\<close> of \<open>Float64\<close>; the calls of the
  optional delivery-time callback are logged in \<open>pz_callbacks\<close>. An \<open>expect\<close> that fails is \<open>None\<close>.
\<close>

section \<open>Parameters\<close>

type_synonym IpAddr = bytes

record 'f PeerScoreThresholds =
  gossip_threshold :: 'f
  publish_threshold :: 'f
  graylist_threshold :: 'f
  accept_px_threshold :: 'f
  opportunistic_graft_threshold :: 'f

record 'f TopicScoreParams =
  topic_weight :: 'f
  time_in_mesh_weight :: 'f
  time_in_mesh_quantum :: Duration
  time_in_mesh_cap :: 'f
  first_message_deliveries_weight :: 'f
  first_message_deliveries_decay :: 'f
  first_message_deliveries_cap :: 'f
  mesh_message_deliveries_weight :: 'f
  mesh_message_deliveries_decay :: 'f
  mesh_message_deliveries_cap :: 'f
  mesh_message_deliveries_threshold :: 'f
  mesh_message_deliveries_window :: Duration
  mesh_message_deliveries_activation :: Duration
  mesh_failure_penalty_weight :: 'f
  mesh_failure_penalty_decay :: 'f
  invalid_message_deliveries_weight :: 'f
  invalid_message_deliveries_decay :: 'f

record 'f PeerScoreParams =
  score_topics :: "(TopicHash, 'f TopicScoreParams) hashmap"
  topic_score_cap :: 'f
  app_specific_weight :: 'f
  ip_colocation_factor_weight :: 'f
  ip_colocation_factor_threshold :: 'f
  ip_colocation_factor_whitelist :: "IpAddr list"
  behaviour_penalty_weight :: 'f
  behaviour_penalty_threshold :: 'f
  behaviour_penalty_decay :: 'f
  decay_interval :: Duration
  decay_to_zero :: 'f
  retain_score :: Duration

definition score_parameter_decay_with_base :: "'f F64 \<Rightarrow> Duration \<Rightarrow> Duration \<Rightarrow> 'f \<Rightarrow> 'f" where
  "score_parameter_decay_with_base F decay base to_zero =
     (let ticks = f_div F (as_secs_f64 F decay) (as_secs_f64 F base)
      in f_powf F to_zero (f_div F (f_one F) ticks))"

definition score_parameter_decay :: "'f F64 \<Rightarrow> Duration \<Rightarrow> 'f" where
  "score_parameter_decay F decay = score_parameter_decay_with_base F decay (secs 1) (f_lit F 1 10)"

definition PeerScoreThresholds_default :: "'f F64 \<Rightarrow> 'f PeerScoreThresholds" where
  "PeerScoreThresholds_default F =
     \<lparr>gossip_threshold = f_lit F (-10) 1, publish_threshold = f_lit F (-50) 1, graylist_threshold = f_lit F (-80) 1,
      accept_px_threshold = f_lit F 10 1, opportunistic_graft_threshold = f_lit F 20 1\<rparr>"

definition PeerScoreParams_default :: "'f F64 \<Rightarrow> 'f PeerScoreParams" where
  "PeerScoreParams_default F =
     \<lparr>score_topics = [], topic_score_cap = f_lit F 3600 1, app_specific_weight = f_lit F 10 1,
      ip_colocation_factor_weight = f_lit F (-5) 1, ip_colocation_factor_threshold = f_lit F 10 1,
      ip_colocation_factor_whitelist = [], behaviour_penalty_weight = f_lit F (-10) 1,
      behaviour_penalty_threshold = f_zero F, behaviour_penalty_decay = f_lit F 2 10,
      decay_interval = secs 1, decay_to_zero = f_lit F 1 10, retain_score = secs 3600\<rparr>"

definition TopicScoreParams_default :: "'f F64 \<Rightarrow> 'f TopicScoreParams" where
  "TopicScoreParams_default F =
     \<lparr>topic_weight = f_lit F 5 10,
      time_in_mesh_weight = f_one F, time_in_mesh_quantum = 1000000, time_in_mesh_cap = f_lit F 3600 1,
      first_message_deliveries_weight = f_one F, first_message_deliveries_decay = f_lit F 5 10,
      first_message_deliveries_cap = f_lit F 2000 1,
      mesh_message_deliveries_weight = f_lit F (-1) 1, mesh_message_deliveries_decay = f_lit F 5 10,
      mesh_message_deliveries_cap = f_lit F 100 1, mesh_message_deliveries_threshold = f_lit F 20 1,
      mesh_message_deliveries_window = 10000000, mesh_message_deliveries_activation = secs 5,
      mesh_failure_penalty_weight = f_lit F (-1) 1, mesh_failure_penalty_decay = f_lit F 5 10,
      invalid_message_deliveries_weight = f_lit F (-1) 1, invalid_message_deliveries_decay = f_lit F 3 10\<rparr>"

text \<open>A chain of early returns: the first condition that holds gives the error.\<close>

fun first_error :: "(bool \<times> string) list \<Rightarrow> string + unit" where
  "first_error [] = Inr ()"
| "first_error ((bad, e) # rest) = (if bad then Inl e else first_error rest)"

definition thresholds_validate :: "'f F64 \<Rightarrow> 'f PeerScoreThresholds \<Rightarrow> string + unit" where
  "thresholds_validate F t = first_error
     [(f_lt F (f_zero F) (gossip_threshold t), ''invalid gossip threshold; it must be <= 0''),
      (f_lt F (f_zero F) (publish_threshold t) \<or> f_lt F (gossip_threshold t) (publish_threshold t),
       ''Invalid publish threshold; it must be <= 0 and <= gossip threshold''),
      (f_lt F (f_zero F) (graylist_threshold t) \<or> f_lt F (publish_threshold t) (graylist_threshold t),
       ''Invalid graylist threshold; it must be <= 0 and <= publish threshold''),
      (f_lt F (accept_px_threshold t) (f_zero F), ''Invalid accept px threshold; it must be >= 0''),
      (f_lt F (opportunistic_graft_threshold t) (f_zero F), ''Invalid opportunistic grafting threshold; it must be >= 0'')]"

definition bad_decay :: "'f F64 \<Rightarrow> 'f \<Rightarrow> bool" where
  "bad_decay F d \<longleftrightarrow> f_le F d (f_zero F) \<or> f_le F (f_one F) d"

definition topic_params_validate :: "'f F64 \<Rightarrow> 'f TopicScoreParams \<Rightarrow> string + unit" where
  "topic_params_validate F p =
     (let pos = (\<lambda>x. f_lt F (f_zero F) x); neg = (\<lambda>x. f_lt F x (f_zero F));
          non_zero = (\<lambda>x. \<not> f_eq F x (f_zero F)); non_pos = (\<lambda>x. f_le F x (f_zero F))
      in first_error
       [(neg (topic_weight p), ''invalid topic weight; must be >= 0''),
        (time_in_mesh_quantum p = 0, ''Invalid time_in_mesh_quantum; must be non zero''),
        (neg (time_in_mesh_weight p), ''Invalid time_in_mesh_weight; must be positive (or 0 to disable)''),
        (non_zero (time_in_mesh_weight p) \<and> non_pos (time_in_mesh_cap p), ''Invalid time_in_mesh_cap must be positive''),
        (neg (first_message_deliveries_weight p),
         ''Invalid first_message_deliveries_weight; must be positive (or 0 to disable)''),
        (non_zero (first_message_deliveries_weight p) \<and> bad_decay F (first_message_deliveries_decay p),
         ''Invalid first_message_deliveries_decay; must be between 0 and 1''),
        (non_zero (first_message_deliveries_weight p) \<and> non_pos (first_message_deliveries_cap p),
         ''Invalid first_message_deliveries_cap must be positive''),
        (pos (mesh_message_deliveries_weight p),
         ''Invalid mesh_message_deliveries_weight; must be negative (or 0 to disable)''),
        (non_zero (mesh_message_deliveries_weight p) \<and> bad_decay F (mesh_message_deliveries_decay p),
         ''Invalid mesh_message_deliveries_decay; must be between 0 and 1''),
        (non_zero (mesh_message_deliveries_weight p) \<and> non_pos (mesh_message_deliveries_cap p),
         ''Invalid mesh_message_deliveries_cap must be positive''),
        (non_zero (mesh_message_deliveries_weight p) \<and> non_pos (mesh_message_deliveries_threshold p),
         ''Invalid mesh_message_deliveries_threshold; must be positive''),
        (non_zero (mesh_message_deliveries_weight p) \<and> mesh_message_deliveries_activation p < secs 1,
         ''Invalid mesh_message_deliveries_activation; must be at least 1s''),
        (pos (mesh_failure_penalty_weight p),
         ''Invalid mesh_failure_penalty_weight; must be negative (or 0 to disable)''),
        (non_zero (mesh_failure_penalty_weight p) \<and> bad_decay F (mesh_failure_penalty_decay p),
         ''Invalid mesh_failure_penalty_decay; must be between 0 and 1''),
        (pos (invalid_message_deliveries_weight p),
         ''Invalid invalid_message_deliveries_weight; must be negative (or 0 to disable)''),
        (bad_decay F (invalid_message_deliveries_decay p),
         ''Invalid invalid_message_deliveries_decay; must be between 0 and 1'')])"

fun topics_validate :: "'f F64 \<Rightarrow> (TopicHash, 'f TopicScoreParams) hashmap \<Rightarrow> string + unit" where
  "topics_validate F [] = Inr ()"
| "topics_validate F ((topic, p) # rest) =
     (case topic_params_validate F p of
        Inl e \<Rightarrow> Inl (''Invalid score parameters for topic '' @ topic @ '': '' @ e)
      | Inr _ \<Rightarrow> topics_validate F rest)"

definition params_validate :: "'f F64 \<Rightarrow> 'f PeerScoreParams \<Rightarrow> string + unit" where
  "params_validate F p = and_then (topics_validate F (score_topics p)) (\<lambda>_.
     (let pos = (\<lambda>x. f_lt F (f_zero F) x); neg = (\<lambda>x. f_lt F x (f_zero F));
          non_zero = (\<lambda>x. \<not> f_eq F x (f_zero F))
      in first_error
       [(neg (topic_score_cap p), ''Invalid topic score cap; must be positive (or 0 for no cap)''),
        (pos (ip_colocation_factor_weight p), ''Invalid ip_colocation_factor_weight; must be negative (or 0 to disable)''),
        (non_zero (ip_colocation_factor_weight p) \<and> f_lt F (ip_colocation_factor_threshold p) (f_one F),
         ''Invalid ip_colocation_factor_threshold; must be at least 1''),
        (pos (behaviour_penalty_weight p), ''Invalid behaviour_penalty_weight; must be negative (or 0 to disable)''),
        (non_zero (behaviour_penalty_weight p) \<and> bad_decay F (behaviour_penalty_decay p),
         ''invalid behaviour_penalty_decay; must be between 0 and 1''),
        (neg (behaviour_penalty_threshold p), ''invalid behaviour_penalty_threshold; must be >= 0''),
        (decay_interval p < secs 1, ''Invalid decay_interval; must be at least 1s''),
        (bad_decay F (decay_to_zero p), ''Invalid decay_to_zero; must be between 0 and 1'')]))"


section \<open>Statistics\<close>

datatype MeshStatus = Active Duration | InActive

record 'f TopicStats =
  ts_mesh_status :: MeshStatus
  ts_first_message_deliveries :: 'f
  ts_mesh_message_deliveries_active :: bool
  ts_mesh_message_deliveries :: 'f
  ts_mesh_failure_penalty :: 'f
  ts_invalid_message_deliveries :: 'f

definition TopicStats_default :: "'f F64 \<Rightarrow> 'f TopicStats" where
  "TopicStats_default F =
     \<lparr>ts_mesh_status = InActive, ts_first_message_deliveries = f_zero F, ts_mesh_message_deliveries_active = False,
      ts_mesh_message_deliveries = f_zero F, ts_mesh_failure_penalty = f_zero F, ts_invalid_message_deliveries = f_zero F\<rparr>"

fun mesh_active :: "MeshStatus \<Rightarrow> bool" where
  "mesh_active (Active _) = True"
| "mesh_active InActive = False"

definition in_mesh :: "'f TopicStats \<Rightarrow> bool" where
  "in_mesh ts = mesh_active (ts_mesh_status ts)"

datatype ConnectionStatus = Connected | Disconnected Instant

record 'f PeerStats =
  st_status :: ConnectionStatus
  st_topics :: "(TopicHash, 'f TopicStats) hashmap"
  st_known_ips :: "IpAddr list"
  st_behaviour_penalty :: 'f
  st_application_score :: 'f

definition PeerStats_default :: "'f F64 \<Rightarrow> 'f PeerStats" where
  "PeerStats_default F =
     \<lparr>st_status = Connected, st_topics = [], st_known_ips = [], st_behaviour_penalty = f_zero F,
      st_application_score = f_zero F\<rparr>"

definition stats_or_default_mut ::
    "'f F64 \<Rightarrow> TopicHash \<Rightarrow> 'f PeerScoreParams \<Rightarrow> 'f PeerStats \<Rightarrow> 'f TopicStats option \<times> 'f PeerStats" where
  "stats_or_default_mut F topic params st =
     (if hm_contains (score_topics params) topic then
        (let topics = hm_or_insert topic (TopicStats_default F) (st_topics st)
         in (hm_get topics topic, st\<lparr>st_topics := topics\<rparr>))
      else (hm_get (st_topics st) topic, st))"

datatype DeliveryStatus = UnknownDelivery | ValidDelivery Instant | InvalidDelivery | IgnoredDelivery

record DeliveryRecord =
  dr_status :: DeliveryStatus
  dr_first_seen :: Instant
  dr_peers :: "PeerId list"

definition DeliveryRecord_default :: "Instant \<Rightarrow> DeliveryRecord" where
  "DeliveryRecord_default now = \<lparr>dr_status = UnknownDelivery, dr_first_seen = now, dr_peers = []\<rparr>"

record 'f PeerScore =
  pz_params :: "'f PeerScoreParams"
  pz_peer_stats :: "(PeerId, 'f PeerStats) hashmap"
  pz_peer_ips :: "(IpAddr, PeerId list) hashmap"
  pz_deliveries :: "(MessageId, DeliveryRecord) TimeCache"
  pz_callback :: bool
  pz_callbacks :: "(PeerId \<times> TopicHash \<times> 'f) list"

definition TIME_CACHE_DURATION :: Duration where
  "TIME_CACHE_DURATION = secs 120"

definition PeerScore_new :: "'f PeerScoreParams \<Rightarrow> bool \<Rightarrow> 'f PeerScore" where
  "PeerScore_new params callback =
     \<lparr>pz_params = params, pz_peer_stats = [], pz_peer_ips = [], pz_deliveries = TimeCache_new TIME_CACHE_DURATION,
      pz_callback = callback, pz_callbacks = []\<rparr>"


section \<open>The score\<close>

definition f_min :: "'f F64 \<Rightarrow> 'f \<Rightarrow> 'f \<Rightarrow> 'f" where
  "f_min F v cap = (if f_lt F v cap then v else cap)"

definition square :: "'f F64 \<Rightarrow> 'f \<Rightarrow> 'f" where
  "square F x = f_mul F x x"

definition topic_score :: "'f F64 \<Rightarrow> 'f TopicScoreParams \<Rightarrow> 'f TopicStats \<Rightarrow> 'f" where
  "topic_score F tp ts =
     (let s = f_zero F;
          s = (case ts_mesh_status ts of
                 Active mesh_time \<Rightarrow>
                   (let p1 = f_min F (f_div F (as_secs_f64 F mesh_time) (as_secs_f64 F (time_in_mesh_quantum tp))) (time_in_mesh_cap tp)
                    in f_add F s (f_mul F p1 (time_in_mesh_weight tp)))
               | InActive \<Rightarrow> s);
          p2 = f_min F (ts_first_message_deliveries ts) (first_message_deliveries_cap tp);
          s = f_add F s (f_mul F p2 (first_message_deliveries_weight tp));
          s = (if ts_mesh_message_deliveries_active ts
                  \<and> f_lt F (ts_mesh_message_deliveries ts) (mesh_message_deliveries_threshold tp) then
                 (let deficit = f_sub F (mesh_message_deliveries_threshold tp) (ts_mesh_message_deliveries ts);
                      p3 = square F deficit
                  in f_add F s (f_mul F p3 (mesh_message_deliveries_weight tp)))
               else s);
          p3b = ts_mesh_failure_penalty ts;
          s = f_add F s (f_mul F p3b (mesh_failure_penalty_weight tp));
          p4 = square F (ts_invalid_message_deliveries ts)
      in f_add F s (f_mul F p4 (invalid_message_deliveries_weight tp)))"

definition add_topic_score ::
    "'f F64 \<Rightarrow> 'f PeerScoreParams \<Rightarrow> TopicHash \<times> 'f TopicStats \<Rightarrow> 'f \<Rightarrow> 'f" where
  "add_topic_score F params entry s =
     (case hm_get (score_topics params) (fst entry) of
        None \<Rightarrow> s
      | Some tp \<Rightarrow> f_add F s (f_mul F (topic_score F tp (snd entry)) (topic_weight tp)))"

definition add_ip_score :: "'f F64 \<Rightarrow> 'f PeerScore \<Rightarrow> IpAddr \<Rightarrow> 'f \<Rightarrow> 'f" where
  "add_ip_score F ps ip s =
     (let params = pz_params ps
      in if ip \<in> set (ip_colocation_factor_whitelist params) then s
         else
           (case map_option length (hm_get (pz_peer_ips ps) ip) of
              None \<Rightarrow> s
            | Some peers_in_ip \<Rightarrow>
                if f_lt F (ip_colocation_factor_threshold params) (f_of_nat F peers_in_ip) then
                  (let surplus = f_sub F (f_of_nat F peers_in_ip) (ip_colocation_factor_threshold params)
                   in f_add F s (f_mul F (square F surplus) (ip_colocation_factor_weight params)))
                else s))"

definition score :: "'f F64 \<Rightarrow> 'f PeerScore \<Rightarrow> PeerId \<Rightarrow> 'f" where
  "score F ps peer =
     (case hm_get (pz_peer_stats ps) peer of
        None \<Rightarrow> f_zero F
      | Some st \<Rightarrow>
          (let params = pz_params ps;
               s = fold (add_topic_score F params) (st_topics st) (f_zero F);
               s = (if f_lt F (f_zero F) (topic_score_cap params) \<and> f_lt F (topic_score_cap params) s
                    then topic_score_cap params else s);
               s = f_add F s (f_mul F (st_application_score st) (app_specific_weight params));
               s = fold (add_ip_score F ps) (st_known_ips st) s
           in if f_lt F (behaviour_penalty_threshold params) (st_behaviour_penalty st) then
                (let excess = f_sub F (st_behaviour_penalty st) (behaviour_penalty_threshold params)
                 in f_add F s (f_mul F (square F excess) (behaviour_penalty_weight params)))
              else s))"

definition mesh_message_deliveries :: "'f PeerScore \<Rightarrow> PeerId \<Rightarrow> TopicHash \<Rightarrow> 'f option" where
  "mesh_message_deliveries ps peer topic =
     Option.bind (hm_get (pz_peer_stats ps) peer) (\<lambda>st.
       map_option ts_mesh_message_deliveries (hm_get (st_topics st) topic))"


section \<open>Operations\<close>

definition add_penalty :: "'f F64 \<Rightarrow> PeerId \<Rightarrow> nat \<Rightarrow> 'f PeerScore \<Rightarrow> 'f PeerScore" where
  "add_penalty F peer n ps =
     ps\<lparr>pz_peer_stats := hm_modify peer (\<lambda>st. st\<lparr>st_behaviour_penalty := f_add F (st_behaviour_penalty st) (f_of_nat F n)\<rparr>)
       (pz_peer_stats ps)\<rparr>"

definition remove_ips_for_peer ::
    "'f PeerStats \<Rightarrow> PeerId \<Rightarrow> (IpAddr, PeerId list) hashmap \<Rightarrow> (IpAddr, PeerId list) hashmap" where
  "remove_ips_for_peer st peer ips = fold (\<lambda>ip. hm_modify ip (hs_remove peer)) (st_known_ips st) ips"

definition add_peer :: "'f F64 \<Rightarrow> PeerId \<Rightarrow> 'f PeerScore \<Rightarrow> 'f PeerScore" where
  "add_peer F peer ps =
     ps\<lparr>pz_peer_stats := hm_modify peer (\<lambda>st. st\<lparr>st_status := Connected\<rparr>)
       (hm_or_insert peer (PeerStats_default F) (pz_peer_stats ps))\<rparr>"

definition disconnect_topic :: "'f F64 \<Rightarrow> 'f PeerScoreParams \<Rightarrow> TopicHash \<times> 'f TopicStats \<Rightarrow> TopicHash \<times> 'f TopicStats" where
  "disconnect_topic F params entry =
     (let (topic, ts) = entry;
          ts = ts\<lparr>ts_first_message_deliveries := f_zero F\<rparr>;
          ts = (case map_option mesh_message_deliveries_threshold (hm_get (score_topics params) topic) of
                  None \<Rightarrow> ts
                | Some threshold \<Rightarrow>
                    if in_mesh ts \<and> ts_mesh_message_deliveries_active ts \<and> f_lt F (ts_mesh_message_deliveries ts) threshold then
                      (let deficit = f_sub F threshold (ts_mesh_message_deliveries ts)
                       in ts\<lparr>ts_mesh_failure_penalty := f_add F (ts_mesh_failure_penalty ts) (square F deficit)\<rparr>)
                    else ts)
      in (topic, ts\<lparr>ts_mesh_status := InActive, ts_mesh_message_deliveries_active := False\<rparr>))"

definition remove_peer :: "'f F64 \<Rightarrow> Instant \<Rightarrow> PeerId \<Rightarrow> 'f PeerScore \<Rightarrow> 'f PeerScore option" where
  "remove_peer F now peer ps =
     (if f_lt F (f_zero F) (score F ps peer) then
        (case hm_get (pz_peer_stats ps) peer of
           None \<Rightarrow> Some ps
         | Some st \<Rightarrow>
             Some (ps\<lparr>pz_peer_ips := remove_ips_for_peer st peer (pz_peer_ips ps),
                      pz_peer_stats := hm_remove peer (pz_peer_stats ps)\<rparr>))
      else
        (case hm_get (pz_peer_stats ps) peer of
           None \<Rightarrow> Some ps
         | Some st \<Rightarrow>
             if instant_fits now (retain_score (pz_params ps)) then
               Some (ps\<lparr>pz_peer_stats := hm_insert peer
                 (st\<lparr>st_topics := map (disconnect_topic F (pz_params ps)) (st_topics st),
                     st_status := Disconnected (now + retain_score (pz_params ps))\<rparr>) (pz_peer_stats ps)\<rparr>)
             else None))"

text \<open>
  The shape of the operations on the statistics of a topic: nothing happens for an unknown peer or a topic
  that is neither scored nor known; otherwise the statistics, by default fresh, are changed.
\<close>

definition with_topic_stats ::
    "'f F64 \<Rightarrow> PeerId \<Rightarrow> TopicHash \<Rightarrow> ('f TopicStats \<Rightarrow> 'f TopicStats option) \<Rightarrow> 'f PeerScore \<Rightarrow> 'f PeerScore option" where
  "with_topic_stats F peer topic f ps =
     (case hm_get (pz_peer_stats ps) peer of
        None \<Rightarrow> Some ps
      | Some st \<Rightarrow>
          (case stats_or_default_mut F topic (pz_params ps) st of
             (None, _) \<Rightarrow> Some ps
           | (Some ts, st) \<Rightarrow> do {
               ts \<leftarrow> f ts;
               Some (ps\<lparr>pz_peer_stats :=
                 hm_insert peer (st\<lparr>st_topics := hm_insert topic ts (st_topics st)\<rparr>) (pz_peer_stats ps)\<rparr>)
             }))"

definition score_graft :: "'f F64 \<Rightarrow> PeerId \<Rightarrow> TopicHash \<Rightarrow> 'f PeerScore \<Rightarrow> 'f PeerScore option" where
  "score_graft F peer topic =
     with_topic_stats F peer topic (\<lambda>ts. Some (ts\<lparr>ts_mesh_status := Active 0, ts_mesh_message_deliveries_active := False\<rparr>))"

definition score_prune :: "'f F64 \<Rightarrow> PeerId \<Rightarrow> TopicHash \<Rightarrow> 'f PeerScore \<Rightarrow> 'f PeerScore option" where
  "score_prune F peer topic ps =
     with_topic_stats F peer topic (\<lambda>ts. do {
       threshold \<leftarrow> map_option mesh_message_deliveries_threshold (hm_get (score_topics (pz_params ps)) topic);
       let ts = (if ts_mesh_message_deliveries_active ts \<and> f_lt F (ts_mesh_message_deliveries ts) threshold then
                   (let deficit = f_sub F threshold (ts_mesh_message_deliveries ts)
                    in ts\<lparr>ts_mesh_failure_penalty := f_add F (ts_mesh_failure_penalty ts) (square F deficit)\<rparr>)
                 else ts);
       Some (ts\<lparr>ts_mesh_message_deliveries_active := False, ts_mesh_status := InActive\<rparr>)
     }) ps"

definition mark_invalid_message_delivery :: "'f F64 \<Rightarrow> PeerId \<Rightarrow> TopicHash \<Rightarrow> 'f PeerScore \<Rightarrow> 'f PeerScore option" where
  "mark_invalid_message_delivery F peer topic =
     with_topic_stats F peer topic (\<lambda>ts.
       Some (ts\<lparr>ts_invalid_message_deliveries := f_add F (ts_invalid_message_deliveries ts) (f_one F)\<rparr>))"

definition bump_capped :: "'f F64 \<Rightarrow> 'f \<Rightarrow> 'f \<Rightarrow> 'f" where
  "bump_capped F cap x = (if f_lt F cap (f_add F x (f_one F)) then cap else f_add F x (f_one F))"

definition mark_first_message_delivery :: "'f F64 \<Rightarrow> PeerId \<Rightarrow> TopicHash \<Rightarrow> 'f PeerScore \<Rightarrow> 'f PeerScore option" where
  "mark_first_message_delivery F peer topic ps =
     with_topic_stats F peer topic (\<lambda>ts. do {
       tp \<leftarrow> hm_get (score_topics (pz_params ps)) topic;
       let ts = ts\<lparr>ts_first_message_deliveries := bump_capped F (first_message_deliveries_cap tp) (ts_first_message_deliveries ts)\<rparr>;
       Some (if in_mesh ts
             then ts\<lparr>ts_mesh_message_deliveries := bump_capped F (mesh_message_deliveries_cap tp) (ts_mesh_message_deliveries ts)\<rparr>
             else ts)
     }) ps"

definition mark_duplicate_message_delivery ::
    "'f F64 \<Rightarrow> Instant \<Rightarrow> PeerId \<Rightarrow> TopicHash \<Rightarrow> Instant option \<Rightarrow> 'f PeerScore \<Rightarrow> 'f PeerScore option" where
  "mark_duplicate_message_delivery F now peer topic validated_time ps =
     with_topic_stats F peer topic (\<lambda>ts.
       if in_mesh ts then do {
         tp \<leftarrow> hm_get (score_topics (pz_params ps)) topic;
         let falls_in_window =
           (case validated_time of
              None \<Rightarrow> True
            | Some validated \<Rightarrow>
                (let window_time = (if instant_fits validated (mesh_message_deliveries_window tp)
                                    then validated + mesh_message_deliveries_window tp else now)
                 in \<not> now > window_time));
         Some (if falls_in_window
               then ts\<lparr>ts_mesh_message_deliveries := bump_capped F (mesh_message_deliveries_cap tp) (ts_mesh_message_deliveries ts)\<rparr>
               else ts)
       } else Some ts) ps"

text \<open>The callback is called for a peer that is in the mesh of the topic.\<close>

definition run_callback :: "PeerId \<Rightarrow> TopicHash \<Rightarrow> 'f \<Rightarrow> 'f PeerScore \<Rightarrow> 'f PeerScore" where
  "run_callback peer topic time ps =
     (if pz_callback ps
         \<and> (case Option.bind (hm_get (pz_peer_stats ps) peer) (\<lambda>st. hm_get (st_topics st) topic) of
              None \<Rightarrow> False | Some ts \<Rightarrow> in_mesh ts)
      then ps\<lparr>pz_callbacks := pz_callbacks ps @ [(peer, topic, time)]\<rparr> else ps)"

definition delivery_entry :: "Instant \<Rightarrow> MessageId \<Rightarrow> 'f PeerScore \<Rightarrow> DeliveryRecord \<times> 'f PeerScore" where
  "delivery_entry now mid ps =
     (let (r, d) = entry_or_insert_with now mid (DeliveryRecord_default now) (pz_deliveries ps)
      in (r, ps\<lparr>pz_deliveries := d\<rparr>))"

definition set_record :: "MessageId \<Rightarrow> DeliveryRecord \<Rightarrow> 'f PeerScore \<Rightarrow> 'f PeerScore" where
  "set_record mid r ps = ps\<lparr>pz_deliveries := insert_without_updating_expiration mid r (pz_deliveries ps)\<rparr>"

definition validate_message :: "'f F64 \<Rightarrow> Instant \<Rightarrow> PeerId \<Rightarrow> MessageId \<Rightarrow> TopicHash \<Rightarrow> 'f PeerScore \<Rightarrow> 'f PeerScore" where
  "validate_message F now from mid topic ps = run_callback from topic (f_zero F) (snd (delivery_entry now mid ps))"

definition deliver_message ::
    "'f F64 \<Rightarrow> Instant \<Rightarrow> PeerId \<Rightarrow> MessageId \<Rightarrow> TopicHash \<Rightarrow> 'f PeerScore \<Rightarrow> 'f PeerScore option" where
  "deliver_message F now from mid topic ps = do {
     ps \<leftarrow> mark_first_message_delivery F from topic ps;
     let (r, ps) = delivery_entry now mid ps;
     if dr_status r \<noteq> UnknownDelivery then Some ps
     else
       foldM (\<lambda>peer ps. if peer \<noteq> from then mark_duplicate_message_delivery F now peer topic None ps else Some ps)
         (dr_peers r) (set_record mid (r\<lparr>dr_status := ValidDelivery now\<rparr>) ps)
   }"

definition reject_invalid_message :: "'f F64 \<Rightarrow> PeerId \<Rightarrow> TopicHash \<Rightarrow> 'f PeerScore \<Rightarrow> 'f PeerScore option" where
  "reject_invalid_message F from topic ps = mark_invalid_message_delivery F from topic ps"

fun score_reject_message ::
    "'f F64 \<Rightarrow> Instant \<Rightarrow> PeerId \<Rightarrow> MessageId \<Rightarrow> TopicHash \<Rightarrow> RejectReason \<Rightarrow> 'f PeerScore \<Rightarrow> 'f PeerScore option" where
  "score_reject_message F now from mid topic (ValidationError _) ps = reject_invalid_message F from topic ps"
| "score_reject_message F now from mid topic SelfOrigin ps = reject_invalid_message F from topic ps"
| "score_reject_message F now from mid topic BlackListedPeer ps = Some ps"
| "score_reject_message F now from mid topic BlackListedSource ps = Some ps"
| "score_reject_message F now from mid topic reason ps =
     (let (r, ps) = delivery_entry now mid ps
      in if dr_status r \<noteq> UnknownDelivery then Some ps
         else if reason = ValidationIgnored then Some (set_record mid (r\<lparr>dr_status := IgnoredDelivery, dr_peers := []\<rparr>) ps)
         else do {
           ps \<leftarrow> mark_invalid_message_delivery F from topic
             (set_record mid (r\<lparr>dr_status := InvalidDelivery, dr_peers := []\<rparr>) ps);
           foldM (\<lambda>peer. mark_invalid_message_delivery F peer topic) (dr_peers r) ps
         })"

definition duplicated_message ::
    "'f F64 \<Rightarrow> Instant \<Rightarrow> PeerId \<Rightarrow> MessageId \<Rightarrow> TopicHash \<Rightarrow> 'f PeerScore \<Rightarrow> 'f PeerScore option" where
  "duplicated_message F now from mid topic ps =
     (let (r, ps) = delivery_entry now mid ps
      in if from \<in> set (dr_peers r) then Some ps
         else
           (let time = (case dr_status r of ValidDelivery validated \<Rightarrow> as_secs_f64 F (now - validated) | _ \<Rightarrow> f_zero F);
                ps = run_callback from topic time ps
            in case dr_status r of
                 UnknownDelivery \<Rightarrow> Some (set_record mid (r\<lparr>dr_peers := hs_insert from (dr_peers r)\<rparr>) ps)
               | ValidDelivery validated \<Rightarrow>
                   mark_duplicate_message_delivery F now from topic (Some validated)
                     (set_record mid (r\<lparr>dr_peers := hs_insert from (dr_peers r)\<rparr>) ps)
               | InvalidDelivery \<Rightarrow> mark_invalid_message_delivery F from topic ps
               | IgnoredDelivery \<Rightarrow> Some ps))"

definition set_application_score :: "PeerId \<Rightarrow> 'f \<Rightarrow> 'f PeerScore \<Rightarrow> bool \<times> 'f PeerScore" where
  "set_application_score peer new_score ps =
     (hm_contains (pz_peer_stats ps) peer,
      ps\<lparr>pz_peer_stats := hm_modify peer (\<lambda>st. st\<lparr>st_application_score := new_score\<rparr>) (pz_peer_stats ps)\<rparr>)"

definition cap_topic_stats ::
    "TopicHash \<Rightarrow> ('f TopicStats \<Rightarrow> 'f TopicStats) \<Rightarrow> (PeerId, 'f PeerStats) hashmap \<Rightarrow> (PeerId, 'f PeerStats) hashmap" where
  "cap_topic_stats topic f stats = map (\<lambda>(peer, st). (peer, st\<lparr>st_topics := hm_modify topic f (st_topics st)\<rparr>)) stats"

definition set_topic_params :: "'f F64 \<Rightarrow> TopicHash \<Rightarrow> 'f TopicScoreParams \<Rightarrow> 'f PeerScore \<Rightarrow> 'f PeerScore" where
  "set_topic_params F topic tp ps =
     (let params = pz_params ps;
          ps' = ps\<lparr>pz_params := params\<lparr>score_topics := hm_insert topic tp (score_topics params)\<rparr>\<rparr>
      in case hm_get (score_topics params) topic of
           None \<Rightarrow> ps'
         | Some old \<Rightarrow>
             (let first_cap = first_message_deliveries_cap tp; mesh_cap = mesh_message_deliveries_cap tp;
                  stats = pz_peer_stats ps';
                  stats = (if f_lt F first_cap (first_message_deliveries_cap old) then
                             cap_topic_stats topic (\<lambda>ts.
                               if f_lt F first_cap (ts_first_message_deliveries ts)
                               then ts\<lparr>ts_first_message_deliveries := first_cap\<rparr> else ts) stats
                           else stats);
                  stats = (if f_lt F mesh_cap (mesh_message_deliveries_cap old) then
                             cap_topic_stats topic (\<lambda>ts.
                               if f_lt F mesh_cap (ts_mesh_message_deliveries ts)
                               then ts\<lparr>ts_mesh_message_deliveries := mesh_cap\<rparr> else ts) stats
                           else stats)
              in ps'\<lparr>pz_peer_stats := stats\<rparr>))"


section \<open>Runs\<close>

text \<open>
  \<open>retain_ok\<close>: the time at which the statistics of a disconnected peer expire is representable.
\<close>

datatype 'f ScoreOp =
    AddPenalty PeerId nat
  | AddPeer PeerId
  | RemovePeer Instant PeerId
  | ScoreGraft PeerId TopicHash
  | ScorePrune PeerId TopicHash
  | ValidateMessage Instant PeerId MessageId TopicHash
  | DeliverMessage Instant PeerId MessageId TopicHash
  | RejectInvalidMessage PeerId TopicHash
  | RejectMessage Instant PeerId MessageId TopicHash RejectReason
  | DuplicatedMessage Instant PeerId MessageId TopicHash
  | SetApplicationScore PeerId 'f
  | SetTopicParams TopicHash "'f TopicScoreParams"

fun score_op :: "'f F64 \<Rightarrow> 'f ScoreOp \<Rightarrow> 'f PeerScore \<Rightarrow> 'f PeerScore option" where
  "score_op F (AddPenalty peer n) ps = Some (add_penalty F peer n ps)"
| "score_op F (AddPeer peer) ps = Some (add_peer F peer ps)"
| "score_op F (RemovePeer now peer) ps = remove_peer F now peer ps"
| "score_op F (ScoreGraft peer topic) ps = score_graft F peer topic ps"
| "score_op F (ScorePrune peer topic) ps = score_prune F peer topic ps"
| "score_op F (ValidateMessage now peer mid topic) ps = Some (validate_message F now peer mid topic ps)"
| "score_op F (DeliverMessage now peer mid topic) ps = deliver_message F now peer mid topic ps"
| "score_op F (RejectInvalidMessage peer topic) ps = reject_invalid_message F peer topic ps"
| "score_op F (RejectMessage now peer mid topic reason) ps = score_reject_message F now peer mid topic reason ps"
| "score_op F (DuplicatedMessage now peer mid topic) ps = duplicated_message F now peer mid topic ps"
| "score_op F (SetApplicationScore peer x) ps = Some (snd (set_application_score peer x ps))"
| "score_op F (SetTopicParams topic tp) ps = Some (set_topic_params F topic tp ps)"

fun retain_ok :: "Duration \<Rightarrow> 'f ScoreOp \<Rightarrow> bool" where
  "retain_ok d (RemovePeer now _) = instant_fits now d"
| "retain_ok d _ = True"

text \<open>
  What all operations keep: statistics exist for scored topics only; no address of a peer is known; no peer
  has its mesh deliveries activated, the time in the mesh is zero, and there is no mesh failure penalty.
\<close>

definition topic_stats_inv :: "'f F64 \<Rightarrow> 'f TopicStats \<Rightarrow> bool" where
  "topic_stats_inv F ts \<longleftrightarrow>
     \<not> ts_mesh_message_deliveries_active ts \<and> ts_mesh_status ts \<in> {InActive, Active 0}
     \<and> ts_mesh_failure_penalty ts = f_zero F"

definition peer_stats_inv :: "'f F64 \<Rightarrow> 'f PeerScoreParams \<Rightarrow> 'f PeerStats \<Rightarrow> bool" where
  "peer_stats_inv F params st \<longleftrightarrow>
     st_known_ips st = []
     \<and> (\<forall>(topic, ts) \<in> set (st_topics st). hm_contains (score_topics params) topic \<and> topic_stats_inv F ts)"

definition score_inv :: "'f F64 \<Rightarrow> 'f PeerScore \<Rightarrow> bool" where
  "score_inv F ps \<longleftrightarrow>
     hm_wf (pz_peer_stats ps) \<and> (\<forall>(peer, st) \<in> set (pz_peer_stats ps). peer_stats_inv F (pz_params ps) st)"

lemma set_hm_insert_subset: "set (hm_insert k v m) \<subseteq> insert (k, v) (set m)"
  by (induction m) auto

lemma peer_stats_inv_insert:
  "peer_stats_inv F params st \<Longrightarrow> hm_contains (score_topics params) topic \<Longrightarrow> topic_stats_inv F ts \<Longrightarrow>
    peer_stats_inv F params (st\<lparr>st_topics := hm_insert topic ts (st_topics st)\<rparr>)"
  using set_hm_insert_subset [of topic ts "st_topics st"] unfolding peer_stats_inv_def by auto

lemma score_inv_insert:
  "score_inv F ps \<Longrightarrow> peer_stats_inv F (pz_params ps) st \<Longrightarrow>
    score_inv F (ps\<lparr>pz_peer_stats := hm_insert peer st (pz_peer_stats ps)\<rparr>)"
  using set_hm_insert_subset [of peer st "pz_peer_stats ps"] unfolding score_inv_def by auto

lemma score_inv_get: "score_inv F ps \<Longrightarrow> hm_get (pz_peer_stats ps) peer = Some st \<Longrightarrow> peer_stats_inv F (pz_params ps) st"
  unfolding score_inv_def by (auto dest: map_of_SomeD)

lemma peer_stats_inv_get:
  "peer_stats_inv F params st \<Longrightarrow> hm_get (st_topics st) topic = Some ts \<Longrightarrow>
    hm_contains (score_topics params) topic \<and> topic_stats_inv F ts"
  unfolding peer_stats_inv_def by (auto dest: map_of_SomeD)

lemma score_inv_modify:
  "score_inv F ps \<Longrightarrow> (\<And>st. peer_stats_inv F (pz_params ps) st \<Longrightarrow> peer_stats_inv F (pz_params ps) (f st)) \<Longrightarrow>
    score_inv F (ps\<lparr>pz_peer_stats := hm_modify peer f (pz_peer_stats ps)\<rparr>)"
  by (auto simp: hm_modify_def score_inv_insert score_inv_get split: option.splits)

lemma topic_stats_inv_default [simp]: "topic_stats_inv F (TopicStats_default F)"
  by (simp add: topic_stats_inv_def TopicStats_default_def)

lemma stats_or_default_inv:
  assumes "peer_stats_inv F params st" "stats_or_default_mut F topic params st = (r, st')"
  shows "peer_stats_inv F params st' \<and> (\<forall>ts. r = Some ts \<longrightarrow> hm_contains (score_topics params) topic \<and> topic_stats_inv F ts)"
proof (cases "hm_contains (score_topics params) topic")
  case True
  note st' = peer_stats_inv_insert [OF assms(1) True topic_stats_inv_default]
  from True assms have "st' = st\<lparr>st_topics := hm_or_insert topic (TopicStats_default F) (st_topics st)\<rparr>"
    and r: "r = hm_get (st_topics st') topic"
    by (auto simp: stats_or_default_mut_def Let_def)
  with st' assms(1) have "peer_stats_inv F params st'" by (auto simp: hm_or_insert_def split: if_splits)
  with r True show ?thesis by (auto dest: peer_stats_inv_get)
next
  case False
  with assms have "st' = st" "r = hm_get (st_topics st) topic" by (auto simp: stats_or_default_mut_def)
  with assms(1) show ?thesis using peer_stats_inv_get [OF assms(1), of topic] by (cases r) simp_all
qed

lemma with_topic_stats_inv:
  assumes "score_inv F ps"
    and "\<And>ts. hm_contains (score_topics (pz_params ps)) topic \<Longrightarrow> topic_stats_inv F ts \<Longrightarrow> ok (topic_stats_inv F) (f ts)"
  shows "ok (\<lambda>ps'. score_inv F ps' \<and> pz_params ps' = pz_params ps) (with_topic_stats F peer topic f ps)"
proof (cases "hm_get (pz_peer_stats ps) peer")
  case (Some st)
  obtain r st' where d: "stats_or_default_mut F topic (pz_params ps) st = (r, st')" by fastforce
  note inv = stats_or_default_inv [OF score_inv_get [OF assms(1) Some] d]
  show ?thesis
  proof (cases r)
    case (Some ts)
    with inv have "ok (topic_stats_inv F) (f ts)" using assms(2) by blast
    then obtain ts' where "f ts = Some ts'" "topic_stats_inv F ts'" by (auto elim: okE)
    with inv Some \<open>hm_get (pz_peer_stats ps) peer = Some st\<close> d assms(1) show ?thesis
      by (simp add: with_topic_stats_def score_inv_insert peer_stats_inv_insert)
  qed (use Some d assms(1) in \<open>simp add: with_topic_stats_def\<close>)
qed (use assms in \<open>simp add: with_topic_stats_def\<close>)


text \<open>The operations, one by one.\<close>

lemmas mark_defs = score_graft_def score_prune_def mark_invalid_message_delivery_def mark_first_message_delivery_def
  mark_duplicate_message_delivery_def

abbreviation keeps_inv :: "'f F64 \<Rightarrow> 'f PeerScore \<Rightarrow> 'f PeerScore option \<Rightarrow> bool" where
  "keeps_inv F ps m \<equiv> ok (\<lambda>ps'. score_inv F ps' \<and> pz_params ps' = pz_params ps) m"

lemma score_graft_inv: "score_inv F ps \<Longrightarrow> keeps_inv F ps (score_graft F peer topic ps)"
  unfolding score_graft_def by (rule with_topic_stats_inv) (simp_all add: topic_stats_inv_def)

lemma score_prune_inv: "score_inv F ps \<Longrightarrow> keeps_inv F ps (score_prune F peer topic ps)"
  unfolding score_prune_def by (rule with_topic_stats_inv) (auto simp: topic_stats_inv_def)

lemma mark_invalid_inv: "score_inv F ps \<Longrightarrow> keeps_inv F ps (mark_invalid_message_delivery F peer topic ps)"
  unfolding mark_invalid_message_delivery_def by (rule with_topic_stats_inv) (simp_all add: topic_stats_inv_def)

lemma mark_first_inv: "score_inv F ps \<Longrightarrow> keeps_inv F ps (mark_first_message_delivery F peer topic ps)"
  unfolding mark_first_message_delivery_def by (rule with_topic_stats_inv) (auto simp: topic_stats_inv_def Let_def)

lemma mark_duplicate_inv: "score_inv F ps \<Longrightarrow> keeps_inv F ps (mark_duplicate_message_delivery F now peer topic v ps)"
  unfolding mark_duplicate_message_delivery_def by (rule with_topic_stats_inv) (auto simp: topic_stats_inv_def Let_def)

lemma score_inv_frame [simp]:
  "score_inv F (ps\<lparr>pz_deliveries := d\<rparr>) = score_inv F ps"
  "score_inv F (ps\<lparr>pz_callbacks := l\<rparr>) = score_inv F ps"
  "score_inv F (ps\<lparr>pz_peer_ips := i\<rparr>) = score_inv F ps"
  by (simp_all add: score_inv_def)

lemma set_record_frame [simp]:
  "score_inv F (set_record mid r ps) = score_inv F ps" "pz_params (set_record mid r ps) = pz_params ps"
  "pz_peer_stats (set_record mid r ps) = pz_peer_stats ps"
  by (simp_all add: set_record_def)

lemma run_callback_frame [simp]:
  "score_inv F (run_callback peer topic t ps) = score_inv F ps" "pz_params (run_callback peer topic t ps) = pz_params ps"
  "pz_peer_stats (run_callback peer topic t ps) = pz_peer_stats ps"
  by (simp_all add: run_callback_def)

lemma delivery_entry_frame [simp]:
  "score_inv F (snd (delivery_entry now mid ps)) = score_inv F ps"
  "pz_params (snd (delivery_entry now mid ps)) = pz_params ps"
  "pz_peer_stats (snd (delivery_entry now mid ps)) = pz_peer_stats ps"
  by (simp_all add: delivery_entry_def case_prod_beta)

lemma keeps_inv_foldM:
  assumes "score_inv F ps" "\<And>x ps. score_inv F ps \<Longrightarrow> keeps_inv F ps (f x ps)"
  shows "keeps_inv F ps (foldM f xs ps)"
proof (rule ok_foldM)
  fix x ps' assume "score_inv F ps' \<and> pz_params ps' = pz_params ps"
  with assms(2) [of ps' x] show "keeps_inv F ps (f x ps')" by auto
qed (simp add: assms)

lemma keeps_inv_bind:
  assumes "keeps_inv F ps m" "\<And>ps'. score_inv F ps' \<Longrightarrow> pz_params ps' = pz_params ps \<Longrightarrow> keeps_inv F ps' (f ps')"
  shows "keeps_inv F ps (Option.bind m f)"
proof -
  from assms(1) obtain ps' where ps': "m = Some ps'" "score_inv F ps'" "pz_params ps' = pz_params ps" by (auto elim: okE)
  with assms(2) [OF ps'(2,3)] show ?thesis by simp
qed

lemma deliver_message_inv:
  assumes "score_inv F ps"
  shows "keeps_inv F ps (deliver_message F now from mid topic ps)"
  unfolding deliver_message_def
proof (rule keeps_inv_bind [OF mark_first_inv [OF assms]])
  fix ps' :: "'a PeerScore" assume inv: "score_inv F ps'"
  obtain r ps2 where e: "delivery_entry now mid ps' = (r, ps2)" by fastforce
  with delivery_entry_frame [where now = now and mid = mid and ps = ps'] inv have ps2: "score_inv F ps2" "pz_params ps2 = pz_params ps'" by auto
  let ?f = "\<lambda>peer ps. if peer \<noteq> from then mark_duplicate_message_delivery F now peer topic None ps else Some ps"
  have "keeps_inv F (set_record mid (r\<lparr>dr_status := ValidDelivery now\<rparr>) ps2)
    (foldM ?f (dr_peers r) (set_record mid (r\<lparr>dr_status := ValidDelivery now\<rparr>) ps2))"
    by (rule keeps_inv_foldM) (simp_all add: ps2 mark_duplicate_inv)
  with e ps2 show "keeps_inv F ps' (let (r, ps) = delivery_entry now mid ps'
      in if dr_status r \<noteq> UnknownDelivery then Some ps
         else foldM ?f (dr_peers r) (set_record mid (r\<lparr>dr_status := ValidDelivery now\<rparr>) ps))"
    by simp
qed

lemma reject_tracked_inv:
  assumes "score_inv F ps" "reason = ValidationIgnored \<or> reason = ValidationFailed"
  shows "keeps_inv F ps (score_reject_message F now from mid topic reason ps)"
proof -
  obtain r ps2 where e: "delivery_entry now mid ps = (r, ps2)" by fastforce
  with delivery_entry_frame [where now = now and mid = mid and ps = ps] assms have ps2: "score_inv F ps2" "pz_params ps2 = pz_params ps" by auto
  let ?ps = "set_record mid (r\<lparr>dr_status := InvalidDelivery, dr_peers := []\<rparr>) ps2"
  have "keeps_inv F ?ps (Option.bind (mark_invalid_message_delivery F from topic ?ps)
      (foldM (\<lambda>peer. mark_invalid_message_delivery F peer topic) (dr_peers r)))"
  proof (rule keeps_inv_bind)
    show "keeps_inv F ?ps (mark_invalid_message_delivery F from topic ?ps)" by (rule mark_invalid_inv) (simp add: ps2)
  qed (rule keeps_inv_foldM, assumption, rule mark_invalid_inv)
  with assms(2) e ps2 show ?thesis by auto
qed

lemma score_reject_inv: "score_inv F ps \<Longrightarrow> keeps_inv F ps (score_reject_message F now from mid topic reason ps)"
  using reject_tracked_inv [of F ps reason] by (cases reason) (simp_all add: reject_invalid_message_def mark_invalid_inv)

lemma duplicated_message_inv:
  assumes "score_inv F ps"
  shows "keeps_inv F ps (duplicated_message F now from mid topic ps)"
proof -
  obtain r ps2 where e: "delivery_entry now mid ps = (r, ps2)" by fastforce
  with delivery_entry_frame [where now = now and mid = mid and ps = ps] assms have ps2: "score_inv F ps2" "pz_params ps2 = pz_params ps" by auto
  have k: "keeps_inv F ps (mark_duplicate_message_delivery F now from topic v ps3)"
    "keeps_inv F ps (mark_invalid_message_delivery F from topic ps3)" if "score_inv F ps3" "pz_params ps3 = pz_params ps" for ps3 v
    using mark_duplicate_inv [OF that(1), of now "from" topic v] mark_invalid_inv [OF that(1), of "from" topic] that(2) by simp_all
  show ?thesis
    unfolding duplicated_message_def e by (auto simp: Let_def ps2 k split: DeliveryStatus.splits)
qed

lemma disconnect_topic_inv:
  "fst (disconnect_topic F params entry) = fst entry
    \<and> (topic_stats_inv F (snd entry) \<longrightarrow> topic_stats_inv F (snd (disconnect_topic F params entry)))"
  by (simp add: disconnect_topic_def topic_stats_inv_def Let_def case_prod_beta split: option.split)

lemma disconnect_topics_inv:
  assumes "peer_stats_inv F params st"
  shows "peer_stats_inv F params (st\<lparr>st_topics := map (disconnect_topic F params) (st_topics st), st_status := s\<rparr>)"
  using assms disconnect_topic_inv [of F params] unfolding peer_stats_inv_def by (simp add: case_prod_beta)

lemma remove_peer_inv:
  assumes "score_inv F ps" "instant_fits now (retain_score (pz_params ps))"
  shows "keeps_inv F ps (remove_peer F now peer ps)"
proof (cases "hm_get (pz_peer_stats ps) peer")
  case (Some st)
  note st = score_inv_get [OF assms(1) Some]
  have "score_inv F (ps\<lparr>pz_peer_ips := i, pz_peer_stats := hm_remove peer (pz_peer_stats ps)\<rparr>)" for i
    using assms(1) by (auto simp: score_inv_def hm_set_remove)
  then show ?thesis using Some assms by (simp add: remove_peer_def score_inv_insert disconnect_topics_inv [OF st])
qed (use assms in \<open>simp add: remove_peer_def\<close>)


lemma peer_stats_inv_params:
  "peer_stats_inv F params st \<Longrightarrow> (\<And>t. hm_contains (score_topics params) t \<Longrightarrow> hm_contains (score_topics params') t) \<Longrightarrow>
    peer_stats_inv F params' st"
  unfolding peer_stats_inv_def by fastforce

lemma cap_topic_stats_inv:
  assumes "score_inv F ps" "\<And>ts. topic_stats_inv F ts \<Longrightarrow> topic_stats_inv F (f ts)"
  shows "score_inv F (ps\<lparr>pz_peer_stats := cap_topic_stats topic f (pz_peer_stats ps)\<rparr>)"
proof -
  have "peer_stats_inv F (pz_params ps) (st\<lparr>st_topics := hm_modify topic f (st_topics st)\<rparr>)"
    if st: "peer_stats_inv F (pz_params ps) st" for st
    using st peer_stats_inv_get [OF st, of topic] assms(2)
    by (auto simp: hm_modify_def peer_stats_inv_insert split: option.splits)
  with assms(1) show ?thesis
    unfolding score_inv_def cap_topic_stats_def by (simp add: case_prod_beta comp_def)
qed

lemma set_topic_params_inv:
  assumes "score_inv F ps"
  shows "score_inv F (set_topic_params F topic tp ps)"
    and "retain_score (pz_params (set_topic_params F topic tp ps)) = retain_score (pz_params ps)"
proof -
  let ?ps = "ps\<lparr>pz_params := (pz_params ps)\<lparr>score_topics := hm_insert topic tp (score_topics (pz_params ps))\<rparr>\<rparr>"
  have "score_inv F ?ps"
    using assms unfolding score_inv_def
    by (auto intro: peer_stats_inv_params [of F "pz_params ps"] simp: hashmap_simps)
  then have c: "score_inv F (?ps\<lparr>pz_peer_stats := cap_topic_stats topic f (pz_peer_stats ?ps)\<rparr>)"
    if "\<And>ts. topic_stats_inv F ts \<Longrightarrow> topic_stats_inv F (f ts)" for f
    using that by (rule cap_topic_stats_inv)
  from this [THEN cap_topic_stats_inv] \<open>score_inv F ?ps\<close> c
  show "score_inv F (set_topic_params F topic tp ps)"
    by (auto simp: set_topic_params_def Let_def topic_stats_inv_def split: option.split)
  show "retain_score (pz_params (set_topic_params F topic tp ps)) = retain_score (pz_params ps)"
    by (simp add: set_topic_params_def Let_def split: option.split)
qed

lemma score_op_inv:
  assumes "score_inv F ps" "retain_ok (retain_score (pz_params ps)) oper"
  shows "ok (\<lambda>ps'. score_inv F ps' \<and> retain_score (pz_params ps') = retain_score (pz_params ps)) (score_op F oper ps)"
proof -
  have mono: "ok (\<lambda>ps'. score_inv F ps' \<and> retain_score (pz_params ps') = retain_score (pz_params ps)) m"
    if "keeps_inv F ps m" for m using that by (rule ok_mono) simp
  have default: "peer_stats_inv F (pz_params ps) (PeerStats_default F)"
    by (simp add: peer_stats_inv_def PeerStats_default_def)
  have "score_inv F (ps\<lparr>pz_peer_stats := hm_or_insert peer (PeerStats_default F) (pz_peer_stats ps)\<rparr>)" for peer
    using assms(1) default by (simp add: hm_or_insert_def score_inv_insert)
  from score_inv_modify [OF this] have "score_inv F (add_peer F peer ps)" for peer
    by (simp add: add_peer_def peer_stats_inv_def)
  moreover have "score_inv F (add_penalty F peer n ps)" "score_inv F (snd (set_application_score peer x ps))" for peer n x
    using score_inv_modify [OF assms(1)] by (simp_all add: add_penalty_def set_application_score_def peer_stats_inv_def)
  ultimately show ?thesis
    using assms by (cases oper)
      (simp_all add: mono remove_peer_inv score_graft_inv score_prune_inv deliver_message_inv reject_invalid_message_def
        mark_invalid_inv score_reject_inv duplicated_message_inv set_topic_params_inv add_peer_def add_penalty_def
        set_application_score_def validate_message_def)
qed

lemma score_run_inv:
  assumes "score_inv F ps" "\<forall>oper \<in> set ops. retain_ok (retain_score (pz_params ps)) oper"
  shows "ok (score_inv F) (foldM (score_op F) ops ps)"
proof -
  let ?P = "\<lambda>ps'. score_inv F ps' \<and> retain_score (pz_params ps') = retain_score (pz_params ps)"
  have "ok ?P (foldM (score_op F) ops ps)"
  proof (rule ok_foldM)
    fix oper ps' assume o: "oper \<in> set ops" "?P ps'"
    then have "retain_ok (retain_score (pz_params ps')) oper" using assms(2) by metis
    with score_op_inv [of F ps' oper] o(2) show "ok ?P (score_op F oper ps')" by simp
  qed (simp add: assms(1))
  then show ?thesis by (rule ok_mono) simp
qed

lemma score_inv_new: "score_inv F (PeerScore_new params callback)"
  by (simp add: score_inv_def PeerScore_new_def)

lemma PeerScore_new_params [simp]: "pz_params (PeerScore_new params callback) = params"
  by (simp add: PeerScore_new_def)


section \<open>What the score depends on\<close>

text \<open>
  The statistics that count: whether the peer is in the mesh, its first deliveries, its invalid messages, the
  application's score and the behavioural penalty. The terms for the time in the mesh and for mesh
  failures are constants, those for mesh deliveries and for shared addresses are absent.
\<close>

definition live_topic_score :: "'f F64 \<Rightarrow> 'f TopicScoreParams \<Rightarrow> bool \<Rightarrow> 'f \<Rightarrow> 'f \<Rightarrow> 'f" where
  "live_topic_score F tp meshed first invalid =
     (let s = (if meshed
               then f_add F (f_zero F) (f_mul F (f_min F (f_div F (as_secs_f64 F 0) (as_secs_f64 F (time_in_mesh_quantum tp)))
                      (time_in_mesh_cap tp)) (time_in_mesh_weight tp))
               else f_zero F);
          s = f_add F s (f_mul F (f_min F first (first_message_deliveries_cap tp)) (first_message_deliveries_weight tp));
          s = f_add F s (f_mul F (f_zero F) (mesh_failure_penalty_weight tp))
      in f_add F s (f_mul F (square F invalid) (invalid_message_deliveries_weight tp)))"

definition live_score :: "'f F64 \<Rightarrow> 'f PeerScoreParams \<Rightarrow> 'f PeerStats \<Rightarrow> 'f" where
  "live_score F params st =
     (let s = fold (\<lambda>(topic, ts) s.
                case hm_get (score_topics params) topic of
                  None \<Rightarrow> s
                | Some tp \<Rightarrow> f_add F s (f_mul F
                    (live_topic_score F tp (in_mesh ts) (ts_first_message_deliveries ts) (ts_invalid_message_deliveries ts))
                    (topic_weight tp))) (st_topics st) (f_zero F);
          s = (if f_lt F (f_zero F) (topic_score_cap params) \<and> f_lt F (topic_score_cap params) s
               then topic_score_cap params else s);
          s = f_add F s (f_mul F (st_application_score st) (app_specific_weight params))
      in if f_lt F (behaviour_penalty_threshold params) (st_behaviour_penalty st)
         then f_add F s (f_mul F (square F (f_sub F (st_behaviour_penalty st) (behaviour_penalty_threshold params)))
                (behaviour_penalty_weight params))
         else s)"

lemma topic_score_live:
  "topic_stats_inv F ts \<Longrightarrow>
    topic_score F tp ts = live_topic_score F tp (in_mesh ts) (ts_first_message_deliveries ts) (ts_invalid_message_deliveries ts)"
  by (auto simp: topic_stats_inv_def topic_score_def live_topic_score_def in_mesh_def Let_def)

lemma score_unknown: "hm_get (pz_peer_stats ps) peer = None \<Longrightarrow> score F ps peer = f_zero F"
  by (simp add: score_def)

lemma score_live:
  assumes "score_inv F ps" "hm_get (pz_peer_stats ps) peer = Some st"
  shows "score F ps peer = live_score F (pz_params ps) st"
proof -
  from score_inv_get [OF assms] have st: "st_known_ips st = []" "\<forall>(topic, ts) \<in> set (st_topics st). topic_stats_inv F ts"
    by (auto simp: peer_stats_inv_def)
  have "fold (add_topic_score F (pz_params ps)) (st_topics st) s =
      fold (\<lambda>(topic, ts) s. case hm_get (score_topics (pz_params ps)) topic of None \<Rightarrow> s
        | Some tp \<Rightarrow> f_add F s (f_mul F
            (live_topic_score F tp (in_mesh ts) (ts_first_message_deliveries ts) (ts_invalid_message_deliveries ts))
            (topic_weight tp))) (st_topics st) s" for s
    by (rule fold_cong) (use st(2) in \<open>auto simp: add_topic_score_def topic_score_live fun_eq_iff split: option.split\<close>)
  with st(1) assms(2) show ?thesis by (simp add: score_def live_score_def Let_def)
qed


text \<open>
  C36: after any sequence of operations on a new score table none of the \<open>expect\<close>s has failed, and the score of
  every known peer is a function of its first deliveries, its invalid messages, its being in the
  mesh, the application's score and its behavioural penalty alone. The parameters for mesh
  deliveries (P3), sticky mesh failures (P3b), shared addresses (P6) and the time in the mesh (P1) never
  have an effect: the operations that would activate them are not part of the code.\<close>

theorem score_live_statistics:
  assumes "\<forall>oper \<in> set ops. retain_ok (retain_score params) oper"
  shows "ok (\<lambda>ps. \<forall>peer. score F ps peer =
      (case hm_get (pz_peer_stats ps) peer of None \<Rightarrow> f_zero F | Some st \<Rightarrow> live_score F (pz_params ps) st))
    (foldM (score_op F) ops (PeerScore_new params callback))"
proof -
  have "ok (score_inv F) (foldM (score_op F) ops (PeerScore_new params callback))"
    by (rule score_run_inv) (use assms in \<open>simp_all add: score_inv_new\<close>)
  then show ?thesis by (rule ok_mono) (auto simp: score_live score_unknown split: option.split)
qed

theorem score_live_statistics_witness:
  "ok (\<lambda>ps. score rat_f64 ps (PeerId [1]) =
      (case hm_get (pz_peer_stats ps) (PeerId [1]) of None \<Rightarrow> f_zero rat_f64 | Some st \<Rightarrow> live_score rat_f64 (pz_params ps) st))
    (foldM (score_op rat_f64) [AddPeer (PeerId [1]), ScoreGraft (PeerId [1]) ''t'', DeliverMessage 5 (PeerId [1]) [7] ''t'',
        DuplicatedMessage 6 (PeerId [2]) [7] ''t'', AddPenalty (PeerId [1]) 2, RemovePeer 9 (PeerId [1])]
      (PeerScore_new ((PeerScoreParams_default rat_f64)\<lparr>score_topics := [(''t'', TopicScoreParams_default rat_f64)]\<rparr>) False))"
  by (rule ok_mono [OF score_live_statistics]) (simp_all add: instant_fits_def INSTANT_LIMIT_def PeerScoreParams_default_def
    secs_def)


section \<open>Reconnecting\<close>

lemma hm_get_map_disconnect:
  "hm_get (map (disconnect_topic F params) m) topic = map_option (\<lambda>ts. snd (disconnect_topic F params (topic, ts))) (hm_get m topic)"
  using disconnect_topic_inv [of F params] by (induction m) auto

lemma disconnect_topic_invalid [simp]:
  "ts_invalid_message_deliveries (snd (disconnect_topic F params (topic, ts))) = ts_invalid_message_deliveries ts"
  by (simp add: disconnect_topic_def Let_def split: option.split)

text \<open>
  a peer whose score is not positive does not improve its record by disconnecting and connecting again: the
  penalties for its behaviour and for invalid messages, and the application's score, are the
  same when it is back.\<close>

theorem penalties_survive_reconnect:
  assumes "hm_get (pz_peer_stats ps) peer = Some st" "\<not> f_lt F (f_zero F) (score F ps peer)"
    and "instant_fits now (retain_score (pz_params ps))"
  shows "ok (\<lambda>ps'. \<exists>st'. hm_get (pz_peer_stats ps') peer = Some st' \<and> st_status st' = Connected
      \<and> st_behaviour_penalty st' = st_behaviour_penalty st \<and> st_application_score st' = st_application_score st
      \<and> (\<forall>topic. map_option ts_invalid_message_deliveries (hm_get (st_topics st') topic)
           = map_option ts_invalid_message_deliveries (hm_get (st_topics st) topic)))
    (foldM (score_op F) [RemovePeer now peer, AddPeer peer] ps)"
  using assms by (simp add: remove_peer_def add_peer_def hashmap_simps hm_get_map_disconnect option.map_comp comp_def)

theorem penalties_survive_reconnect_witness:
  "ok (\<lambda>ps'. \<exists>st'. hm_get (pz_peer_stats ps') (PeerId [1]) = Some st' \<and> st_behaviour_penalty st' = 3)
    (foldM (score_op rat_f64) [RemovePeer 9 (PeerId [1]), AddPeer (PeerId [1])]
      ((PeerScore_new (PeerScoreParams_default rat_f64) False)\<lparr>pz_peer_stats :=
        [(PeerId [1], (PeerStats_default rat_f64)\<lparr>st_behaviour_penalty := 3\<rparr>)]\<rparr>))"
  by (rule ok_mono [OF penalties_survive_reconnect])
    (auto simp: score_def PeerScore_new_def PeerScoreParams_default_def PeerStats_default_def instant_fits_def
      INSTANT_LIMIT_def secs_def square_def)

end
