(* ===== verification/Message_Cache.thy ===== *)
theory Message_Cache
  imports Gossip_Types
begin

text \<open>
  The message cache of gossipsub (\<open>protocols/gossipsub/src/mcache.rs\<close>): the messages of the last heartbeats,
  with a history of one list of message identifiers per heartbeat. An index or \<open>expect\<close> that panics is
  \<open>None\<close>.
\<close>

record CacheEntry =
  ce_mid :: MessageId
  ce_topic :: TopicHash

record MessageCache =
  mc_msgs :: "(MessageId, RawGossipsubMessage) hashmap"
  mc_iwant_counts :: "(MessageId, (PeerId, u32) hashmap) hashmap"
  mc_history :: "CacheEntry list list"
  mc_gossip :: nat

definition MessageCache_new :: "nat \<Rightarrow> nat \<Rightarrow> MessageCache" where
  "MessageCache_new gossip history_capacity =
     \<lparr>mc_msgs = [], mc_iwant_counts = [], mc_history = replicate history_capacity [], mc_gossip = gossip\<rparr>"

definition mcache_put :: "MessageId \<Rightarrow> RawGossipsubMessage \<Rightarrow> MessageCache \<Rightarrow> (RawGossipsubMessage option \<times> MessageCache) option" where
  "mcache_put mid msg c =
     (let seen = hm_get (mc_msgs c) mid;
          c = c\<lparr>mc_msgs := hm_insert mid msg (mc_msgs c)\<rparr>
      in if seen = None then
           (case mc_history c of
              [] \<Rightarrow> None
            | entries # rest \<Rightarrow>
                Some (seen, c\<lparr>mc_history := (entries @ [\<lparr>ce_mid = mid, ce_topic = gm_topic msg\<rparr>]) # rest\<rparr>))
         else Some (seen, c))"

definition mcache_get :: "MessageId \<Rightarrow> MessageCache \<Rightarrow> RawGossipsubMessage option" where
  "mcache_get mid c = hm_get (mc_msgs c) mid"

definition get_with_iwant_counts ::
    "MessageId \<Rightarrow> PeerId \<Rightarrow> MessageCache \<Rightarrow> (RawGossipsubMessage \<times> u32) option \<times> MessageCache" where
  "get_with_iwant_counts mid peer c =
     (case hm_get (mc_msgs c) mid of
        None \<Rightarrow> (None, c)
      | Some msg \<Rightarrow>
          if \<not> gm_validated msg then (None, c)
          else
            (let counts = (case hm_get (mc_iwant_counts c) mid of None \<Rightarrow> [] | Some m \<Rightarrow> m);
                 n = (case hm_get counts peer of None \<Rightarrow> 0 | Some n \<Rightarrow> n) + 1
             in (Some (msg, n), c\<lparr>mc_iwant_counts := hm_insert mid (hm_insert peer n counts) (mc_iwant_counts c)\<rparr>)))"

definition validate :: "MessageId \<Rightarrow> MessageCache \<Rightarrow> RawGossipsubMessage option \<times> MessageCache" where
  "validate mid c =
     (case hm_get (mc_msgs c) mid of
        None \<Rightarrow> (None, c)
      | Some msg \<Rightarrow>
          (let msg = msg\<lparr>gm_validated := True\<rparr> in (Some msg, c\<lparr>mc_msgs := hm_insert mid msg (mc_msgs c)\<rparr>)))"

definition gossip_entry :: "MessageCache \<Rightarrow> TopicHash \<Rightarrow> CacheEntry \<Rightarrow> MessageId option" where
  "gossip_entry c topic entry =
     (if ce_topic entry = topic then
        (if map_option gm_validated (hm_get (mc_msgs c) (ce_mid entry)) = Some True then Some (ce_mid entry) else None)
      else None)"

definition get_gossip_message_ids :: "TopicHash \<Rightarrow> MessageCache \<Rightarrow> MessageId list option" where
  "get_gossip_message_ids topic c =
     (if mc_gossip c \<le> length (mc_history c) then
        Some (foldl (\<lambda>current entries. current @ List.map_filter (gossip_entry c topic) entries) []
          (take (mc_gossip c) (mc_history c)))
      else None)"

fun drop_entries :: "CacheEntry list \<Rightarrow> MessageCache \<Rightarrow> MessageCache" where
  "drop_entries [] c = c"
| "drop_entries (entry # entries) c =
     drop_entries entries
       (c\<lparr>mc_msgs := hm_remove (ce_mid entry) (mc_msgs c), mc_iwant_counts := hm_remove (ce_mid entry) (mc_iwant_counts c)\<rparr>)"

definition mcache_shift :: "MessageCache \<Rightarrow> MessageCache option" where
  "mcache_shift c =
     (if mc_history c = [] then None
      else
        (let c' = drop_entries (last (mc_history c)) (c\<lparr>mc_history := butlast (mc_history c)\<rparr>)
         in Some (c'\<lparr>mc_history := [] # mc_history c'\<rparr>)))"

definition mcache_remove :: "MessageId \<Rightarrow> MessageCache \<Rightarrow> RawGossipsubMessage option \<times> MessageCache" where
  "mcache_remove mid c =
     (hm_get (mc_msgs c) mid,
      c\<lparr>mc_iwant_counts := hm_remove mid (mc_iwant_counts c), mc_msgs := hm_remove mid (mc_msgs c)\<rparr>)"


section \<open>Runs\<close>

datatype CacheOp =
    Put MessageId RawGossipsubMessage
  | Validate MessageId
  | AnswerIWant MessageId PeerId
  | Shift
  | Remove MessageId

fun cache_op :: "CacheOp \<Rightarrow> MessageCache \<Rightarrow> MessageCache option" where
  "cache_op (Put mid msg) c = map_option snd (mcache_put mid msg c)"
| "cache_op (Validate mid) c = Some (snd (validate mid c))"
| "cache_op (AnswerIWant mid peer) c = Some (snd (get_with_iwant_counts mid peer c))"
| "cache_op Shift c = mcache_shift c"
| "cache_op (Remove mid) c = Some (snd (mcache_remove mid c))"

fun cache_run :: "CacheOp list \<Rightarrow> MessageCache \<Rightarrow> MessageCache option" where
  "cache_run [] c = Some c"
| "cache_run (oper # ops) c = (case cache_op oper c of None \<Rightarrow> None | Some c' \<Rightarrow> cache_run ops c')"

text \<open>The entries of a message in a slot of the history.\<close>

definition slot_entries :: "MessageId \<Rightarrow> MessageCache \<Rightarrow> nat \<Rightarrow> CacheEntry set" where
  "slot_entries mid c j = {e \<in> set (mc_history c ! j). ce_mid e = mid}"

lemma drop_entries_simps [simp]:
  "mc_history (drop_entries es c) = mc_history c" "mc_gossip (drop_entries es c) = mc_gossip c"
  "hm_get (mc_msgs (drop_entries es c)) mid = (if \<exists>e \<in> set es. ce_mid e = mid then None else hm_get (mc_msgs c) mid)"
  by (induction es arbitrary: c) (auto simp: hashmap_simps)

lemma iwant_frame [simp]:
  "mc_msgs (snd (get_with_iwant_counts mid peer c)) = mc_msgs c"
  "mc_history (snd (get_with_iwant_counts mid peer c)) = mc_history c"
  "mc_gossip (snd (get_with_iwant_counts mid peer c)) = mc_gossip c"
  by (simp_all add: get_with_iwant_counts_def Let_def split: option.split)

text \<open>Every operation keeps the length of the history, and none panics on a history that is not empty.\<close>

lemma cache_op_total:
  assumes "mc_history c \<noteq> []"
  shows "\<exists>c'. cache_op oper c = Some c' \<and> length (mc_history c') = length (mc_history c) \<and> mc_gossip c' = mc_gossip c"
proof (cases oper)
  case (Put mid msg)
  with assms show ?thesis by (cases "mc_history c") (auto simp: mcache_put_def Let_def)
next
  case (Validate mid)
  then show ?thesis by (cases "hm_get (mc_msgs c) mid") (simp_all add: validate_def Let_def)
next
  case (AnswerIWant mid peer)
  then show ?thesis by simp
next
  case Shift
  with assms show ?thesis by (simp add: mcache_shift_def Let_def)
next
  case (Remove mid)
  then show ?thesis by (simp add: mcache_remove_def)
qed

text \<open>An operation other than a shift that does not put or remove the message.\<close>

definition touches :: "MessageId \<Rightarrow> CacheOp \<Rightarrow> bool" where
  "touches mid oper \<longleftrightarrow> (\<exists>msg. oper = Put mid msg) \<or> oper = Remove mid"

definition mark :: "MessageId \<Rightarrow> CacheOp \<Rightarrow> RawGossipsubMessage \<Rightarrow> RawGossipsubMessage" where
  "mark mid oper msg = (if oper = Validate mid then msg\<lparr>gm_validated := True\<rparr> else msg)"

lemma cache_op_frame:
  assumes "cache_op oper c = Some c'" "\<not> touches mid oper" "oper \<noteq> Shift"
  shows "length (mc_history c') = length (mc_history c)"
    "j < length (mc_history c) \<Longrightarrow> slot_entries mid c' j = slot_entries mid c j"
    "hm_get (mc_msgs c') mid = map_option (mark mid oper) (hm_get (mc_msgs c) mid)"
proof -
  have "length (mc_history c') = length (mc_history c)
    \<and> (j < length (mc_history c) \<longrightarrow> slot_entries mid c' j = slot_entries mid c j)
    \<and> hm_get (mc_msgs c') mid = map_option (mark mid oper) (hm_get (mc_msgs c) mid)"
  proof (cases oper)
    case (Put mid' msg)
    with assms(2) have "mid' \<noteq> mid" by (auto simp: touches_def)
    with Put assms(1) show ?thesis
      by (cases j; cases "mc_history c"; cases "hm_get (mc_msgs c) mid")
        (auto simp: mcache_put_def mark_def Let_def slot_entries_def hashmap_simps split: if_splits)
  next
    case (Validate mid')
    with assms(1) show ?thesis
      by (cases "hm_get (mc_msgs c) mid'"; cases "hm_get (mc_msgs c) mid")
        (auto simp: validate_def mark_def Let_def slot_entries_def hashmap_simps)
  next
    case (AnswerIWant mid' peer)
    with assms(1) show ?thesis by (cases "hm_get (mc_msgs c) mid") (auto simp: mark_def slot_entries_def)
  next
    case (Remove mid')
    with assms(1,2) show ?thesis
      by (cases "hm_get (mc_msgs c) mid") (auto simp: mcache_remove_def mark_def slot_entries_def hashmap_simps touches_def)
  qed (use assms(3) in simp)
  then show "length (mc_history c') = length (mc_history c)"
    "j < length (mc_history c) \<Longrightarrow> slot_entries mid c' j = slot_entries mid c j"
    "hm_get (mc_msgs c') mid = map_option (mark mid oper) (hm_get (mc_msgs c) mid)" by blast+
qed

text \<open>A shift moves the slots up by one and forgets the messages of the last one.\<close>

lemma cache_shift_frame:
  assumes "mcache_shift c = Some c'"
  shows "length (mc_history c') = length (mc_history c)" "mc_history c \<noteq> []" "slot_entries mid c' 0 = {}"
    "Suc j < length (mc_history c) \<Longrightarrow> slot_entries mid c' (Suc j) = slot_entries mid c j"
    "hm_get (mc_msgs c') mid =
      (if slot_entries mid c (length (mc_history c) - 1) = {} then hm_get (mc_msgs c) mid else None)"
proof -
  show h: "mc_history c \<noteq> []" using assms by (auto simp: mcache_shift_def)
  then have c': "mc_history c' = [] # butlast (mc_history c)"
    "hm_get (mc_msgs c') mid = (if \<exists>e \<in> set (last (mc_history c)). ce_mid e = mid then None else hm_get (mc_msgs c) mid)"
    using assms by (auto simp: mcache_shift_def Let_def)
  show "length (mc_history c') = length (mc_history c)" "slot_entries mid c' 0 = {}" using c'(1) h by (simp_all add: slot_entries_def)
  show "Suc j < length (mc_history c) \<Longrightarrow> slot_entries mid c' (Suc j) = slot_entries mid c j"
    using c'(1) by (simp add: slot_entries_def nth_butlast)
  have "slot_entries mid c (length (mc_history c) - 1) = {} \<longleftrightarrow> \<not> (\<exists>e \<in> set (last (mc_history c)). ce_mid e = mid)"
    using h by (auto simp: slot_entries_def last_conv_nth)
  then show "hm_get (mc_msgs c') mid =
      (if slot_entries mid c (length (mc_history c) - 1) = {} then hm_get (mc_msgs c) mid else None)"
    using c'(2) by simp
qed

text \<open>
  A message that was put once and not removed: it is in one slot of the history and in the map, with its flag
  \<open>validated\<close> possibly set since; and a message that is in neither.
\<close>

definition cached_at :: "nat \<Rightarrow> MessageId \<Rightarrow> RawGossipsubMessage \<Rightarrow> MessageCache \<Rightarrow> bool" where
  "cached_at i mid msg c \<longleftrightarrow>
     i < length (mc_history c)
     \<and> (\<forall>j < length (mc_history c). slot_entries mid c j = (if j = i then {\<lparr>ce_mid = mid, ce_topic = gm_topic msg\<rparr>} else {}))
     \<and> hm_get (mc_msgs c) mid = Some msg"

definition forgotten :: "MessageId \<Rightarrow> MessageCache \<Rightarrow> bool" where
  "forgotten mid c \<longleftrightarrow> (\<forall>j < length (mc_history c). slot_entries mid c j = {}) \<and> hm_get (mc_msgs c) mid = None"

lemma cached_put:
  assumes "forgotten mid c" "mc_history c \<noteq> []"
  shows "\<exists>c'. mcache_put mid msg c = Some (None, c') \<and> cached_at 0 mid msg c'
    \<and> length (mc_history c') = length (mc_history c) \<and> mc_gossip c' = mc_gossip c"
proof -
  obtain es rest where h: "mc_history c = es # rest" using assms(2) by (cases "mc_history c") simp_all
  let ?h = "(es @ [\<lparr>ce_mid = mid, ce_topic = gm_topic msg\<rparr>]) # rest"
  let ?c = "c\<lparr>mc_msgs := hm_insert mid msg (mc_msgs c), mc_history := ?h\<rparr>"
  have "slot_entries mid ?c j = (if j = 0 then {\<lparr>ce_mid = mid, ce_topic = gm_topic msg\<rparr>} else {})" if "j < length ?h" for j
    using assms(1) h that by (cases j) (fastforce simp: forgotten_def slot_entries_def)+
  then have "cached_at 0 mid msg ?c" by (simp add: cached_at_def hashmap_simps)
  with assms(1) h show ?thesis by (simp add: mcache_put_def forgotten_def Let_def)
qed

lemma forgotten_op:
  assumes "forgotten mid c" "cache_op oper c = Some c'" "\<not> touches mid oper"
  shows "forgotten mid c'"
proof (cases "oper = Shift")
  case True
  with assms(2) have "mcache_shift c = Some c'" by simp
  note f = cache_shift_frame [OF this]
  have "slot_entries mid c' j = {}" if "j < length (mc_history c')" for j
    using that f(1,3,4) assms(1) by (cases j) (simp_all add: forgotten_def)
  moreover have "slot_entries mid c (length (mc_history c) - 1) = {}" using assms(1) f(2) by (simp add: forgotten_def)
  ultimately show ?thesis using f(5) assms(1) by (simp add: forgotten_def)
next
  case False
  note f = cache_op_frame [OF assms(2,3) False]
  with assms(1) show ?thesis by (simp add: forgotten_def)
qed

lemma cached_op:
  assumes "cached_at i mid msg c" "cache_op oper c = Some c'" "\<not> touches mid oper" "oper \<noteq> Shift"
  shows "cached_at i mid (mark mid oper msg) c'"
proof -
  note f = cache_op_frame [OF assms(2-4)]
  have "gm_topic (mark mid oper msg) = gm_topic msg" by (simp add: mark_def)
  with f assms(1) show ?thesis by (simp add: cached_at_def)
qed

lemma cached_shift:
  assumes "cached_at i mid msg c" "mcache_shift c = Some c'"
  shows "if Suc i < length (mc_history c) then cached_at (Suc i) mid msg c' else forgotten mid c'"
proof -
  note f = cache_shift_frame [OF assms(2)]
  have s: "slot_entries mid c' j = (if j = Suc i then {\<lparr>ce_mid = mid, ce_topic = gm_topic msg\<rparr>} else {})"
    if "j < length (mc_history c)" for j
    using that f(3,4) assms(1) by (cases j) (auto simp: cached_at_def)
  have l: "slot_entries mid c (length (mc_history c) - 1) = {} \<longleftrightarrow> Suc i < length (mc_history c)"
    using assms(1) f(2) by (auto simp: cached_at_def)
  show ?thesis using s l f(1,5) assms(1) by (auto simp: cached_at_def forgotten_def)
qed

lemma forgotten_run:
  assumes "forgotten mid c" "\<forall>oper \<in> set ops. \<not> touches mid oper" "mc_history c \<noteq> []"
  shows "\<exists>c'. cache_run ops c = Some c' \<and> forgotten mid c' \<and> length (mc_history c') = length (mc_history c)
    \<and> mc_gossip c' = mc_gossip c"
  using assms
proof (induction ops arbitrary: c)
  case (Cons oper ops)
  obtain c1 where c1: "cache_op oper c = Some c1" "length (mc_history c1) = length (mc_history c)" "mc_gossip c1 = mc_gossip c"
    using cache_op_total [OF Cons.prems(3)] by blast
  have "forgotten mid c1" using forgotten_op [OF Cons.prems(1) c1(1)] Cons.prems(2) by simp
  moreover have "mc_history c1 \<noteq> []" using c1(2) Cons.prems(3) by auto
  ultimately show ?case using Cons.IH [of c1] Cons.prems(2) c1 by simp
qed simp

definition shifts :: "CacheOp list \<Rightarrow> nat" where
  "shifts ops = length (filter (\<lambda>oper. oper = Shift) ops)"

lemma shifts_simps [simp]:
  "shifts [] = 0" "shifts (Shift # ops) = Suc (shifts ops)" "oper \<noteq> Shift \<Longrightarrow> shifts (oper # ops) = shifts ops"
  by (simp_all add: shifts_def)

lemma cached_run:
  assumes "cached_at i mid msg c" "\<forall>oper \<in> set ops. \<not> touches mid oper"
  shows "\<exists>c'. cache_run ops c = Some c' \<and> length (mc_history c') = length (mc_history c) \<and> mc_gossip c' = mc_gossip c
    \<and> (if i + shifts ops < length (mc_history c)
       then cached_at (i + shifts ops) mid (if Validate mid \<in> set ops then msg\<lparr>gm_validated := True\<rparr> else msg) c'
       else forgotten mid c')"
  using assms
proof (induction ops arbitrary: i c msg)
  case Nil
  then show ?case by (simp add: cached_at_def)
next
  case (Cons oper ops)
  have h: "mc_history c \<noteq> []" "i < length (mc_history c)" using Cons.prems(1) by (auto simp: cached_at_def)
  obtain c1 where c1: "cache_op oper c = Some c1" "length (mc_history c1) = length (mc_history c)" "mc_gossip c1 = mc_gossip c"
    using cache_op_total [OF h(1)] by blast
  have nt: "\<not> touches mid oper" "\<forall>oper \<in> set ops. \<not> touches mid oper" using Cons.prems(2) by simp_all
  show ?case
  proof (cases "oper = Shift")
    case False
    have "cached_at i mid (mark mid oper msg) c1" by (rule cached_op [OF Cons.prems(1) c1(1) nt(1) False])
    from Cons.IH [OF this nt(2)] c1 False show ?thesis by (cases "oper = Validate mid") (auto simp: mark_def cong: if_cong)
  next
    case True
    with c1(1) have "mcache_shift c = Some c1" by simp
    note sh = cached_shift [OF Cons.prems(1) this]
    show ?thesis
    proof (cases "Suc i < length (mc_history c)")
      case True
      with sh have "cached_at (Suc i) mid msg c1" by simp
      from Cons.IH [OF this nt(2)] c1 \<open>oper = Shift\<close> show ?thesis by (simp cong: if_cong)
    next
      case False
      with sh have "forgotten mid c1" by simp
      moreover have "mc_history c1 \<noteq> []" using h(1) c1(2) by auto
      ultimately show ?thesis using forgotten_run [of mid c1 ops] nt(2) c1 \<open>oper = Shift\<close> False h(2) by auto
    qed
  qed
qed

text \<open>The gossiped identifiers of a message in a known slot.\<close>

lemma mem_map_filter: "y \<in> set (List.map_filter g xs) \<longleftrightarrow> (\<exists>x \<in> set xs. g x = Some y)"
  by (auto simp: List.map_filter_def image_iff intro: bexI)

lemma gossip_ids_mem:
  assumes "mc_gossip c \<le> length (mc_history c)"
  shows "\<exists>ids. get_gossip_message_ids topic c = Some ids \<and>
    (mid \<in> set ids \<longleftrightarrow> (\<exists>j < mc_gossip c. \<exists>e \<in> slot_entries mid c j. gossip_entry c topic e = Some mid))"
proof -
  have f: "foldl (\<lambda>current entries. current @ List.map_filter g entries) init es = init @ concat (map (List.map_filter g) es)"
    for g :: "CacheEntry \<Rightarrow> MessageId option" and es init
    by (induction es arbitrary: init) simp_all
  have e: "(\<exists>e \<in> set (mc_history c ! j). gossip_entry c topic e = Some mid)
      \<longleftrightarrow> (\<exists>e \<in> slot_entries mid c j. gossip_entry c topic e = Some mid)" for j
    by (auto simp: slot_entries_def gossip_entry_def split: if_splits)
  have "set (take (mc_gossip c) (mc_history c)) = (!) (mc_history c) ` {0..<mc_gossip c}" using nth_image [OF assms] by simp
  then have "(\<exists>es \<in> set (take (mc_gossip c) (mc_history c)). \<exists>e \<in> set es. gossip_entry c topic e = Some mid)
    \<longleftrightarrow> (\<exists>j < mc_gossip c. \<exists>e \<in> slot_entries mid c j. gossip_entry c topic e = Some mid)"
    unfolding e [symmetric] by (simp add: Bex_def)
  then show ?thesis using assms by (auto simp: get_gossip_message_ids_def f mem_map_filter)
qed

lemma cached_gossip:
  assumes "cached_at i mid msg c" "mc_gossip c \<le> length (mc_history c)"
  shows "\<exists>ids. get_gossip_message_ids topic c = Some ids \<and>
    (mid \<in> set ids \<longleftrightarrow> i < mc_gossip c \<and> gm_validated msg \<and> topic = gm_topic msg)"
proof -
  have "(\<exists>j < mc_gossip c. \<exists>e \<in> slot_entries mid c j. gossip_entry c topic e = Some mid)
    \<longleftrightarrow> i < mc_gossip c \<and> gm_validated msg \<and> topic = gm_topic msg"
  proof -
    let ?e = "\<lparr>ce_mid = mid, ce_topic = gm_topic msg\<rparr>"
    have "slot_entries mid c j = (if j = i then {?e} else {})" if "j < mc_gossip c" for j
      using assms that by (auto simp: cached_at_def)
    then have "(\<exists>j < mc_gossip c. \<exists>e \<in> slot_entries mid c j. gossip_entry c topic e = Some mid)
      \<longleftrightarrow> i < mc_gossip c \<and> gossip_entry c topic ?e = Some mid" by (auto split: if_splits)
    with assms(1) show ?thesis by (auto simp: cached_at_def gossip_entry_def)
  qed
  with gossip_ids_mem [OF assms(2), of topic mid] show ?thesis by auto
qed

lemma forgotten_gossip:
  assumes "forgotten mid c" "mc_gossip c \<le> length (mc_history c)"
  shows "\<exists>ids. get_gossip_message_ids topic c = Some ids \<and> mid \<notin> set ids"
  using gossip_ids_mem [OF assms(2), of topic mid] assms by (auto simp: forgotten_def)


section \<open>Properties\<close>

text \<open>
  C34: The lifetime of a cached message. A message that is put in the cache stays there for exactly as many
  shifts as the history has slots, and is gossiped for its topic exactly during the first \<open>gossip\<close> of them and
  once it is validated, whatever else is put, validated, asked for and removed in between; no
  operation panics.
\<close>

theorem message_lifetime:
  assumes "forgotten mid c" "mc_history c \<noteq> []" "mc_gossip c \<le> length (mc_history c)"
    and "\<forall>oper \<in> set ops. \<not> touches mid oper"
  shows "\<exists>c1 c2 ids. mcache_put mid msg c = Some (None, c1) \<and> cache_run ops c1 = Some c2
    \<and> get_gossip_message_ids topic c2 = Some ids
    \<and> mcache_get mid c2 =
        (if shifts ops < length (mc_history c)
         then Some (if Validate mid \<in> set ops then msg\<lparr>gm_validated := True\<rparr> else msg) else None)
    \<and> (mid \<in> set ids \<longleftrightarrow>
        shifts ops < mc_gossip c \<and> topic = gm_topic msg \<and> (gm_validated msg \<or> Validate mid \<in> set ops))"
proof -
  let ?msg = "if Validate mid \<in> set ops then msg\<lparr>gm_validated := True\<rparr> else msg"
  obtain c1 where c1: "mcache_put mid msg c = Some (None, c1)" "cached_at 0 mid msg c1"
    "length (mc_history c1) = length (mc_history c)" "mc_gossip c1 = mc_gossip c"
    using cached_put [OF assms(1,2)] by blast
  obtain c2 where c2: "cache_run ops c1 = Some c2" "length (mc_history c2) = length (mc_history c)" "mc_gossip c2 = mc_gossip c"
    "if shifts ops < length (mc_history c) then cached_at (shifts ops) mid ?msg c2 else forgotten mid c2"
    using cached_run [OF c1(2) assms(4)] unfolding c1(3,4) add_0 by blast
  have g: "mc_gossip c2 \<le> length (mc_history c2)" using assms(3) c2(2,3) by simp
  show ?thesis
  proof (cases "shifts ops < length (mc_history c)")
    case True
    with c2(4) have at: "cached_at (shifts ops) mid ?msg c2" by simp
    obtain ids where "get_gossip_message_ids topic c2 = Some ids"
      "mid \<in> set ids \<longleftrightarrow> shifts ops < mc_gossip c2 \<and> gm_validated ?msg \<and> topic = gm_topic ?msg"
      using cached_gossip [OF at g] by blast
    with True at c1(1) c2(1,3) show ?thesis by (auto simp: cached_at_def mcache_get_def)
  next
    case False
    with c2(4) have no: "forgotten mid c2" by simp
    obtain ids where "get_gossip_message_ids topic c2 = Some ids" "mid \<notin> set ids" using forgotten_gossip [OF no g] by blast
    with False no c1(1) c2(1) assms(3) show ?thesis by (auto simp: forgotten_def mcache_get_def)
  qed
qed

definition sample_message :: RawGossipsubMessage where
  "sample_message = \<lparr>gm_source = None, gm_data = [1], gm_sequence_number = None, gm_topic = ''t'', gm_signature = None,
     gm_key = None, gm_validated = False\<rparr>"

theorem message_lifetime_witness:
  "\<exists>c1 c2 ids. mcache_put [7] sample_message (MessageCache_new 2 3) = Some (None, c1)
     \<and> cache_run [Shift, Validate [7], Put [8] sample_message] c1 = Some c2
     \<and> get_gossip_message_ids ''t'' c2 = Some ids \<and> [7] \<in> set ids"
proof -
  have "forgotten [7] (MessageCache_new 2 3)" "mc_history (MessageCache_new 2 3) \<noteq> []"
    "mc_gossip (MessageCache_new 2 3) \<le> length (mc_history (MessageCache_new 2 3))"
    "\<forall>oper \<in> set [Shift, Validate [7], Put [8] sample_message]. \<not> touches [7] oper"
    by (simp_all add: forgotten_def MessageCache_new_def slot_entries_def touches_def)
  from message_lifetime [OF this, of sample_message "''t''"] show ?thesis
    by (auto simp: shifts_def MessageCache_new_def sample_message_def)
qed

text \<open>
  A message that is removed and put again is lost with the slot of its first entry: here one shift after it
  was put again, in a cache with two slots.
\<close>

lemma put_again_lost_early:
  "\<exists>c. cache_run [Put [7] sample_message, Shift, Remove [7], Put [7] sample_message, Shift] (MessageCache_new 1 2) = Some c
     \<and> mcache_get [7] c = None"
  by (simp add: MessageCache_new_def mcache_put_def mcache_shift_def mcache_remove_def mcache_get_def Let_def eval_nat_numeral)

end
