(* ===== verification/Backoff.thy ===== *)
theory Backoff
  imports Gossip_Types
begin

text \<open>
  The backoffs of pruned peers (\<open>protocols/gossipsub/src/backoff.rs\<close>) and the promises of peers to deliver
  messages (\<open>gossip_promises.rs\<close>). A \<open>HashSet\<close> is a list without duplicates. The heartbeat interval is
  positive, otherwise the division by it panics.
\<close>

section \<open>Backoffs\<close>

record BackoffStorage =
  bs_backoffs :: "(TopicHash, (PeerId, Instant \<times> nat) hashmap) hashmap"
  bs_by_heartbeat :: "(TopicHash \<times> PeerId) list list"
  bs_heartbeat_index :: nat
  bs_heartbeat_interval :: Duration
  bs_backoff_slack :: nat

text \<open>The division rounds up; the cast to \<open>usize\<close> keeps the lower 64 bits.\<close>

definition heartbeats :: "Duration \<Rightarrow> Duration \<Rightarrow> nat" where
  "heartbeats d interval = ((d + interval - 1) div interval) mod 2 ^ 64"

definition BackoffStorage_new :: "Duration \<Rightarrow> Duration \<Rightarrow> nat \<Rightarrow> BackoffStorage" where
  "BackoffStorage_new prune_backoff heartbeat_interval backoff_slack =
     \<lparr>bs_backoffs = [],
      bs_by_heartbeat = replicate (heartbeats prune_backoff heartbeat_interval + backoff_slack + 1) [],
      bs_heartbeat_index = 0, bs_heartbeat_interval = heartbeat_interval, bs_backoff_slack = backoff_slack\<rparr>"

definition get_backoff ::
    "(TopicHash, (PeerId, Instant \<times> nat) hashmap) hashmap \<Rightarrow> TopicHash \<Rightarrow> PeerId \<Rightarrow> (Instant \<times> nat) option" where
  "get_backoff m topic peer = (case hm_get m topic of None \<Rightarrow> None | Some ps \<Rightarrow> hm_get ps peer)"

definition set_backoff ::
    "TopicHash \<Rightarrow> PeerId \<Rightarrow> Instant \<times> nat \<Rightarrow> (TopicHash, (PeerId, Instant \<times> nat) hashmap) hashmap \<Rightarrow>
      (TopicHash, (PeerId, Instant \<times> nat) hashmap) hashmap" where
  "set_backoff topic peer v m =
     hm_insert topic (hm_insert peer v (case hm_get m topic of None \<Rightarrow> [] | Some ps \<Rightarrow> ps)) m"

definition insert_into_backoffs_by_heartbeat ::
    "TopicHash \<Rightarrow> PeerId \<Rightarrow> Duration \<Rightarrow> BackoffStorage \<Rightarrow> (TopicHash \<times> PeerId) list list \<Rightarrow>
      nat \<times> (TopicHash \<times> PeerId) list list" where
  "insert_into_backoffs_by_heartbeat topic peer time s slots =
     (let index = (bs_heartbeat_index s + heartbeats time (bs_heartbeat_interval s) + bs_backoff_slack s) mod length slots
      in (index, slots[index := List.insert (topic, peer) (slots ! index)]))"

definition update_backoff :: "Instant \<Rightarrow> TopicHash \<Rightarrow> PeerId \<Rightarrow> Duration \<Rightarrow> BackoffStorage \<Rightarrow> BackoffStorage" where
  "update_backoff now topic peer time s =
     (let instant = now + time
      in case get_backoff (bs_backoffs s) topic peer of
           Some (backoff, index) \<Rightarrow>
             if backoff < instant then
               (let slots = (bs_by_heartbeat s)[index := removeAll (topic, peer) (bs_by_heartbeat s ! index)];
                    (index, slots) = insert_into_backoffs_by_heartbeat topic peer time s slots
                in s\<lparr>bs_by_heartbeat := slots, bs_backoffs := set_backoff topic peer (instant, index) (bs_backoffs s)\<rparr>)
             else s
         | None \<Rightarrow>
             (let (index, slots) = insert_into_backoffs_by_heartbeat topic peer time s (bs_by_heartbeat s)
              in s\<lparr>bs_by_heartbeat := slots, bs_backoffs := set_backoff topic peer (instant, index) (bs_backoffs s)\<rparr>))"

definition is_backoff_with_slack :: "TopicHash \<Rightarrow> PeerId \<Rightarrow> BackoffStorage \<Rightarrow> bool" where
  "is_backoff_with_slack topic peer s =
     (case hm_get (bs_backoffs s) topic of None \<Rightarrow> False | Some ps \<Rightarrow> hm_get ps peer \<noteq> None)"

definition get_backoff_time :: "TopicHash \<Rightarrow> PeerId \<Rightarrow> BackoffStorage \<Rightarrow> Instant option" where
  "get_backoff_time topic peer s = map_option fst (get_backoff (bs_backoffs s) topic peer)"

definition backoff_slack_time :: "BackoffStorage \<Rightarrow> Duration" where
  "backoff_slack_time s = bs_heartbeat_interval s * bs_backoff_slack s"

text \<open>The closure of \<open>retain\<close>: which pairs are kept, and the removal of the others from the backoffs.\<close>

definition keep_backoff :: "Instant \<Rightarrow> BackoffStorage \<Rightarrow> TopicHash \<times> PeerId \<Rightarrow> bool" where
  "keep_backoff now s pair =
     (case get_backoff (bs_backoffs s) (fst pair) (snd pair) of
        Some (backoff_time, _) \<Rightarrow> backoff_time + backoff_slack_time s > now
      | None \<Rightarrow> False)"

definition remove_backoff ::
    "TopicHash \<times> PeerId \<Rightarrow> (TopicHash, (PeerId, Instant \<times> nat) hashmap) hashmap \<Rightarrow>
      (TopicHash, (PeerId, Instant \<times> nat) hashmap) hashmap" where
  "remove_backoff pair m =
     (case hm_get m (fst pair) of
        None \<Rightarrow> m
      | Some ps \<Rightarrow>
          (let ps' = hm_remove (snd pair) ps
           in if hm_get ps (snd pair) \<noteq> None \<and> ps' = [] then hm_remove (fst pair) m else hm_insert (fst pair) ps' m))"

definition backoff_heartbeat :: "Instant \<Rightarrow> BackoffStorage \<Rightarrow> BackoffStorage" where
  "backoff_heartbeat now s =
     (let index = bs_heartbeat_index s; slots = bs_by_heartbeat s;
          s' = (if index < length slots
                then s\<lparr>bs_by_heartbeat := slots[index := filter (keep_backoff now s) (slots ! index)],
                       bs_backoffs := fold remove_backoff (filter (Not \<circ> keep_backoff now s) (slots ! index)) (bs_backoffs s)\<rparr>
                else s)
      in s'\<lparr>bs_heartbeat_index := (index + 1) mod length slots\<rparr>)"


section \<open>Promises\<close>

type_synonym GossipPromises = "(MessageId, (PeerId, Instant) hashmap) hashmap"

text \<open>\<open>choice\<close> is the identifier that \<open>choose\<close> takes from the list, if it is not empty.\<close>

definition add_promise :: "PeerId \<Rightarrow> MessageId option \<Rightarrow> Instant \<Rightarrow> GossipPromises \<Rightarrow> GossipPromises" where
  "add_promise peer choice expires m =
     (case choice of
        None \<Rightarrow> m
      | Some mid \<Rightarrow>
          (let ps = (case hm_get m mid of None \<Rightarrow> [] | Some ps \<Rightarrow> ps)
           in hm_insert mid (if hm_get ps peer = None then hm_insert peer expires ps else ps) m))"

definition message_delivered :: "MessageId \<Rightarrow> GossipPromises \<Rightarrow> GossipPromises" where
  "message_delivered mid m = hm_remove mid m"

definition promise_rejected :: "MessageId \<Rightarrow> RejectReason \<Rightarrow> GossipPromises \<Rightarrow> GossipPromises" where
  "promise_rejected mid reason m =
     (case reason of
        ValidationError InvalidSignature \<Rightarrow> m
      | SelfOrigin \<Rightarrow> m
      | _ \<Rightarrow> hm_remove mid m)"

definition count_broken :: "PeerId \<Rightarrow> (PeerId, nat) hashmap \<Rightarrow> (PeerId, nat) hashmap" where
  "count_broken peer r = hm_insert peer (case hm_get r peer of None \<Rightarrow> 1 | Some n \<Rightarrow> n + 1) r"

definition get_broken_promises :: "Instant \<Rightarrow> GossipPromises \<Rightarrow> (PeerId, nat) hashmap \<times> GossipPromises" where
  "get_broken_promises now m =
     (fold count_broken (concat (map (\<lambda>(mid, ps). map fst (filter (\<lambda>(peer, e). e < now) ps)) m)) [],
      filter (\<lambda>(mid, ps). ps \<noteq> []) (map (\<lambda>(mid, ps). (mid, filter (\<lambda>(peer, e). \<not> e < now) ps)) m))"

text \<open>The count of a peer is the number of its promises that have expired; exactly these are forgotten.\<close>

lemma fold_count_broken:
  "hm_get (fold count_broken peers r) peer =
     (if peer \<in> set peers then Some ((case hm_get r peer of None \<Rightarrow> 0 | Some n \<Rightarrow> n) + count_list peers peer) else hm_get r peer)"
  by (induction peers arbitrary: r) (auto simp: count_broken_def hashmap_simps count_notin split: option.splits)

lemma broken_promises_kept:
  assumes "hm_wf m" "\<forall>(mid, ps) \<in> set m. hm_wf ps"
  shows "(case hm_get (snd (get_broken_promises now m)) mid of None \<Rightarrow> None | Some ps \<Rightarrow> hm_get ps peer) =
    (case hm_get m mid of None \<Rightarrow> None | Some ps \<Rightarrow>
       (case hm_get ps peer of Some e \<Rightarrow> if e < now then None else Some e | None \<Rightarrow> None))"
proof -
  let ?f = "\<lambda>(mid, ps). (mid, filter (\<lambda>(peer, e). \<not> e < now) ps)"
  have wf: "hm_wf (map ?f m)" using assms(1) by (simp add: case_prod_unfold comp_def)
  have get: "hm_get (map ?f m) mid = map_option (filter (\<lambda>(peer, e). \<not> e < now)) (hm_get m mid)"
    by (induction m) auto
  show ?thesis
  proof (cases "hm_get m mid")
    case (Some ps)
    then have "hm_wf ps" using assms(2) map_of_SomeD by fast
    with Some get wf show ?thesis
      by (auto simp: get_broken_promises_def hm_get_filter filter_empty_conv split: option.splits)
  qed (use get wf in \<open>simp add: get_broken_promises_def hm_get_filter\<close>)
qed


section \<open>The invariant of the backoffs\<close>

definition backoff_inv :: "BackoffStorage \<Rightarrow> bool" where
  "backoff_inv s \<longleftrightarrow>
     bs_heartbeat_index s < length (bs_by_heartbeat s)
     \<and> (\<forall>j < length (bs_by_heartbeat s). distinct (bs_by_heartbeat s ! j))
     \<and> (\<forall>topic peer b i. get_backoff (bs_backoffs s) topic peer = Some (b, i) \<longrightarrow> i < length (bs_by_heartbeat s))
     \<and> (\<forall>j < length (bs_by_heartbeat s). \<forall>topic peer.
          (topic, peer) \<in> set (bs_by_heartbeat s ! j) \<longleftrightarrow> (\<exists>b. get_backoff (bs_backoffs s) topic peer = Some (b, j)))"

lemma get_set_backoff [simp]:
  "get_backoff (set_backoff t p v m) t' p' = (if t' = t \<and> p' = p then Some v else get_backoff m t' p')"
  by (auto simp: get_backoff_def set_backoff_def hashmap_simps split: option.splits)

lemma get_remove_backoff [simp]:
  "get_backoff (remove_backoff (t, p) m) t' p' = (if t' = t \<and> p' = p then None else get_backoff m t' p')"
proof -
  have "hm_get ps p' = None" if "hm_remove p ps = []" "p' \<noteq> p" for ps :: "(PeerId, Instant \<times> nat) hashmap"
    using that fun_cong [OF AList.delete_conv' [of p ps], of p'] by simp
  then show ?thesis by (auto simp: get_backoff_def remove_backoff_def hashmap_simps Let_def split: option.splits)
qed

lemma get_fold_remove:
  "get_backoff (fold remove_backoff pairs m) t p = (if (t, p) \<in> set pairs then None else get_backoff m t p)"
proof (induction pairs arbitrary: m)
  case (Cons pair pairs)
  then show ?case by (cases pair) simp
qed simp

lemma is_backoff_iff: "is_backoff_with_slack t p s \<longleftrightarrow> get_backoff (bs_backoffs s) t p \<noteq> None"
  by (simp add: is_backoff_with_slack_def get_backoff_def split: option.splits)

text \<open>The slots after an update, and after a heartbeat.\<close>

lemma update_backoff_frame [simp]:
  "bs_heartbeat_index (update_backoff now t p d s) = bs_heartbeat_index s"
  "bs_heartbeat_interval (update_backoff now t p d s) = bs_heartbeat_interval s"
  "bs_backoff_slack (update_backoff now t p d s) = bs_backoff_slack s"
  "length (bs_by_heartbeat (update_backoff now t p d s)) = length (bs_by_heartbeat s)"
  by (simp_all add: update_backoff_def insert_into_backoffs_by_heartbeat_def Let_def case_prod_unfold split: option.split)

lemma update_backoff_get:
  "get_backoff (bs_backoffs (update_backoff now t p d s)) t' p' =
     (if t' = t \<and> p' = p \<and> (\<forall>b i. get_backoff (bs_backoffs s) t p = Some (b, i) \<longrightarrow> b < now + d)
      then Some (now + d, (bs_heartbeat_index s + heartbeats d (bs_heartbeat_interval s) + bs_backoff_slack s)
        mod length (bs_by_heartbeat s))
      else get_backoff (bs_backoffs s) t' p')"
  by (auto simp: update_backoff_def insert_into_backoffs_by_heartbeat_def Let_def split: option.split)

lemma update_backoff_time:
  "get_backoff_time t p (update_backoff now t p d s) =
     Some (case get_backoff_time t p s of None \<Rightarrow> now + d | Some b \<Rightarrow> max b (now + d))"
  by (auto simp: get_backoff_time_def update_backoff_get split: option.splits)

lemma update_backoff_inv:
  assumes "backoff_inv s"
  shows "backoff_inv (update_backoff now t p d s)"
proof (cases "\<forall>b i. get_backoff (bs_backoffs s) t p = Some (b, i) \<longrightarrow> b < now + d")
  case True
  let ?n = "length (bs_by_heartbeat s)"
  let ?i = "(bs_heartbeat_index s + heartbeats d (bs_heartbeat_interval s) + bs_backoff_slack s) mod ?n"
  let ?s = "update_backoff now t p d s"
  have n: "0 < ?n" using assms by (auto simp: backoff_inv_def)
  then have i: "?i < ?n" by simp
  have slots: "distinct (bs_by_heartbeat ?s ! j)"
    "pair \<in> set (bs_by_heartbeat ?s ! j) \<longleftrightarrow> (if pair = (t, p) then j = ?i else pair \<in> set (bs_by_heartbeat s ! j))"
    if "j < ?n" for j pair
  proof -
    have "distinct (bs_by_heartbeat ?s ! j) \<and>
      (pair \<in> set (bs_by_heartbeat ?s ! j) \<longleftrightarrow> (if pair = (t, p) then j = ?i else pair \<in> set (bs_by_heartbeat s ! j)))"
    proof (cases "get_backoff (bs_backoffs s) t p")
      case None
      then have "(t, p) \<notin> set (bs_by_heartbeat s ! j)" using assms that by (simp add: backoff_inv_def)
      with None assms that i show ?thesis
        by (auto simp: update_backoff_def insert_into_backoffs_by_heartbeat_def Let_def nth_list_update backoff_inv_def)
    next
      case (Some v)
      then obtain b i0 where v: "get_backoff (bs_backoffs s) t p = Some (b, i0)" by (cases v) simp
      then have "(t, p) \<in> set (bs_by_heartbeat s ! j) \<longleftrightarrow> j = i0" using assms that by (auto simp: backoff_inv_def)
      with v True assms that i show ?thesis
        by (auto simp: update_backoff_def insert_into_backoffs_by_heartbeat_def Let_def nth_list_update backoff_inv_def
            distinct_removeAll)
    qed
    then show "distinct (bs_by_heartbeat ?s ! j)"
      "pair \<in> set (bs_by_heartbeat ?s ! j) \<longleftrightarrow> (if pair = (t, p) then j = ?i else pair \<in> set (bs_by_heartbeat s ! j))" by blast+
  qed
  with assms True i show ?thesis unfolding backoff_inv_def by (auto simp: update_backoff_get)
next
  case False
  then have "update_backoff now t p d s = s" by (auto simp: update_backoff_def Let_def)
  with assms show ?thesis by simp
qed

lemma backoff_heartbeat_frame [simp]:
  "bs_heartbeat_index (backoff_heartbeat now s) = (bs_heartbeat_index s + 1) mod length (bs_by_heartbeat s)"
  "bs_heartbeat_interval (backoff_heartbeat now s) = bs_heartbeat_interval s"
  "bs_backoff_slack (backoff_heartbeat now s) = bs_backoff_slack s"
  "length (bs_by_heartbeat (backoff_heartbeat now s)) = length (bs_by_heartbeat s)"
  by (simp_all add: backoff_heartbeat_def Let_def)

lemma backoff_heartbeat_get:
  assumes "backoff_inv s"
  shows "get_backoff (bs_backoffs (backoff_heartbeat now s)) t p =
    (case get_backoff (bs_backoffs s) t p of
       Some (b, i) \<Rightarrow> if i = bs_heartbeat_index s \<and> b + backoff_slack_time s \<le> now then None else Some (b, i)
     | None \<Rightarrow> None)"
proof -
  let ?i = "bs_heartbeat_index s"
  have i: "?i < length (bs_by_heartbeat s)"
    "(t, p) \<in> set (bs_by_heartbeat s ! ?i) \<longleftrightarrow> (\<exists>b. get_backoff (bs_backoffs s) t p = Some (b, ?i))"
    using assms by (simp_all add: backoff_inv_def)
  then show ?thesis
    by (auto simp: backoff_heartbeat_def Let_def get_fold_remove keep_backoff_def split: option.splits)
qed

lemma backoff_heartbeat_inv:
  assumes "backoff_inv s"
  shows "backoff_inv (backoff_heartbeat now s)"
proof -
  let ?i = "bs_heartbeat_index s" and ?s = "backoff_heartbeat now s"
  have i: "?i < length (bs_by_heartbeat s)" using assms by (simp add: backoff_inv_def)
  have slot: "bs_by_heartbeat ?s ! j = (if j = ?i then filter (keep_backoff now s) (bs_by_heartbeat s ! j) else bs_by_heartbeat s ! j)"
    if "j < length (bs_by_heartbeat s)" for j
    using that i by (simp add: backoff_heartbeat_def Let_def nth_list_update)
  have "(t, p) \<in> set (bs_by_heartbeat ?s ! j) \<longleftrightarrow> (\<exists>b. get_backoff (bs_backoffs ?s) t p = Some (b, j))"
    if "j < length (bs_by_heartbeat s)" for j t p
  proof -
    have "(t, p) \<in> set (bs_by_heartbeat s ! j) \<longleftrightarrow> (\<exists>b. get_backoff (bs_backoffs s) t p = Some (b, j))"
      using assms that by (simp add: backoff_inv_def)
    then show ?thesis unfolding slot [OF that] backoff_heartbeat_get [OF assms]
      by (auto simp: keep_backoff_def not_le split: option.splits if_splits)
  qed
  moreover have "b < length (bs_by_heartbeat s)" if "get_backoff (bs_backoffs ?s) t p = Some (a, b)" for t p a b
    using assms that unfolding backoff_heartbeat_get [OF assms] by (auto simp: backoff_inv_def split: option.splits if_splits)
  moreover have "distinct (bs_by_heartbeat ?s ! j)" if "j < length (bs_by_heartbeat s)" for j
    using assms that by (simp add: slot backoff_inv_def)
  moreover have "0 < length (bs_by_heartbeat s)" using i by linarith
  ultimately show ?thesis unfolding backoff_inv_def by auto
qed


section \<open>Runs\<close>

datatype BackoffOp = UpdateBackoff Instant TopicHash PeerId Duration | Heartbeat Instant

fun backoff_op :: "BackoffOp \<Rightarrow> BackoffStorage \<Rightarrow> BackoffStorage" where
  "backoff_op (UpdateBackoff now topic peer time) s = update_backoff now topic peer time s"
| "backoff_op (Heartbeat now) s = backoff_heartbeat now s"

abbreviation backoff_run :: "BackoffOp list \<Rightarrow> BackoffStorage \<Rightarrow> BackoffStorage" where
  "backoff_run \<equiv> fold backoff_op"

definition updates :: "TopicHash \<Rightarrow> PeerId \<Rightarrow> BackoffOp \<Rightarrow> bool" where
  "updates topic peer oper \<longleftrightarrow> (\<exists>now time. oper = UpdateBackoff now topic peer time)"

fun beats :: "BackoffOp list \<Rightarrow> Instant list" where
  "beats [] = []"
| "beats (Heartbeat now # ops) = now # beats ops"
| "beats (UpdateBackoff _ _ _ _ # ops) = beats ops"

lemma backoff_run_inv: "backoff_inv s \<Longrightarrow> backoff_inv (backoff_run ops s)"
proof (induction ops arbitrary: s)
  case (Cons oper ops)
  then show ?case by (cases oper) (simp_all add: update_backoff_inv backoff_heartbeat_inv)
qed simp

lemma backoff_op_frame [simp]:
  "backoff_slack_time (backoff_op oper s) = backoff_slack_time s"
  "length (bs_by_heartbeat (backoff_op oper s)) = length (bs_by_heartbeat s)"
  by (cases oper; simp add: backoff_slack_time_def)+

lemma backoff_run_frame [simp]:
  "backoff_slack_time (backoff_run ops s) = backoff_slack_time s"
  "length (bs_by_heartbeat (backoff_run ops s)) = length (bs_by_heartbeat s)"
  by (induction ops arbitrary: s) simp_all

lemma backoff_kept:
  assumes "backoff_inv s" "get_backoff (bs_backoffs s) t p = Some (b, i)" "\<forall>oper \<in> set ops. \<not> updates t p oper"
    and "\<forall>now \<in> set (beats ops). now < b + backoff_slack_time s"
  shows "get_backoff (bs_backoffs (backoff_run ops s)) t p = Some (b, i)"
  using assms
proof (induction ops arbitrary: s)
  case (Cons oper ops)
  show ?case
  proof (cases oper)
    case (UpdateBackoff now t' p' d)
    with Cons.prems show ?thesis
      using Cons.IH [of "update_backoff now t' p' d s"] backoff_op_frame(1) [of oper s]
      by (auto simp: update_backoff_inv update_backoff_get updates_def)
  next
    case (Heartbeat now)
    with Cons.prems show ?thesis
      using Cons.IH [of "backoff_heartbeat now s"] backoff_op_frame(1) [of oper s]
      by (auto simp: backoff_heartbeat_inv backoff_heartbeat_get)
  qed
qed simp

lemma backoff_gone:
  assumes "get_backoff (bs_backoffs s) t p = None" "backoff_inv s" "\<forall>oper \<in> set ops. \<not> updates t p oper"
  shows "get_backoff (bs_backoffs (backoff_run ops s)) t p = None"
  using assms
proof (induction ops arbitrary: s)
  case (Cons oper ops)
  then show ?case
    by (cases oper) (auto simp: update_backoff_inv update_backoff_get backoff_heartbeat_inv backoff_heartbeat_get updates_def)
qed simp

lemma backoff_kept_or_gone:
  assumes "backoff_inv s" "get_backoff (bs_backoffs s) t p = Some (b, i)" "\<forall>oper \<in> set ops. \<not> updates t p oper"
  shows "get_backoff (bs_backoffs (backoff_run ops s)) t p = Some (b, i) \<or> get_backoff (bs_backoffs (backoff_run ops s)) t p = None"
  using assms
proof (induction ops arbitrary: s)
  case (Cons oper ops)
  show ?case
  proof (cases oper)
    case (UpdateBackoff now t' p' d)
    with Cons.prems show ?thesis
      using Cons.IH [of "update_backoff now t' p' d s"] by (auto simp: update_backoff_inv update_backoff_get updates_def)
  next
    case (Heartbeat h)
    note inv = backoff_heartbeat_inv [OF Cons.prems(1), of h]
    show ?thesis
    proof (cases "get_backoff (bs_backoffs (backoff_heartbeat h s)) t p")
      case None
      with backoff_gone [OF None inv, of ops] Heartbeat Cons.prems(3) show ?thesis by simp
    next
      case (Some v)
      then have "get_backoff (bs_backoffs (backoff_heartbeat h s)) t p = Some (b, i)"
        using backoff_heartbeat_get [OF Cons.prems(1), of h t p] Cons.prems(2) by (auto split: if_splits)
      with Cons.IH [OF inv this] Heartbeat Cons.prems(3) show ?thesis by simp
    qed
  qed
qed simp

text \<open>The number of heartbeats before the slot of a pair is cleaned.\<close>

definition ahead :: "nat \<Rightarrow> BackoffStorage \<Rightarrow> nat" where
  "ahead i s = (if bs_heartbeat_index s \<le> i then i - bs_heartbeat_index s
                else i + length (bs_by_heartbeat s) - bs_heartbeat_index s)"

lemma ahead_update [simp]: "ahead i (update_backoff now t p d s) = ahead i s"
  unfolding ahead_def update_backoff_frame ..

lemma ahead_heartbeat:
  assumes "backoff_inv s" "i < length (bs_by_heartbeat s)" "i \<noteq> bs_heartbeat_index s"
  shows "Suc (ahead i (backoff_heartbeat now s)) = ahead i s"
proof -
  have "bs_heartbeat_index s < length (bs_by_heartbeat s)" using assms(1) by (simp add: backoff_inv_def)
  with assms(2,3) show ?thesis by (auto simp: ahead_def mod_if)
qed

lemma backoff_cleaned:
  assumes "backoff_inv s" "get_backoff (bs_backoffs s) t p = Some (b, i)" "\<forall>oper \<in> set ops. \<not> updates t p oper"
    and "\<forall>now \<in> set (beats ops). b + backoff_slack_time s \<le> now" "ahead i s < length (beats ops)"
  shows "get_backoff (bs_backoffs (backoff_run ops s)) t p = None"
  using assms
proof (induction ops arbitrary: s)
  case (Cons oper ops)
  show ?case
  proof (cases oper)
    case (UpdateBackoff now t' p' d)
    with Cons.prems show ?thesis
      using Cons.IH [of "update_backoff now t' p' d s"] backoff_op_frame(1) [of oper s]
      by (auto simp: update_backoff_inv update_backoff_get updates_def)
  next
    case (Heartbeat now)
    have i: "i < length (bs_by_heartbeat s)" using Cons.prems(1,2) by (auto simp: backoff_inv_def)
    note h = backoff_heartbeat_get [OF Cons.prems(1), of now t p] and inv = backoff_heartbeat_inv [OF Cons.prems(1), of now]
    show ?thesis
    proof (cases "i = bs_heartbeat_index s")
      case True
      with h Heartbeat Cons.prems(2,4) have "get_backoff (bs_backoffs (backoff_heartbeat now s)) t p = None" by simp
      with backoff_gone [OF this inv, of ops] Heartbeat Cons.prems(3) show ?thesis by simp
    next
      case False
      with h Cons.prems(2) have "get_backoff (bs_backoffs (backoff_heartbeat now s)) t p = Some (b, i)" by simp
      with Cons.IH [OF inv this] Heartbeat Cons.prems ahead_heartbeat [OF Cons.prems(1) i False, of now]
        backoff_op_frame(1) [of oper s] show ?thesis by auto
    qed
  qed
qed simp

lemma ahead_less:
  assumes "backoff_inv s" "get_backoff (bs_backoffs s) t p = Some (b, i)"
  shows "ahead i s < length (bs_by_heartbeat s)"
proof -
  have "i < length (bs_by_heartbeat s)" "bs_heartbeat_index s < length (bs_by_heartbeat s)"
    using assms by (auto simp: backoff_inv_def)
  then show ?thesis by (auto simp: ahead_def)
qed


section \<open>Properties\<close>

text \<open>
  C35: The window of a backoff. An update sets the backoff of a peer for a topic to its end, or keeps the later
  end it has. While no heartbeat comes at or after this end plus the slack, the peer stays backed
  off, whatever other updates and heartbeats happen; and once as many heartbeats as there are slots
  have come at or after it, in any order with other updates, the backoff is gone.
\<close>

theorem backoff_window:
  assumes "backoff_inv s" "s' = update_backoff now topic peer time s"
    and "b = (case get_backoff_time topic peer s of None \<Rightarrow> now + time | Some b0 \<Rightarrow> max b0 (now + time))"
    and "\<forall>oper \<in> set ops. \<not> updates topic peer oper" "\<forall>oper \<in> set ops'. \<not> updates topic peer oper"
  shows "get_backoff_time topic peer s' = Some b
    \<and> ((\<forall>h \<in> set (beats ops). h < b + backoff_slack_time s) \<longrightarrow>
         get_backoff_time topic peer (backoff_run ops s') = Some b \<and> is_backoff_with_slack topic peer (backoff_run ops s'))
    \<and> ((\<forall>h \<in> set (beats ops'). b + backoff_slack_time s \<le> h) \<and> length (bs_by_heartbeat s) \<le> length (beats ops') \<longrightarrow>
         \<not> is_backoff_with_slack topic peer (backoff_run (ops @ ops') s'))"
proof -
  have inv: "backoff_inv s'" using update_backoff_inv [OF assms(1)] assms(2) by simp
  have b: "get_backoff_time topic peer s' = Some b" using update_backoff_time assms(2,3) by simp
  then obtain i where i: "get_backoff (bs_backoffs s') topic peer = Some (b, i)" by (auto simp: get_backoff_time_def)
  have sl: "backoff_slack_time s' = backoff_slack_time s" "length (bs_by_heartbeat s') = length (bs_by_heartbeat s)"
    by (simp_all add: assms(2) backoff_slack_time_def)
  let ?r = "backoff_run ops s'"
  note inv_r = backoff_run_inv [OF inv, of ops]
  have "get_backoff (bs_backoffs ?r) topic peer = Some (b, i) \<or> get_backoff (bs_backoffs ?r) topic peer = None"
    by (rule backoff_kept_or_gone [OF inv i assms(4)])
  moreover have "get_backoff (bs_backoffs (backoff_run ops' ?r)) topic peer = None"
    if "\<forall>h \<in> set (beats ops'). b + backoff_slack_time s \<le> h" "length (bs_by_heartbeat s) \<le> length (beats ops')"
      "get_backoff (bs_backoffs ?r) topic peer = Some (b, i)"
    using backoff_cleaned [OF inv_r that(3) assms(5)] ahead_less [OF inv_r that(3)] that(1,2) sl by simp
  moreover have "get_backoff (bs_backoffs ?r) topic peer = Some (b, i)" if "\<forall>h \<in> set (beats ops). h < b + backoff_slack_time s"
    using backoff_kept [OF inv i assms(4)] that sl by simp
  ultimately show ?thesis using b backoff_gone [OF _ inv_r assms(5)]
    by (auto simp: is_backoff_iff get_backoff_time_def)
qed

lemma backoff_new_inv: "backoff_inv (BackoffStorage_new d interval slack)"
  by (simp add: backoff_inv_def BackoffStorage_new_def get_backoff_def del: replicate_Suc)

theorem backoff_window_witness:
  "is_backoff_with_slack ''t'' (PeerId [1])
     (backoff_run [Heartbeat 12, UpdateBackoff 13 ''u'' (PeerId [1]) 5, Heartbeat 29]
       (update_backoff 10 ''t'' (PeerId [1]) 10 (BackoffStorage_new 30 10 1)))
   \<and> \<not> is_backoff_with_slack ''t'' (PeerId [1])
     (backoff_run ([Heartbeat 12] @ [Heartbeat 30, Heartbeat 40, Heartbeat 50, Heartbeat 60, Heartbeat 70])
       (update_backoff 10 ''t'' (PeerId [1]) 10 (BackoffStorage_new 30 10 1)))"
proof -
  let ?s = "BackoffStorage_new 30 10 1"
  have f: "get_backoff_time ''t'' (PeerId [1]) ?s = None" "backoff_slack_time ?s = 10" "length (bs_by_heartbeat ?s) = 5"
    by (simp_all add: get_backoff_time_def get_backoff_def backoff_slack_time_def BackoffStorage_new_def heartbeats_def)
  note w = backoff_window [OF backoff_new_inv [of 30 10 1] refl refl, where topic = "''t''" and peer = "PeerId [1]" and now = 10 and time = 10]
  from w [of "[Heartbeat 12, UpdateBackoff 13 ''u'' (PeerId [1]) 5, Heartbeat 29]" "[]"]
    w [of "[Heartbeat 12]" "[Heartbeat 30, Heartbeat 40, Heartbeat 50, Heartbeat 60, Heartbeat 70]"] f
  show ?thesis by (simp add: updates_def)
qed

end
