(* ===== verification/Gossipsub.thy ===== *)
theory Gossipsub
  imports Gossip_Wire Gossip_Filter Peer_Score Message_Cache Backoff
begin

text \<open>
  The router of gossipsub (\<open>protocols/gossipsub/src/gossipsub.rs\<close>): its state, the messages it sends, and the handlers of
  subscriptions, published and received messages, control messages and connections. The heartbeat and the main
  loop are in \<open>Gossip_Loop\<close>.

  What the router calls outside of itself is the record \<open>Env\<close>: the floating-point operations, the shuffles, the
  cryptography and the encoder, and the two functions of the trait \<open>DataTransform\<close>. A handler that can panic
  returns an \<open>option\<close>. The effects on the outside are parts of the state: what is queued for the stream of a connected
  peer (\<open>gs_connected_peer\<close>; an entry is the RPC whose encoding is sent), the peers to which a stream is opened
  (\<open>gs_streams\<close>) or a connection is made (\<open>gs_dials\<close>), and what is delivered to the local subscriptions
  (\<open>gs_delivered\<close>, by the number of the channel). \<open>gs_draws\<close> counts the uses of the random generator.
\<close>

section \<open>State\<close>

record 'f Env =
  env_f :: "'f F64"
  env_rng :: Rng
  env_crypto :: Crypto
  env_prost :: Prost
  env_inbound :: "RawGossipsubMessage \<Rightarrow> string + GossipsubMessage"
  env_outbound :: "TopicHash \<Rightarrow> bytes \<Rightarrow> string + bytes"

text \<open>\<open>IdentityTransform\<close>, the default of the transformation (\<open>transform.rs\<close>).\<close>

definition identity_inbound :: "RawGossipsubMessage \<Rightarrow> string + GossipsubMessage" where
  "identity_inbound m =
     Inr \<lparr>msg_source = gm_source m, msg_data = gm_data m, msg_sequence_number = gm_sequence_number m, msg_topic = gm_topic m\<rparr>"

definition identity_outbound :: "TopicHash \<Rightarrow> bytes \<Rightarrow> string + bytes" where
  "identity_outbound topic data = Inr data"

record 'f Gossipsub =
  gs_config :: "'f GossipsubConfig"
  gs_swarm :: bool
  gs_control_pool :: "(PeerId, GossipsubControlAction list) hashmap"
  gs_publish_config :: PublishConfig
  gs_duplicate_cache :: "MessageId DuplicateCache"
  gs_peer_protocols :: "(PeerId, PeerKind) hashmap"
  gs_topic_peers :: "(TopicHash, PeerId list) hashmap"
  gs_peer_topics :: "(PeerId, TopicHash list) hashmap"
  gs_my_topics :: "(TopicHash, nat) hashmap"
  gs_explicit_peers :: "PeerId list"
  gs_connected_peer :: "(PeerId, WireRpc list) hashmap"
  gs_blacklisted_peers :: "PeerId list"
  gs_mesh :: "(TopicHash, PeerId list) hashmap"
  gs_fanout :: "(TopicHash, PeerId list) hashmap"
  gs_fanout_last_pub :: "(TopicHash, Instant) hashmap"
  gs_backoffs :: BackoffStorage
  gs_mcache :: MessageCache
  gs_heartbeat_ticks :: nat
  gs_px_peers :: "PeerId list"
  gs_outbound_peers :: "PeerId list"
  gs_peer_score :: "('f PeerScore \<times> 'f PeerScoreThresholds \<times> GossipPromises) option"
  gs_count_received_ihave :: "(PeerId, nat) hashmap"
  gs_count_sent_iwant :: "(PeerId, nat) hashmap"
  gs_published_message_ids :: "MessageId DuplicateCache"
  gs_fast_message_id_cache :: "(FastMessageId, MessageId) TimeCache"
  gs_subscription_filter :: SubscriptionFilter
  gs_streams :: "PeerId list"
  gs_dials :: "PeerId list"
  gs_delivered :: "(nat \<times> GossipsubMessage) list"
  gs_channels :: nat
  gs_draws :: nat

definition Gossipsub_new ::
    "'f Env \<Rightarrow> MessageAuthenticity \<Rightarrow> 'f GossipsubConfig \<Rightarrow> SubscriptionFilter \<Rightarrow> string + 'f Gossipsub" where
  "Gossipsub_new E privacy c f =
     and_then (validate_config privacy (gc_validation_mode c)) (\<lambda>_. Inr
       \<lparr>gs_config = c, gs_swarm = False, gs_control_pool = [], gs_publish_config = PublishConfig_from (env_crypto E) privacy,
        gs_duplicate_cache = DuplicateCache_new (gc_duplicate_cache_time c), gs_peer_protocols = [], gs_topic_peers = [],
        gs_peer_topics = [], gs_my_topics = [], gs_explicit_peers = [], gs_connected_peer = [], gs_blacklisted_peers = [],
        gs_mesh = [], gs_fanout = [], gs_fanout_last_pub = [],
        gs_backoffs = BackoffStorage_new (gc_prune_backoff c) (gc_heartbeat_interval c) (gc_backoff_slack c),
        gs_mcache = MessageCache_new (gc_history_gossip c) (gc_history_length c), gs_heartbeat_ticks = 0, gs_px_peers = [],
        gs_outbound_peers = [], gs_peer_score = None, gs_count_received_ihave = [], gs_count_sent_iwant = [],
        gs_published_message_ids = DuplicateCache_new (gc_published_message_ids_cache_time c),
        gs_fast_message_id_cache = TimeCache_new (gc_duplicate_cache_time c), gs_subscription_filter = f,
        gs_streams = [], gs_dials = [], gs_delivered = [], gs_channels = 0, gs_draws = 0\<rparr>)"

definition gs_start :: "'f Gossipsub \<Rightarrow> 'f Gossipsub" where
  "gs_start s = s\<lparr>gs_swarm := True\<rparr>"

definition gs_topics :: "'f Gossipsub \<Rightarrow> TopicHash list" where
  "gs_topics s = hm_keys (gs_mesh s)"

definition mesh_peers :: "'f Gossipsub \<Rightarrow> TopicHash \<Rightarrow> PeerId list" where
  "mesh_peers s topic = hm_get_or [] (gs_mesh s) topic"

definition all_mesh_peers :: "'f Gossipsub \<Rightarrow> PeerId list" where
  "all_mesh_peers s = fold (\<lambda>(topic, peers). bset_extend peers) (gs_mesh s) []"

definition all_peers :: "'f Gossipsub \<Rightarrow> (PeerId \<times> TopicHash list) list" where
  "all_peers s = gs_peer_topics s"


section \<open>Scores\<close>

definition score_below_threshold ::
    "'f Env \<Rightarrow> 'f Gossipsub \<Rightarrow> PeerId \<Rightarrow> ('f PeerScoreThresholds \<Rightarrow> 'f) \<Rightarrow> bool" where
  "score_below_threshold E s peer threshold =
     (case gs_peer_score s of
        None \<Rightarrow> False
      | Some (ps, thresholds, _) \<Rightarrow> f_lt (env_f E) (score (env_f E) ps peer) (threshold thresholds))"

abbreviation below_zero :: "'f Env \<Rightarrow> 'f Gossipsub \<Rightarrow> PeerId \<Rightarrow> bool" where
  "below_zero E s peer \<equiv> score_below_threshold E s peer (\<lambda>_. f_zero (env_f E))"

definition gs_peer_score_of :: "'f Env \<Rightarrow> 'f Gossipsub \<Rightarrow> PeerId \<Rightarrow> 'f option" where
  "gs_peer_score_of E s peer = map_option (\<lambda>(ps, _). score (env_f E) ps peer) (gs_peer_score s)"

text \<open>A change of the score table, if the scores are active.\<close>

definition on_score :: "('f PeerScore \<Rightarrow> 'f PeerScore option) \<Rightarrow> 'f Gossipsub \<Rightarrow> 'f Gossipsub option" where
  "on_score f s =
     (case gs_peer_score s of
        None \<Rightarrow> Some s
      | Some (ps, thresholds, promises) \<Rightarrow> do {
          ps \<leftarrow> f ps;
          Some (s\<lparr>gs_peer_score := Some (ps, thresholds, promises)\<rparr>)
        })"

definition on_promises :: "(GossipPromises \<Rightarrow> GossipPromises) \<Rightarrow> 'f Gossipsub \<Rightarrow> 'f Gossipsub" where
  "on_promises f s =
     s\<lparr>gs_peer_score := map_option (\<lambda>(ps, thresholds, promises). (ps, thresholds, f promises)) (gs_peer_score s)\<rparr>"

definition with_peer_score ::
    "'f Env \<Rightarrow> 'f PeerScoreParams \<Rightarrow> 'f PeerScoreThresholds \<Rightarrow> bool \<Rightarrow> 'f Gossipsub \<Rightarrow> string + 'f Gossipsub" where
  "with_peer_score E params thresholds callback s =
     and_then (params_validate (env_f E) params) (\<lambda>_.
     and_then (thresholds_validate (env_f E) thresholds) (\<lambda>_.
     if gs_peer_score s \<noteq> None then Inl ''Peer score set twice''
     else Inr (s\<lparr>gs_peer_score := Some (PeerScore_new params callback, thresholds, [])\<rparr>)))"

definition gs_set_topic_params ::
    "'f Env \<Rightarrow> TopicHash \<Rightarrow> 'f TopicScoreParams \<Rightarrow> 'f Gossipsub \<Rightarrow> string + 'f Gossipsub" where
  "gs_set_topic_params E topic tp s =
     (case gs_peer_score s of
        Some (ps, thresholds, promises) \<Rightarrow>
          Inr (s\<lparr>gs_peer_score := Some (set_topic_params (env_f E) topic tp ps, thresholds, promises)\<rparr>)
      | None \<Rightarrow> Inl ''Peer score must be initialised with `with_peer_score()`'')"

definition gs_set_application_score :: "PeerId \<Rightarrow> 'f \<Rightarrow> 'f Gossipsub \<Rightarrow> bool \<times> 'f Gossipsub" where
  "gs_set_application_score peer new_score s =
     (case gs_peer_score s of
        Some (ps, thresholds, promises) \<Rightarrow>
          (fst (set_application_score peer new_score ps),
           s\<lparr>gs_peer_score := Some (snd (set_application_score peer new_score ps), thresholds, promises)\<rparr>)
      | None \<Rightarrow> (False, s))"


section \<open>Sending\<close>

definition send_message :: "'f Env \<Rightarrow> PeerId \<Rightarrow> GossipsubRpc \<Rightarrow> 'f Gossipsub \<Rightarrow> PublishError + 'f Gossipsub" where
  "send_message E peer rpc s =
     and_then (fragment_message (env_prost E) (env_f E) (gc_max_transmit_size (gs_config s)) (into_protobuf rpc)) (\<lambda>messages.
       Inr (s\<lparr>gs_connected_peer := hm_modify peer (\<lambda>queue. queue @ messages) (gs_connected_peer s)\<rparr>))"

text \<open>Sending where an error is only logged, and sending to several peers up to the first error.\<close>

definition try_send :: "'f Env \<Rightarrow> PeerId \<Rightarrow> GossipsubRpc \<Rightarrow> 'f Gossipsub \<Rightarrow> 'f Gossipsub" where
  "try_send E peer rpc s = (case send_message E peer rpc s of Inl _ \<Rightarrow> s | Inr s' \<Rightarrow> s')"

fun send_all :: "'f Env \<Rightarrow> PeerId list \<Rightarrow> GossipsubRpc \<Rightarrow> 'f Gossipsub \<Rightarrow> PublishError option \<times> 'f Gossipsub" where
  "send_all E [] rpc s = (None, s)"
| "send_all E (peer # peers) rpc s =
     (case send_message E peer rpc s of Inl e \<Rightarrow> (Some e, s) | Inr s' \<Rightarrow> send_all E peers rpc s')"

abbreviation rpc_of_messages :: "RawGossipsubMessage list \<Rightarrow> GossipsubRpc" where
  "rpc_of_messages ms \<equiv> \<lparr>rpc_messages = ms, rpc_subscriptions = [], rpc_control_msgs = []\<rparr>"

abbreviation rpc_of_subs :: "GossipsubSubscription list \<Rightarrow> GossipsubRpc" where
  "rpc_of_subs subs \<equiv> \<lparr>rpc_messages = [], rpc_subscriptions = subs, rpc_control_msgs = []\<rparr>"

abbreviation rpc_of_controls :: "GossipsubControlAction list \<Rightarrow> GossipsubRpc" where
  "rpc_of_controls cs \<equiv> \<lparr>rpc_messages = [], rpc_subscriptions = [], rpc_control_msgs = cs\<rparr>"

definition control_pool_add :: "PeerId \<Rightarrow> GossipsubControlAction \<Rightarrow> 'f Gossipsub \<Rightarrow> 'f Gossipsub" where
  "control_pool_add peer control s =
     s\<lparr>gs_control_pool := hm_insert peer (hm_get_or [] (gs_control_pool s) peer @ [control]) (gs_control_pool s)\<rparr>"

definition flush_control_pool :: "'f Env \<Rightarrow> 'f Gossipsub \<Rightarrow> 'f Gossipsub" where
  "flush_control_pool E s =
     fold (\<lambda>(peer, controls). try_send E peer (rpc_of_controls controls)) (gs_control_pool s) (s\<lparr>gs_control_pool := []\<rparr>)"


section \<open>Random peers\<close>

definition gossip_kind :: "PeerKind option \<Rightarrow> bool" where
  "gossip_kind k \<longleftrightarrow> k = Some GossipsubKind \<or> k = Some Gossipsubv1_1"

definition get_random_peers_dynamic ::
    "'f Env \<Rightarrow> 'f Gossipsub \<Rightarrow> TopicHash \<Rightarrow> (nat \<Rightarrow> nat) \<Rightarrow> (PeerId \<Rightarrow> bool) \<Rightarrow> nat \<Rightarrow> PeerId list \<times> nat" where
  "get_random_peers_dynamic E s topic n_map f draws =
     (let gossip_peers = filter (\<lambda>p. f p \<and> gossip_kind (hm_get (gs_peer_protocols s) p)) (hm_get_or [] (gs_topic_peers s) topic);
          n = n_map (length gossip_peers)
      in if length gossip_peers \<le> n then (bset_extend gossip_peers [], draws)
         else (bset_extend (take n (shuffle (env_rng E) draws gossip_peers)) [], draws + 1))"

definition get_random_peers ::
    "'f Env \<Rightarrow> 'f Gossipsub \<Rightarrow> TopicHash \<Rightarrow> nat \<Rightarrow> (PeerId \<Rightarrow> bool) \<Rightarrow> nat \<Rightarrow> PeerId list \<times> nat" where
  "get_random_peers E s topic n f draws = get_random_peers_dynamic E s topic (\<lambda>_. n) f draws"


section \<open>Joining and leaving a topic\<close>

text \<open>A peer that may be grafted: not explicit, not of negative score, not backed off.\<close>

definition graftable :: "'f Env \<Rightarrow> 'f Gossipsub \<Rightarrow> TopicHash \<Rightarrow> PeerId \<Rightarrow> bool" where
  "graftable E s topic p \<longleftrightarrow>
     p \<notin> set (gs_explicit_peers s) \<and> \<not> below_zero E s p \<and> \<not> is_backoff_with_slack topic p (gs_backoffs s)"

definition join_fanout :: "'f Env \<Rightarrow> TopicHash \<Rightarrow> 'f Gossipsub \<Rightarrow> PeerId list \<times> 'f Gossipsub" where
  "join_fanout E topic s =
     (case hm_get (gs_fanout s) topic of
        None \<Rightarrow> ([], s)
      | Some peers \<Rightarrow>
          (let peers = filter (graftable E s topic) peers;
               add_peers = min (length peers) (gc_mesh_n (gs_config s));
               added = take add_peers peers
           in (added, s\<lparr>gs_fanout := hm_remove topic (gs_fanout s), gs_mesh := hm_insert topic added (gs_mesh s),
                        gs_fanout_last_pub := hm_remove topic (gs_fanout_last_pub s)\<rparr>)))"

definition join_random :: "'f Env \<Rightarrow> TopicHash \<Rightarrow> PeerId list \<Rightarrow> 'f Gossipsub \<Rightarrow> PeerId list \<times> 'f Gossipsub" where
  "join_random E topic added s =
     (if length added < gc_mesh_n (gs_config s) then
        (let (new_peers, draws) = get_random_peers E s topic (gc_mesh_n (gs_config s) - length added)
               (\<lambda>p. p \<notin> set added \<and> graftable E s topic p) (gs_draws s)
         in (hs_extend new_peers added,
             s\<lparr>gs_draws := draws, gs_mesh := hm_insert topic (bset_extend new_peers (hm_get_or [] (gs_mesh s) topic)) (gs_mesh s)\<rparr>))
      else (added, s))"

definition join_graft :: "'f Env \<Rightarrow> TopicHash \<Rightarrow> PeerId \<Rightarrow> 'f Gossipsub \<Rightarrow> 'f Gossipsub option" where
  "join_graft E topic p s = do {
     s \<leftarrow> on_score (score_graft (env_f E) p topic) s;
     Some (control_pool_add p (Graft topic) s)
   }"

definition join :: "'f Env \<Rightarrow> TopicHash \<Rightarrow> 'f Gossipsub \<Rightarrow> 'f Gossipsub option" where
  "join E topic s =
     (if hm_contains (gs_mesh s) topic then Some s
      else
        (let (added, s) = join_fanout E topic s;
             (added, s) = join_random E topic added s
         in foldM (join_graft E topic) added s))"

text \<open>The clock enters the backoffs here; the addition to it panics when the sum is not representable.\<close>

definition gs_update_backoff :: "Instant \<Rightarrow> TopicHash \<Rightarrow> PeerId \<Rightarrow> Duration \<Rightarrow> 'f Gossipsub \<Rightarrow> 'f Gossipsub option" where
  "gs_update_backoff now topic peer time s =
     (if instant_fits now time then Some (s\<lparr>gs_backoffs := update_backoff now topic peer time (gs_backoffs s)\<rparr>) else None)"

definition make_prune ::
    "'f Env \<Rightarrow> Instant \<Rightarrow> TopicHash \<Rightarrow> PeerId \<Rightarrow> bool \<Rightarrow> 'f Gossipsub \<Rightarrow> (GossipsubControlAction \<times> 'f Gossipsub) option" where
  "make_prune E now topic peer do_px s = do {
     s \<leftarrow> on_score (score_prune (env_f E) peer topic) s;
     if hm_get (gs_peer_protocols s) peer = Some GossipsubKind then Some (Prune topic [] None, s)
     else do {
       let (px, draws) = (if do_px then get_random_peers E s topic (gc_prune_peers (gs_config s))
                            (\<lambda>p. p \<noteq> peer \<and> \<not> below_zero E s p) (gs_draws s) else ([], gs_draws s));
       s \<leftarrow> gs_update_backoff now topic peer (gc_prune_backoff (gs_config s)) (s\<lparr>gs_draws := draws\<rparr>);
       Some (Prune topic (map Some px) (Some (of_nat (gc_prune_backoff (gs_config s) div 1000000000))), s)
     }
   }"

definition leave_prune :: "'f Env \<Rightarrow> Instant \<Rightarrow> TopicHash \<Rightarrow> PeerId \<Rightarrow> 'f Gossipsub \<Rightarrow> 'f Gossipsub option" where
  "leave_prune E now topic peer s = do {
     (control, s) \<leftarrow> make_prune E now topic peer (gc_do_px (gs_config s)) s;
     Some (control_pool_add peer control s)
   }"

definition leave :: "'f Env \<Rightarrow> Instant \<Rightarrow> TopicHash \<Rightarrow> 'f Gossipsub \<Rightarrow> 'f Gossipsub option" where
  "leave E now topic s =
     (case hm_get (gs_mesh s) topic of
        None \<Rightarrow> Some s
      | Some peers \<Rightarrow> foldM (leave_prune E now topic) peers (s\<lparr>gs_mesh := hm_remove topic (gs_mesh s)\<rparr>))"

definition gs_subscribe ::
    "'f Env \<Rightarrow> TopicHash \<Rightarrow> 'f Gossipsub \<Rightarrow> ((SubscriptionError + bool) \<times> 'f Gossipsub) option" where
  "gs_subscribe E topic s =
     (if \<not> can_subscribe (gs_subscription_filter s) topic then Some (Inl NotAllowed, s)
      else if hm_contains (gs_mesh s) topic then Some (Inr False, s)
      else
        (case send_all E (hm_keys (gs_peer_topics s)) (rpc_of_subs [\<lparr>sub_action = Subscribe, sub_topic_hash = topic\<rparr>]) s of
           (Some e, s) \<Rightarrow> Some (Inl (SubscriptionPublishError e), s)
         | (None, s) \<Rightarrow> do { s \<leftarrow> join E topic s; Some (Inr True, s) }))"

definition gs_unsubscribe ::
    "'f Env \<Rightarrow> Instant \<Rightarrow> TopicHash \<Rightarrow> 'f Gossipsub \<Rightarrow> ((PublishError + bool) \<times> 'f Gossipsub) option" where
  "gs_unsubscribe E now topic s =
     (if \<not> hm_contains (gs_mesh s) topic then Some (Inr False, s)
      else
        (case send_all E (hm_keys (gs_peer_topics s)) (rpc_of_subs [\<lparr>sub_action = Unsubscribe, sub_topic_hash = topic\<rparr>]) s of
           (Some e, s) \<Rightarrow> Some (Inl e, s)
         | (None, s) \<Rightarrow> do { s \<leftarrow> leave E now topic s; Some (Inr True, s) }))"


section \<open>Forwarding and publishing\<close>

definition forward_recipients :: "RawGossipsubMessage \<Rightarrow> PeerId option \<Rightarrow> 'f Gossipsub \<Rightarrow> PeerId list" where
  "forward_recipients message source s =
     (let other = (\<lambda>p. Some p \<noteq> source \<and> Some p \<noteq> gm_source message);
          from_mesh = filter other (hm_get_or [] (gs_mesh s) (gm_topic message));
          from_explicit = filter (\<lambda>p. other p \<and> gm_topic message \<in> set (hm_get_or [] (gs_peer_topics s) p)) (gs_explicit_peers s)
      in hs_extend from_explicit (hs_extend from_mesh []))"

definition forward_msg ::
    "'f Env \<Rightarrow> Instant \<Rightarrow> MessageId \<Rightarrow> RawGossipsubMessage \<Rightarrow> PeerId option \<Rightarrow> 'f Gossipsub \<Rightarrow>
      ((PublishError + bool) \<times> 'f Gossipsub) option" where
  "forward_msg E now mid message source s = do {
     s \<leftarrow> (case source of
            None \<Rightarrow> Some s
          | Some peer \<Rightarrow> on_score (deliver_message (env_f E) now peer mid (gm_topic message)) s);
     let recipients = forward_recipients message source s;
     if recipients = [] then Some (Inr False, s)
     else
       (case send_all E recipients (rpc_of_messages [message]) s of
          (Some e, s) \<Rightarrow> Some (Inl e, s)
        | (None, s) \<Rightarrow> Some (Inr True, s))
   }"

text \<open>The recipients of a published message among the peers of the topic, and the changes to the fanout.\<close>

definition publish_recipients :: "'f Env \<Rightarrow> Instant \<Rightarrow> TopicHash \<Rightarrow> 'f Gossipsub \<Rightarrow> PeerId list \<times> 'f Gossipsub" where
  "publish_recipients E now topic s =
     (let low = (\<lambda>p. score_below_threshold E s p publish_threshold)
      in case hm_get (gs_topic_peers s) topic of
           None \<Rightarrow> ([], s)
         | Some peers \<Rightarrow>
             if gc_flood_publish (gs_config s) then
               (filter (\<lambda>p. p \<in> set (gs_explicit_peers s) \<or> \<not> low p) peers, s)
             else
               (let explicit = filter (\<lambda>p. p \<in> set peers) (gs_explicit_peers s);
                    floodsub = map fst (filter (\<lambda>(p, kind). kind = Floodsub \<and> \<not> low p) (gs_peer_protocols s));
                    recipients = hs_extend floodsub (hs_extend explicit [])
                in if hm_contains (gs_mesh s) topic then (recipients, s)
                   else
                     (let (recipients, s) =
                            (case hm_get (gs_fanout s) topic of
                               Some fanout \<Rightarrow> (hs_extend fanout recipients, s)
                             | None \<Rightarrow>
                                 (let (new_peers, draws) = get_random_peers E s topic (gc_mesh_n (gs_config s))
                                        (\<lambda>p. p \<notin> set (gs_explicit_peers s) \<and> \<not> low p) (gs_draws s)
                                  in (hs_extend new_peers recipients,
                                      s\<lparr>gs_fanout := hm_insert topic new_peers (gs_fanout s), gs_draws := draws\<rparr>)))
                      in (recipients, s\<lparr>gs_fanout_last_pub := hm_insert topic now (gs_fanout_last_pub s)\<rparr>))))"

definition record_published :: "Instant \<Rightarrow> MessageId \<Rightarrow> RawGossipsubMessage \<Rightarrow> 'f Gossipsub \<Rightarrow> 'f Gossipsub option" where
  "record_published now mid raw s = do {
     (_, mcache) \<leftarrow> mcache_put mid raw (gs_mcache s);
     let s = s\<lparr>gs_duplicate_cache := snd (dup_insert now mid (gs_duplicate_cache s)), gs_mcache := mcache\<rparr>;
     Some (if (case gs_publish_config s of PcRandomAuthor \<Rightarrow> True | PcAnonymous \<Rightarrow> True | _ \<Rightarrow> False) \<and> \<not> gc_allow_self_origin (gs_config s)
           then s\<lparr>gs_published_message_ids := snd (dup_insert now mid (gs_published_message_ids s))\<rparr> else s)
   }"

text \<open>\<open>seqno\<close> and \<open>random_peer\<close> are what the random generator returns for the message.\<close>

definition publish_checked ::
    "'f Env \<Rightarrow> Instant \<Rightarrow> MessageId \<Rightarrow> RawGossipsubMessage \<Rightarrow> 'f Gossipsub \<Rightarrow> ((PublishError + MessageId) \<times> 'f Gossipsub) option" where
  "publish_checked E now mid raw s = do {
     (sent, s) \<leftarrow> (if gc_flood_publish (gs_config s) then Some (Inr False, s) else forward_msg E now mid raw None s);
     case sent of
       Inl e \<Rightarrow> Some (Inl e, s)
     | Inr mesh_peers_sent \<Rightarrow>
         (let (recipients, s) = publish_recipients E now (gm_topic raw) s
          in if recipients = [] \<and> \<not> mesh_peers_sent then Some (Inl InsufficientPeers, s)
             else do {
               s \<leftarrow> record_published now mid raw s;
               case send_all E recipients (rpc_of_messages [raw]) s of
                 (Some e, s) \<Rightarrow> Some (Inl e, s)
               | (None, s) \<Rightarrow> Some (Inr mid, s)
             })
   }"

definition gs_publish ::
    "'f Env \<Rightarrow> Instant \<Rightarrow> u64 \<Rightarrow> PeerId \<Rightarrow> TopicHash \<Rightarrow> bytes \<Rightarrow> 'f Gossipsub \<Rightarrow>
      ((PublishError + MessageId) \<times> 'f Gossipsub) option" where
  "gs_publish E now seqno random_peer topic data s =
     (case env_outbound E topic data of
        Inl e \<Rightarrow> Some (Inl (TransformFailed e), s)
      | Inr transformed_data \<Rightarrow>
          (case build_raw_message (env_crypto E) (gs_publish_config s) seqno random_peer topic transformed_data of
             Inl e \<Rightarrow> Some (Inl e, s)
           | Inr raw \<Rightarrow>
               (let mid = gc_message_id_fn (gs_config s)
                      \<lparr>msg_source = gm_source raw, msg_data = data, msg_sequence_number = gm_sequence_number raw, msg_topic = gm_topic raw\<rparr>
                in if len_rpc (env_prost E) (into_protobuf (rpc_of_messages [raw])) > gc_max_transmit_size (gs_config s)
                   then Some (Inl MessageTooLarge, s)
                   else if dup_contains mid (gs_duplicate_cache s) then Some (Inl Duplicate, s)
                   else publish_checked E now mid raw s)))"

definition report_message_validation_result ::
    "'f Env \<Rightarrow> Instant \<Rightarrow> MessageId \<Rightarrow> PeerId \<Rightarrow> MessageAcceptance \<Rightarrow> 'f Gossipsub \<Rightarrow>
      ((PublishError + bool) \<times> 'f Gossipsub) option" where
  "report_message_validation_result E now mid source acceptance s =
     (case acceptance of
        Accept \<Rightarrow>
          (case validate mid (gs_mcache s) of
             (None, _) \<Rightarrow> Some (Inr False, s)
           | (Some raw, mcache) \<Rightarrow> do {
               (r, s) \<leftarrow> forward_msg E now mid raw (Some source) (s\<lparr>gs_mcache := mcache\<rparr>);
               Some (case r of Inl e \<Rightarrow> Inl e | Inr _ \<Rightarrow> Inr True, s)
             })
      | _ \<Rightarrow>
          (let reason = (if acceptance = Reject then ValidationFailed else ValidationIgnored)
           in case mcache_remove mid (gs_mcache s) of
                (None, mcache) \<Rightarrow> Some (Inr False, s\<lparr>gs_mcache := mcache\<rparr>)
              | (Some raw, mcache) \<Rightarrow> do {
                  s \<leftarrow> on_score (score_reject_message (env_f E) now source mid (gm_topic raw) reason) (s\<lparr>gs_mcache := mcache\<rparr>);
                  Some (Inr True, s)
                }))"


section \<open>Explicit and blacklisted peers\<close>

text \<open>The connection is made by the swarm, which is unwrapped: without one, the call panics.\<close>

definition check_explicit_peer_connection :: "PeerId \<Rightarrow> 'f Gossipsub \<Rightarrow> 'f Gossipsub option" where
  "check_explicit_peer_connection peer s =
     (if hm_contains (gs_peer_topics s) peer then Some s
      else if gs_swarm s then Some (s\<lparr>gs_dials := gs_dials s @ [peer]\<rparr>)
      else None)"

definition add_explicit_peer :: "PeerId \<Rightarrow> 'f Gossipsub \<Rightarrow> 'f Gossipsub option" where
  "add_explicit_peer peer s =
     check_explicit_peer_connection peer (s\<lparr>gs_explicit_peers := hs_insert peer (gs_explicit_peers s)\<rparr>)"

definition remove_explicit_peer :: "PeerId \<Rightarrow> 'f Gossipsub \<Rightarrow> 'f Gossipsub" where
  "remove_explicit_peer peer s = s\<lparr>gs_explicit_peers := hs_remove peer (gs_explicit_peers s)\<rparr>"

definition blacklist_peer :: "PeerId \<Rightarrow> 'f Gossipsub \<Rightarrow> 'f Gossipsub" where
  "blacklist_peer peer s = s\<lparr>gs_blacklisted_peers := hs_insert peer (gs_blacklisted_peers s)\<rparr>"

definition remove_blacklisted_peer :: "PeerId \<Rightarrow> 'f Gossipsub \<Rightarrow> 'f Gossipsub" where
  "remove_blacklisted_peer peer s = s\<lparr>gs_blacklisted_peers := hs_remove peer (gs_blacklisted_peers s)\<rparr>"

definition open_connection :: "PeerId \<Rightarrow> 'f Gossipsub \<Rightarrow> 'f Gossipsub option" where
  "open_connection peer s = (if gs_swarm s then Some (s\<lparr>gs_dials := gs_dials s @ [peer]\<rparr>) else None)"


section \<open>Connections\<close>

text \<open>A task is started that opens a stream and sends what is queued for the peer.\<close>

definition handle_new_peer :: "'f Env \<Rightarrow> PeerId \<Rightarrow> 'f Gossipsub \<Rightarrow> 'f Gossipsub option" where
  "handle_new_peer E peer s =
     (if peer \<in> set (gs_blacklisted_peers s) then Some s
      else if \<not> gs_swarm s then None
      else
        (let s = s\<lparr>gs_connected_peer := hm_insert peer [] (gs_connected_peer s), gs_streams := gs_streams s @ [peer]\<rparr>;
             subs = map (\<lambda>topic. \<lparr>sub_action = Subscribe, sub_topic_hash = topic\<rparr>) (hm_keys (gs_mesh s));
             s = (if subs = [] then s else try_send E peer (rpc_of_subs subs) s)
         in on_score (Some \<circ> add_peer (env_f E) peer) (s\<lparr>gs_peer_topics := hm_insert peer [] (gs_peer_topics s)\<rparr>)))"

definition forget_topic :: "PeerId \<Rightarrow> TopicHash \<Rightarrow> 'f Gossipsub \<Rightarrow> 'f Gossipsub" where
  "forget_topic peer topic s =
     s\<lparr>gs_mesh := hm_modify topic (bset_remove peer) (gs_mesh s),
       gs_topic_peers := hm_modify topic (bset_remove peer) (gs_topic_peers s),
       gs_fanout := hm_modify topic (bset_remove peer) (gs_fanout s)\<rparr>"

definition handle_remove_dead_peer :: "'f Env \<Rightarrow> Instant \<Rightarrow> PeerId \<Rightarrow> 'f Gossipsub \<Rightarrow> 'f Gossipsub option" where
  "handle_remove_dead_peer E now peer s =
     (case hm_get (gs_peer_topics s) peer of
        None \<Rightarrow> Some s
      | Some topics \<Rightarrow>
          on_score (remove_peer (env_f E) now peer)
            ((fold (forget_topic peer) topics s)\<lparr>gs_px_peers := hs_remove peer (gs_px_peers s),
               gs_outbound_peers := hs_remove peer (gs_outbound_peers s),
               gs_explicit_peers := hs_remove peer (gs_explicit_peers s),
               gs_connected_peer := hm_remove peer (gs_connected_peer s),
               gs_peer_topics := hm_remove peer (gs_peer_topics s),
               gs_peer_protocols := hm_remove peer (gs_peer_protocols s)\<rparr>))"

datatype PeerEvent = PeerKindEvent PeerId PeerKind | NewPeer PeerId | DeadPeer PeerId

fun handle_peer_event :: "'f Env \<Rightarrow> Instant \<Rightarrow> PeerEvent \<Rightarrow> 'f Gossipsub \<Rightarrow> 'f Gossipsub option" where
  "handle_peer_event E now (PeerKindEvent peer kind) s =
     Some (s\<lparr>gs_peer_protocols := hm_or_insert peer kind (gs_peer_protocols s)\<rparr>)"
| "handle_peer_event E now (NewPeer peer) s = handle_new_peer E peer s"
| "handle_peer_event E now (DeadPeer peer) s = handle_remove_dead_peer E now peer s"


section \<open>Gossip\<close>

text \<open>The identifiers of an IHAVE that are wanted: those of subscribed topics that have not been seen.\<close>

definition wanted_ids :: "(TopicHash \<times> MessageId list) list \<Rightarrow> 'f Gossipsub \<Rightarrow> MessageId list" where
  "wanted_ids ihave_msgs s =
     hs_extend (filter (\<lambda>mid. \<not> dup_contains mid (gs_duplicate_cache s))
       (concat (map snd (filter (\<lambda>(topic, ids). hm_contains (gs_mesh s) topic) ihave_msgs)))) []"

definition ask_for :: "'f Env \<Rightarrow> Instant \<Rightarrow> PeerId \<Rightarrow> MessageId list \<Rightarrow> 'f Gossipsub \<Rightarrow> 'f Gossipsub option" where
  "ask_for E now peer iwant_ids s =
     (let iasked = hm_get_or 0 (gs_count_sent_iwant s) peer;
          max_len = gc_max_ihave_length (gs_config s);
          iask = (if iasked + length iwant_ids > max_len then max_len - iasked else length iwant_ids);
          ids = take iask (shuffle (env_rng E) (gs_draws s) iwant_ids);
          followup = gc_iwant_followup_time (gs_config s);
          s = s\<lparr>gs_draws := gs_draws s + 1, gs_count_sent_iwant := hm_insert peer (iasked + iask) (gs_count_sent_iwant s)\<rparr>
      in if gs_peer_score s \<noteq> None \<and> \<not> instant_fits now followup then None
         else
           (let choice = (if ids = [] then None else Some (hd (shuffle (env_rng E) (gs_draws s) ids)));
                s = (if gs_peer_score s = None then s
                     else on_promises (add_promise peer choice (now + followup)) (s\<lparr>gs_draws := gs_draws s + 1\<rparr>))
            in Some (control_pool_add peer (IWant ids) s)))"

definition handle_ihave ::
    "'f Env \<Rightarrow> Instant \<Rightarrow> PeerId \<Rightarrow> (TopicHash \<times> MessageId list) list \<Rightarrow> 'f Gossipsub \<Rightarrow> 'f Gossipsub option" where
  "handle_ihave E now peer ihave_msgs s =
     (if score_below_threshold E s peer gossip_threshold then Some s
      else
        (let peer_have = hm_get_or 0 (gs_count_received_ihave s) peer + 1;
             s = s\<lparr>gs_count_received_ihave := hm_insert peer peer_have (gs_count_received_ihave s)\<rparr>
         in if peer_have > gc_max_ihave_messages (gs_config s) then Some s
            else if (case hm_get (gs_count_sent_iwant s) peer of
                       Some iasked \<Rightarrow> iasked \<ge> gc_max_ihave_length (gs_config s) | None \<Rightarrow> False) then Some s
            else
              (let iwant_ids = wanted_ids ihave_msgs s
               in if iwant_ids = [] then Some s else ask_for E now peer iwant_ids s)))"

text \<open>The messages for an IWANT: each that is cached and has not been asked for too often.\<close>

fun collect_iwant ::
    "PeerId \<Rightarrow> MessageId list \<Rightarrow> 'f Gossipsub \<Rightarrow> (MessageId, RawGossipsubMessage) hashmap \<Rightarrow>
      (MessageId, RawGossipsubMessage) hashmap \<times> 'f Gossipsub" where
  "collect_iwant peer [] s cached = (cached, s)"
| "collect_iwant peer (mid # mids) s cached =
     (case get_with_iwant_counts mid peer (gs_mcache s) of
        (None, mcache) \<Rightarrow> collect_iwant peer mids (s\<lparr>gs_mcache := mcache\<rparr>) cached
      | (Some (msg, n), mcache) \<Rightarrow>
          collect_iwant peer mids (s\<lparr>gs_mcache := mcache\<rparr>)
            (if n > gc_gossip_retransimission (gs_config s) then cached else hm_insert mid msg cached))"

definition handle_iwant :: "'f Env \<Rightarrow> PeerId \<Rightarrow> MessageId list \<Rightarrow> 'f Gossipsub \<Rightarrow> 'f Gossipsub" where
  "handle_iwant E peer iwant_msgs s =
     (if score_below_threshold E s peer gossip_threshold then s
      else
        (let (cached, s) = collect_iwant peer iwant_msgs s []
         in if cached = [] then s else try_send E peer (rpc_of_messages (hm_values cached)) s))"


section \<open>Grafts and prunes\<close>

text \<open>
  The loop of \<open>handle_graft\<close> carries the topics to prune and whether to exchange peers. The penalty is doubled if the
  peer was pruned less than \<open>graft_flood_threshold\<close> ago; the difference of the two instants is written as a
  comparison of sums.
\<close>

definition graft_penalty :: "'f Env \<Rightarrow> Instant \<Rightarrow> PeerId \<Rightarrow> Instant \<Rightarrow> 'f Gossipsub \<Rightarrow> 'f Gossipsub option" where
  "graft_penalty E now peer backoff_time s =
     (if gs_peer_score s \<noteq> None \<and> \<not> instant_fits backoff_time (gc_graft_flood_threshold (gs_config s)) then None
      else on_score (\<lambda>ps.
        let ps = add_penalty (env_f E) peer 1 ps
        in Some (if backoff_time + gc_graft_flood_threshold (gs_config s) > now + gc_prune_backoff (gs_config s)
                 then add_penalty (env_f E) peer 1 ps else ps)) s)"

definition graft_topic ::
    "'f Env \<Rightarrow> Instant \<Rightarrow> PeerId \<Rightarrow> bool \<Rightarrow> TopicHash \<Rightarrow> TopicHash list \<times> bool \<times> 'f Gossipsub \<Rightarrow>
      (TopicHash list \<times> bool \<times> 'f Gossipsub) option" where
  "graft_topic E now peer negative topic st =
     (let (to_prune, do_px, s) = st
      in case hm_get (gs_mesh s) topic of
           None \<Rightarrow> Some (to_prune, False, s)
         | Some peers \<Rightarrow>
             if peer \<in> set peers then Some st
             else if (case get_backoff_time topic peer (gs_backoffs s) of Some t \<Rightarrow> t > now | None \<Rightarrow> False) then do {
               s \<leftarrow> graft_penalty E now peer (the (get_backoff_time topic peer (gs_backoffs s))) s;
               Some (hs_insert topic to_prune, False, s)
             }
             else if negative then Some (hs_insert topic to_prune, False, s)
             else if length peers \<ge> gc_mesh_n_high (gs_config s) \<and> peer \<notin> set (gs_outbound_peers s)
               then Some (hs_insert topic to_prune, do_px, s)
             else do {
               s \<leftarrow> on_score (score_graft (env_f E) peer topic)
                 (s\<lparr>gs_mesh := hm_insert topic (bset_insert peer peers) (gs_mesh s)\<rparr>);
               Some (to_prune, do_px, s)
             })"

definition collect_prunes ::
    "'f Env \<Rightarrow> Instant \<Rightarrow> PeerId \<Rightarrow> bool \<Rightarrow> TopicHash list \<Rightarrow> 'f Gossipsub \<Rightarrow> (GossipsubControlAction list \<times> 'f Gossipsub) option" where
  "collect_prunes E now peer do_px topics s =
     foldM (\<lambda>topic (prunes, s). do {
       (prune, s) \<leftarrow> make_prune E now topic peer do_px s;
       Some (prunes @ [prune], s)
     }) topics ([], s)"

definition handle_graft :: "'f Env \<Rightarrow> Instant \<Rightarrow> PeerId \<Rightarrow> TopicHash list \<Rightarrow> 'f Gossipsub \<Rightarrow> 'f Gossipsub option" where
  "handle_graft E now peer topics s = do {
     (to_prune, do_px, s) \<leftarrow>
       (if peer \<in> set (gs_explicit_peers s) then Some (hs_extend topics [], False, s)
        else foldM (graft_topic E now peer (below_zero E s peer)) topics ([], gc_do_px (gs_config s), s));
     if to_prune = [] then Some s
     else do {
       (prunes, s) \<leftarrow> collect_prunes E now peer do_px to_prune s;
       Some (try_send E peer (rpc_of_controls prunes) s)
     }
   }"

definition remove_peer_from_mesh ::
    "'f Env \<Rightarrow> Instant \<Rightarrow> PeerId \<Rightarrow> TopicHash \<Rightarrow> u64 option \<Rightarrow> bool \<Rightarrow> 'f Gossipsub \<Rightarrow> 'f Gossipsub option" where
  "remove_peer_from_mesh E now peer topic backoff always_update_backoff s =
     (let removed = (peer \<in> set (hm_get_or [] (gs_mesh s) topic))
      in do {
        s \<leftarrow> (if removed
              then on_score (score_prune (env_f E) peer topic) (s\<lparr>gs_mesh := hm_modify topic (bset_remove peer) (gs_mesh s)\<rparr>)
              else Some s);
        if always_update_backoff \<or> removed
        then gs_update_backoff now topic peer
               (case backoff of Some b \<Rightarrow> secs (unat b) | None \<Rightarrow> gc_prune_backoff (gs_config s)) s
        else Some s
      })"

definition px_connect :: "'f Env \<Rightarrow> PeerId option list \<Rightarrow> 'f Gossipsub \<Rightarrow> 'f Gossipsub option" where
  "px_connect E px s =
     (let n = gc_prune_peers (gs_config s);
          px = filter (\<lambda>p. p \<noteq> None) px;
          (px, s) = (if length px > n then (take n (shuffle (env_rng E) (gs_draws s) px), s\<lparr>gs_draws := gs_draws s + 1\<rparr>) else (px, s))
      in foldM (\<lambda>p s. case p of
           None \<Rightarrow> Some s
         | Some peer \<Rightarrow> open_connection peer (s\<lparr>gs_px_peers := hs_insert peer (gs_px_peers s)\<rparr>)) px s)"

definition prune_topic ::
    "'f Env \<Rightarrow> Instant \<Rightarrow> PeerId \<Rightarrow> bool \<Rightarrow> TopicHash \<times> PeerId option list \<times> u64 option \<Rightarrow> 'f Gossipsub \<Rightarrow> 'f Gossipsub option" where
  "prune_topic E now peer low_score entry s =
     (let (topic, px, backoff) = entry
      in do {
        s \<leftarrow> remove_peer_from_mesh E now peer topic backoff True s;
        if hm_contains (gs_mesh s) topic \<and> px \<noteq> [] \<and> \<not> low_score \<and> gc_prune_peers (gs_config s) > 0 then px_connect E px s else Some s
      })"

definition handle_prune ::
    "'f Env \<Rightarrow> Instant \<Rightarrow> PeerId \<Rightarrow> (TopicHash \<times> PeerId option list \<times> u64 option) list \<Rightarrow> 'f Gossipsub \<Rightarrow> 'f Gossipsub option" where
  "handle_prune E now peer prune_data s =
     foldM (prune_topic E now peer (score_below_threshold E s peer accept_px_threshold)) prune_data s"


section \<open>Received messages\<close>

definition reject_everywhere ::
    "'f Env \<Rightarrow> Instant \<Rightarrow> PeerId \<Rightarrow> MessageId \<Rightarrow> TopicHash \<Rightarrow> RejectReason \<Rightarrow> 'f Gossipsub \<Rightarrow> 'f Gossipsub option" where
  "reject_everywhere E now source mid topic reason s =
     map_option (on_promises (promise_rejected mid reason)) (on_score (score_reject_message (env_f E) now source mid topic reason) s)"

definition self_published :: "MessageId \<Rightarrow> RawGossipsubMessage \<Rightarrow> PeerId \<Rightarrow> 'f Gossipsub \<Rightarrow> bool" where
  "self_published mid raw source s \<longleftrightarrow>
     \<not> gc_allow_self_origin (gs_config s)
     \<and> (case get_own_id (gs_publish_config s) of
          Some own_id \<Rightarrow> own_id \<noteq> source \<and> gm_source raw = Some own_id
        | None \<Rightarrow> dup_contains mid (gs_published_message_ids s))"

definition message_is_valid ::
    "'f Env \<Rightarrow> Instant \<Rightarrow> MessageId \<Rightarrow> RawGossipsubMessage \<Rightarrow> PeerId \<Rightarrow> 'f Gossipsub \<Rightarrow>
      (bool \<times> RawGossipsubMessage \<times> 'f Gossipsub) option" where
  "message_is_valid E now mid raw source s =
     (if source \<in> set (gs_blacklisted_peers s) then
        map_option (\<lambda>s. (False, raw, s)) (reject_everywhere E now source mid (gm_topic raw) BlackListedPeer s)
      else if (case gm_source raw of None \<Rightarrow> False | Some author \<Rightarrow> author \<in> set (gs_blacklisted_peers s)) then
        map_option (\<lambda>s. (False, raw, s)) (reject_everywhere E now source mid (gm_topic raw) BlackListedSource s)
      else
        (let raw = (if gc_validate_messages (gs_config s) then raw else raw\<lparr>gm_validated := True\<rparr>)
         in if self_published mid raw source s then
              map_option (\<lambda>s. (False, raw, s)) (reject_everywhere E now source mid (gm_topic raw) SelfOrigin s)
            else Some (True, raw, s)))"

definition handle_invalid_message ::
    "'f Env \<Rightarrow> Instant \<Rightarrow> PeerId \<Rightarrow> RawGossipsubMessage \<Rightarrow> ValidationError \<Rightarrow> 'f Gossipsub \<Rightarrow> 'f Gossipsub option" where
  "handle_invalid_message E now source raw validation_error s =
     (if gs_peer_score s = None then Some s
      else
        (case Option.bind (fast_message_id (gs_config s) raw) (\<lambda>fid. cache_get fid (gs_fast_message_id_cache s)) of
           Some mid \<Rightarrow> reject_everywhere E now source mid (gm_topic raw) (ValidationError validation_error) s
         | None \<Rightarrow> on_score (reject_invalid_message (env_f E) source (gm_topic raw)) s))"

definition notify_subs :: "GossipsubMessage \<Rightarrow> 'f Gossipsub \<Rightarrow> 'f Gossipsub" where
  "notify_subs msg s =
     (case hm_get (gs_my_topics s) (msg_topic msg) of
        None \<Rightarrow> s
      | Some channel \<Rightarrow> s\<lparr>gs_delivered := gs_delivered s @ [(channel, msg)]\<rparr>)"

text \<open>What happens to a message that is valid and new: delivery, caching, and sending to the mesh.\<close>

definition accept_message ::
    "'f Env \<Rightarrow> Instant \<Rightarrow> MessageId \<Rightarrow> GossipsubMessage \<Rightarrow> RawGossipsubMessage \<Rightarrow> PeerId \<Rightarrow> 'f Gossipsub \<Rightarrow> 'f Gossipsub option" where
  "accept_message E now mid message raw source s = do {
     s \<leftarrow> on_score (Some \<circ> validate_message (env_f E) now source mid (msg_topic message)) (notify_subs message s);
     let s = on_promises (message_delivered mid) s;
     (_, mcache) \<leftarrow> mcache_put mid raw (gs_mcache s);
     let s = s\<lparr>gs_mcache := mcache\<rparr>;
     case hm_get (gs_mesh s) (msg_topic message) of
       None \<Rightarrow> Some s
     | Some peers \<Rightarrow>
         (let s = fold (\<lambda>peer. try_send E peer (rpc_of_messages [raw])) peers s
          in if gc_validate_messages (gs_config s) then Some s
             else map_option snd (forward_msg E now mid raw (Some source) s))
   }"

definition handle_new_message ::
    "'f Env \<Rightarrow> Instant \<Rightarrow> FastMessageId option \<Rightarrow> RawGossipsubMessage \<Rightarrow> PeerId \<Rightarrow> 'f Gossipsub \<Rightarrow> 'f Gossipsub option" where
  "handle_new_message E now fast_id raw source s =
     (case env_inbound E raw of
        Inl _ \<Rightarrow> handle_invalid_message E now source raw DataTransformFailed s
      | Inr message \<Rightarrow>
          (let mid = gc_message_id_fn (gs_config s) message
           in do {
             (valid, raw, s) \<leftarrow> message_is_valid E now mid raw source s;
             if \<not> valid then Some s
             else
               (let s = (case fast_id of
                           None \<Rightarrow> s
                         | Some fid \<Rightarrow>
                             s\<lparr>gs_fast_message_id_cache := snd (entry_or_insert_with now fid mid (gs_fast_message_id_cache s))\<rparr>)
                in case dup_insert now mid (gs_duplicate_cache s) of
                     (False, cache) \<Rightarrow>
                       on_score (duplicated_message (env_f E) now source mid (msg_topic message)) (s\<lparr>gs_duplicate_cache := cache\<rparr>)
                   | (True, cache) \<Rightarrow> accept_message E now mid message raw source (s\<lparr>gs_duplicate_cache := cache\<rparr>))
           }))"

definition handle_received_message ::
    "'f Env \<Rightarrow> Instant \<Rightarrow> RawGossipsubMessage \<Rightarrow> PeerId \<Rightarrow> 'f Gossipsub \<Rightarrow> 'f Gossipsub option" where
  "handle_received_message E now raw source s =
     (let fast_id = fast_message_id (gs_config s) raw
      in case Option.bind fast_id (\<lambda>fid. cache_get fid (gs_fast_message_id_cache s)) of
           Some mid \<Rightarrow> do {
             (_, raw, s) \<leftarrow> message_is_valid E now mid raw source s;
             on_score (duplicated_message (env_f E) now source mid (gm_topic raw)) s
           }
         | None \<Rightarrow> handle_new_message E now fast_id raw source s)"


section \<open>Received subscriptions\<close>

definition subscription_graft :: "'f Env \<Rightarrow> PeerId \<Rightarrow> TopicHash \<Rightarrow> 'f Gossipsub \<Rightarrow> (bool \<times> 'f Gossipsub) option" where
  "subscription_graft E source topic s =
     (if source \<notin> set (gs_explicit_peers s) \<and> gossip_kind (hm_get (gs_peer_protocols s) source) \<and> \<not> below_zero E s source
         \<and> \<not> is_backoff_with_slack topic source (gs_backoffs s)
      then
        (case hm_get (gs_mesh s) topic of
           None \<Rightarrow> Some (False, s)
         | Some peers \<Rightarrow>
             if length peers < gc_mesh_n_low (gs_config s) \<and> source \<notin> set peers then do {
               s \<leftarrow> on_score (score_graft (env_f E) source topic)
                 (s\<lparr>gs_mesh := hm_insert topic (bset_insert source peers) (gs_mesh s)\<rparr>);
               Some (True, s)
             } else Some (False, s))
      else Some (False, s))"

definition subscription_step ::
    "'f Env \<Rightarrow> PeerId \<Rightarrow> GossipsubSubscription \<Rightarrow> TopicHash list \<times> TopicHash list \<times> 'f Gossipsub \<Rightarrow>
      (TopicHash list \<times> TopicHash list \<times> 'f Gossipsub) option" where
  "subscription_step E source sub st =
     (let (grafts, unsubscribed, s) = st;
          topic = sub_topic_hash sub;
          peer_list = hm_get_or [] (gs_topic_peers s) topic
      in case sub_action sub of
           Subscribe \<Rightarrow> do {
             (grafted, s) \<leftarrow> subscription_graft E source topic
               (s\<lparr>gs_topic_peers := hm_insert topic (bset_insert source peer_list) (gs_topic_peers s),
                  gs_peer_topics := hm_modify source (hs_insert topic) (gs_peer_topics s)\<rparr>);
             Some (if grafted then grafts @ [topic] else grafts, unsubscribed, s)
           }
         | Unsubscribe \<Rightarrow>
             Some (grafts, unsubscribed @ [topic],
               s\<lparr>gs_topic_peers := hm_insert topic (bset_remove source peer_list) (gs_topic_peers s),
                 gs_peer_topics := hm_modify source (hs_remove topic) (gs_peer_topics s)\<rparr>))"

definition handle_received_subscriptions ::
    "'f Env \<Rightarrow> Instant \<Rightarrow> GossipsubSubscription list \<Rightarrow> PeerId \<Rightarrow> 'f Gossipsub \<Rightarrow> 'f Gossipsub option" where
  "handle_received_subscriptions E now subs source s =
     (case hm_get (gs_peer_topics s) source of
        None \<Rightarrow> Some s
      | Some topics \<Rightarrow>
          (case filter_incoming_subscriptions (gs_subscription_filter s) subs topics of
             Inl _ \<Rightarrow> Some s
           | Inr filtered \<Rightarrow> do {
               (grafts, unsubscribed, s) \<leftarrow> foldM (subscription_step E source) filtered ([], [], s);
               s \<leftarrow> foldM (\<lambda>topic. remove_peer_from_mesh E now source topic None False) unsubscribed s;
               Some (if grafts = [] then s else try_send E source (rpc_of_controls (map Graft grafts)) s)
             }))"


section \<open>Received RPCs\<close>

fun ihave_of :: "GossipsubControlAction \<Rightarrow> (TopicHash \<times> MessageId list) option" where
  "ihave_of (IHave topic ids) = Some (topic, ids)"
| "ihave_of _ = None"

fun graft_of :: "GossipsubControlAction \<Rightarrow> TopicHash option" where
  "graft_of (Graft topic) = Some topic"
| "graft_of _ = None"

fun prune_of :: "GossipsubControlAction \<Rightarrow> (TopicHash \<times> PeerId option list \<times> u64 option) option" where
  "prune_of (Prune topic peers backoff) = Some (topic, peers, backoff)"
| "prune_of _ = None"

fun iwant_of :: "GossipsubControlAction \<Rightarrow> MessageId list option" where
  "iwant_of (IWant ids) = Some ids"
| "iwant_of _ = None"

text \<open>IWANTs are answered while the control messages are sorted; the other kinds are handled together afterwards.\<close>

definition handle_controls ::
    "'f Env \<Rightarrow> Instant \<Rightarrow> GossipsubControlAction list \<Rightarrow> PeerId \<Rightarrow> 'f Gossipsub \<Rightarrow> 'f Gossipsub option" where
  "handle_controls E now controls source s =
     (let s = fold (\<lambda>ids. handle_iwant E source ids) (List.map_filter iwant_of controls) s;
          ihave_msgs = List.map_filter ihave_of controls;
          graft_msgs = List.map_filter graft_of controls;
          prune_msgs = List.map_filter prune_of controls
      in do {
        s \<leftarrow> (if ihave_msgs = [] then Some s else handle_ihave E now source ihave_msgs s);
        s \<leftarrow> (if graft_msgs = [] then Some s else handle_graft E now source graft_msgs s);
        if prune_msgs = [] then Some s else handle_prune E now source prune_msgs s
      })"

definition handle_message_event ::
    "'f Env \<Rightarrow> Instant \<Rightarrow> GossipsubRpc \<Rightarrow> PeerId \<Rightarrow> (RawGossipsubMessage \<times> ValidationError) list \<Rightarrow> 'f Gossipsub \<Rightarrow> 'f Gossipsub option" where
  "handle_message_event E now rpc source invalid_messages s = do {
     s \<leftarrow> (if rpc_subscriptions rpc = [] then Some s else handle_received_subscriptions E now (rpc_subscriptions rpc) source s);
     if score_below_threshold E s source graylist_threshold then Some s
     else do {
       s \<leftarrow> foldM (\<lambda>(raw, e). handle_invalid_message E now source raw e) invalid_messages s;
       s \<leftarrow> foldM (\<lambda>raw. handle_received_message E now raw source)
         (case gc_max_messages_per_rpc (gs_config s) of None \<Rightarrow> rpc_messages rpc | Some n \<Rightarrow> take n (rpc_messages rpc)) s;
       handle_controls E now (rpc_control_msgs rpc) source s
     }
   }"

end
