(* ===== verification/Gossip_Loop.thy ===== *)
theory Gossip_Loop
  imports Gossipsub
begin

text \<open>
  The heartbeat and the main loop of gossipsub (\<open>protocols/gossipsub/src/gossipsub.rs\<close>, \<open>control.rs\<close>, \<open>subscription.rs\<close>). The heartbeat
  maintains the mesh topic by topic, in five stages that share the peers to graft and to prune, then the fanout, and
  emits gossip. The loop takes events of the connection handlers, commands of the controls and cancelled subscriptions.
\<close>

section \<open>Maintaining the mesh of a topic\<close>

text \<open>The peers to graft and to prune, with their topics; those pruned without peer exchange; the draws so far.\<close>

record Beat =
  bt_graft :: "(PeerId, TopicHash list) hashmap"
  bt_prune :: "(PeerId, TopicHash list) hashmap"
  bt_no_px :: "PeerId list"
  bt_draws :: nat

definition add_topic :: "TopicHash \<Rightarrow> PeerId \<Rightarrow> (PeerId, TopicHash list) hashmap \<Rightarrow> (PeerId, TopicHash list) hashmap" where
  "add_topic topic peer m = hm_insert peer (hm_get_or [] m peer @ [topic]) m"

definition beat_graft :: "TopicHash \<Rightarrow> PeerId list \<Rightarrow> nat \<Rightarrow> Beat \<Rightarrow> Beat" where
  "beat_graft topic peers draws b = b\<lparr>bt_graft := fold (add_topic topic) peers (bt_graft b), bt_draws := draws\<rparr>"

definition beat_prune :: "TopicHash \<Rightarrow> PeerId list \<Rightarrow> Beat \<Rightarrow> Beat" where
  "beat_prune topic peers b = b\<lparr>bt_prune := fold (add_topic topic) peers (bt_prune b)\<rparr>"

text \<open>The score of a peer; the cache of the heartbeat holds the same values, for the table is not changed meanwhile.\<close>

definition beat_score :: "'f Env \<Rightarrow> 'f Gossipsub \<Rightarrow> PeerId \<Rightarrow> 'f" where
  "beat_score E s p = (case gs_peer_score s of None \<Rightarrow> f_zero (env_f E) | Some (ps, _) \<Rightarrow> score (env_f E) ps p)"

definition drop_negative :: "'f Env \<Rightarrow> 'f Gossipsub \<Rightarrow> TopicHash \<Rightarrow> PeerId list \<times> Beat \<Rightarrow> PeerId list \<times> Beat" where
  "drop_negative E s topic st =
     (let (peers, b) = st;
          negative = (\<lambda>p. f_lt (env_f E) (beat_score E s p) (f_zero (env_f E)));
          to_remove = filter negative peers;
          b = beat_prune topic to_remove b
      in (filter (\<lambda>p. \<not> negative p) peers, b\<lparr>bt_no_px := hs_extend to_remove (bt_no_px b)\<rparr>))"

definition meshable :: "'f Env \<Rightarrow> 'f Gossipsub \<Rightarrow> TopicHash \<Rightarrow> PeerId list \<Rightarrow> PeerId \<Rightarrow> bool" where
  "meshable E s topic peers p \<longleftrightarrow>
     p \<notin> set peers \<and> p \<notin> set (gs_explicit_peers s) \<and> \<not> is_backoff_with_slack topic p (gs_backoffs s)"

definition fill_low :: "'f Env \<Rightarrow> 'f Gossipsub \<Rightarrow> TopicHash \<Rightarrow> PeerId list \<times> Beat \<Rightarrow> (PeerId list \<times> Beat) option" where
  "fill_low E s topic st =
     (let (peers, b) = st; c = gs_config s
      in if length peers < gc_mesh_n_low c then
           (if length peers \<le> gc_mesh_n c then
              (let (new_peers, draws) = get_random_peers E s topic (gc_mesh_n c - length peers)
                     (\<lambda>p. meshable E s topic peers p \<and> f_le (env_f E) (f_zero (env_f E)) (beat_score E s p)) (bt_draws b)
               in Some (bset_extend new_peers peers, beat_graft topic new_peers draws b))
            else None)
         else Some st)"

text \<open>The loop that picks the peers to prune, sparing the last outbound peers.\<close>

fun pick_excess :: "PeerId list \<Rightarrow> nat \<Rightarrow> nat \<Rightarrow> nat \<Rightarrow> PeerId list \<Rightarrow> PeerId list" where
  "pick_excess outbound_peers outbound_min excess outbound [] = []"
| "pick_excess outbound_peers outbound_min excess outbound (peer # peers) =
     (if excess = 0 then []
      else if peer \<in> set outbound_peers then
        (if outbound \<le> outbound_min then pick_excess outbound_peers outbound_min excess outbound peers
         else peer # pick_excess outbound_peers outbound_min (excess - 1) (outbound - 1) peers)
      else peer # pick_excess outbound_peers outbound_min (excess - 1) outbound peers)"

definition outbound_count :: "'f Gossipsub \<Rightarrow> PeerId list \<Rightarrow> nat" where
  "outbound_count s peers = length (filter (\<lambda>p. p \<in> set (gs_outbound_peers s)) peers)"

definition prune_high :: "'f Env \<Rightarrow> 'f Gossipsub \<Rightarrow> TopicHash \<Rightarrow> PeerId list \<times> Beat \<Rightarrow> (PeerId list \<times> Beat) option" where
  "prune_high E s topic st =
     (let (peers, b) = st; c = gs_config s
      in if length peers > gc_mesh_n_high c then
           (if gc_mesh_n c \<le> length peers \<and> gc_retain_scores c \<le> length peers then
              (let excess = length peers - gc_mesh_n c;
                   shuffled = f_sort_by (env_f E) (beat_score E s) (shuffle (env_rng E) (bt_draws b) peers);
                   worst = length peers - gc_retain_scores c;
                   shuffled = shuffle (env_rng E) (bt_draws b + 1) (take worst shuffled) @ drop worst shuffled;
                   removed = pick_excess (gs_outbound_peers s) (gc_mesh_outbound_min c) excess (outbound_count s shuffled) shuffled
               in Some (filter (\<lambda>p. p \<notin> set removed) peers, beat_prune topic removed (b\<lparr>bt_draws := bt_draws b + 2\<rparr>)))
            else None)
         else Some st)"

definition fill_outbound :: "'f Env \<Rightarrow> 'f Gossipsub \<Rightarrow> TopicHash \<Rightarrow> PeerId list \<times> Beat \<Rightarrow> PeerId list \<times> Beat" where
  "fill_outbound E s topic st =
     (let (peers, b) = st; c = gs_config s
      in if length peers \<ge> gc_mesh_n_low c \<and> outbound_count s peers < gc_mesh_outbound_min c then
           (let (new_peers, draws) = get_random_peers E s topic (gc_mesh_outbound_min c - outbound_count s peers)
                  (\<lambda>p. meshable E s topic peers p \<and> f_le (env_f E) (f_zero (env_f E)) (beat_score E s p)
                     \<and> p \<in> set (gs_outbound_peers s)) (bt_draws b)
            in (bset_extend new_peers peers, beat_graft topic new_peers draws b))
         else st)"

definition median_score :: "'f Env \<Rightarrow> 'f Gossipsub \<Rightarrow> PeerId list \<Rightarrow> 'f" where
  "median_score E s peers =
     (let by_score = f_sort_by (env_f E) (beat_score E s) peers; middle = length by_score div 2
      in if length by_score mod 2 = 0
         then f_mul (env_f E) (f_add (env_f E) (beat_score E s (by_score ! (middle - 1))) (beat_score E s (by_score ! middle)))
                (f_lit (env_f E) 5 10)
         else beat_score E s (by_score ! middle))"

definition graft_opportunistically ::
    "'f Env \<Rightarrow> 'f Gossipsub \<Rightarrow> TopicHash \<Rightarrow> PeerId list \<times> Beat \<Rightarrow> (PeerId list \<times> Beat) option" where
  "graft_opportunistically E s topic st =
     (let (peers, b) = st; c = gs_config s
      in if gc_opportunistic_graft_ticks c = 0 then None
         else if gs_heartbeat_ticks s mod gc_opportunistic_graft_ticks c = 0 \<and> length peers > 1 then
           (case gs_peer_score s of
              None \<Rightarrow> Some st
            | Some (_, thresholds, _) \<Rightarrow>
                (let median = median_score E s peers
                 in if f_lt (env_f E) median (opportunistic_graft_threshold thresholds) then
                      (let (new_peers, draws) = get_random_peers E s topic (gc_opportunistic_graft_peers c)
                             (\<lambda>p. meshable E s topic peers p \<and> f_lt (env_f E) median (beat_score E s p)) (bt_draws b)
                       in Some (bset_extend new_peers peers, beat_graft topic new_peers draws b))
                    else Some st))
         else Some st)"

definition maintain_topic :: "'f Env \<Rightarrow> 'f Gossipsub \<Rightarrow> TopicHash \<Rightarrow> PeerId list \<times> Beat \<Rightarrow> (PeerId list \<times> Beat) option" where
  "maintain_topic E s topic st = do {
     st \<leftarrow> fill_low E s topic (drop_negative E s topic st);
     st \<leftarrow> prune_high E s topic st;
     graft_opportunistically E s topic (fill_outbound E s topic st)
   }"

fun maintain_mesh ::
    "'f Env \<Rightarrow> 'f Gossipsub \<Rightarrow> (TopicHash, PeerId list) hashmap \<Rightarrow> Beat \<Rightarrow> ((TopicHash, PeerId list) hashmap \<times> Beat) option" where
  "maintain_mesh E s [] b = Some ([], b)"
| "maintain_mesh E s ((topic, peers) # rest) b = do {
     (peers, b) \<leftarrow> maintain_topic E s topic (peers, b);
     (rest, b) \<leftarrow> maintain_mesh E s rest b;
     Some ((topic, peers) # rest, b)
   }"


section \<open>Maintaining the fanout\<close>

definition expire_fanout :: "Instant \<Rightarrow> 'f Gossipsub \<Rightarrow> 'f Gossipsub option" where
  "expire_fanout now s =
     (let ttl = gc_fanout_ttl (gs_config s);
          expired = (\<lambda>(topic, last_pub_time). last_pub_time + ttl < now)
      in if list_all (\<lambda>(topic, last_pub_time). instant_fits last_pub_time ttl) (gs_fanout_last_pub s) then
           Some (s\<lparr>gs_fanout := fold (\<lambda>(topic, _). hm_remove topic) (filter expired (gs_fanout_last_pub s)) (gs_fanout s),
                   gs_fanout_last_pub := filter (\<lambda>e. \<not> expired e) (gs_fanout_last_pub s)\<rparr>)
         else None)"

definition maintain_fanout_topic ::
    "'f Env \<Rightarrow> 'f Gossipsub \<Rightarrow> TopicHash \<Rightarrow> PeerId list \<Rightarrow> nat \<Rightarrow> PeerId list \<times> nat" where
  "maintain_fanout_topic E s topic peers draws =
     (let threshold = (case gs_peer_score s of Some (_, thresholds, _) \<Rightarrow> publish_threshold thresholds | None \<Rightarrow> f_zero (env_f E));
          low = (\<lambda>p. f_lt (env_f E) (beat_score E s p) threshold);
          stays = (\<lambda>p. case hm_get (gs_peer_topics s) p of Some topics \<Rightarrow> \<not> (topic \<notin> set topics \<or> low p) | None \<Rightarrow> False);
          peers = filter stays peers
      in if length peers < gc_mesh_n (gs_config s) then
           (let (new_peers, draws) = get_random_peers E s topic (gc_mesh_n (gs_config s) - length peers)
                  (\<lambda>p. p \<notin> set peers \<and> p \<notin> set (gs_explicit_peers s) \<and> low p) draws
            in (bset_extend new_peers peers, draws))
         else (peers, draws))"

fun maintain_fanout ::
    "'f Env \<Rightarrow> 'f Gossipsub \<Rightarrow> (TopicHash, PeerId list) hashmap \<Rightarrow> nat \<Rightarrow> (TopicHash, PeerId list) hashmap \<times> nat" where
  "maintain_fanout E s [] draws = ([], draws)"
| "maintain_fanout E s ((topic, peers) # rest) draws =
     (let (peers, draws) = maintain_fanout_topic E s topic peers draws;
          (rest, draws) = maintain_fanout E s rest draws
      in ((topic, peers) # rest, draws))"


section \<open>Emitting gossip\<close>

definition emit_to_peer :: "'f Env \<Rightarrow> TopicHash \<Rightarrow> MessageId list \<Rightarrow> PeerId \<Rightarrow> 'f Gossipsub \<Rightarrow> 'f Gossipsub" where
  "emit_to_peer E topic ids peer s =
     (let n = gc_max_ihave_length (gs_config s);
          (ids, draws) = (if length ids > n then (take n (shuffle (env_rng E) (gs_draws s) ids), gs_draws s + 1) else (ids, gs_draws s))
      in control_pool_add peer (IHave topic ids) (s\<lparr>gs_draws := draws\<rparr>))"

text \<open>The loop over the topics of the mesh and the fanout, which returns at the first topic without messages.\<close>

fun emit_topics :: "'f Env \<Rightarrow> (TopicHash, PeerId list) hashmap \<Rightarrow> 'f Gossipsub \<Rightarrow> 'f Gossipsub option" where
  "emit_topics E [] s = Some s"
| "emit_topics E ((topic, peers) # rest) s = do {
     ids \<leftarrow> get_gossip_message_ids topic (gs_mcache s);
     if ids = [] then Some s
     else
       (let c = gs_config s;
            (ids, draws) = (if length ids > gc_max_ihave_length c then (ids, gs_draws s)
                            else (shuffle (env_rng E) (gs_draws s) ids, gs_draws s + 1));
            n_map = (\<lambda>m. max (gc_gossip_lazy c) (f_trunc (env_f E) (f_mul (env_f E) (gc_gossip_factor c) (f_of_nat (env_f E) m))));
            (to_msg_peers, draws) = get_random_peers_dynamic E s topic n_map
              (\<lambda>p. p \<notin> set peers \<and> p \<notin> set (gs_explicit_peers s) \<and> \<not> score_below_threshold E s p gossip_threshold) draws
        in emit_topics E rest (fold (emit_to_peer E topic ids) to_msg_peers (s\<lparr>gs_draws := draws\<rparr>)))
   }"

definition emit_gossip :: "'f Env \<Rightarrow> 'f Gossipsub \<Rightarrow> 'f Gossipsub option" where
  "emit_gossip E s = emit_topics E (gs_mesh s @ gs_fanout s) s"


section \<open>Sending grafts and prunes\<close>

definition beat_px :: "PeerId list \<Rightarrow> PeerId \<Rightarrow> 'f Gossipsub \<Rightarrow> bool" where
  "beat_px no_px peer s \<longleftrightarrow> gc_do_px (gs_config s) \<and> peer \<notin> set no_px"

definition send_grafts ::
    "'f Env \<Rightarrow> Instant \<Rightarrow> PeerId list \<Rightarrow> PeerId \<times> TopicHash list \<Rightarrow> (PeerId, TopicHash list) hashmap \<times> 'f Gossipsub \<Rightarrow>
      ((PeerId, TopicHash list) hashmap \<times> 'f Gossipsub) option" where
  "send_grafts E now no_px entry st =
     (let (peer, topics) = entry; (to_prune, s) = st
      in do {
        s \<leftarrow> foldM (\<lambda>topic. on_score (score_graft (env_f E) peer topic)) topics s;
        (prunes, s) \<leftarrow> collect_prunes E now peer (beat_px no_px peer s) (hm_get_or [] to_prune peer) s;
        Some (hm_remove peer to_prune, try_send E peer (rpc_of_controls (map Graft topics @ prunes)) s)
      })"

definition send_prunes :: "'f Env \<Rightarrow> Instant \<Rightarrow> PeerId list \<Rightarrow> PeerId \<times> TopicHash list \<Rightarrow> 'f Gossipsub \<Rightarrow> 'f Gossipsub option" where
  "send_prunes E now no_px entry s =
     (let (peer, topics) = entry
      in do {
        (prunes, s) \<leftarrow> collect_prunes E now peer (beat_px no_px peer s) topics s;
        Some (try_send E peer (rpc_of_controls prunes) s)
      })"

definition send_graft_prune :: "'f Env \<Rightarrow> Instant \<Rightarrow> Beat \<Rightarrow> 'f Gossipsub \<Rightarrow> 'f Gossipsub option" where
  "send_graft_prune E now b s = do {
     (to_prune, s) \<leftarrow> foldM (send_grafts E now (bt_no_px b)) (bt_graft b) (bt_prune b, s);
     foldM (send_prunes E now (bt_no_px b)) to_prune s
   }"


section \<open>The heartbeat\<close>

definition apply_iwant_penalties :: "'f Env \<Rightarrow> Instant \<Rightarrow> 'f Gossipsub \<Rightarrow> 'f Gossipsub" where
  "apply_iwant_penalties E now s =
     (case gs_peer_score s of
        None \<Rightarrow> s
      | Some (ps, thresholds, promises) \<Rightarrow>
          (let (broken, promises) = get_broken_promises now promises
           in s\<lparr>gs_peer_score := Some (fold (\<lambda>(peer, n). add_penalty (env_f E) peer n) broken ps, thresholds, promises)\<rparr>))"

text \<open>The heartbeat of the backoffs adds the slack to the times it looks at, which panics when a sum is not representable.\<close>

definition backoff_sums_fit :: "BackoffStorage \<Rightarrow> bool" where
  "backoff_sums_fit b =
     (bs_heartbeat_index b < length (bs_by_heartbeat b) \<longrightarrow>
        list_all (\<lambda>(topic, peer).
          case get_backoff_time topic peer b of None \<Rightarrow> True | Some t \<Rightarrow> instant_fits t (backoff_slack_time b))
          (bs_by_heartbeat b ! bs_heartbeat_index b))"

definition heartbeat_start :: "'f Env \<Rightarrow> Instant \<Rightarrow> 'f Gossipsub \<Rightarrow> 'f Gossipsub option" where
  "heartbeat_start E now s =
     (if \<not> backoff_sums_fit (gs_backoffs s) then None
      else
        (let s = apply_iwant_penalties E now
               (s\<lparr>gs_heartbeat_ticks := gs_heartbeat_ticks s + 1, gs_backoffs := backoff_heartbeat now (gs_backoffs s),
                  gs_count_sent_iwant := [], gs_count_received_ihave := []\<rparr>);
             ticks = gc_check_explicit_peers_ticks (gs_config s)
         in if ticks = 0 then None
            else if gs_heartbeat_ticks s mod ticks = 0 then foldM check_explicit_peer_connection (gs_explicit_peers s) s
            else Some s))"

text \<open>The rest of the heartbeat, once the mesh is maintained.\<close>

definition heartbeat_end :: "'f Env \<Rightarrow> Instant \<Rightarrow> Beat \<Rightarrow> 'f Gossipsub \<Rightarrow> 'f Gossipsub option" where
  "heartbeat_end E now b s = do {
     s \<leftarrow> expire_fanout now s;
     let (fanout, draws) = maintain_fanout E s (gs_fanout s) (bt_draws b);
     s \<leftarrow> emit_gossip E (s\<lparr>gs_fanout := fanout, gs_draws := draws\<rparr>);
     s \<leftarrow> (if bt_graft b \<noteq> [] \<or> bt_prune b \<noteq> [] then send_graft_prune E now b s else Some s);
     let s = flush_control_pool E s;
     mcache \<leftarrow> mcache_shift (gs_mcache s);
     Some (s\<lparr>gs_mcache := mcache\<rparr>)
   }"

definition heartbeat :: "'f Env \<Rightarrow> Instant \<Rightarrow> 'f Gossipsub \<Rightarrow> 'f Gossipsub option" where
  "heartbeat E now s = do {
     s \<leftarrow> heartbeat_start E now s;
     (mesh, b) \<leftarrow> maintain_mesh E s (gs_mesh s) \<lparr>bt_graft = [], bt_prune = [], bt_no_px = [], bt_draws = gs_draws s\<rparr>;
     heartbeat_end E now b (s\<lparr>gs_mesh := mesh\<rparr>)
   }"


section \<open>Commands\<close>

text \<open>
  The commands of the controls. What the random generator returns for a published message is part of the command. A
  reply to \<open>Subscribe\<close> holds the number of the channel whose receiver the subscription gets; \<open>my_topics\<close> keeps the
  sender, of that channel or of an older one.
\<close>

datatype ControlCommand =
    CmdPublish TopicHash bytes u64 PeerId
  | CmdSubscribe TopicHash
  | CmdUnsubscribed TopicHash
  | CmdHeartbeat
  | CmdGetFanoutPeer
  | CmdGetMeshPeer

datatype CommandReply =
    NoReply
  | PublishReply
  | SubscribeReply "SubscriptionError + nat"
  | PeersReply "(TopicHash, PeerId list) hashmap"

fun handle_command :: "'f Env \<Rightarrow> Instant \<Rightarrow> ControlCommand \<Rightarrow> 'f Gossipsub \<Rightarrow> (CommandReply \<times> 'f Gossipsub) option" where
  "handle_command E now (CmdPublish topic data seqno random_peer) s = do {
     (_, s) \<leftarrow> gs_publish E now seqno random_peer topic data s;
     Some (PublishReply, s)
   }"
| "handle_command E now (CmdSubscribe topic) s = do {
     (result, s) \<leftarrow> gs_subscribe E topic s;
     case result of
       Inr False \<Rightarrow> Some (SubscribeReply (Inl SubscriptionExist), s)
     | Inr True \<Rightarrow>
         (let channel = gs_channels s
          in Some (SubscribeReply (Inr channel),
               s\<lparr>gs_channels := channel + 1, gs_my_topics := hm_insert topic (hm_get_or channel (gs_my_topics s) topic) (gs_my_topics s)\<rparr>))
     | Inl e \<Rightarrow> Some (SubscribeReply (Inl e), s)
   }"
| "handle_command E now (CmdUnsubscribed topic) s = do {
     (_, s) \<leftarrow> gs_unsubscribe E now topic s;
     Some (NoReply, s\<lparr>gs_my_topics := hm_remove topic (gs_my_topics s)\<rparr>)
   }"
| "handle_command E now CmdHeartbeat s = map_option (\<lambda>s. (NoReply, s)) (heartbeat E now s)"
| "handle_command E now CmdGetFanoutPeer s = Some (PeersReply (gs_fanout s), s)"
| "handle_command E now CmdGetMeshPeer s = Some (PeersReply (gs_mesh s), s)"

text \<open>What a control returns for \<open>publish\<close>: the reply only says that the command was handled.\<close>

definition control_publish :: "CommandReply option \<Rightarrow> PublishError + unit" where
  "control_publish reply = (case reply of Some PublishReply \<Rightarrow> Inr () | _ \<Rightarrow> Inl InsufficientPeers)"

definition control_subscribe :: "CommandReply option \<Rightarrow> SubscriptionError + nat" where
  "control_subscribe reply =
     (case reply of Some (SubscribeReply r) \<Rightarrow> r | _ \<Rightarrow> Inl (SubscriptionPublishError InsufficientPeers))"


section \<open>Events and the main loop\<close>

datatype HandlerEvent =
    HandlerPeerEvent PeerEvent
  | HandlerMessage PeerId GossipsubRpc "(RawGossipsubMessage \<times> ValidationError) list"
  | HandlerHeartBeat

fun handle_event :: "'f Env \<Rightarrow> Instant \<Rightarrow> HandlerEvent \<Rightarrow> 'f Gossipsub \<Rightarrow> 'f Gossipsub option" where
  "handle_event E now (HandlerPeerEvent pe) s = handle_peer_event E now pe s"
| "handle_event E now (HandlerMessage source rpc invalid_messages) s = handle_message_event E now rpc source invalid_messages s"
| "handle_event E now HandlerHeartBeat s = heartbeat E now s"

text \<open>
  What the loop receives: an event of a handler, a command, a cancelled subscription with the number of its channel, or
  the end of the commands. The number of a cancelled subscription is not used. The channel of the events never ends,
  for the router keeps a sender.
\<close>

datatype LoopInput =
    OnEvent HandlerEvent
  | OnCommand ControlCommand
  | OnCancel TopicHash nat
  | OnClosed

fun loop_step :: "'f Env \<Rightarrow> Instant \<Rightarrow> LoopInput \<Rightarrow> 'f Gossipsub \<Rightarrow> 'f Gossipsub option" where
  "loop_step E now (OnEvent e) s = handle_event E now e s"
| "loop_step E now (OnCommand c) s = map_option snd (handle_command E now c s)"
| "loop_step E now (OnCancel topic _) s = map_option snd (gs_unsubscribe E now topic s)"
| "loop_step E now OnClosed s = Some s"

fun process_loop :: "'f Env \<Rightarrow> (Instant \<times> LoopInput) list \<Rightarrow> 'f Gossipsub \<Rightarrow> 'f Gossipsub option" where
  "process_loop E [] s = Some s"
| "process_loop E ((now, i) # inputs) s = do {
     s \<leftarrow> loop_step E now i s;
     if i = OnClosed then Some s else process_loop E inputs s
   }"

end
