(* ===== verification/Gossip_Contract.thy ===== *)
theory Gossip_Contract
  imports Gossip_Loop
begin

text \<open>
  What every step of the router keeps: the shape of its tables, the bound on the mesh, the backoffs, and the record of
  the messages seen. \<open>gs_wf\<close> is the invariant; \<open>evolves now s s'\<close> is the contract of a step at the time \<open>now\<close>, a
  preorder, so that a handler meets it when the operations it is composed of do.
\<close>

section \<open>The contract\<close>

text \<open>Opportunistic grafting, which needs scores, adds to a mesh without looking at its size.\<close>

definition mesh_limit :: "'f Gossipsub \<Rightarrow> nat" where
  "mesh_limit s = gc_mesh_n_high (gs_config s) + (if gs_peer_score s = None then 0 else gc_opportunistic_graft_peers (gs_config s))"

definition topics_ok :: "nat \<Rightarrow> (TopicHash, PeerId list) hashmap \<Rightarrow> bool" where
  "topics_ok limit m \<longleftrightarrow> hm_wf m \<and> (\<forall>topic peers. hm_get m topic = Some peers \<longrightarrow> bset_wf peers \<and> length peers \<le> limit)"

definition tables_ok :: "nat \<Rightarrow> nat \<Rightarrow> (TopicHash, PeerId list) hashmap \<Rightarrow> (TopicHash, PeerId list) hashmap \<Rightarrow>
    (TopicHash, Instant) hashmap \<Rightarrow> bool" where
  "tables_ok limit mesh_n mesh fanout last_pub \<longleftrightarrow>
     topics_ok limit mesh \<and> topics_ok mesh_n fanout \<and> hm_wf last_pub
     \<and> (\<forall>topic. hm_contains last_pub topic = hm_contains fanout topic)
     \<and> (\<forall>topic. hm_contains mesh topic \<longrightarrow> \<not> hm_contains fanout topic)"

text \<open>The known peers of a topic are a set.\<close>

definition known_ok :: "(TopicHash, PeerId list) hashmap \<Rightarrow> bool" where
  "known_ok m \<longleftrightarrow> (\<forall>topic. bset_wf (hm_get_or [] m topic))"

definition gs_wf :: "Instant \<Rightarrow> 'f Gossipsub \<Rightarrow> bool" where
  "gs_wf now s \<longleftrightarrow>
     config_valid (gs_config s)
     \<and> tables_ok (mesh_limit s) (gc_mesh_n (gs_config s)) (gs_mesh s) (gs_fanout s) (gs_fanout_last_pub s)
     \<and> known_ok (gs_topic_peers s) \<and> gs_outbound_peers s = [] \<and> backoff_inv (gs_backoffs s)
     \<and> cache_inv now (gs_duplicate_cache s) \<and> tc_ttl (gs_duplicate_cache s) = gc_duplicate_cache_time (gs_config s)"

text \<open>A peer is blocked from the mesh of a topic while its backoff lasts.\<close>

definition blocked :: "Instant \<Rightarrow> TopicHash \<Rightarrow> PeerId \<Rightarrow> 'f Gossipsub \<Rightarrow> bool" where
  "blocked now topic peer s \<longleftrightarrow> (case get_backoff_time topic peer (gs_backoffs s) of None \<Rightarrow> False | Some t \<Rightarrow> now < t)"

definition message_id_of :: "'f Gossipsub \<Rightarrow> nat \<times> GossipsubMessage \<Rightarrow> MessageId" where
  "message_id_of s d = gc_message_id_fn (gs_config s) (snd d)"

definition backoffs_kept :: "Instant \<Rightarrow> 'f Gossipsub \<Rightarrow> 'f Gossipsub \<Rightarrow> bool" where
  "backoffs_kept now s s' \<longleftrightarrow>
     (\<forall>topic peer t. get_backoff_time topic peer (gs_backoffs s) = Some t \<longrightarrow> now < t \<longrightarrow>
        (\<exists>t' \<ge> t. get_backoff_time topic peer (gs_backoffs s') = Some t'))"

definition joins_allowed :: "Instant \<Rightarrow> 'f Gossipsub \<Rightarrow> 'f Gossipsub \<Rightarrow> bool" where
  "joins_allowed now s s' \<longleftrightarrow>
     (\<forall>topic peer. peer \<in> set (mesh_peers s' topic) \<longrightarrow> peer \<notin> set (mesh_peers s topic) \<longrightarrow> \<not> blocked now topic peer s)"

definition seen_kept :: "Instant \<Rightarrow> 'f Gossipsub \<Rightarrow> 'f Gossipsub \<Rightarrow> bool" where
  "seen_kept now s s' \<longleftrightarrow>
     (\<forall>t mid. now \<le> t \<longrightarrow> cache_seen t (gs_duplicate_cache s) mid \<longrightarrow> cache_seen t (gs_duplicate_cache s') mid)"

definition delivers_new :: "Instant \<Rightarrow> 'f Gossipsub \<Rightarrow> 'f Gossipsub \<Rightarrow> bool" where
  "delivers_new now s s' \<longleftrightarrow>
     (\<exists>ds. gs_delivered s' = gs_delivered s @ ds \<and> distinct (map (message_id_of s) ds)
        \<and> (\<forall>d \<in> set ds. \<not> cache_seen now (gs_duplicate_cache s) (message_id_of s d)
             \<and> (\<forall>t. now \<le> t \<longrightarrow> t < now + gc_duplicate_cache_time (gs_config s)
                  \<longrightarrow> cache_seen t (gs_duplicate_cache s') (message_id_of s d))))"

definition evolves :: "Instant \<Rightarrow> 'f Gossipsub \<Rightarrow> 'f Gossipsub \<Rightarrow> bool" where
  "evolves now s s' \<longleftrightarrow>
     (gs_wf now s \<longrightarrow>
        gs_wf now s' \<and> gs_config s' = gs_config s \<and> (gs_peer_score s' = None \<longleftrightarrow> gs_peer_score s = None)
        \<and> backoffs_kept now s s' \<and> joins_allowed now s s' \<and> seen_kept now s s'
        \<and> (0 < gc_duplicate_cache_time (gs_config s) \<longrightarrow> delivers_new now s s'))"

lemma blocked_kept: "backoffs_kept now s s' \<Longrightarrow> blocked now topic peer s \<Longrightarrow> blocked now topic peer s'"
  unfolding backoffs_kept_def blocked_def by (fastforce split: option.splits)

lemma delivers_new_trans:
  assumes "delivers_new now s s'" "delivers_new now s' s''" "gs_config s' = gs_config s"
    and "seen_kept now s s'" "seen_kept now s' s''" "0 < gc_duplicate_cache_time (gs_config s)"
  shows "delivers_new now s s''"
proof -
  let ?ttl = "gc_duplicate_cache_time (gs_config s)"
  obtain ds where ds: "gs_delivered s' = gs_delivered s @ ds" "distinct (map (message_id_of s) ds)"
    "\<And>d. d \<in> set ds \<Longrightarrow> \<not> cache_seen now (gs_duplicate_cache s) (message_id_of s d)"
    "\<And>d t. d \<in> set ds \<Longrightarrow> now \<le> t \<Longrightarrow> t < now + ?ttl \<Longrightarrow> cache_seen t (gs_duplicate_cache s') (message_id_of s d)"
    using assms(1) unfolding delivers_new_def by blast
  obtain es where es: "gs_delivered s'' = gs_delivered s' @ es" "distinct (map (message_id_of s) es)"
    "\<And>d. d \<in> set es \<Longrightarrow> \<not> cache_seen now (gs_duplicate_cache s') (message_id_of s d)"
    "\<And>d t. d \<in> set es \<Longrightarrow> now \<le> t \<Longrightarrow> t < now + ?ttl \<Longrightarrow> cache_seen t (gs_duplicate_cache s'') (message_id_of s d)"
    using assms(2) unfolding delivers_new_def message_id_of_def assms(3) by blast
  have "message_id_of s d \<noteq> message_id_of s e" if "d \<in> set ds" "e \<in> set es" for d e
    using ds(4) [OF that(1), of now] es(3) [OF that(2)] assms(6) by auto
  then have "distinct (map (message_id_of s) (ds @ es))" using ds(2) es(2) by auto
  moreover have "gs_delivered s'' = gs_delivered s @ (ds @ es)" using ds(1) es(1) by simp
  moreover have "\<not> cache_seen now (gs_duplicate_cache s) (message_id_of s d)" if "d \<in> set (ds @ es)" for d
    using that ds(3) es(3) assms(4) unfolding seen_kept_def set_append by blast
  moreover have "cache_seen t (gs_duplicate_cache s'') (message_id_of s d)" if "d \<in> set (ds @ es)" "now \<le> t" "t < now + ?ttl" for d t
    using that ds(4) es(4) assms(5) unfolding seen_kept_def set_append by blast
  ultimately show ?thesis unfolding delivers_new_def by blast
qed

lemma kept_refl:
  "gs_backoffs s' = gs_backoffs s \<Longrightarrow> backoffs_kept now s s'"
  "gs_mesh s' = gs_mesh s \<Longrightarrow> joins_allowed now s s'"
  "gs_duplicate_cache s' = gs_duplicate_cache s \<Longrightarrow> seen_kept now s s'"
  "gs_delivered s' = gs_delivered s \<Longrightarrow> delivers_new now s s'"
  unfolding backoffs_kept_def joins_allowed_def seen_kept_def delivers_new_def mesh_peers_def by auto

lemma evolvesI:
  assumes "gs_wf now s \<Longrightarrow> gs_wf now s'" "gs_config s' = gs_config s" "gs_peer_score s' = None \<longleftrightarrow> gs_peer_score s = None"
    and "gs_wf now s \<Longrightarrow> backoffs_kept now s s'" "gs_wf now s \<Longrightarrow> joins_allowed now s s'"
    and "gs_wf now s \<Longrightarrow> seen_kept now s s'" "gs_wf now s \<Longrightarrow> delivers_new now s s'"
  shows "evolves now s s'"
  using assms by (simp add: evolves_def)

lemma gs_evolves_refl [simp]: "evolves now s s"
  unfolding evolves_def backoffs_kept_def joins_allowed_def seen_kept_def delivers_new_def by auto

lemma gs_evolves_trans [trans]:
  assumes "evolves now s s'" "evolves now s' s''"
  shows "evolves now s s''"
proof (cases "gs_wf now s")
  case True
  from True assms(1) have 1: "gs_wf now s'" "gs_config s' = gs_config s" "gs_peer_score s' = None \<longleftrightarrow> gs_peer_score s = None"
    "backoffs_kept now s s'" "joins_allowed now s s'" "seen_kept now s s'"
    "0 < gc_duplicate_cache_time (gs_config s) \<longrightarrow> delivers_new now s s'"
    by (simp_all add: evolves_def)
  from 1(1) assms(2) have 2: "gs_wf now s''" "gs_config s'' = gs_config s'" "gs_peer_score s'' = None \<longleftrightarrow> gs_peer_score s' = None"
    "backoffs_kept now s' s''" "joins_allowed now s' s''" "seen_kept now s' s''"
    "0 < gc_duplicate_cache_time (gs_config s') \<longrightarrow> delivers_new now s' s''"
    by (simp_all add: evolves_def)
  have "backoffs_kept now s s''" using 1(4) 2(4) unfolding backoffs_kept_def by (meson le_trans less_le_trans)
  moreover have "joins_allowed now s s''"
    using 1(5) 2(5) blocked_kept [OF 1(4)] unfolding joins_allowed_def by blast
  moreover have "seen_kept now s s''" using 1(6) 2(6) unfolding seen_kept_def by blast
  moreover have "0 < gc_duplicate_cache_time (gs_config s) \<longrightarrow> delivers_new now s s''"
    using delivers_new_trans [of now s s' s''] 1 2 by simp
  ultimately show ?thesis using 1 2 by (simp add: evolves_def)
qed (simp add: evolves_def)

text \<open>A loop whose state has the router as a part.\<close>

lemma evolves_foldM:
  assumes "foldM f xs st = Some st'" "\<And>x st st'. x \<in> set xs \<Longrightarrow> f x st = Some st' \<Longrightarrow> evolves now (\<pi> st) (\<pi> st')"
  shows "evolves now (\<pi> st) (\<pi> st')"
  using assms
proof (induction xs arbitrary: st)
  case (Cons x xs)
  from Cons.prems(1) obtain t where t: "f x st = Some t" "foldM f xs t = Some st'" by (auto simp: Option.bind_eq_Some_conv)
  have "evolves now (\<pi> st) (\<pi> t)" using Cons.prems(2) [OF _ t(1)] by simp
  moreover have "evolves now (\<pi> t) (\<pi> st')" by (rule Cons.IH [OF t(2)]) (auto intro: Cons.prems(2))
  ultimately show ?case by (rule gs_evolves_trans)
qed simp

text \<open>The parts of the state the contract looks at; what keeps them meets the contract.\<close>

definition core :: "'f Gossipsub \<Rightarrow> 'f GossipsubConfig \<times> bool \<times> (TopicHash, PeerId list) hashmap \<times> (TopicHash, PeerId list) hashmap \<times>
    (TopicHash, Instant) hashmap \<times> (TopicHash, PeerId list) hashmap \<times> PeerId list \<times> BackoffStorage \<times> MessageId DuplicateCache \<times> (nat \<times> GossipsubMessage) list" where
  "core s = (gs_config s, gs_peer_score s = None, gs_mesh s, gs_fanout s, gs_fanout_last_pub s, gs_topic_peers s, gs_outbound_peers s,
     gs_backoffs s, gs_duplicate_cache s, gs_delivered s)"

lemma gs_wf_core: "core s' = core s \<Longrightarrow> gs_wf now s' = gs_wf now s"
  by (simp add: gs_wf_def core_def mesh_limit_def)

lemma evolves_frame: "core s' = core s \<Longrightarrow> evolves now s s'"
  using gs_wf_core [of s' s now]
  by (auto simp: evolves_def core_def backoffs_kept_def joins_allowed_def seen_kept_def delivers_new_def mesh_peers_def)

lemma evolves_core: "core s = core s0 \<Longrightarrow> evolves now s s' \<Longrightarrow> evolves now s0 s'"
  by (metis evolves_frame gs_evolves_trans)


section \<open>Operations that keep the core\<close>

lemma core_simps [simp]:
  "core (s\<lparr>gs_control_pool := a\<rparr>) = core s" "core (s\<lparr>gs_connected_peer := b\<rparr>) = core s" "core (s\<lparr>gs_draws := n\<rparr>) = core s"
  "core (s\<lparr>gs_peer_topics := d\<rparr>) = core s" "core (s\<lparr>gs_peer_protocols := e\<rparr>) = core s"
  "core (s\<lparr>gs_mcache := f\<rparr>) = core s" "core (s\<lparr>gs_dials := g\<rparr>) = core s" "core (s\<lparr>gs_streams := h\<rparr>) = core s"
  "core (s\<lparr>gs_px_peers := i\<rparr>) = core s" "core (s\<lparr>gs_explicit_peers := j\<rparr>) = core s" "core (s\<lparr>gs_heartbeat_ticks := n\<rparr>) = core s"
  "core (s\<lparr>gs_count_sent_iwant := k\<rparr>) = core s" "core (s\<lparr>gs_count_received_ihave := k\<rparr>) = core s"
  "core (s\<lparr>gs_published_message_ids := l\<rparr>) = core s" "core (s\<lparr>gs_fast_message_id_cache := m\<rparr>) = core s"
  "core (s\<lparr>gs_my_topics := o'\<rparr>) = core s" "core (s\<lparr>gs_channels := n\<rparr>) = core s" "core (s\<lparr>gs_swarm := w\<rparr>) = core s"
  "core (s\<lparr>gs_blacklisted_peers := q\<rparr>) = core s"
  by (simp_all add: core_def)

lemma core_score: "(ps = None \<longleftrightarrow> gs_peer_score s = None) \<Longrightarrow> core (s\<lparr>gs_peer_score := ps\<rparr>) = core s"
  by (simp add: core_def)

lemma core_on_score: "on_score f s = Some s' \<Longrightarrow> core s' = core s"
  by (auto simp: on_score_def core_def Option.bind_eq_Some_conv split: option.splits prod.splits)

lemma core_on_promises [simp]: "core (on_promises f s) = core s"
  by (simp add: on_promises_def core_def)

lemma core_send_message: "send_message E peer rpc s = Inr s' \<Longrightarrow> core s' = core s"
  by (auto simp: Gossipsub.send_message_def and_then_Inr_iff)

lemma core_try_send [simp]: "core (try_send E peer rpc s) = core s"
  by (auto simp: try_send_def core_send_message split: sum.splits)

lemma core_send_all: "send_all E peers rpc s = (r, s') \<Longrightarrow> core s' = core s"
proof (induction peers arbitrary: s)
  case (Cons peer peers)
  then show ?case by (auto simp: split: sum.splits dest: core_send_message)
qed simp

lemma core_control_pool_add [simp]: "core (control_pool_add peer c s) = core s"
  by (simp add: control_pool_add_def)

lemma core_fold: "(\<And>x s. core (f x s) = core s) \<Longrightarrow> core (fold f xs s) = core s"
  by (induction xs arbitrary: s) simp_all

lemma core_flush [simp]: "core (flush_control_pool E s) = core s"
  unfolding flush_control_pool_def by (subst core_fold) auto

lemma core_foldM:
  assumes "foldM f xs s = Some s'" "\<And>x s s'. x \<in> set xs \<Longrightarrow> f x s = Some s' \<Longrightarrow> core s' = core s"
  shows "core s' = core s"
  using assms(1) by (rule foldM_Some_inv [where P = "\<lambda>t. core t = core s"]) (use assms(2) in auto)

lemma core_check_explicit: "check_explicit_peer_connection peer s = Some s' \<Longrightarrow> core s' = core s"
  by (auto simp: check_explicit_peer_connection_def split: if_splits)

lemma core_open_connection: "open_connection peer s = Some s' \<Longrightarrow> core s' = core s"
  by (auto simp: open_connection_def split: if_splits)

lemma core_px_connect: "px_connect E px s = Some s' \<Longrightarrow> core s' = core s"
  unfolding px_connect_def Let_def case_prod_unfold
  by (drule core_foldM) (auto split: option.splits if_splits dest: core_open_connection)

lemma core_collect_iwant [simp]: "core (snd (collect_iwant peer mids s cached)) = core s"
  by (induction peer mids s cached rule: collect_iwant.induct) (simp_all split: option.splits prod.splits)

lemma core_handle_iwant [simp]: "core (handle_iwant E peer mids s) = core s"
  using core_collect_iwant [of peer mids s "[]"] by (simp add: handle_iwant_def case_prod_unfold Let_def)

lemma core_ask_for: "ask_for E now peer ids s = Some s' \<Longrightarrow> core s' = core s"
  by (auto simp: ask_for_def Let_def split: if_splits)

lemma core_handle_ihave: "handle_ihave E now peer msgs s = Some s' \<Longrightarrow> core s' = core s"
  by (auto simp: handle_ihave_def Let_def split: if_splits option.splits dest: core_ask_for)

lemma core_forward: "forward_msg E now mid m src s = Some (r, s') \<Longrightarrow> core s' = core s"
  by (auto simp: forward_msg_def Option.bind_eq_Some_conv Let_def split: option.splits if_splits prod.splits
      dest!: core_on_score core_send_all)

lemma core_reject: "reject_everywhere E now src mid topic reason s = Some s' \<Longrightarrow> core s' = core s"
  by (auto simp: reject_everywhere_def dest: core_on_score)

lemma core_message_is_valid: "message_is_valid E now mid raw src s = Some (v, raw', s') \<Longrightarrow> core s' = core s"
  by (auto simp: message_is_valid_def Let_def split: if_splits option.splits dest: core_reject)

lemma core_handle_invalid: "handle_invalid_message E now src raw e s = Some s' \<Longrightarrow> core s' = core s"
  by (auto simp: handle_invalid_message_def split: if_splits option.splits dest: core_reject core_on_score)

lemma core_graft_penalty: "graft_penalty E now peer t s = Some s' \<Longrightarrow> core s' = core s"
  by (auto simp: graft_penalty_def split: if_splits dest: core_on_score)

lemma core_handle_new_peer: "Gossipsub.handle_new_peer E peer s = Some s' \<Longrightarrow> core s' = core s"
  by (auto simp: Gossipsub.handle_new_peer_def Let_def split: if_splits dest!: core_on_score)


section \<open>Changes of the mesh and the fanout\<close>

lemma topics_okD: "topics_ok n m \<Longrightarrow> hm_get m t = Some peers \<Longrightarrow> bset_wf peers \<and> length peers \<le> n"
  by (simp add: topics_ok_def)

lemma topics_ok_insert: "topics_ok n m \<Longrightarrow> bset_wf peers \<Longrightarrow> length peers \<le> n \<Longrightarrow> topics_ok n (hm_insert t peers m)"
  by (auto simp: topics_ok_def hashmap_simps split: if_splits)

lemma topics_ok_remove: "topics_ok n m \<Longrightarrow> topics_ok n (hm_remove t m)"
  by (auto simp: topics_ok_def hashmap_simps split: if_splits)

lemma topics_okI: "hm_wf m \<Longrightarrow> (\<And>t ps. hm_get m t = Some ps \<Longrightarrow> bset_wf ps \<and> length ps \<le> n) \<Longrightarrow> topics_ok n m"
  by (simp add: topics_ok_def)

lemma topics_ok_modify_remove:
  assumes "topics_ok n m"
  shows "topics_ok n (hm_modify t (bset_remove p) m)"
proof (rule topics_okI)
  fix t' peers
  assume "hm_get (hm_modify t (bset_remove p) m) t' = Some peers"
  then obtain ps where ps: "hm_get m t' = Some ps" "peers = ps \<or> peers = bset_remove p ps"
    by (auto simp: hm_get_modify split: if_splits)
  then have wf: "bset_wf ps" "length ps \<le> n" using assms by (auto dest: topics_okD)
  have "length (bset_remove p ps) \<le> n" using length_removeAll_less_eq [of p ps] wf(2) by (rule le_trans)
  with ps(2) bset_wf_remove [OF wf(1), of p] wf show "bset_wf peers \<and> length peers \<le> n" by blast
qed (use assms in \<open>simp add: topics_ok_def\<close>)

lemma blocked_frame [simp]:
  "blocked now t p (s\<lparr>gs_mesh := m\<rparr>) = blocked now t p s" "blocked now t p (s\<lparr>gs_fanout := m\<rparr>) = blocked now t p s"
  by (simp_all add: blocked_def)

lemma mesh_limit_frame [simp]:
  "mesh_limit (s\<lparr>gs_mesh := m\<rparr>) = mesh_limit s" "mesh_limit (s\<lparr>gs_fanout := m\<rparr>) = mesh_limit s"
  "mesh_limit (s\<lparr>gs_fanout_last_pub := l\<rparr>) = mesh_limit s" "mesh_limit (s\<lparr>gs_backoffs := b\<rparr>) = mesh_limit s"
  "mesh_limit (s\<lparr>gs_duplicate_cache := c\<rparr>) = mesh_limit s" "mesh_limit (s\<lparr>gs_delivered := d\<rparr>) = mesh_limit s"
  "mesh_limit (s\<lparr>gs_topic_peers := t\<rparr>) = mesh_limit s"
  by (simp_all add: mesh_limit_def)

lemma tables_ok_mesh:
  assumes "tables_ok limit n mesh fanout last_pub" "topics_ok limit m" "\<And>t. hm_contains m t \<Longrightarrow> hm_contains mesh t"
  shows "tables_ok limit n m fanout last_pub"
  using assms unfolding tables_ok_def by blast

lemma tables_ok_fanout:
  assumes "tables_ok limit n mesh fanout last_pub" "topics_ok n m" "hm_wf l" "\<And>t. hm_contains l t = hm_contains m t"
    and "\<And>t. hm_contains m t \<Longrightarrow> \<not> hm_contains mesh t"
  shows "tables_ok limit n mesh m l"
  using assms unfolding tables_ok_def by blast

lemma gs_wf_topics: "gs_wf now s \<Longrightarrow> topics_ok (mesh_limit s) (gs_mesh s)" "gs_wf now s \<Longrightarrow> topics_ok (gc_mesh_n (gs_config s)) (gs_fanout s)"
  by (simp_all add: gs_wf_def tables_ok_def)

lemma evolves_tables:
  assumes "gs_wf now s \<Longrightarrow> tables_ok (mesh_limit s) (gc_mesh_n (gs_config s)) m f l"
    and "\<And>t p. gs_wf now s \<Longrightarrow> p \<in> set (hm_get_or [] m t) \<Longrightarrow> p \<notin> set (mesh_peers s t) \<Longrightarrow> \<not> blocked now t p s"
  shows "evolves now s (s\<lparr>gs_mesh := m, gs_fanout := f, gs_fanout_last_pub := l\<rparr>)"
proof (rule evolvesI)
  show "gs_wf now (s\<lparr>gs_mesh := m, gs_fanout := f, gs_fanout_last_pub := l\<rparr>)" if wf: "gs_wf now s"
    using wf assms(1) [OF wf] by (simp add: gs_wf_def)
  show "joins_allowed now s (s\<lparr>gs_mesh := m, gs_fanout := f, gs_fanout_last_pub := l\<rparr>)" if wf: "gs_wf now s"
    using assms(2) [OF wf] by (simp add: joins_allowed_def mesh_peers_def)
qed (simp_all add: kept_refl)

lemma gs_wf_tables: "gs_wf now s \<Longrightarrow> tables_ok (mesh_limit s) (gc_mesh_n (gs_config s)) (gs_mesh s) (gs_fanout s) (gs_fanout_last_pub s)"
  by (simp add: gs_wf_def)

lemma evolves_mesh:
  assumes "gs_wf now s \<Longrightarrow> topics_ok (mesh_limit s) m"
    and "\<And>t. gs_wf now s \<Longrightarrow> hm_contains m t \<Longrightarrow> hm_contains (gs_mesh s) t"
    and "\<And>t p. gs_wf now s \<Longrightarrow> p \<in> set (hm_get_or [] m t) \<Longrightarrow> p \<notin> set (mesh_peers s t) \<Longrightarrow> \<not> blocked now t p s"
  shows "evolves now s (s\<lparr>gs_mesh := m\<rparr>)"
  using evolves_tables [OF tables_ok_mesh [OF gs_wf_tables assms(1,2)] assms(3)] by simp

lemma mesh_peers_insert: "set (hm_get_or [] (hm_insert t peers m) t') = (if t' = t then set peers else set (hm_get_or [] m t'))"
  by (simp add: hm_get_or_def hashmap_simps)

lemma mesh_peers_modify_remove:
  "set (hm_get_or [] (hm_modify t (bset_remove p) m) t') = set (hm_get_or [] m t') - (if t' = t then {p} else {})"
  by (cases "hm_get m t") (auto simp: hm_get_or_def hm_get_modify)

lemma evolves_mesh_add:
  assumes "hm_get (gs_mesh s) t = Some peers" "length peers < mesh_limit s" "\<not> blocked now t p s"
  shows "evolves now s (s\<lparr>gs_mesh := hm_insert t (bset_insert p peers) (gs_mesh s)\<rparr>)"
proof (rule evolves_mesh)
  assume "gs_wf now s"
  then have ok: "topics_ok (mesh_limit s) (gs_mesh s)" by (rule gs_wf_topics)
  then have "bset_wf peers" using topics_okD [OF ok assms(1)] by simp
  then have "bset_wf (bset_insert p peers)" by (rule bset_wf_insert)
  then show "topics_ok (mesh_limit s) (hm_insert t (bset_insert p peers) (gs_mesh s))"
    by (rule topics_ok_insert [OF ok]) (use assms(2) in simp)
qed (use assms in \<open>auto simp: hashmap_simps mesh_peers_insert mesh_peers_def hm_get_or_def split: if_splits\<close>)

lemma evolves_mesh_remove: "evolves now s (s\<lparr>gs_mesh := hm_modify t (bset_remove p) (gs_mesh s)\<rparr>)"
  by (rule evolves_mesh)
    (auto simp: gs_wf_topics topics_ok_modify_remove hm_get_modify mesh_peers_modify_remove mesh_peers_def split: if_splits)

lemma evolves_fanout:
  assumes "gs_wf now s \<Longrightarrow> topics_ok (gc_mesh_n (gs_config s)) m"
    and "gs_wf now s \<Longrightarrow> hm_wf l"
    and "\<And>t. gs_wf now s \<Longrightarrow> hm_contains l t = hm_contains m t"
    and "\<And>t. gs_wf now s \<Longrightarrow> hm_contains m t \<Longrightarrow> \<not> hm_contains (gs_mesh s) t"
  shows "evolves now s (s\<lparr>gs_fanout := m, gs_fanout_last_pub := l\<rparr>)"
proof -
  have "evolves now s (s\<lparr>gs_mesh := gs_mesh s, gs_fanout := m, gs_fanout_last_pub := l\<rparr>)"
    by (rule evolves_tables [OF tables_ok_fanout [OF gs_wf_tables assms]]) (simp_all add: mesh_peers_def)
  then show ?thesis by simp
qed

lemma evolves_fanout_remove: "evolves now s (s\<lparr>gs_fanout := hm_modify t (bset_remove p) (gs_fanout s)\<rparr>)"
proof -
  have "evolves now s (s\<lparr>gs_fanout := hm_modify t (bset_remove p) (gs_fanout s), gs_fanout_last_pub := gs_fanout_last_pub s\<rparr>)"
    by (rule evolves_fanout) (auto simp: gs_wf_def tables_ok_def topics_ok_modify_remove hm_get_modify split: if_splits)
  then show ?thesis by simp
qed

lemma known_ok_update:
  "known_ok m \<Longrightarrow> known_ok (hm_insert t (bset_insert p (hm_get_or [] m t)) m)"
  "known_ok m \<Longrightarrow> known_ok (hm_insert t (bset_remove p (hm_get_or [] m t)) m)"
  "known_ok m \<Longrightarrow> known_ok (hm_modify t (bset_remove p) m)"
proof -
  assume m: "known_ok m"
  have ins: "hm_get_or [] (hm_insert t ps m) t' = (if t' = t then ps else hm_get_or [] m t')" for ps t'
    by (simp add: hm_get_or_def hashmap_simps)
  have wf: "bset_wf (hm_get_or [] m t')" for t' using m by (simp add: known_ok_def)
  show "known_ok (hm_insert t (bset_insert p (hm_get_or [] m t)) m)"
    unfolding known_ok_def ins using wf bset_wf_insert [OF wf [of t], of p] by auto
  show "known_ok (hm_insert t (bset_remove p (hm_get_or [] m t)) m)"
    unfolding known_ok_def ins using wf bset_wf_remove [OF wf [of t], of p] by auto
  have "hm_get_or [] (hm_modify t (bset_remove p) m) t' = (if t' = t then bset_remove p (hm_get_or [] m t) else hm_get_or [] m t')" for t'
    by (cases "hm_get m t") (simp_all add: hm_get_or_def hm_get_modify)
  then show "known_ok (hm_modify t (bset_remove p) m)"
    unfolding known_ok_def using wf bset_wf_remove [OF wf [of t], of p] by auto
qed

lemma evolves_known:
  assumes "known_ok (gs_topic_peers s) \<Longrightarrow> known_ok m"
  shows "evolves now s (s\<lparr>gs_topic_peers := m\<rparr>)"
  by (rule evolvesI) (use assms in \<open>simp_all add: kept_refl gs_wf_def\<close>)

lemma evolves_forget_topic: "evolves now s (forget_topic peer topic s)"
proof -
  let ?s = "s\<lparr>gs_mesh := hm_modify topic (bset_remove peer) (gs_mesh s)\<rparr>"
  have "evolves now s ?s" by (rule evolves_mesh_remove)
  also have "evolves now ?s (?s\<lparr>gs_topic_peers := hm_modify topic (bset_remove peer) (gs_topic_peers ?s)\<rparr>)"
    by (rule evolves_known [OF known_ok_update(3)])
  also have "evolves now (?s\<lparr>gs_topic_peers := hm_modify topic (bset_remove peer) (gs_topic_peers ?s)\<rparr>) (forget_topic peer topic s)"
    using evolves_fanout_remove [of now "?s\<lparr>gs_topic_peers := hm_modify topic (bset_remove peer) (gs_topic_peers ?s)\<rparr>" topic peer]
    by (simp add: forget_topic_def)
  finally show ?thesis .
qed

lemma evolves_fold: "(\<And>x s. evolves now s (f x s)) \<Longrightarrow> evolves now s (fold f xs s)"
proof (induction xs arbitrary: s)
  case (Cons x xs)
  show ?case using gs_evolves_trans [OF Cons.prems Cons.IH [OF Cons.prems]] by simp
qed simp


section \<open>Changes of the backoffs\<close>

lemma evolves_backoffs:
  assumes "gs_wf now s \<Longrightarrow> backoff_inv b"
    and "\<And>t p u. gs_wf now s \<Longrightarrow> get_backoff_time t p (gs_backoffs s) = Some u \<Longrightarrow> now < u \<Longrightarrow> \<exists>u' \<ge> u. get_backoff_time t p b = Some u'"
  shows "evolves now s (s\<lparr>gs_backoffs := b\<rparr>)"
proof (rule evolvesI)
  show "gs_wf now (s\<lparr>gs_backoffs := b\<rparr>)" if wf: "gs_wf now s"
    using wf assms(1) [OF wf] by (simp add: gs_wf_def)
  show "backoffs_kept now s (s\<lparr>gs_backoffs := b\<rparr>)" if wf: "gs_wf now s"
    using assms(2) [OF wf] by (simp add: backoffs_kept_def)
qed (simp_all add: kept_refl)

lemma update_backoff_time_other:
  "get_backoff_time t' p' (update_backoff now t p d b) =
     (if t' = t \<and> p' = p then Some (case get_backoff_time t p b of None \<Rightarrow> now + d | Some u \<Rightarrow> max u (now + d))
      else get_backoff_time t' p' b)"
  by (auto simp: update_backoff_time) (auto simp: get_backoff_time_def update_backoff_get)

lemma evolves_update_backoff: "gs_update_backoff now topic peer d s = Some s' \<Longrightarrow> evolves now s s'"
  unfolding gs_update_backoff_def
  by (auto split: if_splits intro!: evolves_backoffs simp: gs_wf_def update_backoff_inv update_backoff_time_other)

lemma evolves_backoff_heartbeat: "evolves now s (s\<lparr>gs_backoffs := backoff_heartbeat now (gs_backoffs s)\<rparr>)"
  by (rule evolves_backoffs)
    (auto simp: gs_wf_def backoff_heartbeat_inv get_backoff_time_def backoff_heartbeat_get split: option.splits)


section \<open>Changes of the record of messages\<close>

lemma evolves_dup_insert:
  "evolves now s (s\<lparr>gs_duplicate_cache := snd (dup_insert now mid (gs_duplicate_cache s))\<rparr>)"
proof -
  let ?c = "gs_duplicate_cache s" and ?ttl = "gc_duplicate_cache_time (gs_config s)"
  have "cache_inv now (snd (dup_insert now mid ?c)) \<and> tc_ttl (snd (dup_insert now mid ?c)) = ?ttl"
    "seen_kept now s (s\<lparr>gs_duplicate_cache := snd (dup_insert now mid ?c)\<rparr>)" if "gs_wf now s"
  proof -
    have c: "cache_inv now ?c \<and> tc_ttl ?c = ?ttl" using that by (simp add: gs_wf_def)
    show "cache_inv now (snd (dup_insert now mid ?c)) \<and> tc_ttl (snd (dup_insert now mid ?c)) = ?ttl"
      by (rule dup.ins_inv [OF c order_refl])
    have "cache_seen now ?c mid' \<or> mid' \<noteq> mid" if "cache_seen t ?c mid'" "now \<le> t" "cache_seen now ?c mid" for t mid'
      using that by auto
    then show "seen_kept now s (s\<lparr>gs_duplicate_cache := snd (dup_insert now mid ?c)\<rparr>)"
      unfolding seen_kept_def using dup.ins_seen [OF c order_refl, of _ mid] by (auto simp: cache_seen_def)
  qed
  then show ?thesis
    by (intro evolvesI) (simp_all add: kept_refl, simp add: gs_wf_def)
qed


section \<open>Joining, leaving, grafts and prunes\<close>

lemma evolves_score: "on_score f s = Some s' \<Longrightarrow> evolves now s s'"
  by (rule evolves_frame) (rule core_on_score)

lemma evolves_make_prune:
  assumes "make_prune E now topic peer do_px s = Some (c, s')"
  shows "evolves now s s'"
proof (cases "on_score (score_prune (env_f E) peer topic) s")
  case (Some t)
  have "evolves now t s'"
  proof (cases "hm_get (gs_peer_protocols t) peer = Some GossipsubKind")
    case False
    obtain px n where "(if do_px then get_random_peers E t topic (gc_prune_peers (gs_config t))
        (\<lambda>p. p \<noteq> peer \<and> \<not> below_zero E t p) (gs_draws t) else ([], gs_draws t)) = (px, n)" by (rule prod.exhaust)
    then have "gs_update_backoff now topic peer (gc_prune_backoff (gs_config t)) (t\<lparr>gs_draws := n\<rparr>) = Some s'"
      using assms Some False unfolding make_prune_def by (auto simp only: Option.bind_eq_Some_conv) (auto simp: Option.bind_eq_Some_conv)
    then show ?thesis by (rule evolves_core [OF _ evolves_update_backoff, rotated]) simp
  qed (use assms Some in \<open>simp add: make_prune_def\<close>)
  with evolves_score [OF Some] show ?thesis by (rule gs_evolves_trans)
qed (use assms in \<open>simp add: make_prune_def\<close>)

lemma evolves_collect_prunes: "collect_prunes E now peer do_px topics s = Some (ps, s') \<Longrightarrow> evolves now s s'"
  unfolding collect_prunes_def
  by (drule evolves_foldM [where \<pi> = snd and now = now]) (auto simp: Option.bind_eq_Some_conv dest: evolves_make_prune)

lemma evolves_leave_prune: "leave_prune E now topic peer s = Some s' \<Longrightarrow> evolves now s s'"
  unfolding leave_prune_def
  by (auto simp: Option.bind_eq_Some_conv intro: gs_evolves_trans [OF evolves_make_prune evolves_frame])

lemma evolves_mesh_remove_topic: "evolves now s (s\<lparr>gs_mesh := hm_remove t (gs_mesh s)\<rparr>)"
  by (rule evolves_mesh)
    (auto simp: gs_wf_topics topics_ok_remove hashmap_simps mesh_peers_def hm_get_or_def split: if_splits)

lemma evolves_leave:
  assumes "leave E now topic s = Some s'"
  shows "evolves now s s'"
proof (cases "hm_get (gs_mesh s) topic")
  case (Some peers)
  then have "foldM (leave_prune E now topic) peers (s\<lparr>gs_mesh := hm_remove topic (gs_mesh s)\<rparr>) = Some s'"
    using assms by (simp add: leave_def)
  then have "evolves now (s\<lparr>gs_mesh := hm_remove topic (gs_mesh s)\<rparr>) s'"
    by (rule evolves_foldM [where \<pi> = "\<lambda>s. s"]) (rule evolves_leave_prune)
  with evolves_mesh_remove_topic show ?thesis by (rule gs_evolves_trans)
qed (use assms in \<open>simp add: leave_def\<close>)

lemma evolves_unsubscribe:
  assumes "gs_unsubscribe E now topic s = Some (r, s')"
  shows "evolves now s s'"
proof -
  have "s' = s \<or> (\<exists>a b c t. send_all E a b s = (c, t) \<and> (s' = t \<or> leave E now topic t = Some s'))"
    using assms by (auto simp: gs_unsubscribe_def Option.bind_eq_Some_conv split: if_splits prod.splits option.splits)
  then show ?thesis
    by (auto intro: evolves_frame dest: core_send_all intro: evolves_core [OF core_send_all evolves_leave])
qed

lemma get_random_peers_props:
  assumes "get_random_peers E s topic n f draws = (peers, draws')" "rng_ok (env_rng E)"
  shows "bset_wf peers" "length peers \<le> n"
    "\<And>p. p \<in> set peers \<Longrightarrow> f p \<and> p \<in> set (hm_get_or [] (gs_topic_peers s) topic) \<and> gossip_kind (hm_get (gs_peer_protocols s) p)"
    "length peers < n \<Longrightarrow> f p \<Longrightarrow> p \<in> set (hm_get_or [] (gs_topic_peers s) topic) \<Longrightarrow> gossip_kind (hm_get (gs_peer_protocols s) p) \<Longrightarrow>
       distinct (hm_get_or [] (gs_topic_peers s) topic) \<Longrightarrow> p \<in> set peers"
proof -
  let ?g = "filter (\<lambda>p. f p \<and> gossip_kind (hm_get (gs_peer_protocols s) p)) (hm_get_or [] (gs_topic_peers s) topic)"
  have p: "peers = (if length ?g \<le> n then bset_extend ?g [] else bset_extend (take n (shuffle (env_rng E) draws ?g)) [])"
    using assms(1) by (simp add: get_random_peers_def get_random_peers_dynamic_def Let_def split: if_splits)
  have wf: "bset_wf (bset_extend xs ([] :: PeerId list))" for xs by (rule bset_wf_extend) simp
  show "bset_wf peers" using wf unfolding p by (simp split: if_splits)
  have len: "length (bset_extend xs ([] :: PeerId list)) \<le> length xs" for xs using length_bset_extend_le [of xs "[]"] by simp
  show "length peers \<le> n"
    using len [of ?g] len [of "take n (shuffle (env_rng E) draws ?g)"] unfolding p by (auto split: if_splits)
  show "f p \<and> p \<in> set (hm_get_or [] (gs_topic_peers s) topic) \<and> gossip_kind (hm_get (gs_peer_protocols s) p)" if "p \<in> set peers" for p
  proof -
    have "p \<in> set ?g" using that assms(2) set_take_subset [of n "shuffle (env_rng E) draws ?g"] unfolding p by (auto split: if_splits)
    then show ?thesis by simp
  qed
  assume less: "length peers < n" and m: "f p" "p \<in> set (hm_get_or [] (gs_topic_peers s) topic)"
    "gossip_kind (hm_get (gs_peer_protocols s) p)" "distinct (hm_get_or [] (gs_topic_peers s) topic)"
  have "length ?g \<le> n"
  proof (rule ccontr)
    assume big: "\<not> length ?g \<le> n"
    let ?t = "take n (shuffle (env_rng E) draws ?g)"
    have d: "distinct ?t" using m(4) assms(2) by simp
    have "length peers = card (set peers)" using \<open>bset_wf peers\<close> by (rule bset_length)
    also have "\<dots> = card (set ?t)" using big by (simp add: p)
    also have "\<dots> = n" using distinct_card [OF d] big assms(2) by simp
    finally show False using less by simp
  qed
  then show "p \<in> set peers" using m by (simp add: p)
qed

lemma not_backed_off: "\<not> is_backoff_with_slack t p (gs_backoffs s) \<Longrightarrow> \<not> blocked now t p s"
  by (auto simp: is_backoff_iff blocked_def get_backoff_time_def split: option.splits)


lemma bset_wf_take_filter: "bset_wf (xs :: 'a::linorder list) \<Longrightarrow> bset_wf (take n (filter P xs))"
  by (simp add: sorted_filter [of id, simplified] sorted_wrt_take)

lemma tables_ok_move:
  assumes "tables_ok limit n mesh fanout last_pub" "bset_wf peers" "length peers \<le> limit"
  shows "tables_ok limit n (hm_insert topic peers mesh) (hm_remove topic fanout) (hm_remove topic last_pub)"
  using assms unfolding tables_ok_def
  by (auto simp: topics_ok_insert topics_ok_remove hashmap_simps)

lemma tables_ok_insert:
  assumes "tables_ok limit n mesh fanout last_pub" "topics_ok limit (hm_insert topic peers mesh)" "\<not> hm_contains fanout topic"
  shows "tables_ok limit n (hm_insert topic peers mesh) fanout last_pub"
proof -
  have "t = topic \<or> hm_contains mesh t" if "hm_contains (hm_insert topic peers mesh) t" for t
    using that by (auto simp: hashmap_simps)
  then show ?thesis using assms unfolding tables_ok_def by blast
qed

lemma config_mesh_n: "gs_wf now s \<Longrightarrow> gc_mesh_n (gs_config s) \<le> mesh_limit s"
  by (simp add: gs_wf_def config_valid_def mesh_limit_def)

lemma evolves_join_fanout:
  assumes "join_fanout E topic s = (added, s')" "\<not> hm_contains (gs_mesh s) topic"
  shows "evolves now s s'"
proof (cases "hm_get (gs_fanout s) topic")
  case (Some peers)
  let ?added = "take (min (length (filter (graftable E s topic) peers)) (gc_mesh_n (gs_config s))) (filter (graftable E s topic) peers)"
  have s': "s' = s\<lparr>gs_mesh := hm_insert topic ?added (gs_mesh s), gs_fanout := hm_remove topic (gs_fanout s),
      gs_fanout_last_pub := hm_remove topic (gs_fanout_last_pub s)\<rparr>"
    using assms(1) Some by (auto simp: join_fanout_def Let_def)
  show ?thesis unfolding s'
  proof (rule evolves_tables)
    assume wf: "gs_wf now s"
    have "bset_wf peers" using topics_okD [OF gs_wf_topics(2) [OF wf] Some] by simp
    then have "bset_wf ?added" by (rule bset_wf_take_filter)
    moreover have "length ?added \<le> mesh_limit s" using config_mesh_n [OF wf] by simp
    ultimately show "tables_ok (mesh_limit s) (gc_mesh_n (gs_config s)) (hm_insert topic ?added (gs_mesh s))
        (hm_remove topic (gs_fanout s)) (hm_remove topic (gs_fanout_last_pub s))"
      by (rule tables_ok_move [OF gs_wf_tables [OF wf]])
  next
    fix t p
    assume "p \<in> set (hm_get_or [] (hm_insert topic ?added (gs_mesh s)) t)" "p \<notin> set (mesh_peers s t)"
    then have "t = topic" "p \<in> set (filter (graftable E s topic) peers)"
      by (auto simp: mesh_peers_insert mesh_peers_def split: if_splits dest: in_set_takeD)
    then show "\<not> blocked now t p s" by (auto simp: graftable_def not_backed_off)
  qed
qed (use assms in \<open>auto simp: join_fanout_def\<close>)

lemma evolves_join_random:
  assumes "join_random E topic added s = (added', s')" "rng_ok (env_rng E)"
    and "\<not> hm_contains (gs_fanout s) topic" "length (mesh_peers s topic) \<le> length added"
  shows "evolves now s s'"
proof (cases "length added < gc_mesh_n (gs_config s)")
  case True
  let ?mesh_n = "gc_mesh_n (gs_config s)"
  obtain new draws where g: "get_random_peers E s topic (?mesh_n - length added)
      (\<lambda>p. p \<notin> set added \<and> graftable E s topic p) (gs_draws s) = (new, draws)" by fastforce
  note new = get_random_peers_props(1-3) [OF g assms(2)]
  let ?peers = "bset_extend new (hm_get_or [] (gs_mesh s) topic)"
  have s': "s' = s\<lparr>gs_draws := draws, gs_mesh := hm_insert topic ?peers (gs_mesh s)\<rparr>"
    using assms(1) True g by (auto simp: join_random_def Let_def)
  have "evolves now s (s\<lparr>gs_mesh := hm_insert topic ?peers (gs_mesh s), gs_fanout := gs_fanout s, gs_fanout_last_pub := gs_fanout_last_pub s\<rparr>)"
  proof (rule evolves_tables)
    assume wf: "gs_wf now s"
    have "bset_wf (hm_get_or [] (gs_mesh s) topic)"
      using topics_okD [OF gs_wf_topics(1) [OF wf], of topic] by (cases "hm_get (gs_mesh s) topic") (auto simp: hm_get_or_def)
    then have "bset_wf ?peers" by (rule bset_wf_extend)
    moreover have "length ?peers \<le> ?mesh_n"
      using length_bset_extend_le [of new "hm_get_or [] (gs_mesh s) topic"] new(2) assms(4) True by (simp add: mesh_peers_def)
    moreover note config_mesh_n [OF wf]
    ultimately have "topics_ok (mesh_limit s) (hm_insert topic ?peers (gs_mesh s))"
      by (intro topics_ok_insert gs_wf_topics(1) [OF wf]) auto
    then show "tables_ok (mesh_limit s) ?mesh_n (hm_insert topic ?peers (gs_mesh s)) (gs_fanout s) (gs_fanout_last_pub s)"
      by (rule tables_ok_insert [OF gs_wf_tables [OF wf] _ assms(3)])
  next
    fix t p
    assume "p \<in> set (hm_get_or [] (hm_insert topic ?peers (gs_mesh s)) t)" "p \<notin> set (mesh_peers s t)"
    then have "t = topic" "p \<in> set new" by (auto simp: mesh_peers_insert mesh_peers_def split: if_splits)
    with new(3) [OF this(2)] show "\<not> blocked now t p s" by (simp add: graftable_def not_backed_off)
  qed
  then show ?thesis by (rule gs_evolves_trans) (rule evolves_frame, simp add: s' core_def)
qed (use assms in \<open>auto simp: join_random_def\<close>)

lemma evolves_join:
  assumes "join E topic s = Some s'" "rng_ok (env_rng E)"
  shows "evolves now s s'"
proof (cases "hm_contains (gs_mesh s) topic")
  case False
  obtain a1 s1 where f: "join_fanout E topic s = (a1, s1)" by fastforce
  obtain a2 s2 where r: "join_random E topic a1 s1 = (a2, s2)" by fastforce
  have "foldM (join_graft E topic) a2 s2 = Some s'" using assms(1) False f r by (simp add: join_def)
  then have "core s' = core s2"
    by (rule core_foldM) (auto simp: join_graft_def Option.bind_eq_Some_conv dest: core_on_score)
  then have e2: "evolves now s2 s'" by (rule evolves_frame)
  have "\<not> hm_contains (gs_fanout s1) topic" "length (mesh_peers s1 topic) \<le> length a1"
    using f False by (auto simp: join_fanout_def Let_def hashmap_simps mesh_peers_def hm_get_or_def split: option.splits)
  then have "evolves now s1 s2" by (rule evolves_join_random [OF r assms(2)])
  with evolves_join_fanout [OF f] False have "evolves now s s2" by (blast intro: gs_evolves_trans)
  then show ?thesis using e2 by (rule gs_evolves_trans)
qed (use assms in \<open>simp add: join_def\<close>)

lemma evolves_subscribe:
  assumes "gs_subscribe E topic s = Some (r, s')" "rng_ok (env_rng E)"
  shows "evolves now s s'"
proof -
  have "s' = s \<or> (\<exists>a b c t. send_all E a b s = (c, t) \<and> (s' = t \<or> join E topic t = Some s'))"
    using assms(1) by (auto simp: gs_subscribe_def Option.bind_eq_Some_conv split: if_splits prod.splits option.splits)
  then show ?thesis
    by (auto intro: evolves_frame dest: core_send_all intro: evolves_core [OF core_send_all evolves_join [OF _ assms(2)]])
qed


lemma evolves_graft_add:
  assumes "on_score f (s\<lparr>gs_mesh := hm_insert topic (bset_insert peer peers) (gs_mesh s)\<rparr>) = Some s'"
    and "hm_get (gs_mesh s) topic = Some peers" "length peers < mesh_limit s" "\<not> blocked now topic peer s"
  shows "evolves now s s'"
  using evolves_mesh_add [OF assms(2-4)] evolves_score [OF assms(1)] by (rule gs_evolves_trans)

lemma evolves_wf: "(gs_wf now s \<Longrightarrow> evolves now s s') \<Longrightarrow> evolves now s s'"
  by (auto simp: evolves_def)

lemma evolves_graft_topic:
  assumes "graft_topic E now peer negative topic (tp, px, s) = Some (tp', px', s')"
  shows "evolves now s s'"
proof (rule evolves_wf)
  assume wf: "gs_wf now s"
  show ?thesis
  proof (cases "hm_get (gs_mesh s) topic")
    case (Some peers)
    let ?backoff = "case get_backoff_time topic peer (gs_backoffs s) of Some t \<Rightarrow> t > now | None \<Rightarrow> False"
    show ?thesis
    proof (cases "peer \<in> set peers \<or> ?backoff \<or> negative \<or> length peers \<ge> gc_mesh_n_high (gs_config s)")
      case True
      with assms Some wf show ?thesis
        by (auto simp: graft_topic_def Option.bind_eq_Some_conv gs_wf_def split: if_splits option.splits
            intro: evolves_frame core_graft_penalty)
    next
      case False
      then have "on_score (score_graft (env_f E) peer topic)
          (s\<lparr>gs_mesh := hm_insert topic (bset_insert peer peers) (gs_mesh s)\<rparr>) = Some s'"
        using assms Some by (auto simp: graft_topic_def Option.bind_eq_Some_conv split: if_splits)
      moreover have "length peers < mesh_limit s" "\<not> blocked now topic peer s"
        using False by (auto simp: mesh_limit_def blocked_def split: option.splits)
      ultimately show ?thesis using Some by (intro evolves_graft_add)
    qed
  qed (use assms in \<open>simp add: graft_topic_def\<close>)
qed

lemma evolves_handle_graft:
  assumes "handle_graft E now peer topics s = Some s'"
  shows "evolves now s s'"
proof -
  let ?m = "if peer \<in> set (gs_explicit_peers s) then Some (hs_extend topics [], False, s)
    else foldM (graft_topic E now peer (below_zero E s peer)) topics ([], gc_do_px (gs_config s), s)"
  obtain st where st: "?m = Some st" "(case st of (tp, px, t) \<Rightarrow> if tp = [] then Some t
      else do { (prunes, s) \<leftarrow> collect_prunes E now peer px tp t; Some (try_send E peer (rpc_of_controls prunes) s) }) = Some s'"
    using assms unfolding handle_graft_def by (rule bind_SomeE)
  obtain tp px t where "st = (tp, px, t)" by (rule prod_cases3)
  with st have m: "?m = Some (tp, px, t)" and r: "(if tp = [] then Some t
      else do { (prunes, s) \<leftarrow> collect_prunes E now peer px tp t; Some (try_send E peer (rpc_of_controls prunes) s) }) = Some s'"
    by simp_all
  have "evolves now s t"
  proof (cases "peer \<in> set (gs_explicit_peers s)")
    case False
    then have "foldM (graft_topic E now peer (below_zero E s peer)) topics ([], gc_do_px (gs_config s), s) = Some (tp, px, t)"
      using m by simp
    then have "evolves now ((\<lambda>(_, _, s). s) ([] :: TopicHash list, gc_do_px (gs_config s), s)) ((\<lambda>(_, _, s). s) (tp, px, t))"
      by (rule evolves_foldM) (auto dest: evolves_graft_topic)
    then show ?thesis by simp
  qed (use m in simp)
  moreover have "evolves now t s'"
    using r by (auto simp: Option.bind_eq_Some_conv split: if_splits
        intro: gs_evolves_trans [OF evolves_collect_prunes evolves_frame])
  ultimately show ?thesis by (rule gs_evolves_trans)
qed

lemma evolves_remove_peer_from_mesh:
  assumes "remove_peer_from_mesh E now peer topic backoff always s = Some s'"
  shows "evolves now s s'"
proof -
  obtain t where t: "(if peer \<in> set (hm_get_or [] (gs_mesh s) topic)
      then on_score (score_prune (env_f E) peer topic) (s\<lparr>gs_mesh := hm_modify topic (bset_remove peer) (gs_mesh s)\<rparr>)
      else Some s) = Some t"
    and r: "t = s' \<or> (\<exists>d. gs_update_backoff now topic peer d t = Some s')"
    using assms by (auto simp: remove_peer_from_mesh_def Option.bind_eq_Some_conv Let_def split: if_splits)
  have "evolves now s t"
    using t by (auto split: if_splits intro: gs_evolves_trans [OF evolves_mesh_remove evolves_score])
  moreover have "evolves now t s'" using r by (auto intro: evolves_update_backoff)
  ultimately show ?thesis by (rule gs_evolves_trans)
qed

lemma evolves_prune_topic:
  assumes "prune_topic E now peer low entry s = Some s'"
  shows "evolves now s s'"
proof -
  obtain topic px backoff where entry: "entry = (topic, px, backoff)" by (rule prod_cases3)
  obtain t where t: "remove_peer_from_mesh E now peer topic backoff True s = Some t" and r: "t = s' \<or> px_connect E px t = Some s'"
    using assms by (auto simp: prune_topic_def entry Option.bind_eq_Some_conv split: if_splits)
  from r have "evolves now t s'" by (auto intro: evolves_frame core_px_connect)
  with evolves_remove_peer_from_mesh [OF t] show ?thesis by (rule gs_evolves_trans)
qed

lemma evolves_prune_topics: "foldM (prune_topic E now peer low) entries s = Some s' \<Longrightarrow> evolves now s s'"
  by (drule evolves_foldM [where \<pi> = "\<lambda>s. s"]) (auto intro: evolves_prune_topic)

lemma evolves_handle_prune: "handle_prune E now peer prune_data s = Some s' \<Longrightarrow> evolves now s s'"
  unfolding handle_prune_def by (rule evolves_prune_topics)

lemma evolves_dead_peer:
  assumes "Gossipsub.handle_remove_dead_peer E now peer s = Some s'"
  shows "evolves now s s'"
proof (cases "hm_get (gs_peer_topics s) peer")
  case (Some topics)
  let ?t = "fold (forget_topic peer) topics s"
  let ?u = "?t\<lparr>gs_px_peers := hs_remove peer (gs_px_peers s), gs_outbound_peers := hs_remove peer (gs_outbound_peers s),
     gs_explicit_peers := hs_remove peer (gs_explicit_peers s), gs_connected_peer := hm_remove peer (gs_connected_peer s),
     gs_peer_topics := hm_remove peer (gs_peer_topics s), gs_peer_protocols := hm_remove peer (gs_peer_protocols s)\<rparr>"
  have s': "on_score (remove_peer (env_f E) now peer) ?u = Some s'"
    using assms Some by (simp add: Gossipsub.handle_remove_dead_peer_def)
  have o: "gs_outbound_peers (fold (forget_topic peer) xs s) = gs_outbound_peers s" for xs
    by (induction xs arbitrary: s) (simp_all add: forget_topic_def)
  have "evolves now s ?t" by (rule evolves_fold) (rule evolves_forget_topic)
  also have "evolves now ?t ?u"
    by (rule evolves_wf, rule evolves_frame) (simp add: core_def gs_wf_def o)
  also have "evolves now ?u s'" using s' by (rule evolves_score)
  finally show ?thesis .
qed (use assms in \<open>simp add: Gossipsub.handle_remove_dead_peer_def\<close>)

lemma evolves_peer_event: "Gossipsub.handle_peer_event E now pe s = Some s' \<Longrightarrow> evolves now s s'"
  by (cases pe) (auto intro: evolves_dead_peer evolves_frame core_handle_new_peer)


section \<open>Received and published messages\<close>

lemma evolves_deliver:
  assumes "dup_insert now mid (gs_duplicate_cache s) = (True, c)" "mid = gc_message_id_fn (gs_config s) message"
  shows "evolves now s (Gossipsub.notify_subs message (s\<lparr>gs_duplicate_cache := c\<rparr>))" (is "evolves now s ?s'")
proof (rule evolves_wf)
  assume wf: "gs_wf now s"
  let ?c = "gs_duplicate_cache s" and ?ttl = "gc_duplicate_cache_time (gs_config s)"
  have inv: "cache_inv now ?c \<and> tc_ttl ?c = ?ttl" using wf by (simp add: gs_wf_def)
  have new: "\<not> cache_seen now ?c mid" using dup.ins_new [OF inv order_refl, of mid] assms(1) by simp
  have c: "cache_seen t c k \<longleftrightarrow> (if k = mid then t < now + ?ttl else cache_seen t ?c k)" if "now \<le> t" for t k
    using dup.ins_seen [OF inv order_refl that, of mid k] new assms(1) by simp
  have frame: "gs_config ?s' = gs_config s" "gs_peer_score ?s' = gs_peer_score s" "gs_backoffs ?s' = gs_backoffs s" "gs_mesh ?s' = gs_mesh s"
    "gs_fanout ?s' = gs_fanout s" "gs_fanout_last_pub ?s' = gs_fanout_last_pub s" "gs_outbound_peers ?s' = gs_outbound_peers s"
    "gs_topic_peers ?s' = gs_topic_peers s" "gs_duplicate_cache ?s' = c" "mesh_limit ?s' = mesh_limit s"
    by (simp_all add: Gossipsub.notify_subs_def split: option.splits)
  show ?thesis
  proof (rule evolvesI)
    show "gs_wf now ?s'" using wf dup.ins_inv [OF inv order_refl, of mid] assms(1) by (simp add: gs_wf_def frame)
    have "cache_seen t ?c k \<Longrightarrow> now \<le> t \<Longrightarrow> k \<noteq> mid" for t k using new by (auto simp: cache_seen_def)
    then show "seen_kept now s ?s'" by (auto simp: seen_kept_def frame c)
    show "delivers_new now s ?s'"
    proof (cases "hm_get (gs_my_topics s) (msg_topic message)")
      case None
      then show ?thesis by (intro kept_refl) (simp add: Gossipsub.notify_subs_def)
    next
      case (Some ch)
      then have "gs_delivered ?s' = gs_delivered s @ [(ch, message)]" by (simp add: Gossipsub.notify_subs_def)
      moreover have "message_id_of s (ch, message) = mid" by (simp add: message_id_of_def assms(2))
      ultimately show ?thesis unfolding delivers_new_def using new c by (intro exI [of _ "[(ch, message)]"]) (simp add: frame)
    qed
  qed (simp_all add: frame kept_refl)
qed

lemma core_accept_message:
  assumes "accept_message E now mid message raw src s = Some s'"
  shows "core s' = core (Gossipsub.notify_subs message s)"
proof -
  let ?send = "fold (\<lambda>peer. try_send E peer (rpc_of_messages [raw]))"
  have f: "core (?send peers u) = core u" for peers u by (rule core_fold) simp
  obtain t where t: "on_score (Some \<circ> validate_message (env_f E) now src mid (msg_topic message)) (Gossipsub.notify_subs message s) = Some t"
    and b: "(let s = on_promises (message_delivered mid) t in do {
        (_, mcache) \<leftarrow> mcache_put mid raw (gs_mcache s);
        let s = s\<lparr>gs_mcache := mcache\<rparr>;
        case hm_get (gs_mesh s) (msg_topic message) of
          None \<Rightarrow> Some s
        | Some peers \<Rightarrow>
            (let s = ?send peers s
             in if gc_validate_messages (gs_config s) then Some s else map_option snd (forward_msg E now mid raw (Some src) s))
      }) = Some s'"
    using assms unfolding accept_message_def by (rule bind_SomeE)
  obtain m where "mcache_put mid raw (gs_mcache (on_promises (message_delivered mid) t)) = Some m"
    and m: "(case m of (_, mcache) \<Rightarrow> let s = on_promises (message_delivered mid) t\<lparr>gs_mcache := mcache\<rparr> in
        case hm_get (gs_mesh s) (msg_topic message) of
          None \<Rightarrow> Some s
        | Some peers \<Rightarrow>
            (let s = ?send peers s
             in if gc_validate_messages (gs_config s) then Some s else map_option snd (forward_msg E now mid raw (Some src) s))) = Some s'"
    using b unfolding Let_def by (rule bind_SomeE)
  let ?u = "on_promises (message_delivered mid) t\<lparr>gs_mcache := snd m\<rparr>"
  have u: "(case hm_get (gs_mesh ?u) (msg_topic message) of
          None \<Rightarrow> Some ?u
        | Some peers \<Rightarrow> (if gc_validate_messages (gs_config (?send peers ?u)) then Some (?send peers ?u)
            else map_option snd (forward_msg E now mid raw (Some src) (?send peers ?u)))) = Some s'"
    using m unfolding case_prod_unfold Let_def .
  have "core s' = core ?u"
  proof (cases "hm_get (gs_mesh ?u) (msg_topic message)")
    case (Some peers)
    with u have "s' = ?send peers ?u \<or> (\<exists>r. forward_msg E now mid raw (Some src) (?send peers ?u) = Some (r, s'))"
      by (auto split: if_splits)
    then show ?thesis using f core_forward by metis
  qed (use u in simp)
  with core_on_score [OF t] show ?thesis by simp
qed

lemma evolves_new_message:
  assumes "handle_new_message E now fid raw src s = Some s'"
  shows "evolves now s s'"
proof (cases "env_inbound E raw")
  case (Inl e)
  then show ?thesis using assms by (auto simp: handle_new_message_def intro: evolves_frame core_handle_invalid)
next
  case (Inr message)
  let ?mid = "gc_message_id_fn (gs_config s) message"
  obtain vrt where v: "message_is_valid E now ?mid raw src s = Some vrt"
    and b: "(case vrt of (valid, raw, s) \<Rightarrow> if \<not> valid then Some s
       else
         (let s = (case fid of
                     None \<Rightarrow> s
                   | Some fid \<Rightarrow>
                       s\<lparr>gs_fast_message_id_cache := snd (entry_or_insert_with now fid ?mid (gs_fast_message_id_cache s))\<rparr>)
          in case dup_insert now ?mid (gs_duplicate_cache s) of
               (False, cache) \<Rightarrow>
                 on_score (duplicated_message (env_f E) now src ?mid (msg_topic message)) (s\<lparr>gs_duplicate_cache := cache\<rparr>)
             | (True, cache) \<Rightarrow> accept_message E now ?mid message raw src (s\<lparr>gs_duplicate_cache := cache\<rparr>))) = Some s'"
    using assms unfolding handle_new_message_def Inr sum.case Let_def by (rule bind_SomeE)
  obtain valid raw' t where vrt: "vrt = (valid, raw', t)" by (rule prod_cases3)
  have ct: "core t = core s" using core_message_is_valid v vrt by blast
  show ?thesis
  proof (cases valid)
    case True
    define u where "u = (case fid of None \<Rightarrow> t | Some fid \<Rightarrow>
        t\<lparr>gs_fast_message_id_cache := snd (entry_or_insert_with now fid ?mid (gs_fast_message_id_cache t))\<rparr>)"
    have cu: "core u = core s" using ct by (simp add: u_def split: option.splits)
    then have cfg: "gs_config u = gs_config s" by (simp add: core_def)
    obtain new c where d: "dup_insert now ?mid (gs_duplicate_cache u) = (new, c)" by (rule prod.exhaust)
    have "evolves now u s'"
    proof (cases new)
      case True
      then have "accept_message E now ?mid message raw' src (u\<lparr>gs_duplicate_cache := c\<rparr>) = Some s'"
        using b \<open>valid\<close> d by (simp add: vrt u_def [symmetric] Let_def)
      then have "core s' = core (Gossipsub.notify_subs message (u\<lparr>gs_duplicate_cache := c\<rparr>))" by (rule core_accept_message)
      moreover have "evolves now u (Gossipsub.notify_subs message (u\<lparr>gs_duplicate_cache := c\<rparr>))"
        by (rule evolves_deliver) (use d True cfg in simp_all)
      ultimately show ?thesis by (metis evolves_frame gs_evolves_trans)
    next
      case False
      then have "on_score (duplicated_message (env_f E) now src ?mid (msg_topic message)) (u\<lparr>gs_duplicate_cache := c\<rparr>) = Some s'"
        using b \<open>valid\<close> d by (simp add: vrt u_def [symmetric] Let_def)
      moreover have "c = snd (dup_insert now ?mid (gs_duplicate_cache u))" using d by simp
      ultimately show ?thesis using gs_evolves_trans [OF evolves_dup_insert evolves_score] by simp
    qed
    then show ?thesis by (rule evolves_core [OF cu])
  next
    case False
    then have "s' = t" using b by (simp add: vrt)
    then show ?thesis using ct by (simp add: evolves_frame)
  qed
qed

lemma evolves_received_message:
  assumes "handle_received_message E now raw src s = Some s'"
  shows "evolves now s s'"
proof (cases "Option.bind (fast_message_id (gs_config s) raw) (\<lambda>fid. cache_get fid (gs_fast_message_id_cache s))")
  case (Some mid)
  then obtain v r t where v: "message_is_valid E now mid raw src s = Some (v, r, t)"
    and "on_score (duplicated_message (env_f E) now src mid (gm_topic r)) t = Some s'"
    using assms unfolding handle_received_message_def Let_def by (auto simp: Option.bind_eq_Some_conv)
  then have "core s' = core s" using core_message_is_valid core_on_score by metis
  then show ?thesis by (rule evolves_frame)
qed (use assms evolves_new_message in \<open>auto simp: handle_received_message_def Let_def\<close>)


lemma tables_ok_new_fanout:
  assumes "tables_ok limit n mesh fanout last_pub" "bset_wf peers" "length peers \<le> n" "\<not> hm_contains mesh topic"
  shows "tables_ok limit n mesh (hm_insert topic peers fanout) (hm_insert topic now last_pub)"
proof (rule tables_ok_fanout [OF assms(1)])
  have t: "topics_ok n fanout" "hm_wf last_pub" using assms(1) by (simp_all add: tables_ok_def)
  show "topics_ok n (hm_insert topic peers fanout)" by (rule topics_ok_insert [OF t(1) assms(2,3)])
  show "hm_wf (hm_insert topic now last_pub)" using t(2) by simp
  show "hm_contains (hm_insert topic now last_pub) t = hm_contains (hm_insert topic peers fanout) t" for t
    using assms(1) unfolding tables_ok_def by (auto simp: hashmap_simps)
  show "\<not> hm_contains mesh t" if "hm_contains (hm_insert topic peers fanout) t" for t
    using that assms(1,4) unfolding tables_ok_def by (auto simp: hashmap_simps split: if_splits)
qed

lemma tables_ok_touch:
  assumes "tables_ok limit n mesh fanout last_pub" "hm_contains fanout topic"
  shows "tables_ok limit n mesh fanout (hm_insert topic now last_pub)"
proof (rule tables_ok_fanout [OF assms(1)])
  show "hm_contains (hm_insert topic now last_pub) t = hm_contains fanout t" for t
    using assms unfolding tables_ok_def by (auto simp: hashmap_simps)
qed (use assms in \<open>auto simp: tables_ok_def\<close>)

lemma evolves_publish_recipients:
  assumes "publish_recipients E now topic s = (recipients, s')" "rng_ok (env_rng E)"
  shows "evolves now s s'"
proof (cases "hm_get (gs_topic_peers s) topic = None \<or> gc_flood_publish (gs_config s) \<or> hm_contains (gs_mesh s) topic")
  case True
  then show ?thesis using assms(1) by (auto simp: publish_recipients_def Let_def split: option.splits if_splits)
next
  case False
  then obtain peers where peers: "hm_get (gs_topic_peers s) topic = Some peers"
    and flood: "\<not> gc_flood_publish (gs_config s)" and mesh: "hm_get (gs_mesh s) topic = None" by auto
  note unf = assms(1) [unfolded publish_recipients_def Let_def peers option.case mesh]
  show ?thesis
  proof (cases "hm_get (gs_fanout s) topic")
    case None
    obtain new draws where g: "get_random_peers E s topic (gc_mesh_n (gs_config s))
        (\<lambda>p. p \<notin> set (gs_explicit_peers s) \<and> \<not> score_below_threshold E s p publish_threshold) (gs_draws s) = (new, draws)"
      by (rule prod.exhaust)
    have s': "s' = s\<lparr>gs_fanout := hm_insert topic new (gs_fanout s), gs_draws := draws,
        gs_fanout_last_pub := hm_insert topic now (gs_fanout_last_pub s)\<rparr>"
      using unf flood None g by (auto simp: Let_def)
    let ?t = "s\<lparr>gs_mesh := gs_mesh s, gs_fanout := hm_insert topic new (gs_fanout s), gs_fanout_last_pub := hm_insert topic now (gs_fanout_last_pub s)\<rparr>"
    have "evolves now s ?t"
      by (rule evolves_tables) (auto intro!: tables_ok_new_fanout gs_wf_tables simp: get_random_peers_props [OF g assms(2)] mesh mesh_peers_def)
    moreover have "evolves now ?t s'" by (rule evolves_frame) (simp add: s' core_def)
    ultimately show ?thesis by (rule gs_evolves_trans)
  next
    case (Some fs)
    have s': "s' = s\<lparr>gs_fanout_last_pub := hm_insert topic now (gs_fanout_last_pub s)\<rparr>" using unf flood Some by (auto simp: Let_def)
    have "evolves now s (s\<lparr>gs_mesh := gs_mesh s, gs_fanout := gs_fanout s, gs_fanout_last_pub := hm_insert topic now (gs_fanout_last_pub s)\<rparr>)"
      by (rule evolves_tables) (auto intro!: tables_ok_touch gs_wf_tables simp: Some mesh_peers_def)
    then show ?thesis by (simp add: s')
  qed
qed

lemma evolves_record_published:
  assumes "record_published now mid raw s = Some s'"
  shows "evolves now s s'"
proof -
  obtain m where "s' = s\<lparr>gs_duplicate_cache := snd (dup_insert now mid (gs_duplicate_cache s)), gs_mcache := m\<rparr>
    \<or> (\<exists>ids. s' = s\<lparr>gs_duplicate_cache := snd (dup_insert now mid (gs_duplicate_cache s)), gs_mcache := m, gs_published_message_ids := ids\<rparr>)"
    using assms by (auto simp: record_published_def Option.bind_eq_Some_conv Let_def split: if_splits)
  then have "core s' = core (s\<lparr>gs_duplicate_cache := snd (dup_insert now mid (gs_duplicate_cache s))\<rparr>)" by (auto simp: core_def)
  with evolves_dup_insert show ?thesis by (metis evolves_frame gs_evolves_trans)
qed

lemma evolves_publish_checked:
  assumes "publish_checked E now mid raw s = Some (r, s')" "rng_ok (env_rng E)"
  shows "evolves now s s'"
proof -
  obtain sent where sent: "(if gc_flood_publish (gs_config s) then Some (Inr False, s) else forward_msg E now mid raw None s) = Some sent"
    and b: "(case sent of (sent, s) \<Rightarrow> case sent of Inl e \<Rightarrow> Some (Inl e, s)
       | Inr mesh_peers_sent \<Rightarrow>
           (let (recipients, s) = publish_recipients E now (gm_topic raw) s
            in if recipients = [] \<and> \<not> mesh_peers_sent then Some (Inl InsufficientPeers, s)
               else do {
                 s \<leftarrow> record_published now mid raw s;
                 case send_all E recipients (rpc_of_messages [raw]) s of
                   (Some e, s) \<Rightarrow> Some (Inl e, s)
                 | (None, s) \<Rightarrow> Some (Inr mid, s)
               })) = Some (r, s')"
    using assms(1) unfolding publish_checked_def by (rule bind_SomeE)
  obtain x t where st: "sent = (x, t)" by (rule prod.exhaust)
  have ct: "core t = core s" using sent st by (auto split: if_splits dest: core_forward)
  obtain rs u where pr: "publish_recipients E now (gm_topic raw) t = (rs, u)" by (rule prod.exhaust)
  have "evolves now t s'"
  proof (cases x)
    case (Inr sent')
    note eu = evolves_publish_recipients [OF pr assms(2)]
    show ?thesis
    proof (cases "rs = [] \<and> \<not> sent'")
      case False
      have "do { s \<leftarrow> record_published now mid raw u;
          case send_all E rs (rpc_of_messages [raw]) s of (Some e, s) \<Rightarrow> Some (Inl e, s) | (None, s) \<Rightarrow> Some (Inr mid, s) } = Some (r, s')"
        using b False pr unfolding st Inr by (simp split: if_splits)
      then obtain v where v: "record_published now mid raw u = Some v"
        and w: "(case send_all E rs (rpc_of_messages [raw]) v of (Some e, s) \<Rightarrow> Some (Inl e, s) | (None, s) \<Rightarrow> Some (Inr mid, s)) = Some (r, s')"
        by (rule bind_SomeE)
      obtain e w' where sa: "send_all E rs (rpc_of_messages [raw]) v = (e, w')" by (rule prod.exhaust)
      have "w' = s'" using w unfolding sa by (cases e) auto
      with core_send_all [OF sa] have "evolves now v s'" by (simp add: evolves_frame)
      then show ?thesis using eu evolves_record_published [OF v] by (blast intro: gs_evolves_trans)
    qed (use b pr eu in \<open>simp add: st Inr\<close>)
  qed (use b in \<open>simp add: st\<close>)
  then show ?thesis by (rule evolves_core [OF ct])
qed

lemma evolves_publish: "gs_publish E now seqno rp topic data s = Some (r, s') \<Longrightarrow> rng_ok (env_rng E) \<Longrightarrow> evolves now s s'"
  by (auto simp: gs_publish_def Let_def split: sum.splits if_splits intro: evolves_publish_checked)

lemma evolves_report_validation:
  "report_message_validation_result E now mid src acceptance s = Some (r, s') \<Longrightarrow> evolves now s s'"
  by (rule evolves_frame)
    (auto simp: report_message_validation_result_def Option.bind_eq_Some_conv Let_def
      split: MessageAcceptance.splits prod.splits option.splits dest!: core_forward core_on_score)


section \<open>Received RPCs\<close>

lemma evolves_subscription_graft:
  assumes "subscription_graft E src topic s = Some (g, s')"
  shows "evolves now s s'"
proof (rule evolves_wf)
  assume wf: "gs_wf now s"
  then have low: "gc_mesh_n_low (gs_config s) \<le> mesh_limit s" by (simp add: gs_wf_def config_valid_def mesh_limit_def)
  show ?thesis
  proof (cases "g")
    case True
    then obtain peers where "hm_get (gs_mesh s) topic = Some peers" "length peers < gc_mesh_n_low (gs_config s)"
      "\<not> is_backoff_with_slack topic src (gs_backoffs s)"
      "on_score (score_graft (env_f E) src topic) (s\<lparr>gs_mesh := hm_insert topic (bset_insert src peers) (gs_mesh s)\<rparr>) = Some s'"
      using assms by (auto simp: subscription_graft_def Option.bind_eq_Some_conv split: if_splits option.splits)
    then show ?thesis using low by (intro evolves_graft_add) (auto simp: not_backed_off)
  next
    case False
    then have "s' = s"
      using assms by (auto simp: subscription_graft_def Option.bind_eq_Some_conv split: if_splits option.splits)
    then show ?thesis by simp
  qed
qed

lemma evolves_subscription_step:
  assumes "subscription_step E src sub (gr, un, s) = Some (gr', un', s')"
  shows "evolves now s s'"
proof (cases "sub_action sub")
  case Subscribe
  let ?m = "hm_insert (sub_topic_hash sub) (bset_insert src (hm_get_or [] (gs_topic_peers s) (sub_topic_hash sub))) (gs_topic_peers s)"
  let ?t = "s\<lparr>gs_topic_peers := ?m, gs_peer_topics := hm_modify src (hs_insert (sub_topic_hash sub)) (gs_peer_topics s)\<rparr>"
  obtain g where "subscription_graft E src (sub_topic_hash sub) ?t = Some (g, s')"
    using assms Subscribe by (auto simp: subscription_step_def Let_def Option.bind_eq_Some_conv)
  then have "evolves now ?t s'" by (rule evolves_subscription_graft)
  then have "evolves now (s\<lparr>gs_topic_peers := ?m\<rparr>) s'" by (rule evolves_core [rotated]) (simp add: core_def)
  with evolves_known [OF known_ok_update(1)] show ?thesis by (rule gs_evolves_trans)
next
  case Unsubscribe
  let ?m = "hm_insert (sub_topic_hash sub) (bset_remove src (hm_get_or [] (gs_topic_peers s) (sub_topic_hash sub))) (gs_topic_peers s)"
  have "core s' = core (s\<lparr>gs_topic_peers := ?m\<rparr>)" using assms Unsubscribe by (auto simp: subscription_step_def Let_def core_def)
  then have "evolves now (s\<lparr>gs_topic_peers := ?m\<rparr>) s'" by (rule evolves_frame)
  with evolves_known [OF known_ok_update(2)] show ?thesis by (rule gs_evolves_trans)
qed

lemma evolves_received_subscriptions:
  assumes "handle_received_subscriptions E now subs src s = Some s'"
  shows "evolves now s s'"
proof (cases "hm_get (gs_peer_topics s) src")
  case (Some topics)
  show ?thesis
  proof (cases "filter_incoming_subscriptions (gs_subscription_filter s) subs topics")
    case (Inr filtered)
    obtain st where st: "foldM (subscription_step E src) filtered ([], [], s) = Some st"
      and b: "(case st of (grafts, unsubscribed, s) \<Rightarrow> do {
           s \<leftarrow> foldM (\<lambda>topic. remove_peer_from_mesh E now src topic None False) unsubscribed s;
           Some (if grafts = [] then s else try_send E src (rpc_of_controls (map Graft grafts)) s)
         }) = Some s'"
      using assms unfolding handle_received_subscriptions_def Some option.case Inr sum.case by (rule bind_SomeE)
    obtain gr un t where t: "st = (gr, un, t)" by (rule prod_cases3)
    obtain u where u: "foldM (\<lambda>topic. remove_peer_from_mesh E now src topic None False) un t = Some u"
      and s': "core s' = core u"
      using b unfolding t by (auto simp: Option.bind_eq_Some_conv)
    have "evolves now ((\<lambda>(_, _, s). s) ([] :: TopicHash list, [] :: TopicHash list, s)) ((\<lambda>(_, _, s). s) st)"
      using st by (rule evolves_foldM) (auto dest: evolves_subscription_step)
    then have "evolves now s t" by (simp add: t)
    moreover have "evolves now t u"
      using u by (rule evolves_foldM [where \<pi> = "\<lambda>s. s"]) (rule evolves_remove_peer_from_mesh)
    moreover have "evolves now u s'" using s' by (rule evolves_frame)
    ultimately show ?thesis by (blast intro: gs_evolves_trans)
  qed (use assms Some in \<open>simp add: handle_received_subscriptions_def\<close>)
qed (use assms in \<open>simp add: handle_received_subscriptions_def\<close>)

text \<open>The controls of an RPC end with its PRUNEs, and the RPC with its controls.\<close>

lemma handle_controls_split:
  assumes "handle_controls E now controls src s = Some s'"
  shows "\<exists>v. evolves now s v \<and> (let prunes = List.map_filter prune_of controls
    in if prunes = [] then Some v else handle_prune E now src prunes v) = Some s'"
proof -
  define t where "t = fold (\<lambda>ids. handle_iwant E src ids) (List.map_filter iwant_of controls) s"
  have ct: "core t = core s" unfolding t_def by (rule core_fold) simp
  let ?ihaves = "List.map_filter ihave_of controls" and ?grafts = "List.map_filter graft_of controls" and ?prunes = "List.map_filter prune_of controls"
  obtain u where u: "(if ?ihaves = [] then Some t else handle_ihave E now src ?ihaves t) = Some u"
    and b: "do { s \<leftarrow> (if ?grafts = [] then Some u else handle_graft E now src ?grafts u);
        if ?prunes = [] then Some s else handle_prune E now src ?prunes s } = Some s'"
    using assms unfolding handle_controls_def Let_def t_def [symmetric] by (rule bind_SomeE)
  from b obtain v where v: "(if ?grafts = [] then Some u else handle_graft E now src ?grafts u) = Some v"
    and w: "(if ?prunes = [] then Some v else handle_prune E now src ?prunes v) = Some s'" by (rule bind_SomeE)
  have "evolves now t u" using u by (auto split: if_splits intro: evolves_frame core_handle_ihave)
  moreover have "evolves now u v" using v by (auto split: if_splits intro: evolves_handle_graft)
  ultimately have "evolves now t v" by (rule gs_evolves_trans)
  then have "evolves now s v" by (rule evolves_core [OF ct])
  with w show ?thesis by (auto simp: Let_def)
qed

lemma evolves_handle_controls:
  assumes "handle_controls E now controls src s = Some s'"
  shows "evolves now s s'"
proof -
  obtain v where v: "evolves now s v" "(let prunes = List.map_filter prune_of controls
      in if prunes = [] then Some v else handle_prune E now src prunes v) = Some s'"
    using handle_controls_split [OF assms] by blast
  have "evolves now v s'" using v(2) by (auto simp: Let_def split: if_splits intro: evolves_handle_prune)
  with v(1) show ?thesis by (rule gs_evolves_trans)
qed

lemma message_event_split:
  assumes "handle_message_event E now rpc src invalid s = Some s'"
  shows "\<exists>t. evolves now s t \<and> (rpc_subscriptions rpc = [] \<longrightarrow> t = s)
    \<and> (if score_below_threshold E t src graylist_threshold then s' = t
       else \<exists>v. evolves now t v \<and> handle_controls E now (rpc_control_msgs rpc) src v = Some s')"
proof -
  obtain t where t: "(if rpc_subscriptions rpc = [] then Some s else handle_received_subscriptions E now (rpc_subscriptions rpc) src s) = Some t"
    and b: "(if score_below_threshold E t src graylist_threshold then Some t
     else do {
       s \<leftarrow> foldM (\<lambda>(raw, e). handle_invalid_message E now src raw e) invalid t;
       s \<leftarrow> foldM (\<lambda>raw. handle_received_message E now raw src)
         (case gc_max_messages_per_rpc (gs_config s) of None \<Rightarrow> rpc_messages rpc | Some n \<Rightarrow> take n (rpc_messages rpc)) s;
       handle_controls E now (rpc_control_msgs rpc) src s
     }) = Some s'"
    using assms unfolding handle_message_event_def by (rule bind_SomeE)
  have et: "evolves now s t" "rpc_subscriptions rpc = [] \<longrightarrow> t = s"
    using t by (auto split: if_splits intro: evolves_received_subscriptions)
  show ?thesis
  proof (cases "score_below_threshold E t src graylist_threshold")
    case False
    from b [unfolded if_not_P [OF False]] obtain u where u: "foldM (\<lambda>(raw, e). handle_invalid_message E now src raw e) invalid t = Some u"
      and c: "do { s \<leftarrow> foldM (\<lambda>raw. handle_received_message E now raw src)
           (case gc_max_messages_per_rpc (gs_config u) of None \<Rightarrow> rpc_messages rpc | Some n \<Rightarrow> take n (rpc_messages rpc)) u;
         handle_controls E now (rpc_control_msgs rpc) src s } = Some s'"
      by (rule bind_SomeE)
    from c obtain ms v where v: "foldM (\<lambda>raw. handle_received_message E now raw src) ms u = Some v"
      and w: "handle_controls E now (rpc_control_msgs rpc) src v = Some s'" by (rule bind_SomeE)
    have "core u = core t" using u by (rule core_foldM) (auto dest: core_handle_invalid)
    then have "evolves now t u" by (rule evolves_frame)
    moreover have "evolves now u v" using v by (rule evolves_foldM [where \<pi> = "\<lambda>s. s"]) (rule evolves_received_message)
    ultimately have "evolves now t v" by (rule gs_evolves_trans)
    with w et False show ?thesis by auto
  qed (use b et in auto)
qed

lemma evolves_message_event:
  assumes "handle_message_event E now rpc src invalid s = Some s'"
  shows "evolves now s s'"
proof -
  obtain t where t: "evolves now s t" "if score_below_threshold E t src graylist_threshold then s' = t
      else \<exists>v. evolves now t v \<and> handle_controls E now (rpc_control_msgs rpc) src v = Some s'"
    using message_event_split [OF assms] by blast
  have "evolves now t s'" using t(2) by (auto split: if_splits intro: gs_evolves_trans evolves_handle_controls)
  with t(1) show ?thesis by (rule gs_evolves_trans)
qed

end
