(* ===== verification/Gossip_Mesh.thy ===== *)
theory Gossip_Mesh
  imports Gossip_Contract
begin

text \<open>
  The heartbeat meets the contract of \<open>Gossip_Contract\<close>, and with it the main loop; the states the router can reach; and what
  follows for the mesh, the backoffs and the delivery of messages.
\<close>

section \<open>The stages of the heartbeat\<close>

text \<open>What a stage may do to the peers of a topic: add some that are not backed off, and drop some.\<close>

definition stage_ok :: "'f Gossipsub \<Rightarrow> TopicHash \<Rightarrow> PeerId list \<Rightarrow> PeerId list \<Rightarrow> bool" where
  "stage_ok s topic peers peers' \<longleftrightarrow>
     bset_wf peers' \<and> (\<forall>p \<in> set peers' - set peers. \<not> is_backoff_with_slack topic p (gs_backoffs s))"

lemma stage_ok_trans: "stage_ok s topic ps qs \<Longrightarrow> stage_ok s topic qs rs \<Longrightarrow> stage_ok s topic ps rs"
  by (auto simp: stage_ok_def)

lemma stage_ok_filter: "bset_wf peers \<Longrightarrow> stage_ok s topic peers (filter P peers)"
  by (auto simp: stage_ok_def sorted_filter [of id, simplified])

lemma stage_ok_extend:
  "bset_wf peers \<Longrightarrow> (\<And>p. p \<in> set new \<Longrightarrow> meshable E s topic peers p) \<Longrightarrow> stage_ok s topic peers (bset_extend new peers)"
  using bset_wf_extend [of peers new] by (auto simp: stage_ok_def meshable_def)

lemma drop_negative_ok: "bset_wf peers \<Longrightarrow> stage_ok s topic peers (fst (drop_negative E s topic (peers, b)))"
  by (simp add: drop_negative_def Let_def stage_ok_filter)

lemma fill_low_ok:
  assumes "fill_low E s topic (peers, b) = Some (peers', b')" "rng_ok (env_rng E)" "bset_wf peers"
  shows "stage_ok s topic peers peers'" "length peers' \<le> max (length peers) (gc_mesh_n (gs_config s))"
    "length peers \<ge> gc_mesh_n_low (gs_config s) \<Longrightarrow> peers' = peers"
proof -
  let ?n = "gc_mesh_n (gs_config s)"
  have "stage_ok s topic peers peers' \<and> length peers' \<le> max (length peers) ?n
    \<and> (length peers \<ge> gc_mesh_n_low (gs_config s) \<longrightarrow> peers' = peers)"
  proof (cases "length peers < gc_mesh_n_low (gs_config s)")
    case True
    then have le: "length peers \<le> ?n" using assms(1) by (auto simp: fill_low_def Let_def split: if_splits)
    obtain new draws where g: "get_random_peers E s topic (?n - length peers)
        (\<lambda>p. meshable E s topic peers p \<and> f_le (env_f E) (f_zero (env_f E)) (beat_score E s p)) (bt_draws b) = (new, draws)"
      by (rule prod.exhaust)
    have p': "peers' = bset_extend new peers" using assms(1) True le g by (simp add: fill_low_def Let_def)
    note new = get_random_peers_props(1-3) [OF g assms(2)]
    have "stage_ok s topic peers peers'" unfolding p' by (rule stage_ok_extend [OF assms(3)]) (use new(3) in blast)
    moreover have "length peers' \<le> ?n" using length_bset_extend_le [of new peers] new(2) le by (simp add: p')
    ultimately show ?thesis using True by simp
  next
    case False
    then show ?thesis using assms by (auto simp: fill_low_def stage_ok_def)
  qed
  then show "stage_ok s topic peers peers'" "length peers' \<le> max (length peers) ?n"
    "length peers \<ge> gc_mesh_n_low (gs_config s) \<Longrightarrow> peers' = peers" by blast+
qed

lemma pick_excess_no_outbound: "pick_excess [] m excess n peers = take excess peers"
  by (induction peers arbitrary: excess) (auto simp: take_Cons' split: if_splits)

lemma prune_high_ok:
  assumes "prune_high E s topic (peers, b) = Some (peers', b')" "rng_ok (env_rng E)" "bset_wf peers" "gs_outbound_peers s = []"
  shows "stage_ok s topic peers peers'" "set peers' \<subseteq> set peers"
    "length peers' = (if length peers > gc_mesh_n_high (gs_config s) then gc_mesh_n (gs_config s) else length peers)"
proof -
  let ?n = "gc_mesh_n (gs_config s)" and ?high = "gc_mesh_n_high (gs_config s)"
  have "stage_ok s topic peers peers' \<and> set peers' \<subseteq> set peers \<and> length peers' = (if length peers > ?high then ?n else length peers)"
  proof (cases "length peers > ?high")
    case True
    then have le: "?n \<le> length peers" using assms(1) by (auto simp: prune_high_def Let_def split: if_splits)
    define sh1 where "sh1 = f_sort_by (env_f E) (beat_score E s) (shuffle (env_rng E) (bt_draws b) peers)"
    define sh2 where "sh2 = shuffle (env_rng E) (bt_draws b + 1) (take (length peers - gc_retain_scores (gs_config s)) sh1)
      @ drop (length peers - gc_retain_scores (gs_config s)) sh1"
    define removed where "removed = take (length peers - ?n) sh2"
    have p': "peers' = filter (\<lambda>p. p \<notin> set removed) peers"
      using assms(1,4) True by (auto simp: prune_high_def Let_def pick_excess_no_outbound removed_def sh1_def sh2_def split: if_splits)
    have "mset sh2 = mset (take (length peers - gc_retain_scores (gs_config s)) sh1) + mset (drop (length peers - gc_retain_scores (gs_config s)) sh1)"
      using assms(2) by (simp add: sh2_def)
    also have "\<dots> = mset sh1" by (simp flip: mset_append)
    also have "\<dots> = mset peers" using assms(2) by (simp add: sh1_def)
    finally have m: "mset sh2 = mset peers" .
    have d: "distinct sh2" "set sh2 = set peers" "length sh2 = length peers"
      using assms(3) mset_eq_imp_distinct_iff [OF m] mset_eq_setD [OF m] mset_eq_length [OF m] by auto
    have "set removed \<subseteq> set peers" "distinct removed" "length removed = length peers - ?n"
      using d set_take_subset [of "length peers - ?n" sh2] by (auto simp: removed_def)
    then have "card (set peers - set removed) = ?n"
      using le assms(3) by (simp add: card_Diff_subset distinct_card)
    moreover have "set peers' = set peers - set removed" "distinct peers'" using assms(3) by (auto simp: p')
    ultimately have "length peers' = ?n" using distinct_card by metis
    then show ?thesis using True stage_ok_filter [OF assms(3)] by (auto simp: p')
  next
    case False
    then show ?thesis using assms by (auto simp: prune_high_def stage_ok_def)
  qed
  then show "stage_ok s topic peers peers'" "set peers' \<subseteq> set peers"
    "length peers' = (if length peers > ?high then ?n else length peers)" by blast+
qed

lemma fill_outbound_ok:
  assumes "rng_ok (env_rng E)" "gs_outbound_peers s = []"
  shows "fst (fill_outbound E s topic (peers, b)) = peers"
proof -
  obtain new draws where g: "get_random_peers E s topic (gc_mesh_outbound_min (gs_config s) - outbound_count s peers)
      (\<lambda>p. meshable E s topic peers p \<and> f_le (env_f E) (f_zero (env_f E)) (beat_score E s p) \<and> p \<in> set (gs_outbound_peers s)) (bt_draws b) = (new, draws)"
    by (rule prod.exhaust)
  have "new = []" using get_random_peers_props(3) [OF g assms(1)] assms(2) by (cases new) auto
  then show ?thesis using g by (simp add: fill_outbound_def Let_def bset_extend_def)
qed

lemma graft_opportunistically_ok:
  assumes "graft_opportunistically E s topic (peers, b) = Some (peers', b')" "rng_ok (env_rng E)" "bset_wf peers"
  shows "stage_ok s topic peers peers'" "set peers \<subseteq> set peers'"
    "length peers' \<le> length peers + (if gs_peer_score s = None then 0 else gc_opportunistic_graft_peers (gs_config s))"
proof -
  have "peers' = peers \<or> (\<exists>new draws median. gs_peer_score s \<noteq> None \<and> peers' = bset_extend new peers
      \<and> get_random_peers E s topic (gc_opportunistic_graft_peers (gs_config s))
          (\<lambda>p. meshable E s topic peers p \<and> f_lt (env_f E) median (beat_score E s p)) (bt_draws b) = (new, draws))"
    using assms(1) by (auto simp: graft_opportunistically_def Let_def split: if_splits option.splits prod.splits)
  then have "stage_ok s topic peers peers' \<and> set peers \<subseteq> set peers'
    \<and> length peers' \<le> length peers + (if gs_peer_score s = None then 0 else gc_opportunistic_graft_peers (gs_config s))"
  proof (elim disjE exE conjE)
    fix new draws median
    assume g: "get_random_peers E s topic (gc_opportunistic_graft_peers (gs_config s))
        (\<lambda>p. meshable E s topic peers p \<and> f_lt (env_f E) median (beat_score E s p)) (bt_draws b) = (new, draws)"
      and p': "peers' = bset_extend new peers" "gs_peer_score s \<noteq> None"
    note new = get_random_peers_props(2-3) [OF g assms(2)]
    have "stage_ok s topic peers peers'" unfolding p' by (rule stage_ok_extend [OF assms(3)]) (use new(2) in blast)
    then show ?thesis using length_bset_extend_le [of new peers] new(1) p' by auto
  qed (use assms(3) in \<open>simp add: stage_ok_def\<close>)
  then show "stage_ok s topic peers peers'" "set peers \<subseteq> set peers'"
    "length peers' \<le> length peers + (if gs_peer_score s = None then 0 else gc_opportunistic_graft_peers (gs_config s))" by blast+
qed

text \<open>A peer that may be grafted into the mesh of a topic: known, speaking gossipsub, with a score that is not negative.\<close>

definition eligible :: "'f Env \<Rightarrow> 'f Gossipsub \<Rightarrow> TopicHash \<Rightarrow> PeerId \<Rightarrow> bool" where
  "eligible E s topic p \<longleftrightarrow>
     p \<in> set (hm_get_or [] (gs_topic_peers s) topic) \<and> gossip_kind (hm_get (gs_peer_protocols s) p) \<and> p \<notin> set (gs_explicit_peers s)
     \<and> \<not> is_backoff_with_slack topic p (gs_backoffs s) \<and> f_le (env_f E) (f_zero (env_f E)) (beat_score E s p)"

text \<open>Filling a mesh that is too small reaches the wanted size, unless all the eligible peers are in.\<close>

lemma fill_low_full:
  assumes "fill_low E s topic (peers, b) = Some (peers', b')" "rng_ok (env_rng E)" "bset_wf peers"
    and "known_ok (gs_topic_peers s)" "gc_mesh_n_low (gs_config s) \<le> gc_mesh_n (gs_config s)"
  shows "gc_mesh_n_low (gs_config s) \<le> length peers' \<or> (\<forall>p. eligible E s topic p \<longrightarrow> p \<in> set peers')"
proof (cases "length peers < gc_mesh_n_low (gs_config s)")
  case True
  let ?n = "gc_mesh_n (gs_config s)"
  have le: "length peers \<le> ?n" using True assms(5) by simp
  obtain new draws where g: "get_random_peers E s topic (?n - length peers)
      (\<lambda>p. meshable E s topic peers p \<and> f_le (env_f E) (f_zero (env_f E)) (beat_score E s p)) (bt_draws b) = (new, draws)"
    by (rule prod.exhaust)
  have p': "peers' = bset_extend new peers" using assms(1) True le g by (simp add: fill_low_def Let_def)
  note new = get_random_peers_props [OF g assms(2)]
  have known: "distinct (hm_get_or [] (gs_topic_peers s) topic)" using assms(4) by (simp add: known_ok_def)
  show ?thesis
  proof (cases "length new < ?n - length peers")
    case True
    have "p \<in> set peers'" if "eligible E s topic p" for p
    proof (cases "p \<in> set peers")
      case False
      then have "p \<in> set new" using that new(4) [OF True _ _ _ known, of p] by (simp add: eligible_def meshable_def)
      then show ?thesis by (simp add: p')
    qed (simp add: p')
    then show ?thesis by blast
  next
    case False
    have "set new \<inter> set peers = {}" using new(3) by (auto simp: meshable_def)
    then have "card (set peers') = card (set new) + card (set peers)" by (simp add: p' card_Un_disjoint)
    moreover have "length peers' = card (set peers')" by (rule bset_length) (simp add: p' bset_wf_extend [OF assms(3)])
    moreover have "length new = card (set new)" "length peers = card (set peers)" using bset_length new(1) assms(3) by blast+
    ultimately have "gc_mesh_n_low (gs_config s) \<le> length peers'" using False le assms(5) by linarith
    then show ?thesis ..
  qed
next
  case False
  then show ?thesis using assms(1) by (simp add: fill_low_def)
qed

lemma maintain_topic_ok:
  assumes "maintain_topic E s topic (peers, b) = Some (peers', b')" "rng_ok (env_rng E)" "bset_wf peers" "gs_wf now s"
  shows "stage_ok s topic peers peers'" "length peers' \<le> mesh_limit s"
    "gc_mesh_n_low (gs_config s) \<le> length peers' \<or> (\<forall>p. eligible E s topic p \<longrightarrow> p \<in> set peers')"
proof -
  have wf: "known_ok (gs_topic_peers s)" "gs_outbound_peers s = []" using assms(4) by (simp_all add: gs_wf_def)
  have n: "gc_mesh_n_low (gs_config s) \<le> gc_mesh_n (gs_config s)" "gc_mesh_n (gs_config s) \<le> gc_mesh_n_high (gs_config s)"
    using assms(4) by (simp_all add: gs_wf_def config_valid_def)
  obtain p0 b0 where d: "drop_negative E s topic (peers, b) = (p0, b0)" by (rule prod.exhaust)
  from assms(1) obtain st1 where f': "fill_low E s topic (p0, b0) = Some st1"
      and r1: "prune_high E s topic st1 \<bind> (\<lambda>st. graft_opportunistically E s topic (fill_outbound E s topic st)) = Some (peers', b')"
    unfolding maintain_topic_def d by (rule bind_SomeE)
  obtain p1 b1 where f: "fill_low E s topic (p0, b0) = Some (p1, b1)" and st1: "st1 = (p1, b1)" using f' by (cases st1) simp
  from r1 obtain st2 where h': "prune_high E s topic st1 = Some st2"
      and r2': "graft_opportunistically E s topic (fill_outbound E s topic st2) = Some (peers', b')"
    by (rule bind_SomeE)
  obtain p2 b2 where h: "prune_high E s topic (p1, b1) = Some (p2, b2)"
      and r2: "graft_opportunistically E s topic (fill_outbound E s topic (p2, b2)) = Some (peers', b')"
    using h' r2' st1 by (cases st2) simp
  obtain b3 where o: "fill_outbound E s topic (p2, b2) = (p2, b3)"
    using fill_outbound_ok [OF assms(2) wf(2), of topic p2 b2] by (metis prod.collapse)
  have 0: "stage_ok s topic peers p0" using drop_negative_ok [OF assms(3), of s topic E b] d by simp
  then have w0: "bset_wf p0" by (simp add: stage_ok_def)
  note 1 = fill_low_ok [OF f assms(2) w0]
  have w1: "bset_wf p1" using 1(1) by (simp add: stage_ok_def)
  note 2 = prune_high_ok [OF h assms(2) w1 wf(2)]
  have w2: "bset_wf p2" using 2(1) by (simp add: stage_ok_def)
  note 3 = graft_opportunistically_ok [OF r2 [unfolded o] assms(2) w2]
  show "stage_ok s topic peers peers'" using 0 1(1) 2(1) 3(1) by (blast intro: stage_ok_trans)
  have "length p2 \<le> gc_mesh_n_high (gs_config s)" using 2(3) n(2) by (simp split: if_splits)
  then show "length peers' \<le> mesh_limit s" using 3(3) by (simp add: mesh_limit_def)
  have "length p2 \<le> length peers'"
    using card_mono [OF _ 3(2)] bset_length [OF w2] bset_length [of peers'] 3(1) by (simp add: stage_ok_def)
  moreover have "gc_mesh_n_low (gs_config s) \<le> length p2 \<or> p2 = p1"
    using h 2(3) n(1) by (cases "length p1 > gc_mesh_n_high (gs_config s)") (auto simp: prune_high_def)
  ultimately show "gc_mesh_n_low (gs_config s) \<le> length peers' \<or> (\<forall>p. eligible E s topic p \<longrightarrow> p \<in> set peers')"
    using fill_low_full [OF f assms(2) w0 wf(1) n(1)] 3(2) by auto
qed

text \<open>What the heartbeat does to the peers of a topic.\<close>

definition maintained :: "'f Env \<Rightarrow> 'f Gossipsub \<Rightarrow> TopicHash \<Rightarrow> PeerId list \<Rightarrow> PeerId list \<Rightarrow> bool" where
  "maintained E s topic peers peers' \<longleftrightarrow>
     stage_ok s topic peers peers' \<and> length peers' \<le> mesh_limit s
     \<and> (gc_mesh_n_low (gs_config s) \<le> length peers' \<or> (\<forall>p. eligible E s topic p \<longrightarrow> p \<in> set peers'))"

lemma maintain_mesh_ok:
  assumes "maintain_mesh E s m b = Some (m', b')" "rng_ok (env_rng E)" "\<And>t ps. (t, ps) \<in> set m \<Longrightarrow> bset_wf ps" "gs_wf now s"
  shows "map fst m' = map fst m \<and> (\<forall>t. rel_option (maintained E s t) (hm_get m t) (hm_get m' t))"
  using assms(1,3)
proof (induction m arbitrary: b m' b')
  case (Cons e m)
  obtain t ps where e: "e = (t, ps)" by (cases e)
  obtain ps' b1 rest b2 where r: "maintain_topic E s t (ps, b) = Some (ps', b1)" "maintain_mesh E s m b1 = Some (rest, b2)"
      "m' = (t, ps') # rest"
    using Cons.prems(1) by (auto simp: e Option.bind_eq_Some_conv)
  have w: "bset_wf ps" using Cons.prems(2) [of t ps] by (simp add: e)
  have "maintained E s t ps ps'" using maintain_topic_ok [OF r(1) assms(2) w assms(4)] unfolding maintained_def by blast
  moreover have "map fst rest = map fst m \<and> (\<forall>t. rel_option (maintained E s t) (hm_get m t) (hm_get rest t))"
    by (rule Cons.IH [OF r(2)]) (use Cons.prems(2) in auto)
  ultimately show ?case by (simp add: r(3) e)
qed simp

lemma topics_ok_entries: "topics_ok n m \<Longrightarrow> (t, ps) \<in> set m \<Longrightarrow> bset_wf ps \<and> length ps \<le> n"
  using hm_get_mem_iff by (fastforce simp: topics_ok_def)

lemma evolves_maintain_mesh:
  assumes "maintain_mesh E s (gs_mesh s) b = Some (m, b')" "rng_ok (env_rng E)"
  shows "evolves now s (s\<lparr>gs_mesh := m\<rparr>)"
proof (rule evolves_mesh)
  assume wf: "gs_wf now s"
  note ok = gs_wf_topics(1) [OF wf]
  have r: "map fst m = map fst (gs_mesh s)" "\<And>t. rel_option (maintained E s t) (hm_get (gs_mesh s) t) (hm_get m t)"
    using maintain_mesh_ok [OF assms _ wf] topics_ok_entries [OF ok] by blast+
  have old: "\<exists>ps. hm_get (gs_mesh s) t = Some ps \<and> maintained E s t ps ps'" if "hm_get m t = Some ps'" for t ps'
    using r(2) [of t] unfolding that option_rel_Some2 by blast
  show "topics_ok (mesh_limit s) m"
  proof (rule topics_okI)
    show "hm_wf m" using ok r(1) by (simp add: topics_ok_def)
    show "bset_wf ps \<and> length ps \<le> mesh_limit s" if "hm_get m t = Some ps" for t ps
      using old [OF that] unfolding maintained_def stage_ok_def by blast
  qed
  show "hm_contains (gs_mesh s) t" if "hm_contains m t" for t using old that by fastforce
  show "\<not> blocked now t p s" if p: "p \<in> set (hm_get_or [] m t)" "p \<notin> set (mesh_peers s t)" for t p
  proof -
    obtain ps' where ps': "hm_get m t = Some ps'" "p \<in> set ps'" using p(1) by (cases "hm_get m t") (auto simp: hm_get_or_def)
    obtain ps where ps: "hm_get (gs_mesh s) t = Some ps" "maintained E s t ps ps'" using old [OF ps'(1)] by blast
    have "p \<notin> set ps" using p(2) ps(1) by (simp add: mesh_peers_def hm_get_or_def)
    then have "\<not> is_backoff_with_slack t p (gs_backoffs s)" using ps(2) ps'(2) unfolding maintained_def stage_ok_def by blast
    then show ?thesis by (rule not_backed_off)
  qed
qed


section \<open>The fanout in the heartbeat\<close>

lemma maintain_fanout_topic_ok:
  assumes "maintain_fanout_topic E s topic peers draws = (peers', draws')" "rng_ok (env_rng E)"
    and "bset_wf peers" "length peers \<le> gc_mesh_n (gs_config s)"
  shows "bset_wf peers' \<and> length peers' \<le> gc_mesh_n (gs_config s)"
proof -
  define threshold where "threshold = (case gs_peer_score s of Some (_, thresholds, _) \<Rightarrow> publish_threshold thresholds | None \<Rightarrow> f_zero (env_f E))"
  define low where "low = (\<lambda>p. f_lt (env_f E) (beat_score E s p) threshold)"
  define stays where
    "stays = (\<lambda>p. case hm_get (gs_peer_topics s) p of Some topics \<Rightarrow> \<not> (topic \<notin> set topics \<or> low p) | None \<Rightarrow> False)"
  define f where "f = (\<lambda>peers p. p \<notin> set peers \<and> p \<notin> set (gs_explicit_peers s) \<and> low p)"
  have d: "maintain_fanout_topic E s topic peers draws =
      (let peers = filter stays peers
       in if length peers < gc_mesh_n (gs_config s) then
            (let (new_peers, draws) = get_random_peers E s topic (gc_mesh_n (gs_config s) - length peers) (f peers) draws
             in (bset_extend new_peers peers, draws))
          else (peers, draws))"
    unfolding maintain_fanout_topic_def Let_def f_def stays_def low_def threshold_def ..
  have w: "bset_wf (filter stays peers)" using assms(3) by (simp add: sorted_filter [of id, simplified])
  obtain new dr where g: "get_random_peers E s topic (gc_mesh_n (gs_config s) - length (filter stays peers)) (f (filter stays peers)) draws = (new, dr)"
    by (rule prod.exhaust)
  have "length (filter stays peers) \<le> gc_mesh_n (gs_config s)" using assms(4) length_filter_le [of stays peers] by linarith
  then have "length (bset_extend new (filter stays peers)) \<le> gc_mesh_n (gs_config s)"
    using length_bset_extend_le [of new "filter stays peers"] get_random_peers_props(2) [OF g assms(2)] by linarith
  moreover have "peers' = bset_extend new (filter stays peers) \<or> peers' = filter stays peers"
    using assms(1) unfolding d by (simp add: Let_def g split: if_splits)
  ultimately show ?thesis
    using w bset_wf_extend [OF w, of new] \<open>length (filter stays peers) \<le> gc_mesh_n (gs_config s)\<close> by blast
qed

lemma maintain_fanout_ok:
  assumes "maintain_fanout E s m draws = (m', draws')" "rng_ok (env_rng E)"
    and "\<And>t ps. (t, ps) \<in> set m \<Longrightarrow> bset_wf ps \<and> length ps \<le> gc_mesh_n (gs_config s)"
  shows "map fst m' = map fst m \<and> (\<forall>(t, ps) \<in> set m'. bset_wf ps \<and> length ps \<le> gc_mesh_n (gs_config s))"
  using assms(1,3)
proof (induction m arbitrary: draws m' draws')
  case (Cons e m)
  obtain t ps where e: "e = (t, ps)" by (cases e)
  obtain ps' d1 rest d2 where r: "maintain_fanout_topic E s t ps draws = (ps', d1)" "maintain_fanout E s m d1 = (rest, d2)"
      "m' = (t, ps') # rest"
    using Cons.prems(1) by (auto simp: e Let_def split: prod.splits)
  have "bset_wf ps' \<and> length ps' \<le> gc_mesh_n (gs_config s)"
    using maintain_fanout_topic_ok [OF r(1) assms(2)] Cons.prems(2) [of t ps] by (simp add: e)
  moreover have "map fst rest = map fst m \<and> (\<forall>(t, ps) \<in> set rest. bset_wf ps \<and> length ps \<le> gc_mesh_n (gs_config s))"
    by (rule Cons.IH [OF r(2)]) (use Cons.prems(2) in auto)
  ultimately show ?case by (simp add: r(3) e)
qed simp

lemma evolves_maintain_fanout:
  assumes "maintain_fanout E s (gs_fanout s) draws = (m, draws')" "rng_ok (env_rng E)"
  shows "evolves now s (s\<lparr>gs_fanout := m\<rparr>)"
proof -
  let ?n = "gc_mesh_n (gs_config s)"
  have ok: "map fst m = map fst (gs_fanout s)" "\<And>t ps. hm_get m t = Some ps \<Longrightarrow> bset_wf ps \<and> length ps \<le> ?n" if "gs_wf now s"
    using maintain_fanout_ok [OF assms topics_ok_entries [OF gs_wf_topics(2) [OF that]]] map_of_SomeD by fastforce+
  have c: "hm_contains m t = hm_contains (gs_fanout s) t" if "gs_wf now s" for t
    unfolding hm_contains_iff ok(1) [OF that] ..
  have "evolves now s (s\<lparr>gs_fanout := m, gs_fanout_last_pub := gs_fanout_last_pub s\<rparr>)"
  proof (rule evolves_fanout)
    assume wf: "gs_wf now s"
    have "hm_wf m" using gs_wf_topics(2) [OF wf] ok(1) [OF wf] by (simp add: topics_ok_def)
    then show "topics_ok ?n m" by (rule topics_okI) (rule ok(2) [OF wf])
    note t = gs_wf_tables [OF wf]
    show "hm_wf (gs_fanout_last_pub s)" using t by (simp add: tables_ok_def)
    show "hm_contains (gs_fanout_last_pub s) t = hm_contains m t" for t using t unfolding c [OF wf] tables_ok_def by blast
    show "\<not> hm_contains (gs_mesh s) t" if "hm_contains m t" for t
      using that t unfolding c [OF wf] tables_ok_def by blast
  qed
  then show ?thesis by simp
qed

lemma fold_hm_remove: "hm_get (fold (\<lambda>(k, _). hm_remove k) es m) k = (if k \<in> fst ` set es then None else hm_get m k)"
  by (induction es arbitrary: m) (auto simp: hashmap_simps)

lemma topics_ok_sub: "topics_ok n m \<Longrightarrow> hm_wf m' \<Longrightarrow> (\<And>t ps. hm_get m' t = Some ps \<Longrightarrow> hm_get m t = Some ps) \<Longrightarrow> topics_ok n m'"
  unfolding topics_ok_def by blast

lemma hm_wf_remove_all: "hm_wf m \<Longrightarrow> hm_wf (fold (\<lambda>(k, _). hm_remove k) es m)"
  by (induction es arbitrary: m) auto

lemma evolves_expire_fanout:
  assumes "expire_fanout now s = Some s'"
  shows "evolves t s s'"
proof -
  define expired where "expired = (\<lambda>(topic :: TopicHash, last_pub_time). last_pub_time + gc_fanout_ttl (gs_config s) < now)"
  define es where "es = filter expired (gs_fanout_last_pub s)"
  define l where "l = filter (\<lambda>e. \<not> expired e) (gs_fanout_last_pub s)"
  define m where "m = fold (\<lambda>(topic, _). hm_remove topic) es (gs_fanout s)"
  have s': "s' = s\<lparr>gs_fanout := m, gs_fanout_last_pub := l\<rparr>"
    using assms by (simp add: expire_fanout_def Let_def m_def es_def l_def expired_def split: if_splits)
  have m: "hm_get m t = (if t \<in> fst ` set es then None else hm_get (gs_fanout s) t)" for t unfolding m_def by (rule fold_hm_remove)
  show ?thesis unfolding s'
  proof (rule evolves_fanout)
    assume wf: "gs_wf t s"
    note tab = gs_wf_tables [OF wf]
    have pub: "hm_wf (gs_fanout_last_pub s)" and same: "\<And>t. hm_contains (gs_fanout_last_pub s) t = hm_contains (gs_fanout s) t"
      and disj: "\<And>t. hm_contains (gs_mesh s) t \<Longrightarrow> \<not> hm_contains (gs_fanout s) t" using tab unfolding tables_ok_def by blast+
    show "topics_ok (gc_mesh_n (gs_config s)) m"
    proof (rule topics_ok_sub [OF gs_wf_topics(2) [OF wf]])
      show "hm_wf m" unfolding m_def by (rule hm_wf_remove_all) (use gs_wf_topics(2) [OF wf] in \<open>simp add: topics_ok_def\<close>)
    qed (simp add: m split: if_splits)
    show "hm_wf l" using pub by (simp add: l_def)
    have es: "k \<in> fst ` set es \<longleftrightarrow> (\<exists>v. hm_get (gs_fanout_last_pub s) k = Some v \<and> expired (k, v))" for k
      using hm_get_mem_iff [OF pub] by (force simp: es_def)
    have "hm_contains l k \<longleftrightarrow> (\<exists>v. hm_get (gs_fanout_last_pub s) k = Some v \<and> \<not> expired (k, v))" for k
      unfolding l_def hm_get_filter [OF pub] by (simp split: option.splits)
    then show "hm_contains l k = hm_contains m k" for k unfolding m es using same [of k] by auto
    show "\<not> hm_contains (gs_mesh s) k" if "hm_contains m k" for k using that disj [of k] by (auto simp: m split: if_splits)
  qed
qed


section \<open>The heartbeat\<close>

lemma core_emit_to_peer: "core (emit_to_peer E topic ids peer s) = core s"
  by (simp add: emit_to_peer_def Let_def case_prod_unfold)

lemma core_emit_topics: "emit_topics E m s = Some s' \<Longrightarrow> core s' = core s"
proof (induction m arbitrary: s)
  case (Cons e rest)
  obtain topic peers where e: "e = (topic, peers)" by (cases e)
  from Cons.prems obtain ids where ids: "get_gossip_message_ids topic (gs_mcache s) = Some ids"
    by (auto simp: e Option.bind_eq_Some_conv)
  show ?case
  proof (cases "ids = []")
    case False
    then obtain ids' ps dr where r: "emit_topics E rest (fold (emit_to_peer E topic ids') ps (s\<lparr>gs_draws := dr\<rparr>)) = Some s'"
      using Cons.prems ids by (auto simp: e Let_def split: prod.splits)
    have "core (fold (emit_to_peer E topic ids') ps (s\<lparr>gs_draws := dr\<rparr>)) = core s"
      by (subst core_fold) (simp_all add: core_emit_to_peer)
    with Cons.IH [OF r] show ?thesis by simp
  qed (use Cons.prems ids e in simp)
qed simp

lemma evolves_send_grafts:
  assumes "send_grafts E now no_px entry (prune, s) = Some (prune', s')"
  shows "evolves now s s'"
proof -
  obtain peer topics where e: "entry = (peer, topics)" by (cases entry)
  obtain t ps u where r: "foldM (\<lambda>topic. on_score (score_graft (env_f E) peer topic)) topics s = Some t"
      "collect_prunes E now peer (beat_px no_px peer t) (hm_get_or [] prune peer) t = Some (ps, u)"
      "s' = try_send E peer (rpc_of_controls (map Graft topics @ ps)) u"
    using assms by (auto simp: e send_grafts_def Let_def Option.bind_eq_Some_conv)
  have "core t = core s" using r(1) by (rule core_foldM) (rule core_on_score)
  moreover have "evolves now t u" by (rule evolves_collect_prunes [OF r(2)])
  moreover have "evolves now u s'" by (rule evolves_frame) (simp add: r(3))
  ultimately show ?thesis by (metis evolves_core gs_evolves_trans)
qed

lemma evolves_send_prunes:
  assumes "send_prunes E now no_px entry s = Some s'"
  shows "evolves now s s'"
proof -
  obtain peer topics where e: "entry = (peer, topics)" by (cases entry)
  obtain ps u where r: "collect_prunes E now peer (beat_px no_px peer s) topics s = Some (ps, u)"
      "s' = try_send E peer (rpc_of_controls ps) u"
    using assms by (auto simp: e send_prunes_def Let_def Option.bind_eq_Some_conv)
  have "evolves now u s'" by (rule evolves_frame) (simp add: r(2))
  with evolves_collect_prunes [OF r(1)] show ?thesis by (rule gs_evolves_trans)
qed

lemma evolves_send_graft_prune:
  assumes "send_graft_prune E now b s = Some s'"
  shows "evolves now s s'"
proof -
  obtain st where st: "foldM (send_grafts E now (bt_no_px b)) (bt_graft b) (bt_prune b, s) = Some st"
      and r: "(case st of (to_prune, s) \<Rightarrow> foldM (send_prunes E now (bt_no_px b)) to_prune s) = Some s'"
    using assms unfolding send_graft_prune_def by (rule bind_SomeE)
  have "evolves now (snd (bt_prune b, s)) (snd st)"
    using st by (rule evolves_foldM) (metis evolves_send_grafts prod.collapse)
  moreover have "foldM (send_prunes E now (bt_no_px b)) (fst st) (snd st) = Some s'" using r by (simp add: case_prod_unfold)
  then have "evolves now (snd st) s'" using evolves_foldM [where \<pi> = "\<lambda>s. s"] evolves_send_prunes by blast
  ultimately show ?thesis using gs_evolves_trans by fastforce
qed

lemma core_apply_iwant_penalties: "core (apply_iwant_penalties E now s) = core s"
  by (simp add: apply_iwant_penalties_def Let_def core_def split: option.splits prod.splits)

lemma evolves_heartbeat_start:
  assumes "heartbeat_start E now s = Some s'"
  shows "evolves now s s'"
proof -
  define b where "b = s\<lparr>gs_backoffs := backoff_heartbeat now (gs_backoffs s)\<rparr>"
  define t where "t = apply_iwant_penalties E now
    (s\<lparr>gs_heartbeat_ticks := gs_heartbeat_ticks s + 1, gs_backoffs := backoff_heartbeat now (gs_backoffs s),
       gs_count_sent_iwant := [], gs_count_received_ihave := []\<rparr>)"
  have tb: "core t = core b" unfolding t_def core_apply_iwant_penalties by (simp add: core_def b_def)
  have "s' = t \<or> foldM check_explicit_peer_connection (gs_explicit_peers t) t = Some s'"
    using assms unfolding heartbeat_start_def Let_def t_def [symmetric] by (simp split: if_splits)
  then have "core s' = core t" by (auto dest: core_foldM [OF _ core_check_explicit])
  then have "evolves now b s'" using evolves_frame tb by metis
  with evolves_backoff_heartbeat show ?thesis unfolding b_def by (rule gs_evolves_trans)
qed

lemma heartbeat_end_steps:
  assumes "heartbeat_end E now b s = Some s'"
  obtains s2 fo dr s3 s4 mc where "expire_fanout now s = Some s2" "maintain_fanout E s2 (gs_fanout s2) (bt_draws b) = (fo, dr)"
    "emit_gossip E (s2\<lparr>gs_fanout := fo, gs_draws := dr\<rparr>) = Some s3"
    "s4 = s3 \<or> send_graft_prune E now b s3 = Some s4" "s' = flush_control_pool E s4\<lparr>gs_mcache := mc\<rparr>"
proof -
  from assms show thesis unfolding heartbeat_end_def Let_def case_prod_unfold
  proof (elim bind_SomeE)
    fix s2 s3 s4 mc
    assume "expire_fanout now s = Some s2"
      "emit_gossip E (s2\<lparr>gs_fanout := fst (maintain_fanout E s2 (gs_fanout s2) (bt_draws b)),
         gs_draws := snd (maintain_fanout E s2 (gs_fanout s2) (bt_draws b))\<rparr>) = Some s3"
      "(if bt_graft b \<noteq> [] \<or> bt_prune b \<noteq> [] then send_graft_prune E now b s3 else Some s3) = Some s4"
      "Some (flush_control_pool E s4\<lparr>gs_mcache := mc\<rparr>) = Some s'"
    then show thesis by (intro that [of s2 _ _ s3 s4 mc]) (auto split: if_splits)
  qed
qed

lemma evolves_heartbeat_end:
  assumes "heartbeat_end E now b s = Some s'" "rng_ok (env_rng E)"
  shows "evolves now s s'"
  using assms(1)
proof (rule heartbeat_end_steps)
  fix s2 fo dr s3 s4 mc
  assume 1: "expire_fanout now s = Some s2" and 2: "maintain_fanout E s2 (gs_fanout s2) (bt_draws b) = (fo, dr)"
    and 3: "emit_gossip E (s2\<lparr>gs_fanout := fo, gs_draws := dr\<rparr>) = Some s3"
    and 4: "s4 = s3 \<or> send_graft_prune E now b s3 = Some s4" and 5: "s' = flush_control_pool E s4\<lparr>gs_mcache := mc\<rparr>"
  have "evolves now s s2" using 1 by (rule evolves_expire_fanout)
  also have "evolves now s2 (s2\<lparr>gs_fanout := fo\<rparr>)" using 2 assms(2) by (rule evolves_maintain_fanout)
  also have "core s3 = core (s2\<lparr>gs_fanout := fo\<rparr>)" using core_emit_topics [OF 3 [unfolded emit_gossip_def]] by simp
  then have "evolves now (s2\<lparr>gs_fanout := fo\<rparr>) s3" by (rule evolves_frame)
  also have "evolves now s3 s4" using 4 evolves_send_graft_prune by auto
  also have "evolves now s4 s'" unfolding 5 by (rule evolves_frame) simp
  finally show ?thesis .
qed

lemma heartbeat_steps:
  assumes "heartbeat E now s = Some s'"
  obtains s1 m b where "heartbeat_start E now s = Some s1"
    "maintain_mesh E s1 (gs_mesh s1) \<lparr>bt_graft = [], bt_prune = [], bt_no_px = [], bt_draws = gs_draws s1\<rparr> = Some (m, b)"
    "heartbeat_end E now b (s1\<lparr>gs_mesh := m\<rparr>) = Some s'"
proof -
  from assms show thesis unfolding heartbeat_def case_prod_unfold
    by (elim bind_SomeE) (rule that, auto)
qed

lemma evolves_heartbeat:
  assumes "heartbeat E now s = Some s'" "rng_ok (env_rng E)"
  shows "evolves now s s'"
  using assms(1)
  by (rule heartbeat_steps)
    (blast intro: gs_evolves_trans [OF evolves_heartbeat_start] gs_evolves_trans [OF evolves_maintain_mesh [OF _ assms(2)]]
      evolves_heartbeat_end [OF _ assms(2)])


section \<open>The main loop\<close>

lemma evolves_handle_event:
  "handle_event E now e s = Some s' \<Longrightarrow> rng_ok (env_rng E) \<Longrightarrow> evolves now s s'"
  by (cases e) (auto intro: evolves_peer_event evolves_message_event evolves_heartbeat)

lemma evolves_handle_command:
  assumes "handle_command E now c s = Some (r, s')" "rng_ok (env_rng E)"
  shows "evolves now s s'"
proof (cases c)
  case (CmdSubscribe topic)
  then obtain res t where t: "gs_subscribe E topic s = Some (res, t)" and
      r: "(case res of Inr False \<Rightarrow> Some (SubscribeReply (Inl SubscriptionExist), t)
         | Inr True \<Rightarrow> (let channel = gs_channels t in Some (SubscribeReply (Inr channel),
             t\<lparr>gs_channels := channel + 1, gs_my_topics := hm_insert topic (hm_get_or channel (gs_my_topics t) topic) (gs_my_topics t)\<rparr>))
         | Inl e \<Rightarrow> Some (SubscribeReply (Inl e), t)) = Some (r, s')"
    using assms(1) by (auto simp: Option.bind_eq_Some_conv)
  have c: "core s' = core t" using r by (auto simp: Let_def split: sum.splits bool.splits)
  have "evolves now s t" by (rule evolves_subscribe [OF t assms(2)])
  with evolves_frame [OF c] show ?thesis by (blast intro: gs_evolves_trans)
next
  case (CmdUnsubscribed topic)
  then obtain res t where t: "gs_unsubscribe E now topic s = Some (res, t)" "core s' = core t"
    using assms(1) by (auto simp: Option.bind_eq_Some_conv)
  have "evolves now s t" by (rule evolves_unsubscribe [OF t(1)])
  with evolves_frame [OF t(2)] show ?thesis by (blast intro: gs_evolves_trans)
qed (use assms in \<open>auto simp: Option.bind_eq_Some_conv intro: evolves_publish evolves_heartbeat\<close>)

lemma evolves_loop_step:
  assumes "loop_step E now i s = Some s'" "rng_ok (env_rng E)"
  shows "evolves now s s'"
  using assms by (cases i) (auto intro: evolves_handle_event evolves_handle_command evolves_unsubscribe)


section \<open>The states of the router\<close>

text \<open>
  The calls of the public interface that change the router. They are possible until \<open>start\<close>, which moves the router
  into its task.
\<close>

datatype 'f ApiCall =
    ApiSubscribe TopicHash
  | ApiUnsubscribe TopicHash
  | ApiPublish TopicHash bytes u64 PeerId
  | ApiReport MessageId PeerId MessageAcceptance
  | ApiAddExplicitPeer PeerId
  | ApiRemoveExplicitPeer PeerId
  | ApiBlacklistPeer PeerId
  | ApiRemoveBlacklistedPeer PeerId
  | ApiPeerScore "'f PeerScoreParams" "'f PeerScoreThresholds" bool
  | ApiTopicParams TopicHash "'f TopicScoreParams"
  | ApiApplicationScore PeerId 'f

fun api_call :: "'f Env \<Rightarrow> Instant \<Rightarrow> 'f ApiCall \<Rightarrow> 'f Gossipsub \<Rightarrow> 'f Gossipsub option" where
  "api_call E now (ApiSubscribe topic) s = map_option snd (gs_subscribe E topic s)"
| "api_call E now (ApiUnsubscribe topic) s = map_option snd (gs_unsubscribe E now topic s)"
| "api_call E now (ApiPublish topic data seqno random_peer) s = map_option snd (gs_publish E now seqno random_peer topic data s)"
| "api_call E now (ApiReport mid source acceptance) s = map_option snd (report_message_validation_result E now mid source acceptance s)"
| "api_call E now (ApiAddExplicitPeer peer) s = add_explicit_peer peer s"
| "api_call E now (ApiRemoveExplicitPeer peer) s = Some (remove_explicit_peer peer s)"
| "api_call E now (ApiBlacklistPeer peer) s = Some (blacklist_peer peer s)"
| "api_call E now (ApiRemoveBlacklistedPeer peer) s = Some (remove_blacklisted_peer peer s)"
| "api_call E now (ApiPeerScore params thresholds callback) s =
     (case with_peer_score E params thresholds callback s of Inl _ \<Rightarrow> Some s | Inr s' \<Rightarrow> Some s')"
| "api_call E now (ApiTopicParams topic tp) s = (case gs_set_topic_params E topic tp s of Inl _ \<Rightarrow> Some s | Inr s' \<Rightarrow> Some s')"
| "api_call E now (ApiApplicationScore peer new_score) s = Some (snd (gs_set_application_score peer new_score s))"

text \<open>The states before \<open>start\<close> and those of the running router, at a time, the clock never going back.\<close>

inductive gs_setup :: "'f Env \<Rightarrow> Instant \<Rightarrow> 'f Gossipsub \<Rightarrow> bool" for E where
  new: "config_build c = Inr c' \<Longrightarrow> Gossipsub_new E privacy c' f = Inr s \<Longrightarrow> gs_setup E now s"
| call: "gs_setup E t s \<Longrightarrow> t \<le> now \<Longrightarrow> api_call E now c s = Some s' \<Longrightarrow> gs_setup E now s'"

inductive gs_reach :: "'f Env \<Rightarrow> Instant \<Rightarrow> 'f Gossipsub \<Rightarrow> bool" for E where
  start: "gs_setup E t s \<Longrightarrow> t \<le> now \<Longrightarrow> gs_reach E now (gs_start s)"
| step: "gs_reach E t s \<Longrightarrow> t \<le> now \<Longrightarrow> loop_step E now i s = Some s' \<Longrightarrow> gs_reach E now s'"

lemma gs_wf_later: "gs_wf t s \<Longrightarrow> t \<le> now \<Longrightarrow> gs_wf now s"
  unfolding gs_wf_def cache_inv_def by fastforce

lemma gs_wf_new: "config_valid c \<Longrightarrow> Gossipsub_new E privacy c f = Inr s \<Longrightarrow> gs_wf now s"
  by (auto simp: Gossipsub_new_def and_then_Inr_iff gs_wf_def tables_ok_def topics_ok_def known_ok_def hm_get_or_def
      backoff_new_inv cache_inv_def DuplicateCache_new_def TimeCache_new_def)

lemma tables_ok_limit: "tables_ok n k mesh fanout l \<Longrightarrow> n \<le> n' \<Longrightarrow> tables_ok n' k mesh fanout l"
  unfolding tables_ok_def topics_ok_def by (meson le_trans)

lemma gs_wf_peer_score: "with_peer_score E params thresholds callback s = Inr s' \<Longrightarrow> gs_wf now s \<Longrightarrow> gs_wf now s'"
  by (auto simp: with_peer_score_def and_then_Inr_iff gs_wf_def mesh_limit_def intro: tables_ok_limit [OF _ le_add1] split: if_splits)

lemma core_add_explicit: "add_explicit_peer peer s = Some s' \<Longrightarrow> core s' = core s"
  unfolding add_explicit_peer_def by (drule core_check_explicit) simp

lemma gs_wf_api_call:
  assumes "api_call E now c s = Some s'" "gs_wf now s" "rng_ok (env_rng E)"
  shows "gs_wf now s' \<and> gs_config s' = gs_config s"
proof (cases "\<exists>params thresholds callback. c = ApiPeerScore params thresholds callback")
  case True
  then obtain params thresholds callback where c: "c = ApiPeerScore params thresholds callback" by blast
  have "s' = s \<or> with_peer_score E params thresholds callback s = Inr s'" using assms(1) by (simp add: c split: sum.splits)
  moreover have "gs_config s' = gs_config s" if "with_peer_score E params thresholds callback s = Inr s'" for params thresholds callback
    using that by (auto simp: with_peer_score_def and_then_Inr_iff split: if_splits)
  ultimately show ?thesis using assms(2) gs_wf_peer_score by blast
next
  case False
  then have "evolves now s s'"
    using assms(1,3)
    by (cases c)
      (auto simp: remove_explicit_peer_def blacklist_peer_def remove_blacklisted_peer_def
        gs_set_topic_params_def gs_set_application_score_def core_def split: sum.splits option.splits prod.splits
        intro: evolves_subscribe evolves_unsubscribe evolves_publish evolves_report_validation evolves_frame core_add_explicit)
  then show ?thesis using assms(2) by (simp add: evolves_def)
qed

lemma gs_setup_wf: "gs_setup E now s \<Longrightarrow> rng_ok (env_rng E) \<Longrightarrow> gs_wf now s"
proof (induction rule: gs_setup.induct)
  case (new c c' privacy f s now)
  then show ?case using gs_wf_new by (auto simp: config_build_ok)
next
  case (call t s now c s')
  then show ?case using gs_wf_api_call gs_wf_later by blast
qed

lemma gs_reach_wf: "gs_reach E now s \<Longrightarrow> rng_ok (env_rng E) \<Longrightarrow> gs_wf now s"
proof (induction rule: gs_reach.induct)
  case (start t s now)
  then show ?case using gs_setup_wf gs_wf_later gs_wf_core [of "gs_start s" s now] by (fastforce simp: gs_start_def)
next
  case (step t s now i s')
  then show ?case using evolves_loop_step gs_wf_later unfolding evolves_def by blast
qed

end
