(* ===== verification/Gossip_Runs.thy ===== *)
theory Gossip_Runs
  imports Gossip_Mesh "HOL-Library.Code_Target_Nat"
begin

text \<open>
  Properties of every run of gossipsub, which follow from the contract of \<open>Gossip_Contract\<close> and \<open>Gossip_Mesh\<close>: the size of
  the mesh, the peers that pruned us, the messages delivered, and what a heartbeat achieves.
\<close>

section \<open>Runs\<close>

lemma gs_reach_later: "gs_reach E t s \<Longrightarrow> t \<le> now \<Longrightarrow> gs_reach E now s"
  using gs_reach.step [of E t s now OnClosed s] by simp

lemma gs_reach_run:
  assumes "gs_reach E t s" "process_loop E inputs s = Some s'" "sorted (t # map fst inputs)"
  shows "gs_reach E (last (t # map fst inputs)) s'"
  using assms
proof (induction inputs arbitrary: t s)
  case (Cons x inputs)
  obtain now i where x: "x = (now, i)" by (cases x)
  obtain s1 where s1: "loop_step E now i s = Some s1" "(if i = OnClosed then Some s1 else process_loop E inputs s1) = Some s'"
    using Cons.prems(2) by (auto simp: x Option.bind_eq_Some_conv)
  have now: "t \<le> now" "sorted (now # map fst inputs)" using Cons.prems(3) by (simp_all add: x)
  have r: "gs_reach E now s1" using Cons.prems(1) now(1) s1(1) by (rule gs_reach.step)
  show ?case
  proof (cases "i = OnClosed")
    case True
    have "now \<le> last (now # map fst inputs)" using now(2) last_in_set [of "now # map fst inputs"] by auto
    then show ?thesis using gs_reach_later [OF r] True s1(2) by (simp add: x)
  qed (use Cons.IH [OF r _ now(2)] s1(2) in \<open>simp add: x\<close>)
qed simp

text \<open>What holds for the steps of a run holds for the run; \<open>P\<close> may use the times of the inputs to come.\<close>

lemma run_induct [consumes 3, case_names stop step]:
  assumes "process_loop E inputs s = Some s'" "gs_wf t s" "sorted (t # map fst inputs)"
    and "\<And>t s. P t s s"
    and "\<And>t now s s1 s'. t \<le> now \<Longrightarrow> gs_wf now s \<Longrightarrow> evolves now s s1 \<Longrightarrow> now \<in> fst ` set inputs \<Longrightarrow> P now s1 s' \<Longrightarrow> P t s s'"
    and "rng_ok (env_rng E)"
  shows "P t s s'"
  using assms(1-3,5)
proof (induction inputs arbitrary: t s)
  case (Cons x inputs)
  obtain now i where x: "x = (now, i)" by (cases x)
  obtain s1 where s1: "loop_step E now i s = Some s1" "(if i = OnClosed then Some s1 else process_loop E inputs s1) = Some s'"
    using Cons.prems(1) by (auto simp: x Option.bind_eq_Some_conv)
  have now: "t \<le> now" "sorted (now # map fst inputs)" using Cons.prems(3) by (simp_all add: x)
  have wf: "gs_wf now s" using gs_wf_later [OF Cons.prems(2) now(1)] .
  have e: "evolves now s s1" by (rule evolves_loop_step [OF s1(1) assms(6)])
  then have wf1: "gs_wf now s1" using wf by (simp add: evolves_def)
  have "P now s1 s'"
  proof (cases "i = OnClosed")
    case True
    then show ?thesis using s1(2) assms(4) by simp
  next
    case False
    then have "process_loop E inputs s1 = Some s'" using s1(2) by simp
    then show ?thesis using wf1 now(2)
    proof (rule Cons.IH)
      fix t now' s s1 s2
      assume "t \<le> now'" "gs_wf now' s" "evolves now' s s1" "now' \<in> fst ` set inputs" "P now' s1 s2"
      then show "P t s s2" by (intro Cons.prems(4) [of t now' s s1 s2]) auto
    qed
  qed
  then show ?case by (intro Cons.prems(4) [OF now(1) wf e]) (auto simp: x)
qed (simp add: assms(4))


section \<open>A sample router\<close>

text \<open>A router with rational numbers for the floats, shuffles that keep the order and messages without an author.\<close>

definition sample_env :: "rat Env" where
  "sample_env = \<lparr>env_f = rat_f64, env_rng = (\<lambda>k n. [0..<n]), env_crypto = sample_crypto, env_prost = protobuf_lengths,
     env_inbound = identity_inbound, env_outbound = identity_outbound\<rparr>"

definition sample_config :: "rat GossipsubConfig" where
  "sample_config = GossipsubConfigBuilder_new rat_f64 msg_data (PeerId [9])\<lparr>gc_validation_mode := Permissive\<rparr>"

definition sample_new :: "rat Gossipsub" where
  "sample_new = projr (Gossipsub_new sample_env RandomAuthor sample_config AllowAll)"

definition sample_router :: "rat Gossipsub" where
  "sample_router = gs_start sample_new"

definition sample_rpc :: "RawGossipsubMessage list \<Rightarrow> GossipsubSubscription list \<Rightarrow> GossipsubControlAction list \<Rightarrow> LoopInput" where
  "sample_rpc messages subs controls =
     OnEvent (HandlerMessage (PeerId [1]) \<lparr>rpc_messages = messages, rpc_subscriptions = subs, rpc_control_msgs = controls\<rparr> [])"

text \<open>We subscribe to a topic; a peer connects and subscribes to it, and so gets into the mesh.\<close>

definition sample_run :: "(Instant \<times> LoopInput) list" where
  "sample_run =
     [(1, OnCommand (CmdSubscribe ''t'')), (2, OnEvent (HandlerPeerEvent (NewPeer (PeerId [1])))),
      (3, OnEvent (HandlerPeerEvent (PeerKindEvent (PeerId [1]) Gossipsubv1_1))),
      (4, sample_rpc [] [\<lparr>sub_action = Subscribe, sub_topic_hash = ''t''\<rparr>] [])]"

definition sample_state :: "rat Gossipsub" where
  "sample_state = the (process_loop sample_env sample_run sample_router)"

lemma sample_env_ok [simp]: "rng_ok (env_rng sample_env)"
  by (simp add: sample_env_def)

lemma sample_config_valid: "config_valid sample_config"
  using default_config_valid [of rat_f64 msg_data "PeerId [9]"] by (simp add: sample_config_def config_valid_def)

lemma sample_new_setup: "gs_setup sample_env 0 sample_new" "gs_config sample_new = sample_config" "gs_peer_score sample_new = None"
proof -
  obtain s where s: "Gossipsub_new sample_env RandomAuthor sample_config AllowAll = Inr s" "gs_config s = sample_config" "gs_peer_score s = None"
    by (simp add: Gossipsub_new_def sample_config_def validate_config_def)
  have "gs_setup sample_env 0 s" by (rule gs_setup.new [OF _ s(1), of sample_config]) (simp add: config_build_ok sample_config_valid)
  then show "gs_setup sample_env 0 sample_new" "gs_config sample_new = sample_config" "gs_peer_score sample_new = None"
    using s by (simp_all add: sample_new_def)
qed

lemma sample_router_reach: "gs_reach sample_env 0 sample_router"
  unfolding sample_router_def by (rule gs_reach.start [OF sample_new_setup(1)]) simp

lemma sample_state_values:
  "process_loop sample_env sample_run sample_router = Some sample_state"
  "mesh_peers sample_state ''t'' = [PeerId [1]]" "gs_peer_score sample_state = None" "gc_mesh_n_high (gs_config sample_state) = 12"
  "gc_duplicate_cache_time (gs_config sample_state) = 60000000000" "gs_delivered sample_state = []"
proof -
  have "map_option (\<lambda>s. (mesh_peers s ''t'', Option.is_none (gs_peer_score s), gc_mesh_n_high (gs_config s),
      gc_duplicate_cache_time (gs_config s), gs_delivered s)) (process_loop sample_env sample_run sample_router)
    = Some ([PeerId [1]], True, 12, 60000000000, [])"
    by code_simp
  then show "process_loop sample_env sample_run sample_router = Some sample_state"
    "mesh_peers sample_state ''t'' = [PeerId [1]]" "gs_peer_score sample_state = None" "gc_mesh_n_high (gs_config sample_state) = 12"
    "gc_duplicate_cache_time (gs_config sample_state) = 60000000000" "gs_delivered sample_state = []"
    by (auto simp: sample_state_def Option.is_none_def)
qed

lemma sample_state_reach: "gs_reach sample_env 4 sample_state"
  using gs_reach_run [OF sample_router_reach sample_state_values(1)] by (simp add: sample_run_def)


section \<open>The tables of a running router\<close>

text \<open>
  C14: in every state of a running router the peers of a topic in the mesh are a set of at most \<open>mesh_n_high\<close> peers, and of at
  most \<open>opportunistic_graft_peers\<close> more when peers are scored; a topic of the mesh has no fanout; the fanout of
  a topic has at most \<open>mesh_n\<close> peers and a time of its last publication.\<close>

theorem reachable_tables:
  assumes "gs_reach E now s" "rng_ok (env_rng E)"
  shows "(\<forall>topic peers. hm_get (gs_mesh s) topic = Some peers \<longrightarrow>
       sorted peers \<and> distinct peers
       \<and> length peers \<le> gc_mesh_n_high (gs_config s) + (if gs_peer_score s = None then 0 else gc_opportunistic_graft_peers (gs_config s))
       \<and> hm_get (gs_fanout s) topic = None)
    \<and> (\<forall>topic peers. hm_get (gs_fanout s) topic = Some peers \<longrightarrow>
       sorted peers \<and> distinct peers \<and> length peers \<le> gc_mesh_n (gs_config s) \<and> hm_get (gs_fanout_last_pub s) topic \<noteq> None)"
proof -
  note tab = gs_wf_tables [OF gs_reach_wf [OF assms]]
  have t: "topics_ok (mesh_limit s) (gs_mesh s)" "topics_ok (gc_mesh_n (gs_config s)) (gs_fanout s)"
    and pub: "\<And>topic. hm_contains (gs_fanout_last_pub s) topic = hm_contains (gs_fanout s) topic"
    and mesh: "\<And>topic. hm_contains (gs_mesh s) topic \<Longrightarrow> \<not> hm_contains (gs_fanout s) topic"
    using tab unfolding tables_ok_def by blast+
  show ?thesis
    using topics_okD [OF t(1)] topics_okD [OF t(2)] pub mesh unfolding mesh_limit_def by (metis option.distinct(1))
qed

theorem reachable_tables_witness:
  "mesh_peers sample_state ''t'' = [PeerId [1]] \<and> length (mesh_peers sample_state ''t'') \<le> 12 \<and> hm_get (gs_fanout sample_state) ''t'' = None"
proof -
  have m: "hm_get (gs_mesh sample_state) ''t'' = Some [PeerId [1]]"
    using sample_state_values(2) by (auto simp: mesh_peers_def hm_get_or_def split: option.splits)
  then show ?thesis using reachable_tables [OF sample_state_reach sample_env_ok] sample_state_values by auto
qed


section \<open>Backoffs\<close>

text \<open>A peer that is out of a mesh and backed off until \<open>T\<close> stays out as long as the steps are before \<open>T\<close>.\<close>

lemma kept_out:
  assumes "process_loop E inputs s = Some s'" "gs_wf t s" "sorted (t # map fst inputs)" "rng_ok (env_rng E)"
    and "\<forall>u \<in> fst ` set inputs. u < T" "peer \<notin> set (mesh_peers s topic)"
    and "\<exists>u \<ge> T. get_backoff_time topic peer (gs_backoffs s) = Some u"
  shows "peer \<notin> set (mesh_peers s' topic)"
proof -
  have "peer \<notin> set (mesh_peers s topic) \<longrightarrow> (\<exists>u \<ge> T. get_backoff_time topic peer (gs_backoffs s) = Some u)
    \<longrightarrow> peer \<notin> set (mesh_peers s' topic)"
    using assms(1-3)
  proof (induction rule: run_induct)
    case (step t now s s1 s')
    have e: "backoffs_kept now s s1" "joins_allowed now s s1" using step(2,3) by (simp_all add: evolves_def)
    have now: "now < T" using step(4) assms(5) by blast
    show ?case
    proof (intro impI)
      assume out: "peer \<notin> set (mesh_peers s topic)" and "\<exists>u \<ge> T. get_backoff_time topic peer (gs_backoffs s) = Some u"
      then obtain u where u: "u \<ge> T" "get_backoff_time topic peer (gs_backoffs s) = Some u" by blast
      then have "blocked now topic peer s" using now by (simp add: blocked_def)
      then have "peer \<notin> set (mesh_peers s1 topic)" using e(2) out unfolding joins_allowed_def by blast
      moreover have "\<exists>u \<ge> T. get_backoff_time topic peer (gs_backoffs s1) = Some u"
        using e(1) u now unfolding backoffs_kept_def by (meson le_trans less_le_trans)
      ultimately show "peer \<notin> set (mesh_peers s' topic)" using step(5) by blast
    qed
  qed (simp_all add: assms(4))
  with assms(6,7) show ?thesis by blast
qed

lemma remove_peer_blocks:
  assumes "remove_peer_from_mesh E now peer topic backoff True s = Some s'"
  shows "peer \<notin> set (mesh_peers s' topic)"
    "\<exists>u \<ge> now + (case backoff of Some b \<Rightarrow> secs (unat b) | None \<Rightarrow> gc_prune_backoff (gs_config s)).
       get_backoff_time topic peer (gs_backoffs s') = Some u"
proof -
  obtain t where t: "(if peer \<in> set (hm_get_or [] (gs_mesh s) topic)
      then on_score (score_prune (env_f E) peer topic) (s\<lparr>gs_mesh := hm_modify topic (bset_remove peer) (gs_mesh s)\<rparr>)
      else Some s) = Some t"
    and r: "gs_update_backoff now topic peer (case backoff of Some b \<Rightarrow> secs (unat b) | None \<Rightarrow> gc_prune_backoff (gs_config t)) t = Some s'"
    using assms by (auto simp: remove_peer_from_mesh_def Option.bind_eq_Some_conv Let_def)
  have m: "peer \<notin> set (mesh_peers t topic)" "gs_config t = gs_config s"
    using t core_on_score by (fastforce simp: mesh_peers_def core_def mesh_peers_modify_remove split: if_splits)+
  show "peer \<notin> set (mesh_peers s' topic)" using r m by (auto simp: gs_update_backoff_def mesh_peers_def split: if_splits)
  show "\<exists>u \<ge> now + (case backoff of Some b \<Rightarrow> secs (unat b) | None \<Rightarrow> gc_prune_backoff (gs_config s)).
       get_backoff_time topic peer (gs_backoffs s') = Some u"
    using r m(2) by (auto simp: gs_update_backoff_def update_backoff_time split: if_splits option.splits)
qed

lemma prune_topic_blocks:
  assumes "prune_topic E now peer low (topic, px, backoff) s = Some s'"
  shows "peer \<notin> set (mesh_peers s' topic)
    \<and> (\<exists>u \<ge> now + (case backoff of Some b \<Rightarrow> secs (unat b) | None \<Rightarrow> gc_prune_backoff (gs_config s)).
         get_backoff_time topic peer (gs_backoffs s') = Some u)"
proof -
  obtain t where t: "remove_peer_from_mesh E now peer topic backoff True s = Some t" and r: "t = s' \<or> px_connect E px t = Some s'"
    using assms by (auto simp: prune_topic_def Option.bind_eq_Some_conv split: if_splits)
  have "core s' = core t" using r core_px_connect by blast
  then have "gs_mesh s' = gs_mesh t" "gs_backoffs s' = gs_backoffs t" by (simp_all add: core_def)
  then show ?thesis using remove_peer_blocks [OF t] by (simp add: mesh_peers_def)
qed

lemma handle_prune_blocks:
  assumes "handle_prune E now peer entries s = Some s'" "(topic, px, backoff) \<in> set entries" "gs_wf now s"
    and d: "d = (case backoff of Some b \<Rightarrow> secs (unat b) | None \<Rightarrow> gc_prune_backoff (gs_config s))" "0 < d"
  shows "peer \<notin> set (mesh_peers s' topic)" "\<exists>u \<ge> now + d. get_backoff_time topic peer (gs_backoffs s') = Some u"
proof -
  obtain before after where e: "entries = before @ (topic, px, backoff) # after" using split_list [OF assms(2)] by blast
  obtain s1 s2 low where s1: "foldM (prune_topic E now peer low) before s = Some s1"
      "prune_topic E now peer low (topic, px, backoff) s1 = Some s2" "foldM (prune_topic E now peer low) after s2 = Some s'"
    using assms(1) by (auto simp: handle_prune_def e foldM_append Option.bind_eq_Some_conv)
  have 1: "gs_wf now s1 \<and> gs_config s1 = gs_config s" using evolves_prune_topics [OF s1(1)] assms(3) by (simp add: evolves_def)
  then have 2: "gs_wf now s2" using evolves_prune_topic [OF s1(2)] by (simp add: evolves_def)
  have 3: "backoffs_kept now s2 s'" "joins_allowed now s2 s'" using evolves_prune_topics [OF s1(3)] 2 by (simp_all add: evolves_def)
  obtain u where u: "peer \<notin> set (mesh_peers s2 topic)" "u \<ge> now + d" "get_backoff_time topic peer (gs_backoffs s2) = Some u"
    using prune_topic_blocks [OF s1(2), unfolded conjunct2 [OF 1], folded d(1)] by blast
  have less: "now < u" using u(2) d(2) by simp
  then have "blocked now topic peer s2" using u(3) by (simp add: blocked_def)
  then show "peer \<notin> set (mesh_peers s' topic)" using 3(2) u(1) unfolding joins_allowed_def by blast
  show "\<exists>u \<ge> now + d. get_backoff_time topic peer (gs_backoffs s') = Some u"
    using 3(1) u(2,3) less unfolding backoffs_kept_def by (meson le_trans)
qed

text \<open>
  C11: once a peer has pruned us from the mesh of a topic, it is not in that mesh after any run whose steps
  are before the end of the backoff it asked for (of the configured one when it asked for none), whatever it and the
  other peers send, whatever the heartbeats and the commands do.\<close>

theorem pruned_peer_stays_out:
  assumes "gs_reach E t s" "t \<le> now" "rng_ok (env_rng E)"
    and "loop_step E now (OnEvent (HandlerMessage peer rpc invalid)) s = Some s1"
    and "Prune topic px backoff \<in> set (rpc_control_msgs rpc)" "rpc_subscriptions rpc = []"
    and "\<not> score_below_threshold E s peer graylist_threshold"
    and "d = (case backoff of Some b \<Rightarrow> secs (unat b) | None \<Rightarrow> gc_prune_backoff (gs_config s))" "0 < d"
    and "process_loop E inputs s1 = Some s2" "sorted (now # map fst inputs)" "\<forall>u \<in> fst ` set inputs. u < now + d"
  shows "peer \<notin> set (mesh_peers s2 topic)"
proof -
  have wf: "gs_wf now s" using gs_wf_later [OF gs_reach_wf [OF assms(1,3)] assms(2)] .
  obtain v where v: "evolves now s v" "handle_controls E now (rpc_control_msgs rpc) peer v = Some s1"
    using message_event_split [of E now rpc peer invalid s s1] assms(4,6,7) by auto
  have ne: "(topic, px, backoff) \<in> set (List.map_filter prune_of (rpc_control_msgs rpc))"
    using assms(5) by (force simp: List.map_filter_def)
  obtain w where w: "evolves now v w" "handle_prune E now peer (List.map_filter prune_of (rpc_control_msgs rpc)) w = Some s1"
    using handle_controls_split [OF v(2)] ne by (auto simp: Let_def split: if_splits)
  have "evolves now s w" using v(1) w(1) by (rule gs_evolves_trans)
  then have wf': "gs_wf now w" "gs_config w = gs_config s" using wf by (simp_all add: evolves_def)
  have d: "d = (case backoff of Some b \<Rightarrow> secs (unat b) | None \<Rightarrow> gc_prune_backoff (gs_config w))" using assms(8) unfolding wf'(2) .
  note p = handle_prune_blocks [OF w(2) ne wf'(1) d assms(9)]
  have "gs_wf now s1" using evolves_handle_prune [OF w(2)] wf'(1) by (simp add: evolves_def)
  then show ?thesis by (rule kept_out [OF assms(10) _ assms(11,3,12) p])
qed

theorem pruned_peer_stays_out_witness:
  "PeerId [1] \<in> set (mesh_peers sample_state ''t'')
   \<and> (\<exists>s1 s2. loop_step sample_env 5 (sample_rpc [] [] [Prune ''t'' [] (Some 10)]) sample_state = Some s1
        \<and> process_loop sample_env [(6, sample_rpc [] [] [Graft ''t'']), (7, OnEvent HandlerHeartBeat)] s1 = Some s2
        \<and> PeerId [1] \<notin> set (mesh_peers s2 ''t''))"
proof -
  have "Option.bind (loop_step sample_env 5 (sample_rpc [] [] [Prune ''t'' [] (Some 10)]) sample_state)
      (process_loop sample_env [(6, sample_rpc [] [] [Graft ''t'']), (7, OnEvent HandlerHeartBeat)]) \<noteq> None"
    by code_simp
  then obtain s1 s2 where run: "loop_step sample_env 5 (sample_rpc [] [] [Prune ''t'' [] (Some 10)]) sample_state = Some s1"
      "process_loop sample_env [(6, sample_rpc [] [] [Graft ''t'']), (7, OnEvent HandlerHeartBeat)] s1 = Some s2"
    by (auto simp: Option.bind_eq_Some_conv)
  have "PeerId [1] \<notin> set (mesh_peers s2 ''t'')"
    by (rule pruned_peer_stays_out [OF sample_state_reach _ sample_env_ok run(1) [unfolded sample_rpc_def] _ _ _ refl _ run(2),
          where topic = "''t''" and px = "[]" and backoff = "Some 10"])
      (simp_all add: score_below_threshold_def sample_state_values secs_def)
  with run sample_state_values(2) show ?thesis by auto
qed


section \<open>Deliveries\<close>

lemma seen_earlier: "cache_seen u c k \<Longrightarrow> t \<le> u \<Longrightarrow> cache_seen t c k"
  unfolding cache_seen_def by (meson le_less_trans)

lemma delivered_run:
  assumes "process_loop E inputs s = Some s'" "gs_wf t s" "sorted (t # map fst inputs)" "rng_ok (env_rng E)"
    and "\<forall>u \<in> fst ` set inputs. u \<le> T \<and> T < u + ttl" "gc_duplicate_cache_time (gs_config s) = ttl"
  shows "\<exists>ds. gs_delivered s' = gs_delivered s @ ds \<and> distinct (map (message_id_of s) ds)
    \<and> (\<forall>d \<in> set ds. \<not> cache_seen T (gs_duplicate_cache s) (message_id_of s d))"
proof -
  have "gc_duplicate_cache_time (gs_config s) = ttl \<longrightarrow> (\<exists>ds. gs_delivered s' = gs_delivered s @ ds \<and> distinct (map (message_id_of s) ds)
    \<and> (\<forall>d \<in> set ds. \<not> cache_seen T (gs_duplicate_cache s) (message_id_of s d)))"
    using assms(1-3)
  proof (induction rule: run_induct)
    case (step t now s s1 s')
    have now: "now \<le> T" "T < now + ttl" using step(4) assms(5) by blast+
    show ?case
    proof (intro impI)
      assume ttl: "gc_duplicate_cache_time (gs_config s) = ttl"
      have "0 < ttl" using now by linarith
      then have e: "seen_kept now s s1" "delivers_new now s s1" and c: "gs_config s1 = gs_config s"
        using step(2,3) ttl by (simp_all add: evolves_def)
      have m: "message_id_of s1 = message_id_of s" by (simp add: message_id_of_def c fun_eq_iff)
      obtain ds where ds: "gs_delivered s1 = gs_delivered s @ ds" "distinct (map (message_id_of s) ds)"
        "\<And>d. d \<in> set ds \<Longrightarrow> \<not> cache_seen now (gs_duplicate_cache s) (message_id_of s d)"
        "\<And>d. d \<in> set ds \<Longrightarrow> cache_seen T (gs_duplicate_cache s1) (message_id_of s d)"
        using e(2) now unfolding delivers_new_def ttl by blast
      obtain es where es: "gs_delivered s' = gs_delivered s1 @ es" "distinct (map (message_id_of s) es)"
        "\<And>d. d \<in> set es \<Longrightarrow> \<not> cache_seen T (gs_duplicate_cache s1) (message_id_of s d)"
        using step(5) ttl unfolding c m by blast
      have "gs_delivered s' = gs_delivered s @ (ds @ es)" using ds(1) es(1) by simp
      moreover have "distinct (map (message_id_of s) (ds @ es))"
      proof -
        have "message_id_of s d \<noteq> message_id_of s e" if "d \<in> set ds" "e \<in> set es" for d e
          using ds(4) [OF that(1)] es(3) [OF that(2)] by auto
        then have "message_id_of s ` set ds \<inter> message_id_of s ` set es = {}" by blast
        then show ?thesis using ds(2) es(2) unfolding map_append distinct_append set_map by blast
      qed
      moreover have "\<not> cache_seen T (gs_duplicate_cache s) (message_id_of s d)" if "d \<in> set (ds @ es)" for d
      proof
        assume seen: "cache_seen T (gs_duplicate_cache s) (message_id_of s d)"
        then have "cache_seen now (gs_duplicate_cache s) (message_id_of s d)" using now(1) by (rule seen_earlier)
        moreover have "cache_seen T (gs_duplicate_cache s1) (message_id_of s d)" using e(1) now(1) seen unfolding seen_kept_def by blast
        ultimately show False using that ds(3) es(3) unfolding set_append by blast
      qed
      ultimately show "\<exists>ds. gs_delivered s' = gs_delivered s @ ds \<and> distinct (map (message_id_of s) ds)
          \<and> (\<forall>d \<in> set ds. \<not> cache_seen T (gs_duplicate_cache s) (message_id_of s d))" by blast
    qed
  qed (use assms(4) in auto)
  then show ?thesis using assms(6) by blast
qed

text \<open>
  C12: within any stretch of a run shorter than \<open>duplicate_cache_time\<close> no message identifier is delivered twice to the local
  subscriptions, however often and from however many peers the message is received.\<close>

theorem delivered_once:
  assumes "gs_reach E t s" "rng_ok (env_rng E)" "process_loop E inputs s = Some s'" "sorted (t # map fst inputs)"
    and "\<forall>u \<in> fst ` set inputs. T < u + gc_duplicate_cache_time (gs_config s) \<and> u \<le> T"
  shows "\<exists>ds. gs_delivered s' = gs_delivered s @ ds \<and> distinct (map (\<lambda>d. gc_message_id_fn (gs_config s) (snd d)) ds)"
  using delivered_run [OF assms(3) gs_reach_wf [OF assms(1,2)] assms(4,2), of T "gc_duplicate_cache_time (gs_config s)"] assms(5)
  by (auto simp: message_id_of_def [abs_def])

definition sample_message :: RawGossipsubMessage where
  "sample_message = \<lparr>gm_source = None, gm_data = [7], gm_sequence_number = None, gm_topic = ''t'', gm_signature = None, gm_key = None,
     gm_validated = False\<rparr>"

theorem delivered_once_witness:
  "ok (\<lambda>s. length (gs_delivered s) = 1 \<and> distinct (map (\<lambda>d. gc_message_id_fn (gs_config sample_state) (snd d)) (gs_delivered s)))
     (process_loop sample_env [(5, sample_rpc [sample_message] [] []), (6, sample_rpc [sample_message] [] [])] sample_state)"
proof -
  have "map_option (\<lambda>s. length (gs_delivered s))
      (process_loop sample_env [(5, sample_rpc [sample_message] [] []), (6, sample_rpc [sample_message] [] [])] sample_state) = Some 1"
    by code_simp
  then obtain s where s: "process_loop sample_env [(5, sample_rpc [sample_message] [] []), (6, sample_rpc [sample_message] [] [])] sample_state = Some s"
      "length (gs_delivered s) = 1"
    by auto
  from delivered_once [OF sample_state_reach sample_env_ok s(1), of 6] s show ?thesis
    by (auto simp: sample_state_values)
qed


section \<open>What a heartbeat achieves\<close>

text \<open>The part of the heartbeat after the maintenance of the mesh does not change the mesh.\<close>

lemma mesh_core: "core s' = core s \<Longrightarrow> gs_mesh s' = gs_mesh s"
  by (simp add: core_def)

lemma mesh_foldM:
  assumes "foldM f xs st = Some st'" "\<And>x st st'. f x st = Some st' \<Longrightarrow> gs_mesh (\<pi> st') = gs_mesh (\<pi> st)"
  shows "gs_mesh (\<pi> st') = gs_mesh (\<pi> st)"
  by (rule foldM_Some_inv [OF assms(1), where P = "\<lambda>t. gs_mesh (\<pi> t) = gs_mesh (\<pi> st)"]) (use assms(2) in simp_all)

lemma mesh_make_prune: "make_prune E now topic peer do_px s = Some (c, s') \<Longrightarrow> gs_mesh s' = gs_mesh s"
  by (auto simp: make_prune_def gs_update_backoff_def Let_def Option.bind_eq_Some_conv case_prod_unfold
      split: if_splits option.splits dest!: mesh_core [OF core_on_score])

lemma mesh_collect_prunes: "collect_prunes E now peer do_px topics s = Some (ps, s') \<Longrightarrow> gs_mesh s' = gs_mesh s"
  unfolding collect_prunes_def
  by (drule mesh_foldM [where \<pi> = snd]) (auto simp: Option.bind_eq_Some_conv dest: mesh_make_prune)

lemma mesh_send_grafts:
  assumes "send_grafts E now no_px entry st = Some st'"
  shows "gs_mesh (snd st') = gs_mesh (snd st)"
proof -
  obtain peer topics where e: "entry = (peer, topics)" by (cases entry)
  obtain t ps u where r: "foldM (\<lambda>topic. on_score (score_graft (env_f E) peer topic)) topics (snd st) = Some t"
      "collect_prunes E now peer (beat_px no_px peer t) (hm_get_or [] (fst st) peer) t = Some (ps, u)"
      "snd st' = try_send E peer (rpc_of_controls (map Graft topics @ ps)) u"
    using assms by (auto simp: e send_grafts_def Let_def Option.bind_eq_Some_conv case_prod_unfold)
  have "core t = core (snd st)" using r(1) by (rule core_foldM) (rule core_on_score)
  then show ?thesis using mesh_collect_prunes [OF r(2)] mesh_core r(3) core_try_send by metis
qed

lemma mesh_send_prunes:
  assumes "send_prunes E now no_px entry s = Some s'"
  shows "gs_mesh s' = gs_mesh s"
proof -
  obtain ps u where r: "collect_prunes E now (fst entry) (beat_px no_px (fst entry) s) (snd entry) s = Some (ps, u)"
      "s' = try_send E (fst entry) (rpc_of_controls ps) u"
    using assms by (auto simp: send_prunes_def Let_def Option.bind_eq_Some_conv case_prod_unfold)
  then show ?thesis using mesh_collect_prunes [OF r(1)] mesh_core core_try_send by metis
qed

lemma mesh_send_graft_prune:
  assumes "send_graft_prune E now b s = Some s'"
  shows "gs_mesh s' = gs_mesh s"
proof -
  obtain st where st: "foldM (send_grafts E now (bt_no_px b)) (bt_graft b) (bt_prune b, s) = Some st"
      and r: "foldM (send_prunes E now (bt_no_px b)) (fst st) (snd st) = Some s'"
    using assms by (auto simp: send_graft_prune_def Option.bind_eq_Some_conv)
  have "gs_mesh (snd st) = gs_mesh (snd (bt_prune b, s))" by (rule mesh_foldM [OF st]) (rule mesh_send_grafts)
  moreover have "gs_mesh s' = gs_mesh (snd st)" by (rule mesh_foldM [OF r, where \<pi> = "\<lambda>s. s"]) (rule mesh_send_prunes)
  ultimately show ?thesis by simp
qed

lemma mesh_heartbeat_start:
  assumes "heartbeat_start E now s = Some s'"
  shows "gs_mesh s' = gs_mesh s"
proof -
  define t where "t = apply_iwant_penalties E now
    (s\<lparr>gs_heartbeat_ticks := gs_heartbeat_ticks s + 1, gs_backoffs := backoff_heartbeat now (gs_backoffs s),
       gs_count_sent_iwant := [], gs_count_received_ihave := []\<rparr>)"
  have "gs_mesh t = gs_mesh s" unfolding t_def by (simp add: mesh_core [OF core_apply_iwant_penalties])
  moreover have "s' = t \<or> foldM check_explicit_peer_connection (gs_explicit_peers t) t = Some s'"
    using assms unfolding heartbeat_start_def Let_def t_def [symmetric] by (simp split: if_splits)
  then have "gs_mesh s' = gs_mesh t" by (auto dest: mesh_core [OF core_foldM [OF _ core_check_explicit]])
  ultimately show ?thesis by simp
qed

lemma mesh_heartbeat_end:
  assumes "heartbeat_end E now b s = Some s'"
  shows "gs_mesh s' = gs_mesh s"
  using assms
proof (rule heartbeat_end_steps)
  fix s2 fo dr s3 s4 mc
  assume 1: "expire_fanout now s = Some s2" and 3: "emit_gossip E (s2\<lparr>gs_fanout := fo, gs_draws := dr\<rparr>) = Some s3"
    and 4: "s4 = s3 \<or> send_graft_prune E now b s3 = Some s4" and 5: "s' = flush_control_pool E s4\<lparr>gs_mcache := mc\<rparr>"
  have "gs_mesh s2 = gs_mesh s" using 1 by (auto simp: expire_fanout_def Let_def split: if_splits)
  moreover have "gs_mesh s3 = gs_mesh s2" using mesh_core [OF core_emit_topics [OF 3 [unfolded emit_gossip_def]]] by simp
  moreover have "gs_mesh s4 = gs_mesh s3" using 4 mesh_send_graft_prune by blast
  moreover have "gs_mesh s' = gs_mesh s4" unfolding 5 by (rule mesh_core) simp
  ultimately show ?thesis by simp
qed

text \<open>
  C15: after a heartbeat the mesh of every topic we are subscribed to has at least \<open>mesh_n_low\<close> peers, or holds every peer that
  may be grafted: every known peer of the topic that speaks gossipsub, is not an explicit peer, is not
  backed off and has no negative score.\<close>

theorem heartbeat_refills:
  assumes "gs_reach E t s" "t \<le> now" "rng_ok (env_rng E)" "heartbeat E now s = Some s'" "heartbeat_start E now s = Some s1"
    and "hm_get (gs_mesh s) topic \<noteq> None"
  shows "gc_mesh_n_low (gs_config s) \<le> length (mesh_peers s' topic)
    \<or> (\<forall>p. p \<in> set (hm_get_or [] (gs_topic_peers s1) topic) \<longrightarrow> gossip_kind (hm_get (gs_peer_protocols s1) p) \<longrightarrow>
         p \<notin> set (gs_explicit_peers s1) \<longrightarrow> \<not> is_backoff_with_slack topic p (gs_backoffs s1) \<longrightarrow>
         f_le (env_f E) (f_zero (env_f E)) (beat_score E s1 p) \<longrightarrow> p \<in> set (mesh_peers s' topic))"
proof -
  have wf: "gs_wf now s" using gs_wf_later [OF gs_reach_wf [OF assms(1,3)] assms(2)] .
  obtain m b where m: "maintain_mesh E s1 (gs_mesh s1) \<lparr>bt_graft = [], bt_prune = [], bt_no_px = [], bt_draws = gs_draws s1\<rparr> = Some (m, b)"
      and e: "heartbeat_end E now b (s1\<lparr>gs_mesh := m\<rparr>) = Some s'"
    using heartbeat_steps [OF assms(4)] assms(5) by (metis option.inject)
  have wf1: "gs_wf now s1" "gs_config s1 = gs_config s" using evolves_heartbeat_start [OF assms(5)] wf by (simp_all add: evolves_def)
  have "rel_option (maintained E s1 topic) (hm_get (gs_mesh s1) topic) (hm_get m topic)"
    using maintain_mesh_ok [OF m assms(3) _ wf1(1)] topics_ok_entries [OF gs_wf_topics(1) [OF wf1(1)]] by blast
  moreover have "gs_mesh s1 = gs_mesh s" using assms(5) by (rule mesh_heartbeat_start)
  ultimately obtain ps ps' where "hm_get m topic = Some ps'" "maintained E s1 topic ps ps'"
    using assms(6) by (auto simp: option_rel_Some1)
  moreover have "mesh_peers s' topic = hm_get_or [] m topic" using mesh_heartbeat_end [OF e] by (simp add: mesh_peers_def)
  ultimately show ?thesis unfolding maintained_def eligible_def wf1(2) by (simp add: hm_get_or_def) blast
qed

theorem heartbeat_refills_witness:
  "ok (\<lambda>s'. gc_mesh_n_low (gs_config sample_state) \<le> length (mesh_peers s' ''t'') \<or> PeerId [1] \<in> set (mesh_peers s' ''t''))
     (heartbeat sample_env 5 sample_state)"
proof -
  have "ok (\<lambda>s. PeerId [1] \<in> set (hm_get_or [] (gs_topic_peers s) ''t'') \<and> gossip_kind (hm_get (gs_peer_protocols s) (PeerId [1]))
      \<and> PeerId [1] \<notin> set (gs_explicit_peers s) \<and> \<not> is_backoff_with_slack ''t'' (PeerId [1]) (gs_backoffs s)
      \<and> f_le rat_f64 (f_zero rat_f64) (beat_score sample_env s (PeerId [1]))) (heartbeat_start sample_env 5 sample_state)"
    by code_simp
  then obtain s1 where s1: "heartbeat_start sample_env 5 sample_state = Some s1"
      "PeerId [1] \<in> set (hm_get_or [] (gs_topic_peers s1) ''t'')" "gossip_kind (hm_get (gs_peer_protocols s1) (PeerId [1]))"
      "PeerId [1] \<notin> set (gs_explicit_peers s1)" "\<not> is_backoff_with_slack ''t'' (PeerId [1]) (gs_backoffs s1)"
      "f_le (env_f sample_env) (f_zero (env_f sample_env)) (beat_score sample_env s1 (PeerId [1]))"
    by (auto simp: ok_iff sample_env_def)
  have "heartbeat sample_env 5 sample_state \<noteq> None" by code_simp
  then obtain s' where s': "heartbeat sample_env 5 sample_state = Some s'" by auto
  have "hm_get (gs_mesh sample_state) ''t'' \<noteq> None"
    using sample_state_values(2) by (auto simp: mesh_peers_def hm_get_or_def split: option.splits)
  from heartbeat_refills [OF sample_state_reach _ sample_env_ok s' s1(1) this] s1(2-) s' show ?thesis by auto
qed

end
