(* ===== verification/Gossip_Safe.thy ===== *)
theory Gossip_Safe
  imports Gossip_Runs
begin

text \<open>
  The panics of gossipsub. The router adds durations to times, indexes its message cache, divides by the numbers of ticks,
  unwraps the swarm and the parameters of topics it has scores of. With a configuration that the builder does not check
  but that any sensible one satisfies, none of these fails up to the end of the clock, except for a PRUNE whose
  backoff is so long that the sum with the clock is not representable.
\<close>

section \<open>Configurations and states without panics\<close>

text \<open>
  All times are up to \<open>H\<close>. To the end of a backoff the router adds the flood threshold or the slack; what it may add
  at most is the margin.
\<close>

definition backoff_margin :: "'f GossipsubConfig \<Rightarrow> Duration" where
  "backoff_margin c = gc_graft_flood_threshold c + gc_heartbeat_interval c * gc_backoff_slack c"

text \<open>Half of the seconds that an \<open>Instant\<close> can hold.\<close>

definition LONG_BACKOFF :: nat where
  "LONG_BACKOFF = 2 ^ 62"

definition sane :: "Instant \<Rightarrow> 'f GossipsubConfig \<Rightarrow> bool" where
  "sane H c \<longleftrightarrow>
     config_valid c \<and> 0 < gc_history_length c \<and> 0 < gc_check_explicit_peers_ticks c \<and> 0 < gc_opportunistic_graft_ticks c
     \<and> 0 < gc_heartbeat_interval c \<and> gc_retain_scores c \<le> Suc (gc_mesh_n_high c)
     \<and> instant_fits H (gc_prune_backoff c + backoff_margin c) \<and> instant_fits H (secs LONG_BACKOFF + backoff_margin c)
     \<and> instant_fits H (gc_fanout_ttl c)
     \<and> instant_fits H (gc_iwant_followup_time c)"

definition cache_ready :: "MessageCache \<Rightarrow> bool" where
  "cache_ready c \<longleftrightarrow> mc_history c \<noteq> [] \<and> mc_gossip c \<le> length (mc_history c)"

definition score_ready :: "'f F64 \<Rightarrow> Instant \<Rightarrow> bool \<Rightarrow> ('f PeerScore \<times> 'f PeerScoreThresholds \<times> GossipPromises) option \<Rightarrow> bool" where
  "score_ready F H started scores = (case scores of None \<Rightarrow> True
     | Some (ps, _) \<Rightarrow> score_inv F ps \<and> (started \<longrightarrow> instant_fits H (retain_score (pz_params ps))))"

definition backoffs_ready :: "'f GossipsubConfig \<Rightarrow> BackoffStorage \<Rightarrow> bool" where
  "backoffs_ready c b \<longleftrightarrow>
     backoff_inv b \<and> backoff_slack_time b = gc_heartbeat_interval c * gc_backoff_slack c
     \<and> (\<forall>topic peer t. get_backoff_time topic peer b = Some t \<longrightarrow> instant_fits t (backoff_margin c))"

text \<open>The states in which nothing panics; \<open>started\<close> tells whether the router has its swarm.\<close>

definition calm :: "'f Env \<Rightarrow> Instant \<Rightarrow> bool \<Rightarrow> 'f Gossipsub \<Rightarrow> bool" where
  "calm E H started s \<longleftrightarrow>
     sane H (gs_config s) \<and> gs_swarm s = started \<and> cache_ready (gs_mcache s) \<and> score_ready (env_f E) H started (gs_peer_score s)
     \<and> (\<forall>(topic, time) \<in> set (gs_fanout_last_pub s). time \<le> H) \<and> backoffs_ready (gs_config s) (gs_backoffs s)"

lemma calm_frame [simp]:
  "calm E H st (s\<lparr>gs_control_pool := a\<rparr>) = calm E H st s" "calm E H st (s\<lparr>gs_connected_peer := b\<rparr>) = calm E H st s"
  "calm E H st (s\<lparr>gs_draws := n\<rparr>) = calm E H st s" "calm E H st (s\<lparr>gs_peer_topics := d\<rparr>) = calm E H st s"
  "calm E H st (s\<lparr>gs_peer_protocols := e\<rparr>) = calm E H st s" "calm E H st (s\<lparr>gs_dials := g\<rparr>) = calm E H st s"
  "calm E H st (s\<lparr>gs_streams := g\<rparr>) = calm E H st s" "calm E H st (s\<lparr>gs_px_peers := i\<rparr>) = calm E H st s"
  "calm E H st (s\<lparr>gs_explicit_peers := i\<rparr>) = calm E H st s" "calm E H st (s\<lparr>gs_heartbeat_ticks := n\<rparr>) = calm E H st s"
  "calm E H st (s\<lparr>gs_count_sent_iwant := k\<rparr>) = calm E H st s" "calm E H st (s\<lparr>gs_count_received_ihave := k\<rparr>) = calm E H st s"
  "calm E H st (s\<lparr>gs_published_message_ids := l\<rparr>) = calm E H st s" "calm E H st (s\<lparr>gs_fast_message_id_cache := m\<rparr>) = calm E H st s"
  "calm E H st (s\<lparr>gs_my_topics := o'\<rparr>) = calm E H st s" "calm E H st (s\<lparr>gs_channels := n\<rparr>) = calm E H st s"
  "calm E H st (s\<lparr>gs_blacklisted_peers := i\<rparr>) = calm E H st s" "calm E H st (s\<lparr>gs_mesh := p\<rparr>) = calm E H st s"
  "calm E H st (s\<lparr>gs_fanout := p\<rparr>) = calm E H st s" "calm E H st (s\<lparr>gs_topic_peers := p\<rparr>) = calm E H st s"
  "calm E H st (s\<lparr>gs_outbound_peers := i\<rparr>) = calm E H st s" "calm E H st (s\<lparr>gs_duplicate_cache := q\<rparr>) = calm E H st s"
  "calm E H st (s\<lparr>gs_delivered := r\<rparr>) = calm E H st s"
  by (simp_all add: calm_def)





lemma fits_mono: "instant_fits H d \<Longrightarrow> now \<le> H \<Longrightarrow> e \<le> d \<Longrightarrow> instant_fits now e"
  by (simp add: instant_fits_def)


section \<open>Scores, caches, backoffs\<close>






lemma pz_params_penalty [simp]: "pz_params (add_penalty F peer n ps) = pz_params ps"
  by (simp add: add_penalty_def)

lemma calm_on_promises [simp]: "calm E H st (on_promises f s) = calm E H st s"
  by (auto simp: on_promises_def calm_def score_ready_def split: option.splits)

lemma calm_send_message: "Gossipsub.send_message E' peer rpc s = Inr s' \<Longrightarrow> calm E H st s' = calm E H st s"
  by (auto simp: Gossipsub.send_message_def and_then_Inr_iff)

lemma calm_try_send [simp]: "calm E H st (try_send E' peer rpc s) = calm E H st s"
  by (simp add: try_send_def calm_send_message split: sum.splits)


lemma calm_fold: "(\<And>x s. calm E H st (f x s) = calm E H st s) \<Longrightarrow> calm E H st (fold f xs s) = calm E H st s"
  by (induction xs arbitrary: s) simp_all

lemma calm_control_pool_add [simp]: "calm E H st (control_pool_add peer c s) = calm E H st s"
  by (simp add: control_pool_add_def)

lemma calm_flush [simp]: "calm E H st (flush_control_pool E' s) = calm E H st s"
  unfolding flush_control_pool_def by (subst calm_fold) auto









section \<open>Topics\<close>









section \<open>Messages\<close>










lemma calm_notify [simp]: "calm E H st (Gossipsub.notify_subs message s) = calm E H st s"
  by (simp add: Gossipsub.notify_subs_def split: option.splits)





section \<open>Connections, gossip, grafts and prunes\<close>























section \<open>The heartbeat\<close>







lemma calm_emit_to_peer [simp]: "calm E H st (emit_to_peer E' topic ids peer s) = calm E H st s"
  by (simp add: emit_to_peer_def Let_def case_prod_unfold)






section \<open>The main loop\<close>













end
