(* ===== verification/Gossip_Hop.thy ===== *)
theory Gossip_Hop
  imports Gossip_Safe
begin

text \<open>
  One hop of a message between two routers: what \<open>publish\<close> of one router queues for the stream of a peer, what the handler of
  that peer makes of it, and what the router of the peer does with it. It joins the routers, the wire protocol and
  the validation of messages.
\<close>

section \<open>What is queued for a peer\<close>

lemma send_all_queue:
  assumes "fragment_message (env_prost E) (env_f E) (gc_max_transmit_size (gs_config s)) (into_protobuf rpc) = Inr [w]" "distinct peers"
    and "hm_get (gs_connected_peer s) b = Some q"
  shows "hm_get (gs_connected_peer (snd (send_all E peers rpc s))) b = Some (if b \<in> set peers then q @ [w] else q)"
  using assms
proof (induction peers arbitrary: s q)
  case (Cons p peers)
  let ?s = "s\<lparr>gs_connected_peer := hm_modify p (\<lambda>queue. queue @ [w]) (gs_connected_peer s)\<rparr>"
  have "Gossipsub.send_message E p rpc s = Inr ?s" using Cons.prems(1) by (simp add: Gossipsub.send_message_def)
  moreover have "hm_get (gs_connected_peer (snd (send_all E peers rpc ?s))) b
      = Some (if b \<in> set peers then (if b = p then q @ [w] else q) @ [w] else if b = p then q @ [w] else q)"
    using Cons.IH [of ?s "if b = p then q @ [w] else q"] Cons.prems by (auto simp: hm_get_modify)
  ultimately show ?case using Cons.prems(2) by auto
qed simp

lemma record_published_frame:
  assumes "record_published now mid raw s = Some t"
  shows "gs_connected_peer t = gs_connected_peer s \<and> gs_config t = gs_config s"
proof -
  obtain m where "mcache_put mid raw (gs_mcache s) = Some m" and m: "(\<lambda>(_, mcache). let s = s\<lparr>gs_duplicate_cache := snd (dup_insert now mid (gs_duplicate_cache s)), gs_mcache := mcache\<rparr>
      in Some (if (case gs_publish_config s of PcRandomAuthor \<Rightarrow> True | PcAnonymous \<Rightarrow> True | _ \<Rightarrow> False) \<and> \<not> gc_allow_self_origin (gs_config s)
           then s\<lparr>gs_published_message_ids := snd (dup_insert now mid (gs_published_message_ids s))\<rparr> else s)) m = Some t"
    using assms unfolding record_published_def by (rule bind_SomeE)
  from m [unfolded case_prod_unfold Let_def option.inject] show ?thesis by (rule subst) simp
qed

text \<open>What a successful \<open>publish\<close> queues for a peer of the topic.\<close>

lemma publish_queued:
  assumes "gs_publish E now seqno rp topic data s = Some (Inr mid, s')" "gc_flood_publish (gs_config s)"
    and "env_outbound E = identity_outbound" "build_raw_message (env_crypto E) (gs_publish_config s) seqno rp topic data = Inr raw"
    and "len_rpc (env_prost E) (into_protobuf (rpc_of_messages [raw])) < gc_max_transmit_size (gs_config s)"
    and "b \<in> set (hm_get_or [] (gs_topic_peers s) topic)" "known_ok (gs_topic_peers s)" "\<not> score_below_threshold E s b publish_threshold"
    and "hm_get (gs_connected_peer s) b = Some q" "gm_topic raw = topic"
  shows "hm_get (gs_connected_peer s') b = Some (q @ [into_protobuf (rpc_of_messages [raw])])"
proof -
  let ?w = "into_protobuf (rpc_of_messages [raw])"
  obtain peers where peers: "hm_get (gs_topic_peers s) topic = Some peers" "b \<in> set peers" "distinct peers"
    using assms(6,7) unfolding known_ok_def by (cases "hm_get (gs_topic_peers s) topic") (auto simp: hm_get_or_def dest: spec [of _ topic])
  define rs where "rs = filter (\<lambda>p. p \<in> set (gs_explicit_peers s) \<or> \<not> score_below_threshold E s p publish_threshold) peers"
  have rs: "publish_recipients E now topic s = (rs, s)" "distinct rs" "b \<in> set rs"
    using assms(2,8) peers by (simp_all add: publish_recipients_def Let_def rs_def)
  obtain mid' where "publish_checked E now mid' raw s = Some (Inr mid, s')"
    using assms(1,3,4) by (auto simp: gs_publish_def identity_outbound_def Let_def split: if_splits)
  then obtain t where t: "record_published now mid' raw s = Some t"
      "(case send_all E rs (rpc_of_messages [raw]) t of (Some e, s) \<Rightarrow> Some (Inl e, s) | (None, s) \<Rightarrow> Some (Inr mid', s)) = Some (Inr mid, s')"
    using assms(2,10) rs by (auto simp: publish_checked_def Option.bind_eq_Some_conv split: if_splits)
  have s': "s' = snd (send_all E rs (rpc_of_messages [raw]) t)" using t(2) by (auto split: prod.splits option.splits)
  have "gs_connected_peer t = gs_connected_peer s" "gs_config t = gs_config s"
    using record_published_frame [OF t(1)] by blast+
  moreover have "fragment_message (env_prost E) (env_f E) (gc_max_transmit_size (gs_config s)) ?w = Inr [?w]"
    using assms(5) by (simp add: fragment_message_def)
  ultimately show ?thesis unfolding s' using send_all_queue [of E t "rpc_of_messages [raw]" ?w rs b q] rs(2,3) assms(9) by simp
qed


section \<open>What a router does with a received message\<close>

lemma received_delivered:
  assumes "handle_message_event E now (rpc_of_messages [raw]) src [] s = Some s'" "gs_wf now s"
    and "\<not> score_below_threshold E s src graylist_threshold" "gc_max_messages_per_rpc (gs_config s) \<noteq> Some 0"
    and "gc_fast_message_id_fn (gs_config s) = None" "env_inbound E = identity_inbound"
    and "src \<notin> set (gs_blacklisted_peers s)" "\<And>author. gm_source raw = Some author \<Longrightarrow> author \<notin> set (gs_blacklisted_peers s)"
    and "get_own_id (gs_publish_config s) = Some own" "gm_source raw \<noteq> Some own"
    and "msg = \<lparr>msg_source = gm_source raw, msg_data = gm_data raw, msg_sequence_number = gm_sequence_number raw, msg_topic = gm_topic raw\<rparr>"
    and "\<not> cache_seen now (gs_duplicate_cache s) (gc_message_id_fn (gs_config s) msg)"
    and "hm_get (gs_my_topics s) (gm_topic raw) = Some channel"
  shows "gs_delivered s' = gs_delivered s @ [(channel, msg)]"
proof -
  let ?mid = "gc_message_id_fn (gs_config s) msg"
  have ms: "(case gc_max_messages_per_rpc (gs_config s) of None \<Rightarrow> rpc_messages (rpc_of_messages [raw])
      | Some n \<Rightarrow> take n (rpc_messages (rpc_of_messages [raw]))) = [raw]"
    using assms(4) by (cases "gc_max_messages_per_rpc (gs_config s)") (auto simp: take_Cons')
  have r: "handle_received_message E now raw src s = Some s'"
    using assms(1,3) ms by (auto simp: handle_message_event_def handle_controls_def List.map_filter_simps Option.bind_eq_Some_conv)
  define raw' where "raw' = (if gc_validate_messages (gs_config s) then raw else raw\<lparr>gm_validated := True\<rparr>)"
  have valid: "message_is_valid E now ?mid raw src s = Some (True, raw', s)"
    using assms(7-10) by (auto simp: message_is_valid_def Let_def self_published_def raw'_def split: option.splits)
  have inv: "cache_inv now (gs_duplicate_cache s) \<and> tc_ttl (gs_duplicate_cache s) = gc_duplicate_cache_time (gs_config s)"
    using assms(2) by (simp add: gs_wf_def)
  obtain c where c: "dup_insert now ?mid (gs_duplicate_cache s) = (True, c)"
    using dup.ins_new [OF inv order_refl, of ?mid] assms(12) by (metis prod.collapse)
  have "accept_message E now ?mid msg raw' src (s\<lparr>gs_duplicate_cache := c\<rparr>) = Some s'"
    using r valid c assms(5,6,11)
    by (simp add: handle_received_message_def handle_new_message_def fast_message_id_def identity_inbound_def Let_def)
  from core_accept_message [OF this] have "gs_delivered s' = gs_delivered (Gossipsub.notify_subs msg (s\<lparr>gs_duplicate_cache := c\<rparr>))"
    by (simp add: core_def)
  then show ?thesis using assms(11,13) by (simp add: Gossipsub.notify_subs_def)
qed


section \<open>One hop\<close>

lemma build_raw_message_fields:
  "build_raw_message C pc seqno rp topic data = Inr raw \<Longrightarrow> gm_topic raw = topic \<and> gm_data raw = data"
  by (auto simp: build_raw_message_def Let_def split: PublishConfig.splits sum.splits)

lemma receive_published_rpc:
  assumes "crypto_ok C" "authenticity_ok C rp authenticity" "validate_config authenticity mode = Inr ()" "mode \<noteq> NoValidation"
    and "build_raw_message C (PublishConfig_from C authenticity) seqno rp topic data = Inr raw"
  shows "receive_rpc C mode (into_protobuf (rpc_of_messages [raw])) = (rpc_of_messages [raw\<lparr>gm_validated := False\<rparr>], [])"
  using published_accepted [OF assms(1-3,5)] assms(4) by (simp add: receive_rpc_def into_protobuf_def List.map_filter_simps)

text \<open>
  The conditions on the two routers. The publisher floods its own messages to the peers of a topic, of which \<open>b\<close> is one that is connected,
  with \<open>q\<close> queued for it, and not of low score. The receiver has a subscription to the topic and an identity of its own, does not
  ignore the sender \<open>a\<close> or the author of the message, and has not seen the message.
\<close>

definition hop_sender :: "'f Env \<Rightarrow> MessageAuthenticity \<Rightarrow> TopicHash \<Rightarrow> PeerId \<Rightarrow> WireRpc list \<Rightarrow> 'f Gossipsub \<Rightarrow> bool" where
  "hop_sender E authenticity topic b q s \<longleftrightarrow>
     rng_ok (env_rng E) \<and> env_outbound E = identity_outbound \<and> gs_publish_config s = PublishConfig_from (env_crypto E) authenticity
     \<and> gc_flood_publish (gs_config s) \<and> b \<in> set (hm_get_or [] (gs_topic_peers s) topic)
     \<and> \<not> score_below_threshold E s b publish_threshold \<and> hm_get (gs_connected_peer s) b = Some q"

definition hop_receiver :: "'f Env \<Rightarrow> Instant \<Rightarrow> PeerId \<Rightarrow> GossipsubMessage \<Rightarrow> nat \<Rightarrow> 'f Gossipsub \<Rightarrow> bool" where
  "hop_receiver E now a msg channel s \<longleftrightarrow>
     rng_ok (env_rng E) \<and> env_inbound E = identity_inbound \<and> gc_fast_message_id_fn (gs_config s) = None
     \<and> gc_max_messages_per_rpc (gs_config s) \<noteq> Some 0 \<and> \<not> score_below_threshold E s a graylist_threshold
     \<and> a \<notin> set (gs_blacklisted_peers s) \<and> (\<forall>author. msg_source msg = Some author \<longrightarrow> author \<notin> set (gs_blacklisted_peers s))
     \<and> (\<exists>own. get_own_id (gs_publish_config s) = Some own \<and> msg_source msg \<noteq> Some own)
     \<and> hm_get (gs_my_topics s) (msg_topic msg) = Some channel
     \<and> \<not> cache_seen now (gs_duplicate_cache s) (gc_message_id_fn (gs_config s) msg)"

text \<open>
  C13: a message that a router publishes reaches the local subscription of a connected peer of the topic in one hop: what is queued for the peer is
  decoded by the handler of the peer and accepted by the validation, and the router of the peer delivers it to the
  subscription with the same data, topic, source and sequence number. Both routers may be in any state they can reach
  that meets the conditions above; they use the same cryptography, and the validation mode of the peer allows what the
  publisher does.\<close>

theorem published_message_delivered:
  assumes "gs_reach EA tA sA" "hop_sender EA authenticity topic b q sA"
    and "gs_publish EA now seqno rp topic data sA = Some (Inr mid, sA')"
    and "build_raw_message (env_crypto EA) (gs_publish_config sA) seqno rp topic data = Inr raw" "w = into_protobuf (rpc_of_messages [raw])"
    and "len_rpc (env_prost EA) w < gc_max_transmit_size (gs_config sA)"
    and "crypto_ok (env_crypto EA)" "authenticity_ok (env_crypto EA) rp authenticity" "validate_config authenticity mode = Inr ()"
    and "mode \<noteq> NoValidation" "receive_rpc (env_crypto EA) mode w = (rpc, invalid)"
    and "msg = \<lparr>msg_source = gm_source raw, msg_data = data, msg_sequence_number = gm_sequence_number raw, msg_topic = topic\<rparr>"
    and "gs_reach EB tB sB" "tB \<le> now'" "hop_receiver EB now' a msg channel sB"
    and "loop_step EB now' (OnEvent (HandlerMessage a rpc invalid)) sB = Some sB'"
  shows "hm_get (gs_connected_peer sA') b = Some (q @ [w]) \<and> gs_delivered sB' = gs_delivered sB @ [(channel, msg)]"
proof
  note A = assms(2) [unfolded hop_sender_def] and B = assms(15) [unfolded hop_receiver_def]
  have raw: "gm_topic raw = topic" "gm_data raw = data" using build_raw_message_fields [OF assms(4)] by simp_all
  have wfA: "known_ok (gs_topic_peers sA)" using gs_reach_wf [OF assms(1)] A by (simp add: gs_wf_def)
  show "hm_get (gs_connected_peer sA') b = Some (q @ [w])" unfolding assms(5)
    by (rule publish_queued [OF assms(3) _ _ assms(4) _ _ wfA _ _ raw(1)]) (use A assms(5,6) in simp_all)
  have r: "rpc = rpc_of_messages [raw\<lparr>gm_validated := False\<rparr>]" "invalid = []"
    using receive_published_rpc [OF assms(7-10), of seqno topic data raw] A assms(4,5,11) by simp_all
  have wfB: "gs_wf now' sB" using gs_wf_later [OF gs_reach_wf [OF assms(13)] assms(14)] B by simp
  obtain own where own: "get_own_id (gs_publish_config sB) = Some own" "gm_source raw \<noteq> Some own" using B assms(12) by auto
  show "gs_delivered sB' = gs_delivered sB @ [(channel, msg)]"
  proof (rule received_delivered [OF _ wfB _ _ _ _ _ _ own(1)])
    show "handle_message_event EB now' (rpc_of_messages [raw\<lparr>gm_validated := False\<rparr>]) a [] sB = Some sB'" using assms(16) r by simp
  qed (use B own(2) assms(12) raw in simp_all)
qed

text \<open>A second router, whose messages carry its identity, with a subscription.\<close>

definition sample_receiver_new :: "rat Gossipsub" where
  "sample_receiver_new = projr (Gossipsub_new sample_env (Author (PeerId [0, 1, 8])) sample_config AllowAll)"

definition sample_receiver :: "rat Gossipsub" where
  "sample_receiver = the (process_loop sample_env [(1, OnCommand (CmdSubscribe ''t''))] (gs_start sample_receiver_new))"

lemma sample_receiver_eval:
  "process_loop sample_env [(1, OnCommand (CmdSubscribe ''t''))] (gs_start sample_receiver_new) = Some sample_receiver"
  "Option.is_none (gc_fast_message_id_fn (gs_config sample_receiver))" "gc_max_messages_per_rpc (gs_config sample_receiver) = None"
  "Option.is_none (gs_peer_score sample_receiver)" "gs_blacklisted_peers sample_receiver = []"
  "get_own_id (gs_publish_config sample_receiver) = Some (PeerId [0, 1, 8])" "hm_get (gs_my_topics sample_receiver) ''t'' = Some 0"
  "tc_map (gs_duplicate_cache sample_receiver) = []"
proof -
  have "map_option (\<lambda>s. (Option.is_none (gc_fast_message_id_fn (gs_config s)), gc_max_messages_per_rpc (gs_config s),
      Option.is_none (gs_peer_score s), gs_blacklisted_peers s, get_own_id (gs_publish_config s), hm_get (gs_my_topics s) ''t'',
      tc_map (gs_duplicate_cache s)))
    (process_loop sample_env [(1, OnCommand (CmdSubscribe ''t''))] (gs_start sample_receiver_new))
    = Some (True, None, True, [], Some (PeerId [0, 1, 8]), Some 0, [])"
    by code_simp
  then show "process_loop sample_env [(1, OnCommand (CmdSubscribe ''t''))] (gs_start sample_receiver_new) = Some sample_receiver"
    "Option.is_none (gc_fast_message_id_fn (gs_config sample_receiver))" "gc_max_messages_per_rpc (gs_config sample_receiver) = None"
    "Option.is_none (gs_peer_score sample_receiver)" "gs_blacklisted_peers sample_receiver = []"
    "get_own_id (gs_publish_config sample_receiver) = Some (PeerId [0, 1, 8])" "hm_get (gs_my_topics sample_receiver) ''t'' = Some 0"
    "tc_map (gs_duplicate_cache sample_receiver) = []"
    by (auto simp: sample_receiver_def)
qed

lemma sample_receiver_reach: "gs_reach sample_env 1 sample_receiver"
proof -
  obtain s where s: "Gossipsub_new sample_env (Author (PeerId [0, 1, 8])) sample_config AllowAll = Inr s"
    by (simp add: Gossipsub_new_def sample_config_def validate_config_def)
  have "gs_setup sample_env 0 s" by (rule gs_setup.new [OF _ s, of sample_config]) (simp add: config_build_ok sample_config_valid)
  then have "gs_reach sample_env 0 (gs_start sample_receiver_new)"
    unfolding sample_receiver_new_def s sum.sel by (rule gs_reach.start) simp
  from gs_reach_run [OF this sample_receiver_eval(1)] show ?thesis by simp
qed

abbreviation sample_hop :: RawGossipsubMessage where
  "sample_hop \<equiv> \<lparr>gm_source = Some (PeerId [0, 1, 3]), gm_data = [5], gm_sequence_number = Some 7, gm_topic = ''t'', gm_signature = None,
     gm_key = None, gm_validated = True\<rparr>"

abbreviation sample_hop_msg :: GossipsubMessage where
  "sample_hop_msg \<equiv> \<lparr>msg_source = Some (PeerId [0, 1, 3]), msg_data = [5], msg_sequence_number = Some 7, msg_topic = ''t''\<rparr>"

lemma sample_sender:
  obtains q where "hop_sender sample_env RandomAuthor ''t'' (PeerId [1]) q sample_state"
    "gc_max_transmit_size (gs_config sample_state) = 65535"
proof -
  have "ok (\<lambda>s. (case gs_publish_config s of PcRandomAuthor \<Rightarrow> True | _ \<Rightarrow> False) \<and> gc_flood_publish (gs_config s)
      \<and> PeerId [1] \<in> set (hm_get_or [] (gs_topic_peers s) ''t'') \<and> \<not> Option.is_none (hm_get (gs_connected_peer s) (PeerId [1]))
      \<and> gc_max_transmit_size (gs_config s) = 65535)
    (process_loop sample_env sample_run sample_router)"
    by code_simp
  then have v: "case gs_publish_config sample_state of PcRandomAuthor \<Rightarrow> True | _ \<Rightarrow> False" "gc_flood_publish (gs_config sample_state)"
      "PeerId [1] \<in> set (hm_get_or [] (gs_topic_peers sample_state) ''t'')" "hm_get (gs_connected_peer sample_state) (PeerId [1]) \<noteq> None"
      "gc_max_transmit_size (gs_config sample_state) = 65535"
    by (auto simp: ok_iff sample_state_def Option.is_none_def)
  obtain q where "hm_get (gs_connected_peer sample_state) (PeerId [1]) = Some q" using v(4) by blast
  moreover have "gs_publish_config sample_state = PublishConfig_from (env_crypto sample_env) RandomAuthor"
    using v(1) by (simp split: PublishConfig.splits)
  ultimately have "hop_sender sample_env RandomAuthor ''t'' (PeerId [1]) q sample_state"
    using v(2,3) by (simp add: hop_sender_def sample_state_values score_below_threshold_def) (simp add: sample_env_def)
  then show thesis using that v(5) by blast
qed

lemma sample_receiver_ok: "hop_receiver sample_env 9 (PeerId [2]) sample_hop_msg 0 sample_receiver"
  using sample_receiver_eval
  by (simp add: hop_receiver_def cache_seen_def score_below_threshold_def Option.is_none_def) (simp add: sample_env_def)

theorem published_message_delivered_witness:
  "\<exists>q sA' sB'. gs_publish sample_env 9 7 (PeerId [0, 1, 3]) ''t'' [5] sample_state = Some (Inr [5], sA')
     \<and> loop_step sample_env 9 (OnEvent (HandlerMessage (PeerId [2]) (rpc_of_messages [sample_hop\<lparr>gm_validated := False\<rparr>]) [])) sample_receiver = Some sB'
     \<and> hm_get (gs_connected_peer sA') (PeerId [1]) = Some (q @ [into_protobuf (rpc_of_messages [sample_hop])])
     \<and> gs_delivered sB' = gs_delivered sample_receiver @ [(0, sample_hop_msg)]"
proof -
  let ?w = "into_protobuf (rpc_of_messages [sample_hop])"
  obtain q where q: "hop_sender sample_env RandomAuthor ''t'' (PeerId [1]) q sample_state"
    and limit: "gc_max_transmit_size (gs_config sample_state) = 65535" by (rule sample_sender)
  have "map_option fst (gs_publish sample_env 9 7 (PeerId [0, 1, 3]) ''t'' [5] sample_state) = Some (Inr [5])" by code_simp
  then obtain sA' where A: "gs_publish sample_env 9 7 (PeerId [0, 1, 3]) ''t'' [5] sample_state = Some (Inr [5], sA')" by auto
  have "loop_step sample_env 9 (OnEvent (HandlerMessage (PeerId [2]) (rpc_of_messages [sample_hop\<lparr>gm_validated := False\<rparr>]) [])) sample_receiver \<noteq> None"
    by code_simp
  then obtain sB' where B: "loop_step sample_env 9 (OnEvent (HandlerMessage (PeerId [2]) (rpc_of_messages [sample_hop\<lparr>gm_validated := False\<rparr>]) []))
      sample_receiver = Some sB'" by auto
  have C: "env_crypto sample_env = sample_crypto" by (simp add: sample_env_def)
  have raw: "build_raw_message (env_crypto sample_env) (PublishConfig_from (env_crypto sample_env) RandomAuthor) 7 (PeerId [0, 1, 3]) ''t'' [5] = Inr sample_hop"
    by (simp add: build_raw_message_def)
  have pc: "gs_publish_config sample_state = PublishConfig_from (env_crypto sample_env) RandomAuthor" using q by (simp add: hop_sender_def)
  have auth: "authenticity_ok (env_crypto sample_env) (PeerId [0, 1, 3]) RandomAuthor" unfolding C authenticity_ok.simps by code_simp
  have valid: "validate_config RandomAuthor Permissive = Inr ()" by (simp add: validate_config_def)
  have crypto: "crypto_ok (env_crypto sample_env)" unfolding C by (rule sample_crypto_ok)
  have rpc: "receive_rpc (env_crypto sample_env) Permissive ?w = (rpc_of_messages [sample_hop\<lparr>gm_validated := False\<rparr>], [])"
    by (rule receive_published_rpc [OF crypto auth valid _ raw]) simp
  have len: "len_rpc (env_prost sample_env) ?w < gc_max_transmit_size (gs_config sample_state)" unfolding limit by code_simp
  have "hm_get (gs_connected_peer sA') (PeerId [1]) = Some (q @ [?w]) \<and> gs_delivered sB' = gs_delivered sample_receiver @ [(0, sample_hop_msg)]"
    by (rule published_message_delivered [OF sample_state_reach q A raw [folded pc] refl len crypto auth valid _ rpc _ sample_receiver_reach _
          sample_receiver_ok B]) simp_all
  with A B show ?thesis by blast
qed

end
