(* ===== verification/Spec2Isabelle.thy ===== *)
theory Spec2Isabelle
  imports Kad_System Multistream Multi_Addr Floodsub Gossip_Hop "HOL-Library.Countable"
begin

text \<open>
  A verification library for libp2p-rs. The development starts from the Kademlia DHT
  (\<open>protocols/kad\<close>) and the parts of \<open>core\<close> it stands on, and extends to the other protocols.

  Theories, in the order of their dependencies:
  \<^item> \<open>Prelude\<close>: machine types, vectors, hash maps and B-tree maps of the Rust standard library.
  \<^item> \<open>Peer_Id\<close>: \<open>core/src/peer_id.rs\<close>.
  \<^item> \<open>Xor_Metric\<close>, \<open>KBucket\<close>, \<open>Closest_Iter\<close>: the key space, the buckets and the routing table with
    its iterators (\<open>protocols/kad/src/kbucket/*.rs\<close>, \<open>kbucket.rs\<close>).
  \<^item> \<open>Kad_Types\<close>, \<open>Record_Store\<close>: records, errors and the record store.
\<close>

section \<open>Storing and finding a value through a remote node\<close>

















end
